(* ===== verification/Prelude.thy ===== *)
theory Prelude
  imports Main "HOL-Library.AList" "HOL-Library.Multiset" "HOL-Library.Sublist"
begin

text \<open>
  What the component theories share: the exceptions of the Python runtime as
  values, results as sums, the indexing and slicing rules of Python sequences,
  insertion-ordered dictionaries over association lists, and the generic
  lemmas and collections that the component proofs use.
\<close>

named_theorems py_simps
named_theorems dict_simps

section \<open>Exceptions and results\<close>

datatype py_error =
    IndexError | KeyError | ValueError | ZeroDivisionError | UnboundLocalError
  | AssertionError | TypeError | NameError | AttributeError | OSError
  | PyException string

type_synonym 'a py_result = "py_error + 'a"

primrec rbind :: "'e + 'a \<Rightarrow> ('a \<Rightarrow> 'e + 'b) \<Rightarrow> 'e + 'b" where
  "rbind (Inl e) f = Inl e"
| "rbind (Inr x) f = f x"

lemma rbind_Inr_iff [py_simps]:
  "rbind m f = Inr y \<longleftrightarrow> (\<exists>x. m = Inr x \<and> f x = Inr y)"
  by (cases m) auto

lemma rbind_Inl_iff [py_simps]:
  "rbind m f = Inl e \<longleftrightarrow> m = Inl e \<or> (\<exists>x. m = Inr x \<and> f x = Inl e)"
  by (cases m) auto

primrec is_ok :: "'e + 'a \<Rightarrow> bool" where
  "is_ok (Inl e) = False"
| "is_ok (Inr x) = True"

lemma is_ok_iff [py_simps]: "is_ok r \<longleftrightarrow> (\<exists>x. r = Inr x)"
  by (cases r) auto

text \<open>A comprehension or a \<open>for\<close> loop whose body may raise.\<close>

fun foldM :: "('s \<Rightarrow> 'a \<Rightarrow> 'e + 's) \<Rightarrow> 's \<Rightarrow> 'a list \<Rightarrow> 'e + 's" where
  "foldM f s [] = Inr s"
| "foldM f s (x # xs) = rbind (f s x) (\<lambda>s'. foldM f s' xs)"

fun map_res :: "('a \<Rightarrow> 'e + 'b) \<Rightarrow> 'a list \<Rightarrow> 'e + 'b list" where
  "map_res f [] = Inr []"
| "map_res f (x # xs) = rbind (f x) (\<lambda>y. rbind (map_res f xs) (\<lambda>ys. Inr (y # ys)))"

lemma map_res_Inr [py_simps]:
  assumes "\<And>x. x \<in> set xs \<Longrightarrow> f x = Inr (g x)"
  shows "map_res f xs = Inr (List.map g xs)"
  using assms by (induction xs) auto

lemma foldM_append:
  "foldM f s (xs @ ys) = rbind (foldM f s xs) (\<lambda>s'. foldM f s' ys)"
proof (induction xs arbitrary: s)
  case Nil
  then show ?case by simp
next
  case (Cons x xs)
  then show ?case by (cases "f s x") auto
qed

lemma foldM_invariant:
  assumes "foldM f s xs = Inr s'" "P s"
    and "\<And>s x s'. x \<in> set xs \<Longrightarrow> P s \<Longrightarrow> f s x = Inr s' \<Longrightarrow> P s'"
  shows "P s'"
  using assms
proof (induction xs arbitrary: s)
  case Nil
  then show ?case by simp
next
  case (Cons x xs)
  then obtain t where "f s x = Inr t" "foldM f t xs = Inr s'"
    by (auto simp: py_simps)
  with Cons show ?case by (meson list.set_intros)
qed

text \<open>
  Statements over a state that survives an exception: the state reached is
  returned with the value or the exception.
\<close>

type_synonym ('s, 'a) action = "'s \<Rightarrow> 's \<times> (py_error + 'a)"

definition sret :: "'a \<Rightarrow> ('s, 'a) action" where
  "sret x s = (s, Inr x)"

definition sraise :: "py_error \<Rightarrow> ('s, 'a) action" where
  "sraise e s = (s, Inl e)"

definition sbind :: "('s, 'a) action \<Rightarrow> ('a \<Rightarrow> ('s, 'b) action) \<Rightarrow> ('s, 'b) action" where
  "sbind m f s = (case m s of (s', Inl e) \<Rightarrow> (s', Inl e) | (s', Inr x) \<Rightarrow> f x s')"

definition supdate :: "('s \<Rightarrow> 's) \<Rightarrow> ('s, unit) action" where
  "supdate f s = (f s, Inr ())"

named_theorems action_simps

declare sret_def [action_simps] sraise_def [action_simps] supdate_def [action_simps]

lemma sbind_cases:
  "sbind m f s = (s', r) \<Longrightarrow>
     (\<exists>e. m s = (s', Inl e) \<and> r = Inl e) \<or> (\<exists>t x. m s = (t, Inr x) \<and> f x t = (s', r))"
  by (auto simp: sbind_def split: prod.splits sum.splits)

lemma sbind_sret [action_simps]: "sbind (sret x) f = f x"
  by (simp add: fun_eq_iff sbind_def sret_def)

lemma sbind_sraise [action_simps]: "sbind (sraise e) f = sraise e"
  by (simp add: fun_eq_iff sbind_def sraise_def)

lemma sbind_supdate [action_simps]: "sbind (supdate g) f s = f () (g s)"
  by (simp add: sbind_def supdate_def)

section \<open>Indexing and slicing\<close>

text \<open>
  \<open>xs[i]\<close> counts from the end for a negative index and raises outside the
  range; \<open>xs[i:j]\<close> clips its bounds and never raises.
\<close>

definition py_clip :: "nat \<Rightarrow> int \<Rightarrow> nat" where
  "py_clip n i = (if i < 0 then nat (i + int n) else min (nat i) n)"

definition py_slice :: "'a list \<Rightarrow> int \<Rightarrow> int \<Rightarrow> 'a list" where
  "py_slice xs i j =
     (let a = py_clip (length xs) i; b = py_clip (length xs) j
      in take (b - a) (drop a xs))"

definition py_slice_to :: "'a list \<Rightarrow> int \<Rightarrow> 'a list" where
  "py_slice_to xs j = take (py_clip (length xs) j) xs"

definition py_slice_from :: "'a list \<Rightarrow> int \<Rightarrow> 'a list" where
  "py_slice_from xs i = drop (py_clip (length xs) i) xs"

definition py_index :: "'a list \<Rightarrow> int \<Rightarrow> 'a py_result" where
  "py_index xs i =
     (let k = (if i < 0 then i + int (length xs) else i)
      in if 0 \<le> k \<and> k < int (length xs) then Inr (xs ! nat k) else Inl IndexError)"

lemma py_clip_le [simp]: "py_clip n (int k) = min k n"
  by (simp add: py_clip_def)

lemma py_clip_neg: "0 < k \<Longrightarrow> py_clip n (- int k) = n - k"
  by (simp add: py_clip_def)

lemma py_slice_to_nat [py_simps]: "py_slice_to xs (int k) = take k xs"
  by (simp add: py_slice_to_def min_def)

lemma py_slice_from_nat [py_simps]: "py_slice_from xs (int k) = drop k xs"
  by (simp add: py_slice_from_def min_def)

lemma py_slice_nat [py_simps]: "py_slice xs (int a) (int b) = take (b - a) (drop a xs)"
  by (auto simp: py_slice_def Let_def min_def)

lemma py_slice_to_neg [py_simps]:
  "0 < k \<Longrightarrow> py_slice_to xs (- int k) = take (length xs - k) xs"
  by (simp add: py_slice_to_def py_clip_neg)

lemma py_slice_from_neg [py_simps]:
  "0 < k \<Longrightarrow> py_slice_from xs (- int k) = drop (length xs - k) xs"
  by (simp add: py_slice_from_def py_clip_neg)

lemma py_slice_split [py_simps]: "py_slice_to xs i @ py_slice_from xs i = xs"
  by (simp add: py_slice_to_def py_slice_from_def)

lemma py_index_nat [py_simps]: "k < length xs \<Longrightarrow> py_index xs (int k) = Inr (xs ! k)"
  by (simp add: py_index_def)

lemma py_index_neg [py_simps]:
  "0 < k \<Longrightarrow> k \<le> length xs \<Longrightarrow> py_index xs (- int k) = Inr (xs ! (length xs - k))"
  by (auto simp: py_index_def Let_def intro!: arg_cong [where f = "(!) xs"])

lemma py_index_first [py_simps]: "py_index (x # xs) 0 = Inr x"
  by (simp add: py_index_def)

lemma py_index_last [py_simps]: "xs \<noteq> [] \<Longrightarrow> py_index xs (-1) = Inr (last xs)"
  by (cases xs) (auto simp: py_index_def Let_def last_conv_nth nat_diff_distrib')

section \<open>Dictionaries\<close>

text \<open>
  A dictionary is an association list in insertion order: assignment replaces
  the value of a present key in place and appends an absent one, \<open>del\<close> removes
  the key.  The contract of the operations is the locale \<open>dict_ops\<close>.
\<close>

type_synonym ('k, 'v) dict = "('k \<times> 'v) list"

abbreviation dget :: "('k, 'v) dict \<Rightarrow> 'k \<Rightarrow> 'v option" where
  "dget d k \<equiv> map_of d k"

abbreviation dset :: "'k \<Rightarrow> 'v \<Rightarrow> ('k, 'v) dict \<Rightarrow> ('k, 'v) dict" where
  "dset k v d \<equiv> AList.update k v d"

abbreviation ddel :: "'k \<Rightarrow> ('k, 'v) dict \<Rightarrow> ('k, 'v) dict" where
  "ddel k d \<equiv> AList.delete k d"

abbreviation dkeys :: "('k, 'v) dict \<Rightarrow> 'k list" where
  "dkeys d \<equiv> List.map fst d"

abbreviation dhas :: "('k, 'v) dict \<Rightarrow> 'k \<Rightarrow> bool" where
  "dhas d k \<equiv> dget d k \<noteq> None"

abbreviation dict_wf :: "('k, 'v) dict \<Rightarrow> bool" where
  "dict_wf d \<equiv> distinct (dkeys d)"

declare map_of_eq_Some_iff [simp del] Some_eq_map_of_iff [simp del]

text \<open>Subscripting, which raises on an absent key, and \<open>d.get(k, default)\<close>.\<close>

definition dindex :: "('k, 'v) dict \<Rightarrow> 'k \<Rightarrow> 'v py_result" where
  "dindex d k = (case dget d k of None \<Rightarrow> Inl KeyError | Some v \<Rightarrow> Inr v)"

definition dget_default :: "('k, 'v) dict \<Rightarrow> 'k \<Rightarrow> 'v \<Rightarrow> 'v" where
  "dget_default d k v = (case dget d k of None \<Rightarrow> v | Some w \<Rightarrow> w)"

lemma mem_dkeys [dict_simps]: "k \<in> set (dkeys d) \<longleftrightarrow> dget d k \<noteq> None"
  by (simp add: map_of_eq_None_iff)

lemma dget_dset [dict_simps]: "dget (dset k v d) j = (if j = k then Some v else dget d j)"
  by (simp add: update_conv')

lemma dget_ddel [dict_simps]: "dget (ddel k d) j = (if j = k then None else dget d j)"
  by (simp add: delete_conv')

lemma dkeys_dset [dict_simps]: "set (dkeys (dset k v d)) = insert k (set (dkeys d))"
  using dom_update [of k v d] by (simp add: dom_map_of_conv_image_fst)

lemma dkeys_ddel [dict_simps]: "set (dkeys (ddel k d)) = set (dkeys d) - {k}"
  by (induction d) auto

lemma dict_wf_dset [simp]: "dict_wf d \<Longrightarrow> dict_wf (dset k v d)"
  by (rule distinct_update)

lemma dict_wf_ddel [simp]: "dict_wf d \<Longrightarrow> dict_wf (ddel k d)"
  by (rule distinct_delete)

lemma dkeys_dset_present: "dhas d k \<Longrightarrow> dkeys (dset k v d) = dkeys d"
  by (induction d) (auto split: if_splits)

lemma dset_absent: "\<not> dhas d k \<Longrightarrow> dset k v d = d @ [(k, v)]"
  by (induction d) (auto split: if_splits)

lemma dkeys_dset_cases: "dkeys (dset k v d) = (if dhas d k then dkeys d else dkeys d @ [k])"
  by (simp add: dkeys_dset_present dset_absent)

lemma length_dset_present: "dget d k = Some v' \<Longrightarrow> length (dset k v d) = length d"
  by (induction d) (auto split: if_splits)

lemma length_ddel_present: "dget d k = Some v \<Longrightarrow> length (ddel k d) < length d"
proof (induction d)
  case Nil
  then show ?case by simp
next
  case (Cons kv d)
  then show ?case
    using le_imp_less_Suc [OF length_delete_le [of k d]] by (cases kv) (auto split: if_splits)
qed

lemma dindex_Inr_iff [dict_simps]: "dindex d k = Inr v \<longleftrightarrow> dget d k = Some v"
  by (simp add: dindex_def split: option.splits)

text \<open>The contract of a mutable mapping, over its abstraction to a map.\<close>

locale dict_ops =
  fixes get :: "'d \<Rightarrow> 'k \<Rightarrow> 'v option"
    and put :: "'k \<Rightarrow> 'v \<Rightarrow> 'd \<Rightarrow> 'd"
    and del :: "'k \<Rightarrow> 'd \<Rightarrow> 'd"
    and keys :: "'d \<Rightarrow> 'k list"
    and wf :: "'d \<Rightarrow> bool"
  assumes get_put: "get (put k v d) = (get d)(k \<mapsto> v)"
    and get_del: "get (del k d) = (get d)(k := None)"
    and keys_get: "k \<in> set (keys d) \<longleftrightarrow> get d k \<noteq> None"
    and wf_put: "wf d \<Longrightarrow> wf (put k v d)"
    and wf_del: "wf d \<Longrightarrow> wf (del k d)"
    and wf_keys: "wf d \<Longrightarrow> distinct (keys d)"
begin

lemma put_put: "get (put k w (put k v d)) = get (put k w d)"
  by (simp add: get_put)

lemma get_foldr_del: "get (foldr del ks d) = (\<lambda>k. if k \<in> set ks then None else get d k)"
  by (induction ks) (auto simp: get_del)

lemma wf_foldr_del: "wf d \<Longrightarrow> wf (foldr del ks d)"
  by (induction ks) (auto intro: wf_del)

lemma get_fold_put:
  "get (fold (\<lambda>(k, v). put k v) kvs d) = get d ++ map_of (rev kvs)"
proof (induction kvs arbitrary: d)
  case Nil
  then show ?case by simp
next
  case (Cons kv kvs)
  obtain k v where kv: "kv = (k, v)" by fastforce
  show ?case
    unfolding kv by (simp add: Cons.IH get_put map_add_def fun_eq_iff split: option.splits)
qed

lemma wf_fold_put: "wf d \<Longrightarrow> wf (fold (\<lambda>(k, v). put k v) kvs d)"
  by (induction kvs arbitrary: d) (auto intro: wf_put)

lemma put_comm: "j \<noteq> k \<Longrightarrow> get (put j v (put k w d)) = get (put k w (put j v d))"
  by (auto simp: get_put)

end

interpretation pydict: dict_ops
  "map_of :: ('k, 'v) dict \<Rightarrow> 'k \<Rightarrow> 'v option" AList.update AList.delete "List.map fst" dict_wf
  by unfold_locales
    (auto simp: update_conv' delete_conv' map_of_eq_None_iff dict_simps
      intro: distinct_update distinct_delete)

section \<open>Lists\<close>

lemma set_list_filter: "set (List.filter P xs) = {x \<in> set xs. P x}"
  by auto

lemma sorted_wrt_append_iff:
  "sorted_wrt R (xs @ [y]) \<longleftrightarrow> sorted_wrt R xs \<and> (\<forall>x \<in> set xs. R x y)"
  by (auto simp: sorted_wrt_append)

lemma take_drop_split: "i \<le> j \<Longrightarrow> take i xs @ take (j - i) (drop i xs) = take j xs"
  by (metis le_add_diff_inverse take_add)

lemma split_three: "a \<le> b \<Longrightarrow> take a xs @ take (b - a) (drop a xs) @ drop b xs = xs"
  using take_drop_split [of a b xs] append_take_drop_id [of b xs] by (metis append.assoc)

lemma filter_eq_self: "(\<And>x. x \<in> set xs \<Longrightarrow> P x) \<Longrightarrow> List.filter P xs = xs"
  by (induction xs) auto

end
