(* ===== verification/PyString.thy ===== *)
theory PyString
  imports Prelude
begin

text \<open>
  The methods of Python strings that the components use, over \<open>string\<close>
  (lists of characters): \<open>split\<close> with a separator and without, \<open>strip\<close>,
  \<open>join\<close>, \<open>startswith\<close>, \<open>endswith\<close>, \<open>replace\<close>, and lines.
\<close>

abbreviation newline :: char where "newline \<equiv> CHR 0x0A"

definition is_space :: "char \<Rightarrow> bool" where
  "is_space c \<longleftrightarrow> c \<in> {CHR '' '', CHR 0x09, CHR 0x0A, CHR 0x0B, CHR 0x0C, CHR 0x0D}"

definition startswith :: "string \<Rightarrow> string \<Rightarrow> bool" where
  "startswith s p = prefix p s"

definition endswith :: "string \<Rightarrow> string \<Rightarrow> bool" where
  "endswith s p = suffix p s"

definition lstrip :: "string \<Rightarrow> string" where
  "lstrip s = dropWhile is_space s"

definition rstrip :: "string \<Rightarrow> string" where
  "rstrip s = rev (dropWhile is_space (rev s))"

definition strip :: "string \<Rightarrow> string" where
  "strip s = lstrip (rstrip s)"

text \<open>\<open>s.split(c)\<close> for a one-character separator: never empty.\<close>

fun str_split :: "char \<Rightarrow> string \<Rightarrow> string list" where
  "str_split sep [] = [[]]"
| "str_split sep (c # cs) =
     (if c = sep then [] # str_split sep cs
      else (case str_split sep cs of [] \<Rightarrow> [[c]] | w # ws \<Rightarrow> (c # w) # ws))"

text \<open>\<open>sep.join(words)\<close>.\<close>

fun join :: "string \<Rightarrow> string list \<Rightarrow> string" where
  "join sep [] = []"
| "join sep [w] = w"
| "join sep (w # v # ws) = w @ sep @ join sep (v # ws)"

text \<open>\<open>s.split()\<close>: the maximal runs of non-space characters.\<close>

fun words_acc :: "string \<Rightarrow> string \<Rightarrow> string list" where
  "words_acc [] w = (if w = [] then [] else [w])"
| "words_acc (c # cs) w =
     (if is_space c then (if w = [] then words_acc cs [] else w # words_acc cs [])
      else words_acc cs (w @ [c]))"

definition words :: "string \<Rightarrow> string list" where
  "words s = words_acc s []"

text \<open>\<open>sub in s\<close>, \<open>s.find(sub)\<close> and \<open>s.replace(old, new)\<close>.\<close>

definition contains :: "string \<Rightarrow> string \<Rightarrow> bool" where
  "contains s t = sublist t s"

fun str_find_from :: "nat \<Rightarrow> string \<Rightarrow> string \<Rightarrow> int" where
  "str_find_from i [] t = (if t = [] then int i else -1)"
| "str_find_from i (c # cs) t = (if prefix t (c # cs) then int i else str_find_from (i + 1) cs t)"

definition str_find :: "string \<Rightarrow> string \<Rightarrow> int" where
  "str_find s t = str_find_from 0 s t"

function replace_str :: "string \<Rightarrow> string \<Rightarrow> string \<Rightarrow> string" where
  "replace_str s old new =
     (if old = [] \<or> s = [] then s
      else if prefix old s then new @ replace_str (drop (length old) s) old new
      else hd s # replace_str (tl s) old new)"
  by pat_completeness auto
termination
  by (relation "measure (\<lambda>(s, old, new). length s)") auto

declare replace_str.simps [simp del]

text \<open>Decimal numerals, as \<open>str(i)\<close>.\<close>

definition digit_char :: "nat \<Rightarrow> char" where
  "digit_char d = ''0123456789'' ! d"

function str_nat :: "nat \<Rightarrow> string" where
  "str_nat n = (if n < 10 then [digit_char n] else str_nat (n div 10) @ [digit_char (n mod 10)])"
  by pat_completeness auto
termination
  by (relation "measure id") auto

declare str_nat.simps [simp del]

definition str_int :: "int \<Rightarrow> string" where
  "str_int i = (if i < 0 then CHR ''-'' # str_nat (nat (- i)) else str_nat (nat i))"

text \<open>Letters of ASCII only.\<close>

definition to_upper :: "char \<Rightarrow> char" where
  "to_upper c =
     (let n = of_char c :: nat in if 97 \<le> n \<and> n \<le> 122 then char_of (n - 32) else c)"

definition upper :: "string \<Rightarrow> string" where
  "upper s = List.map to_upper s"

text \<open>\<open>int(s)\<close> of a string of decimal digits.\<close>

definition is_digit :: "char \<Rightarrow> bool" where
  "is_digit c \<longleftrightarrow> c \<in> set ''0123456789''"

definition digit_value :: "char \<Rightarrow> int" where
  "digit_value c = int (length (takeWhile (\<lambda>d. d \<noteq> c) ''0123456789''))"

definition number :: "string \<Rightarrow> int" where
  "number s = foldl (\<lambda>n c. 10 * n + digit_value c) 0 s"

definition whole_number :: "string \<Rightarrow> int option" where
  "whole_number s = (if s \<noteq> [] \<and> (\<forall>c \<in> set s. is_digit c) then Some (number s) else None)"

definition leading_number :: "string \<Rightarrow> int option" where
  "leading_number s = whole_number (takeWhile is_digit s)"

text \<open>The functions of \<open>os.path\<close> on POSIX.\<close>

definition path_join :: "string \<Rightarrow> string \<Rightarrow> string" where
  "path_join a b =
     (if startswith b ''/'' then b
      else if a = [] \<or> endswith a ''/'' then a @ b
      else a @ ''/'' @ b)"

section \<open>Laws\<close>

lemma str_split_ne [simp]: "str_split sep s \<noteq> []"
  by (cases s) (auto split: list.splits)

lemma length_str_split_pos [simp]: "0 < length (str_split sep s)"
  by simp

lemma join_str_split [py_simps]: "join [sep] (str_split sep s) = s"
proof (induction s)
  case Nil
  then show ?case by simp
next
  case (Cons c s)
  then obtain w ws where w: "str_split sep s = w # ws"
    by (meson list.exhaust str_split_ne)
  show ?case
    using Cons w by (cases ws) auto
qed

lemma str_split_no_sep: "sep \<notin> set w \<Longrightarrow> str_split sep w = [w]"
  by (induction w) auto

lemma str_split_word: "sep \<notin> set w \<Longrightarrow> str_split sep (w @ sep # s) = w # str_split sep s"
  by (induction w) auto

lemma str_split_join [py_simps]:
  "ws \<noteq> [] \<Longrightarrow> (\<And>w. w \<in> set ws \<Longrightarrow> sep \<notin> set w) \<Longrightarrow> str_split sep (join [sep] ws) = ws"
proof (induction ws)
  case Nil
  then show ?case by simp
next
  case (Cons w ws)
  then show ?case by (cases ws) (simp_all add: str_split_no_sep str_split_word)
qed

lemma str_split_mem_sep: "w \<in> set (str_split sep s) \<Longrightarrow> sep \<notin> set w"
proof (induction s arbitrary: w)
  case Nil
  then show ?case by simp
next
  case (Cons c s)
  obtain v vs where v: "str_split sep s = v # vs"
    by (meson list.exhaust str_split_ne)
  show ?case
    using Cons.prems Cons.IH v by (auto split: if_splits)
qed

lemma startswith_append [simp]: "startswith (p @ s) p"
  by (simp add: startswith_def)

lemma startswith_Nil [simp]: "startswith s []"
  by (simp add: startswith_def)

lemma endswith_append [simp]: "endswith (s @ p) p"
  by (simp add: endswith_def suffix_def)

lemma words_acc_spaces:
  "w \<in> set (words_acc s a) \<Longrightarrow> \<forall>c \<in> set a. \<not> is_space c \<Longrightarrow>
    w \<noteq> [] \<and> (\<forall>c \<in> set w. \<not> is_space c)"
proof (induction s arbitrary: a w)
  case Nil
  then show ?case by (simp split: if_splits)
next
  case (Cons c s)
  show ?case
  proof (cases "is_space c")
    case True
    then have "(a \<noteq> [] \<and> w = a) \<or> w \<in> set (words_acc s [])"
      using Cons.prems(1) by (simp split: if_splits)
    then show ?thesis using Cons.IH [of w "[]"] Cons.prems(2) by auto
  next
    case False
    then show ?thesis using Cons.IH [of w "a @ [c]"] Cons.prems by simp
  qed
qed

lemma words_mem: "w \<in> set (words s) \<Longrightarrow> w \<noteq> [] \<and> (\<forall>c \<in> set w. \<not> is_space c)"
  unfolding words_def by (rule words_acc_spaces) auto


lemma digit_char_cases: "d < 10 \<Longrightarrow> is_digit (digit_char d) \<and> digit_value (digit_char d) = int d"
proof -
  assume "d < 10"
  then have "d \<in> {0, 1, 2, 3, 4, 5, 6, 7, 8, 9}" by auto
  then show ?thesis by (auto simp: digit_char_def is_digit_def digit_value_def)
qed

lemma number_snoc: "number (s @ [c]) = 10 * number s + digit_value c"
  by (simp add: number_def)

lemma str_nat_number: "number (str_nat n) = int n \<and> list_all is_digit (str_nat n) \<and> str_nat n \<noteq> []"
proof (induction n rule: str_nat.induct)
  case (1 n)
  show ?case
  proof (cases "n < 10")
    case True
    then show ?thesis using digit_char_cases [of n] by (simp add: str_nat.simps [of n] number_def)
  next
    case False
    have "int (n mod 10) = int n mod 10" "int (n div 10) = int n div 10"
      by (simp_all add: zmod_int zdiv_int)
    then show ?thesis
      using 1 [OF False] False digit_char_cases [of "n mod 10"]
      by (simp add: str_nat.simps [of n] number_snoc)
  qed
qed

lemma whole_number_str_nat [simp]: "whole_number (str_nat n) = Some (int n)"
  using str_nat_number [of n] by (simp add: whole_number_def list_all_iff)

end
