(* ===== verification/RadNumeric.thy ===== *)
theory RadNumeric
  imports PyString Complex_Main
begin

text \<open>
  The numeric helpers of \<open>bindings/python/rad_util.py\<close>, on the integers of
  the language (\<open>int\<close>; \<open>/\<close> on integers is floor division, \<open>%\<close> takes the sign
  of the divisor).  Where the source computes with floats the model computes
  with rationals, so a rounding error of the machine's floats is not seen.
\<close>

unbundle bit_operations_syntax

section \<open>Binary strings\<close>

definition hex_char :: "nat \<Rightarrow> char" where
  "hex_char d = ''0123456789abcdef'' ! d"

function hex_digits :: "nat \<Rightarrow> string" where
  "hex_digits i = (if i < 16 then [hex_char i] else hex_digits (i div 16) @ [hex_char (i mod 16)])"
  by pat_completeness auto
termination
  by (relation "measure id") auto

declare hex_digits.simps [simp del]

text \<open>The library function \<open>hex\<close>, after \<open>lower\<close> and the removal of \<open>l\<close>.\<close>

definition py_hex :: "int \<Rightarrow> string" where
  "py_hex i = (if i < 0 then ''-0x'' @ hex_digits (nat (- i)) else ''0x'' @ hex_digits (nat i))"

definition hex2bin :: "(char, string) dict" where
  "hex2bin =
     [(CHR ''0'', ''0000''), (CHR ''1'', ''0001''), (CHR ''2'', ''0010''), (CHR ''3'', ''0011''),
      (CHR ''4'', ''0100''), (CHR ''5'', ''0101''), (CHR ''6'', ''0110''), (CHR ''7'', ''0111''),
      (CHR ''8'', ''1000''), (CHR ''9'', ''1001''), (CHR ''a'', ''1010''), (CHR ''b'', ''1011''),
      (CHR ''c'', ''1100''), (CHR ''d'', ''1101''), (CHR ''e'', ''1110''), (CHR ''f'', ''1111'')]"

definition int2bin :: "int \<Rightarrow> int \<Rightarrow> string py_result" where
  "int2bin i n =
     rbind (map_res (dindex hex2bin) (drop 2 (py_hex i))) (\<lambda>parts.
       let result = concat parts
       in if CHR ''1'' \<in> set (py_slice_to result (- n)) then Inl ValueError
          else (let result = py_slice_from result (- n)
                in Inr (replicate (nat (n - int (length result))) (CHR ''0'') @ result)))"

text \<open>
  \<open>int(s, 2)\<close>: surrounding white space, one sign and the prefix \<open>0b\<close> are
  accepted, anything else but binary digits raises.
\<close>

fun bits_value :: "int \<Rightarrow> string \<Rightarrow> int py_result" where
  "bits_value acc [] = Inr acc"
| "bits_value acc (c # cs) =
     (if c = CHR ''0'' then bits_value (2 * acc) cs
      else if c = CHR ''1'' then bits_value (2 * acc + 1) cs
      else Inl ValueError)"

definition bin_magnitude :: "string \<Rightarrow> int py_result" where
  "bin_magnitude s =
     (let t = (if prefix ''0b'' s \<or> prefix ''0B'' s then drop 2 s else s)
      in if t = [] then Inl ValueError else bits_value 0 t)"

definition bin2int :: "string \<Rightarrow> int py_result" where
  "bin2int bin_string =
     (case strip bin_string of
        [] \<Rightarrow> Inl ValueError
      | c # cs \<Rightarrow>
          (if c = CHR ''-'' then rbind (bin_magnitude cs) (\<lambda>v. Inr (- v))
           else if c = CHR ''+'' then bin_magnitude cs
           else bin_magnitude (c # cs)))"

definition lsb :: "int \<Rightarrow> nat \<Rightarrow> int" where
  "lsb x n = x AND (2 ^ n - 1)"

definition gray_encode :: "int \<Rightarrow> int" where
  "gray_encode i = i XOR drop_bit 1 i"

text \<open>
  \<open>binary_range\<close>: the vector \<open>v\<close> holds the least significant bit first, and
  \<open>toggle\<close> carries.  The inner loop adds one to \<open>v\<close>; the outer loop ends when
  the carry leaves the vector.
\<close>

function toggle_loop :: "nat \<Rightarrow> string \<Rightarrow> int list \<Rightarrow> string \<times> int list" where
  "toggle_loop i v toggle =
     (if i < length v \<and> toggle ! i = 1
      then (if v ! i = CHR ''0''
            then toggle_loop (i + 1) (v[i := CHR ''1'']) (toggle[i + 1 := 0])
            else toggle_loop (i + 1) (v[i := CHR ''0'']) (toggle[i + 1 := 1]))
      else (v, toggle))"
  by pat_completeness auto
termination
  by (relation "measure (\<lambda>(i, v, t). length v - i)") auto

declare toggle_loop.simps [simp del]

definition toggle_start :: "nat \<Rightarrow> int list" where
  "toggle_start bits = 1 # replicate bits 0"

fun vec_value :: "string \<Rightarrow> nat" where
  "vec_value [] = 0"
| "vec_value (c # cs) = (if c = CHR ''0'' then 0 else 1) + 2 * vec_value cs"

lemma vec_value_less: "vec_value v < 2 ^ length v"
  by (induction v) auto

lemma vec_value_append: "vec_value (u @ v) = vec_value u + 2 ^ length u * vec_value v"
  by (induction u) (auto simp: algebra_simps)

lemma vec_value_zeros [simp]: "vec_value (replicate n (CHR ''0'')) = 0"
  by (induction n) auto

lemma toggle_loop_stop: "toggle ! i \<noteq> 1 \<Longrightarrow> toggle_loop i v toggle = (v, toggle)"
  by (subst toggle_loop.simps) simp

lemma toggle_loop_inv:
  assumes "length t = length v + 1" "i \<le> length v" "t ! i = 1"
    and "\<And>j. i < j \<Longrightarrow> j \<le> length v \<Longrightarrow> t ! j = 0"
    and "toggle_loop i v t = (v', t')"
  shows "length v' = length v \<and> take i v' = take i v \<and>
     (if t' ! length v = 1
      then vec_value (drop i v) = 2 ^ (length v - i) - 1 \<and> vec_value (drop i v') = 0
      else vec_value (drop i v') = vec_value (drop i v) + 1)"
  using assms
proof (induction i v t arbitrary: v' t' rule: toggle_loop.induct)
  case (1 i v t)
  show ?case
  proof (cases "i < length v")
    case False
    then show ?thesis using 1(3-7) by (subst (asm) toggle_loop.simps) auto
  next
    case True
    have split: "drop i w = w ! i # drop (Suc i) w" if "length w = length v" for w :: string
      using True that by (simp add: Cons_nth_drop_Suc)
    have step: "take i w = take i v \<and> w ! i = v'' ! i"
      if "take (Suc i) w = take (Suc i) v''" "v'' = v[i := c]" "length w = length v" for w v'' c
    proof -
      have "w ! i = v'' ! i" using that True by (metis lessI nth_take)
      moreover have "take i w = take i v''"
        using that(1) by (metis Suc_n_not_le_n nat_le_linear take_take min.absorb1)
      ultimately show ?thesis using that by simp
    qed
    show ?thesis
    proof (cases "v ! i = CHR ''0''")
      case v0: True
      have "toggle_loop (i + 1) (v[i := CHR ''1'']) (t[i + 1 := 0]) = (v', t')"
        using 1(3-7) True v0 by (subst (asm) toggle_loop.simps) simp
      then have "v' = v[i := CHR ''1'']" "t' = t[i + 1 := 0]"
        using toggle_loop_stop [of "t[i + 1 := 0]" "i + 1"] True 1(3) by auto
      moreover have "t[i + 1 := 0] ! length v = 0"
        using 1(3,6) True by (cases "i + 1 = length v") auto
      ultimately show ?thesis
        using True v0 split [of v] split [of "v[i := CHR ''1'']"] by auto
    next
      case v1: False
      have r: "toggle_loop (i + 1) (v[i := CHR ''0'']) (t[i + 1 := 1]) = (v', t')"
        using 1(3-7) True v1 by (subst (asm) toggle_loop.simps) simp
      have IH: "length v' = length v \<and> take (i + 1) v' = take (i + 1) (v[i := CHR ''0'']) \<and>
        (if t' ! length v = 1
         then vec_value (drop (i + 1) v) = 2 ^ (length v - (i + 1)) - 1 \<and> vec_value (drop (i + 1) v') = 0
         else vec_value (drop (i + 1) v') = vec_value (drop (i + 1) v) + 1)"
        using 1(2) [OF _ v1 _ _ _ _ r] True 1(3,5,6) by auto
      have "take i v' = take i v" "v' ! i = CHR ''0''"
        using step [of v' "v[i := CHR ''0'']" "CHR ''0''"] IH True by auto
      moreover have "(2 :: nat) ^ (length v - i) = 2 * 2 ^ (length v - (i + 1))"
        using True by (metis Suc_diff_Suc Suc_eq_plus1 power_Suc)
      moreover obtain K where "(2 :: nat) ^ (length v - Suc i) = Suc K"
        by (metis gr0_conv_Suc pos2 zero_less_power)
      ultimately show ?thesis
        using IH True v1 split [of v] split [of v'] by (auto simp: algebra_simps)
    qed
  qed
qed


lemma toggle_loop_start:
  assumes "toggle_loop 0 v (toggle_start (length v)) = (v', t')"
  shows "length v' = length v"
    "t' ! length v = 1 \<longleftrightarrow> Suc (vec_value v) = 2 ^ length v"
    "t' ! length v \<noteq> 1 \<Longrightarrow> vec_value v' = Suc (vec_value v)"
proof -
  have *: "length v' = length v \<and> take 0 v' = take 0 v \<and>
     (if t' ! length v = 1
      then vec_value (drop 0 v) = 2 ^ (length v - 0) - 1 \<and> vec_value (drop 0 v') = 0
      else vec_value (drop 0 v') = vec_value (drop 0 v) + 1)"
    by (rule toggle_loop_inv [OF _ _ _ _ assms]) (auto simp: toggle_start_def nth_Cons')
  then show "length v' = length v" "t' ! length v \<noteq> 1 \<Longrightarrow> vec_value v' = Suc (vec_value v)"
    by auto
  show "t' ! length v = 1 \<longleftrightarrow> Suc (vec_value v) = 2 ^ length v"
  proof
    assume "t' ! length v = 1"
    then show "Suc (vec_value v) = 2 ^ length v" using * by simp
  next
    assume "Suc (vec_value v) = 2 ^ length v"
    then show "t' ! length v = 1" using * vec_value_less [of v'] by (metis add.commute drop0 less_irrefl plus_1_eq_Suc)
  qed
qed

function binary_range_loop :: "string \<Rightarrow> int list \<Rightarrow> string list \<Rightarrow> string list" where
  "binary_range_loop v toggle l =
     (if toggle ! length v \<noteq> 1
      then (let l = l @ [rev v];
                (v', toggle') = toggle_loop 0 v (toggle_start (length v))
            in binary_range_loop v' toggle' l)
      else l)"
  by pat_completeness auto
termination
proof (relation "measure (\<lambda>(v, t, l). if t ! length v = 1 then 0 else 2 ^ length v - vec_value v)")
  show "wf (measure (\<lambda>(v, t, l :: string list).
          if t ! length v = (1 :: int) then 0 else 2 ^ length v - vec_value v))"
    by simp
next
  fix v and toggle :: "int list" and l l' x v' toggle'
  assume a: "toggle ! length v \<noteq> 1" "x = toggle_loop 0 v (toggle_start (length v))" "(v', toggle') = x"
  then have t: "toggle_loop 0 v (toggle_start (length v)) = (v', toggle')" by simp
  have "(2 :: nat) ^ length v - vec_value v > 0" using vec_value_less [of v] by simp
  then show "((v', toggle', l'), v, toggle, l :: string list)
      \<in> measure (\<lambda>(v, t, l). if t ! length v = 1 then 0 else 2 ^ length v - vec_value v)"
    using toggle_loop_start [OF t] a(1) vec_value_less [of v'] by auto
qed

declare binary_range_loop.simps [simp del]

definition binary_range :: "nat \<Rightarrow> string list" where
  "binary_range bits = binary_range_loop (replicate bits (CHR ''0'')) (toggle_start bits) []"


section \<open>Binary strings: values\<close>

definition is_binary :: "string \<Rightarrow> bool" where
  "is_binary s \<longleftrightarrow> set s \<subseteq> {CHR ''0'', CHR ''1''}"

lemma is_binary_simps [simp]:
  "is_binary []"
  "is_binary (c # s) \<longleftrightarrow> (c = CHR ''0'' \<or> c = CHR ''1'') \<and> is_binary s"
  "is_binary (s @ t) \<longleftrightarrow> is_binary s \<and> is_binary t"
  "is_binary (rev s) \<longleftrightarrow> is_binary s"
  "is_binary (replicate n (CHR ''0''))"
  by (auto simp: is_binary_def)

lemma is_binary_sub [intro]:
  "is_binary s \<Longrightarrow> is_binary (take n s)" "is_binary s \<Longrightarrow> is_binary (drop n s)"
  by (auto simp: is_binary_def dest: in_set_takeD in_set_dropD)

lemma bits_value_eq:
  "is_binary s \<Longrightarrow> bits_value acc s = Inr (acc * 2 ^ length s + int (vec_value (rev s)))"
  by (induction s arbitrary: acc) (auto simp: vec_value_append algebra_simps)

lemma strip_binary: "is_binary s \<Longrightarrow> strip s = s"
proof -
  assume b: "is_binary s"
  have d: "dropWhile is_space t = t" if "is_binary t" for t
    using that by (cases t) (auto simp: is_space_def)
  show "strip s = s" using b by (simp add: strip_def lstrip_def rstrip_def d)
qed

lemma bin2int_binary:
  "is_binary s \<Longrightarrow> s \<noteq> [] \<Longrightarrow> bin2int s = Inr (int (vec_value (rev s)))"
proof -
  assume b: "is_binary s" and ne: "s \<noteq> []"
  have "bin_magnitude s = Inr (int (vec_value (rev s)))"
  proof -
    have "\<not> prefix ''0b'' s" "\<not> prefix ''0B'' s" using b by (auto simp: prefix_def)
    then show ?thesis using b ne by (simp add: bin_magnitude_def bits_value_eq)
  qed
  then show ?thesis
    using b ne by (cases s) (auto simp: bin2int_def strip_binary)
qed

lemma vec_value_no_one:
  "is_binary s \<Longrightarrow> CHR ''1'' \<notin> set s \<Longrightarrow> vec_value s = 0"
  by (induction s) auto

lemma vec_value_one: "CHR ''1'' \<in> set s \<Longrightarrow> 0 < vec_value s"
  by (induction s) auto

lemma hex_nibbles:
  "list_all (\<lambda>d. case dindex hex2bin (hex_char d) of Inl e \<Rightarrow> False
     | Inr s \<Rightarrow> length s = 4 \<and> is_binary s \<and> vec_value (rev s) = d) [0..<16]"
  unfolding is_binary_def by code_simp

lemma hex_nibble:
  assumes "d < 16"
  obtains s where "dindex hex2bin (hex_char d) = Inr s" "length s = 4" "is_binary s"
    "vec_value (rev s) = d"
proof (cases "dindex hex2bin (hex_char d)")
  case (Inl e)
  have "d \<in> set [0..<16]" using assms by simp
  then show ?thesis using hex_nibbles Inl unfolding list_all_iff by fastforce
next
  case (Inr s)
  have "d \<in> set [0..<16]" using assms by simp
  then show ?thesis using hex_nibbles Inr that unfolding list_all_iff by fastforce
qed

lemma map_res_append:
  "map_res f (xs @ ys) = rbind (map_res f xs) (\<lambda>us. rbind (map_res f ys) (\<lambda>vs. Inr (us @ vs)))"
proof (induction xs)
  case Nil
  then show ?case by (cases "map_res f ys") auto
next
  case (Cons x xs)
  then show ?case
    by (cases "f x"; cases "map_res f xs"; cases "map_res f ys") auto
qed

lemma hex_expansion:
  "\<exists>parts. map_res (dindex hex2bin) (hex_digits i) = Inr parts \<and> is_binary (concat parts) \<and>
     concat parts \<noteq> [] \<and> vec_value (rev (concat parts)) = i"
proof (induction i rule: hex_digits.induct)
  case (1 i)
  show ?case
  proof (cases "i < 16")
    case True
    then obtain s where "dindex hex2bin (hex_char i) = Inr s" "length s = 4" "is_binary s"
      "vec_value (rev s) = i" by (rule hex_nibble)
    then show ?thesis using True by (subst hex_digits.simps) auto
  next
    case False
    then obtain parts where p: "map_res (dindex hex2bin) (hex_digits (i div 16)) = Inr parts"
      "is_binary (concat parts)" "vec_value (rev (concat parts)) = i div 16"
      using 1 by auto
    obtain s where s: "dindex hex2bin (hex_char (i mod 16)) = Inr s" "length s = 4" "is_binary s"
      "vec_value (rev s) = i mod 16" by (rule hex_nibble [of "i mod 16"]) auto
    have "map_res (dindex hex2bin) (hex_digits i) = Inr (parts @ [s])"
      using False p(1) s(1) by (subst hex_digits.simps) (simp add: map_res_append)
    moreover have "vec_value (rev (concat (parts @ [s]))) = i"
      using p(3) s(2,4) by (simp add: vec_value_append)
    ultimately show ?thesis using p(2) s(2,3) by (intro exI [of _ "parts @ [s]"]) auto
  qed
qed

lemma int2bin_negative:
  assumes "i < 0" shows "int2bin i n = Inl KeyError"
proof -
  have "drop 2 (py_hex i) = CHR ''x'' # hex_digits (nat (- i))"
    using assms by (simp add: py_hex_def)
  moreover have "dindex hex2bin (CHR ''x'') = Inl KeyError" by code_simp
  ultimately show ?thesis by (simp add: int2bin_def)
qed

lemma int2bin_nonneg:
  assumes "0 \<le> i" "0 < n"
  shows "if i < 2 ^ n
    then \<exists>s. int2bin i (int n) = Inr s \<and> length s = n \<and> is_binary s \<and> bin2int s = Inr i
    else int2bin i (int n) = Inl ValueError"
proof -
  obtain parts where p: "map_res (dindex hex2bin) (hex_digits (nat i)) = Inr parts"
    "is_binary (concat parts)" "vec_value (rev (concat parts)) = nat i"
    using hex_expansion by blast
  define r where "r = concat parts"
  define hi where "hi = take (length r - n) r"
  define lo where "lo = drop (length r - n) r"
  have r: "r = hi @ lo" "is_binary hi" "is_binary lo" "length lo \<le> n"
    using p(2) by (auto simp: hi_def lo_def r_def)
  have v: "nat i = vec_value (rev lo) + 2 ^ length lo * vec_value (rev hi)"
    using p(3) r(1) by (simp add: r_def [symmetric] vec_value_append)
  have eq: "int2bin i (int n) =
      (if CHR ''1'' \<in> set hi then Inl ValueError
       else Inr (replicate (n - length lo) (CHR ''0'') @ lo))"
    using assms p(1) by (simp add: int2bin_def py_hex_def Let_def r_def [symmetric] py_slice_to_neg
        py_slice_from_neg hi_def [symmetric] lo_def [symmetric] nat_diff_distrib')
  show ?thesis
  proof (cases "CHR ''1'' \<in> set hi")
    case True
    then have "0 < vec_value (rev hi)" by (intro vec_value_one) simp
    moreover have "length lo = n"
    proof -
      have "length r - n \<noteq> 0" using True by (auto simp: hi_def)
      then show ?thesis by (simp add: lo_def)
    qed
    ultimately have "2 ^ n \<le> nat i" using v by (metis Suc_leI le_add2 le_trans mult.right_neutral mult_le_mono2 One_nat_def)
    then have "\<not> i < 2 ^ n" by (metis nat_less_iff assms(1) linorder_not_less of_nat_numeral of_nat_power)
    then show ?thesis using eq True by simp
  next
    case False
    let ?s = "replicate (n - length lo) (CHR ''0'') @ lo"
    have "vec_value (rev hi) = 0" using False r(2) by (intro vec_value_no_one) auto
    then have val: "nat i = vec_value (rev ?s)" using v by (simp add: vec_value_append)
    have len: "length ?s = n" using r(4) by simp
    have "nat i < 2 ^ n" using vec_value_less [of "rev ?s"] val len by simp
    then have "i < 2 ^ n" by (metis assms(1) nat_less_iff of_nat_numeral of_nat_power)
    moreover have "bin2int ?s = Inr i"
      using val len r(3) assms by (subst bin2int_binary) auto
    ultimately show ?thesis using eq False len r(3) by auto
  qed
qed

section \<open>Binary counting\<close>

fun vec_of :: "nat \<Rightarrow> nat \<Rightarrow> string" where
  "vec_of 0 k = []"
| "vec_of (Suc n) k = (if even k then CHR ''0'' else CHR ''1'') # vec_of n (k div 2)"

lemma vec_of_vec_value: "is_binary v \<Longrightarrow> vec_of (length v) (vec_value v) = v"
  by (induction v) auto

lemma vec_value_vec_of: "k < 2 ^ n \<Longrightarrow> vec_value (vec_of n k) = k"
  by (induction n arbitrary: k) auto

lemma length_vec_of [simp]: "length (vec_of n k) = n"
  by (induction n arbitrary: k) auto

lemma is_binary_vec_of [simp]: "is_binary (vec_of n k)"
  by (induction n arbitrary: k) auto

lemma is_binary_list_update: "is_binary v \<Longrightarrow> c \<in> {CHR ''0'', CHR ''1''} \<Longrightarrow> is_binary (v[i := c])"
  using set_update_subset_insert [of v i c] by (auto simp: is_binary_def)

lemma toggle_loop_binary: "is_binary v \<Longrightarrow> is_binary (fst (toggle_loop i v t))"
proof (induction i v t rule: toggle_loop.induct)
  case (1 i v t)
  then show ?case
    by (subst toggle_loop.simps) (simp add: is_binary_list_update)
qed

lemma binary_range_loop_eq:
  "is_binary v \<Longrightarrow> t ! length v \<noteq> 1 \<Longrightarrow>
   binary_range_loop v t l =
     l @ List.map (\<lambda>k. rev (vec_of (length v) k)) [vec_value v..<2 ^ length v]"
proof (induction v t l rule: binary_range_loop.induct)
  case (1 v t l)
  obtain v' t' where s: "toggle_loop 0 v (toggle_start (length v)) = (v', t')" by fastforce
  note step = toggle_loop_start [OF s]
  have b: "is_binary v'" using toggle_loop_binary [OF 1(2), of 0 "toggle_start (length v)"] s by simp
  have un: "binary_range_loop v t l = binary_range_loop v' t' (l @ [rev v])"
    using 1(3) s by (subst binary_range_loop.simps) simp
  have up: "[vec_value v..<2 ^ length v] = vec_value v # [Suc (vec_value v)..<2 ^ length v]"
    using vec_value_less [of v] by (simp add: upt_conv_Cons)
  show ?case
  proof (cases "t' ! length v = 1")
    case True
    then have "[Suc (vec_value v)..<2 ^ length v] = []" using step(2) by simp
    moreover have "binary_range_loop v' t' (l @ [rev v]) = l @ [rev v]"
      using True step(1) by (subst binary_range_loop.simps) simp
    ultimately show ?thesis using un up 1(2) by (simp add: vec_of_vec_value)
  next
    case False
    then show ?thesis
      using 1(1) [OF 1(3) refl s [symmetric] refl b] step un up 1(2)
      by (simp add: vec_of_vec_value)
  qed
qed

lemma binary_range_eq:
  "0 < bits \<Longrightarrow> binary_range bits = List.map (\<lambda>k. rev (vec_of bits k)) [0..<2 ^ bits]"
  using binary_range_loop_eq [of "replicate bits (CHR ''0'')" "toggle_start bits" "[]"]
  by (simp add: binary_range_def toggle_start_def)

lemma binary_range_0: "binary_range 0 = []"
  by (simp add: binary_range_def binary_range_loop.simps toggle_start_def)


section \<open>Common factors, fractions and grids\<close>

function gcf_loop :: "int \<Rightarrow> int \<Rightarrow> rat \<Rightarrow> int" where
  "gcf_loop result remainder epsilon =
     (if remainder \<noteq> 0 \<and> of_int \<bar>remainder\<bar> > epsilon
      then gcf_loop remainder (result mod remainder) epsilon
      else result)"
  by pat_completeness auto
termination
  by (relation "measure (\<lambda>(a, b, e). nat \<bar>b\<bar>)") (auto simp: abs_mod_less)

declare gcf_loop.simps [simp del]

definition gcf :: "int \<Rightarrow> int \<Rightarrow> rat \<Rightarrow> int" where
  "gcf a b epsilon = \<bar>gcf_loop (max a b) (min a b) epsilon\<bar>"

definition default_epsilon :: rat where
  "default_epsilon = 1 / 10 ^ 16"

definition rad_lcm :: "int \<Rightarrow> int \<Rightarrow> int" where
  "rad_lcm a b =
     (let denom = gcf a b default_epsilon in if denom = 0 then 0 else a * (b div denom))"

definition reduce_fraction :: "int \<times> int \<Rightarrow> (int \<times> int) py_result" where
  "reduce_fraction fraction =
     (let (numerator, denominator) = fraction;
          common_factor = \<bar>gcf numerator denominator default_epsilon\<bar>
      in if common_factor = 0 then Inl ZeroDivisionError
         else Inr (numerator div common_factor, denominator div common_factor))"

text \<open>No branch of \<open>round_grid\<close> binds \<open>add_one\<close> for a value on the grid in mode 1 or -1.\<close>

definition round_grid :: "int \<Rightarrow> int \<Rightarrow> int \<Rightarrow> int py_result" where
  "round_grid x grid mode =
     (if grid = 0 then Inl ZeroDivisionError
      else (let off_grid = x mod grid;
                add_one = (if mode = 0 then Some (if 2 * off_grid \<ge> grid then 1 else 0)
                           else if mode = 1 \<and> off_grid \<noteq> 0 then Some 1
                           else if mode = -1 \<and> off_grid \<noteq> 0 then Some 0
                           else None)
            in (case add_one of
                  None \<Rightarrow> Inl UnboundLocalError
                | Some k \<Rightarrow> Inr ((x div grid + k) * grid))))"

lemma gcf_loop_gcd: "epsilon < 1 \<Longrightarrow> gcd (gcf_loop a b epsilon) 0 = gcd a b"
proof (induction a b epsilon rule: gcf_loop.induct)
  case (1 a b epsilon)
  show ?case
  proof (cases "b = 0")
    case True
    then show ?thesis by (subst gcf_loop.simps) simp
  next
    case False
    then have "1 \<le> \<bar>b\<bar>" by simp
    then have "(1 :: rat) \<le> of_int \<bar>b\<bar>" by linarith
    then have "of_int \<bar>b\<bar> > epsilon" using 1(2) by linarith
    then show ?thesis
      using False 1 by (subst gcf_loop.simps) (simp add: gcd.commute [of b] gcd_red_int [symmetric])
  qed
qed

lemma gcf_eq_gcd: "epsilon < 1 \<Longrightarrow> gcf a b epsilon = gcd a b"
  using gcf_loop_gcd [of epsilon "max a b" "min a b"]
  by (simp add: gcf_def max_def min_def gcd.commute)

lemma default_epsilon_less [simp]: "default_epsilon < 1"
  by (simp add: default_epsilon_def)

lemma rad_lcm_eq: "rad_lcm a b = (if 0 \<le> a * b then 1 else -1) * lcm a b"
proof (cases "gcd a b = 0")
  case True
  then show ?thesis by (simp add: rad_lcm_def gcf_eq_gcd)
next
  case False
  then have p: "0 < gcd a b" by (simp add: zero_less_iff_neq_zero)
  have "a * (b div gcd a b) * gcd a b = a * b" by simp
  moreover have "lcm a b * gcd a b = \<bar>a * b\<bar>" by (metis lcm_gcd_prod abs_mult mult.commute prod_gcd_lcm_int)
  ultimately have "a * (b div gcd a b) * gcd a b = (if 0 \<le> a * b then 1 else -1) * lcm a b * gcd a b"
    by (simp add: abs_if mult.assoc)
  then have "a * (b div gcd a b) = (if 0 \<le> a * b then 1 else -1) * lcm a b"
    using False by (metis mult_right_cancel)
  then show ?thesis unfolding rad_lcm_def Let_def gcf_eq_gcd [OF default_epsilon_less] using False by argo
qed

lemma reduce_fraction_eq:
  "reduce_fraction (n, d) =
     (if n = 0 \<and> d = 0 then Inl ZeroDivisionError else Inr (n div gcd n d, d div gcd n d))"
  by (simp add: reduce_fraction_def gcf_eq_gcd Let_def)

section \<open>Bit tricks\<close>

lemma lsb_mod: "lsb x n = x mod 2 ^ n"
  by (simp add: lsb_def flip: mask_eq_exp_minus_1 take_bit_eq_mod take_bit_eq_mask)

lemma xor_succ_mask:
  fixes i :: int
  assumes "0 \<le> i"
  shows "\<exists>k. i XOR (i + 1) = mask (Suc k)"
proof -
  have "\<exists>k. int m XOR (int m + 1) = mask (Suc k)" for m
  proof (induction m rule: less_induct)
    case (less m)
    show ?case
    proof (cases "even m")
      case True
      then obtain j where "m = 2 * j" by blast
      then have "int m XOR (int m + 1) = mask (Suc 0)"
        by (simp add: xor_int_rec [of "2 * int j"] mask_eq_exp_minus_1)
      then show ?thesis by blast
    next
      case False
      then obtain j where j: "m = 2 * j + 1" using oddE by blast
      then have "j < m" by simp
      then obtain k where k: "int j XOR (int j + 1) = mask (Suc k)" using less by blast
      have "int m XOR (int m + 1) = mask (Suc (Suc k))"
      proof -
        have "(2 * int j + 1) XOR (2 * int j + 2) = 1 + 2 * (int j XOR (int j + 1))"
          by (subst xor_int_rec) simp
        then show ?thesis using k j by (simp add: mask_eq_exp_minus_1 algebra_simps)
      qed
      then show ?thesis by blast
    qed
  qed
  from this [of "nat i"] assms show ?thesis by simp
qed

lemma gray_adjacent:
  assumes "0 \<le> i"
  shows "\<exists>k. gray_encode i XOR gray_encode (i + 1) = 2 ^ k"
proof -
  obtain k where k: "i XOR (i + 1) = mask (Suc k)" using xor_succ_mask [OF assms] by blast
  have "gray_encode i XOR gray_encode (i + 1) =
        (i XOR (i + 1)) XOR drop_bit 1 (i XOR (i + 1))"
    by (simp add: gray_encode_def ac_simps)
  also have "\<dots> = mask (Suc k) XOR mask k"
    unfolding k by (simp add: drop_bit_mask_eq)
  also have "\<dots> = 2 ^ k"
    by (rule bit_eqI) (auto simp: bit_simps)
  finally show ?thesis by blast
qed


section \<open>Quantiles and arithmetic progressions, over the rationals\<close>

definition quantile :: "rat list \<Rightarrow> rat \<Rightarrow> rat py_result" where
  "quantile l p =
     (let l_sort = sort l;
          n = int (length l);
          r = 1 + (of_int (n - 1) * p);
          i = (if r \<ge> 0 then \<lfloor>r\<rfloor> else \<lceil>r\<rceil>);
          f = r - of_int i
      in if i < n
         then rbind (py_index l_sort (i - 1)) (\<lambda>lo.
              rbind (py_index l_sort i) (\<lambda>hi. Inr ((1 - f) * lo + f * hi)))
         else py_index l_sort (i - 1))"

text \<open>
  \<open>trim\<close> also computes the median, which nothing reads but which raises for an
  empty list.
\<close>

definition trim_median :: "rat list \<Rightarrow> rat py_result" where
  "trim_median l_sort =
     (let index = int (length l_sort div 2)
      in if length l_sort mod 2 = 0
         then rbind (py_index l_sort index) (\<lambda>a.
              rbind (py_index l_sort (index - 1)) (\<lambda>b. Inr ((a + b) / 2)))
         else py_index l_sort index)"

definition trim :: "rat list \<Rightarrow> rat list py_result" where
  "trim l =
     (let l_sort = sort l
      in rbind (trim_median l_sort) (\<lambda>median.
         rbind (quantile l_sort (1 / 4)) (\<lambda>q1.
         rbind (quantile l_sort (3 / 4)) (\<lambda>q3.
           let iqr_extra = (q3 - q1) * (3 / 2)
           in Inr (List.filter (\<lambda>x. q1 - iqr_extra \<le> x \<and> x \<le> q3 + iqr_extra) l_sort)))))"

partial_function (option) float_range_loop ::
    "rat \<Rightarrow> rat \<Rightarrow> rat \<Rightarrow> rat list \<Rightarrow> rat list option" where
  "float_range_loop cur stop step l =
     (if cur < stop then float_range_loop (cur + step) stop step (l @ [cur]) else Some l)"

declare float_range_loop.simps [code]

definition float_range :: "rat \<Rightarrow> rat option \<Rightarrow> rat option \<Rightarrow> rat list option" where
  "float_range start stop step =
     (let (start, stop) = (case stop of None \<Rightarrow> (0, start) | Some e \<Rightarrow> (start, e));
          step = (case step of None \<Rightarrow> 1 | Some d \<Rightarrow> d)
      in float_range_loop start stop step [])"

text \<open>The points are scaled in place, so the caller's list changes.\<close>

definition py_trunc :: "rat \<Rightarrow> int" where
  "py_trunc r = (if r \<ge> 0 then \<lfloor>r\<rfloor> else \<lceil>r\<rceil>)"

fun shoelace :: "(int \<times> int) list \<Rightarrow> int" where
  "shoelace (p # q # ps) = fst q * snd p - snd q * fst p + shoelace (q # ps)"
| "shoelace ps = 0"

definition polygon_area :: "(rat \<times> rat) list \<Rightarrow> int \<Rightarrow> (rat \<times> (int \<times> int) list) py_result" where
  "polygon_area points precision =
     (let scaled = List.map (\<lambda>(x, y). (py_trunc (x * of_int precision), py_trunc (y * of_int precision))) points
      in if scaled = [] then Inl IndexError
         else (let closed = (if last scaled \<noteq> hd scaled then scaled @ [hd scaled] else scaled);
                   area = \<bar>shoelace closed div 2\<bar>
               in if precision = 0 then Inl ZeroDivisionError
                  else Inr (of_int area / of_int (precision ^ 2), closed)))"

lemma py_trunc_of_int [simp]: "py_trunc (of_int k) = k"
  by (simp add: py_trunc_def)

lemma shoelace_scale:
  "shoelace (List.map (\<lambda>(x, y). (x * k, y * k)) ps) = k * k * shoelace ps"
proof (induction ps rule: shoelace.induct)
  case (1 p q ps)
  then show ?case by (cases p; cases q) (simp add: algebra_simps)
qed auto

lemma float_range_loop_Some:
  assumes "0 < step"
  shows "\<exists>xs. float_range_loop cur stop step l = Some (l @ xs) \<and>
     (\<forall>i < length xs. xs ! i = cur + of_nat i * step \<and> xs ! i < stop) \<and>
     stop \<le> cur + of_nat (length xs) * step"
proof -
  define m where "m = nat \<lceil>(stop - cur) / step\<rceil>"
  have "stop \<le> cur + of_nat m * step"
  proof -
    have "(stop - cur) / step \<le> of_nat m" unfolding m_def by linarith
    then show ?thesis using assms by (simp add: field_simps)
  qed
  then show ?thesis
  proof (induction m arbitrary: cur l)
    case 0
    then show ?case
      by (intro exI [of _ "[]"]) (subst float_range_loop.simps, auto)
  next
    case (Suc m)
    show ?case
    proof (cases "cur < stop")
      case False
      then show ?thesis
        by (intro exI [of _ "[]"]) (subst float_range_loop.simps, auto)
    next
      case True
      have "stop \<le> (cur + step) + of_nat m * step" using Suc.prems by (simp add: algebra_simps)
      from Suc.IH [OF this, of "l @ [cur]"] obtain xs where
        xs: "float_range_loop (cur + step) stop step (l @ [cur]) = Some ((l @ [cur]) @ xs)"
          "\<forall>i < length xs. xs ! i = cur + step + of_nat i * step \<and> xs ! i < stop"
          "stop \<le> cur + step + of_nat (length xs) * step"
        by blast
      have "float_range_loop cur stop step l = Some (l @ (cur # xs))"
        using True xs(1) by (subst float_range_loop.simps) simp
      moreover have "\<forall>i < length (cur # xs). (cur # xs) ! i = cur + of_nat i * step \<and> (cur # xs) ! i < stop"
        using xs(2) True by (auto simp: nth_Cons algebra_simps split: nat.splits)
      moreover have "stop \<le> cur + of_nat (length (cur # xs)) * step"
        using xs(3) by (simp add: algebra_simps)
      ultimately show ?thesis by blast
    qed
  qed
qed

lemma float_range_loop_diverges:
  assumes "step \<le> 0" "cur < stop"
  shows "float_range_loop cur stop step l = None"
proof (rule ccontr)
  assume "float_range_loop cur stop step l \<noteq> None"
  then obtain y where y: "float_range_loop cur stop step l = Some y" by blast
  have "step \<le> 0 \<longrightarrow> stop \<le> cur"
  proof (rule float_range_loop.raw_induct [OF _ y])
    fix f :: "rat \<Rightarrow> rat \<Rightarrow> rat \<Rightarrow> rat list \<Rightarrow> rat list option"
      and cur stop step :: rat and l y
    assume IH: "\<And>cur stop step l y. f cur stop step l = Some y \<Longrightarrow> step \<le> 0 \<longrightarrow> stop \<le> cur"
      and eq: "(if cur < stop then f (cur + step) stop step (l @ [cur]) else Some l) = Some y"
    show "step \<le> 0 \<longrightarrow> stop \<le> cur"
    proof (cases "cur < stop")
      case True
      then have "step \<le> 0 \<longrightarrow> stop \<le> cur + step" using IH eq by (metis (full_types))
      then show ?thesis by linarith
    next
      case False
      then show ?thesis by simp
    qed
  qed
  then show False using assms by simp
qed


section \<open>Properties\<close>

text \<open>\<open>int2bin\<close> on a positive width raises \<open>KeyError\<close> exactly for negative
  integers and \<open>ValueError\<close> exactly for those too large for the width; otherwise
  it returns that many binary digits and \<open>bin2int\<close> reads the integer back.\<close>

theorem int2bin_roundtrip:
  "case int2bin i (int (Suc n)) of
     Inl e \<Rightarrow> (e = KeyError \<and> i < 0) \<or> (e = ValueError \<and> 2 ^ Suc n \<le> i)
   | Inr s \<Rightarrow> 0 \<le> i \<and> i < 2 ^ Suc n \<and> length s = Suc n \<and> is_binary s \<and> bin2int s = Inr i"
proof (cases "i < 0")
  case True
  then show ?thesis by (simp add: int2bin_negative)
next
  case False
  then show ?thesis
    using int2bin_nonneg [of i "Suc n"] by (cases "i < 2 ^ Suc n") (auto simp del: power_Suc)
qed

text \<open>\<open>binary_range\<close> lists the binary numbers of a positive width in order: it has
  \<open>2 ^ bits\<close> entries and entry \<open>k\<close> has that width and the value \<open>k\<close>.  For width
  0 it returns the empty list.\<close>

theorem binary_range_counts:
  "binary_range 0 = [] \<and> length (binary_range (Suc n)) = 2 ^ Suc n \<and>
   (\<forall>k < 2 ^ Suc n. length (binary_range (Suc n) ! k) = Suc n \<and>
                    bin2int (binary_range (Suc n) ! k) = Inr (int k))"
proof -
  have "bin2int (rev (vec_of (Suc n) k)) = Inr (int k)" if "k < 2 ^ Suc n" for k
    using that bin2int_binary [of "rev (vec_of (Suc n) k)"] vec_value_vec_of [OF that]
    by (simp del: power_Suc vec_of.simps) (simp del: power_Suc)
  then show ?thesis by (simp add: binary_range_0 binary_range_eq del: power_Suc vec_of.simps)
qed

theorem binary_range_counts_witness:
  "length (binary_range 2) = 4 \<and> bin2int (binary_range 2 ! 3) = Inr 3"
  using binary_range_counts [of 1] by (simp add: numeral_2_eq_2)

text \<open>The Gray codes of two successive naturals differ in exactly one bit.\<close>

theorem gray_encode_adjacent:
  "\<exists>k. gray_encode (int m) XOR gray_encode (int m + 1) = 2 ^ k"
  by (rule gray_adjacent) simp

end
