(* ===== verification/RadSequence.thy ===== *)
theory RadSequence
  imports PyString
begin

text \<open>
  The sequence helpers of \<open>bindings/python/rad_util.py\<close>: \<open>reverse\<close>,
  \<open>transpose\<close>, \<open>permutations\<close>, \<open>uniquify\<close>, \<open>reverse_dict\<close>,
  \<open>find_common_fixes\<close>, \<open>is_rotated\<close> and \<open>get_args\<close>.  Loops over an index are
  recursions on that index, a subscript that may be out of range is
  \<open>py_index\<close>, and the dictionary that \<open>uniquify\<close> uses as a set is the
  insertion-ordered dictionary of the prelude.
\<close>

section \<open>Reversal and transposition\<close>

definition reverse :: "string \<Rightarrow> string" where
  "reverse input_string = List.rev input_string"

text \<open>\<open>zip(*matrix)\<close> stops at the shortest row.\<close>

function zip_star :: "'a list list \<Rightarrow> 'a list list" where
  "zip_star matrix =
     (if matrix = [] \<or> [] \<in> set matrix then []
      else List.map hd matrix # zip_star (List.map tl matrix))"
  by pat_completeness auto
termination
  by (relation "measure (\<lambda>m. length (hd m))") (auto simp: hd_map neq_Nil_conv)

declare zip_star.simps [simp del]

definition rad_transpose :: "'a list list \<Rightarrow> 'a list list" where
  "rad_transpose matrix = zip_star matrix"

section \<open>Permutations\<close>

definition insert_at :: "nat \<Rightarrow> 'a \<Rightarrow> 'a list \<Rightarrow> 'a list" where
  "insert_at i x xs = take i xs @ x # drop i xs"

function permutations :: "'a list \<Rightarrow> 'a list list" where
  "permutations input_list =
     (if length input_list > 1
      then concat (List.map
             (\<lambda>sub_list. List.map (\<lambda>i. insert_at i (hd input_list) sub_list)
                                   [0..<length input_list])
             (permutations (tl input_list)))
      else [input_list])"
  by pat_completeness auto
termination
  by (relation "measure length") auto

declare permutations.simps [simp del]

section \<open>Removing duplicates and inverting a dictionary\<close>

text \<open>
  A dictionary raises \<open>TypeError\<close> for an unhashable key, which is what selects
  the slow algorithm.  \<open>hashable\<close> says which items the interpreter can hash.
\<close>

fun uniquify_fast :: "('a \<Rightarrow> bool) \<Rightarrow> 'a list \<Rightarrow> ('a, int) dict \<Rightarrow> 'a list py_result" where
  "uniquify_fast hashable [] d = Inr []"
| "uniquify_fast hashable (x # xs) d =
     (if \<not> hashable x then Inl TypeError
      else if \<not> dhas d x
      then rbind (uniquify_fast hashable xs (dset x 0 d)) (\<lambda>ys. Inr (x # ys))
      else uniquify_fast hashable xs d)"

fun uniquify_keys :: "('a \<Rightarrow> bool) \<Rightarrow> 'a list \<Rightarrow> ('a, int) dict \<Rightarrow> 'a list py_result" where
  "uniquify_keys hashable [] d = Inr (dkeys d)"
| "uniquify_keys hashable (x # xs) d =
     (if \<not> hashable x then Inl TypeError else uniquify_keys hashable xs (dset x 0 d))"

fun uniquify_slow :: "'a list \<Rightarrow> 'a list \<Rightarrow> 'a list" where
  "uniquify_slow [] result = result"
| "uniquify_slow (x # xs) result =
     uniquify_slow xs (if x \<in> set result then result else result @ [x])"

definition uniquify :: "('a \<Rightarrow> bool) \<Rightarrow> 'a list \<Rightarrow> bool \<Rightarrow> 'a list py_result" where
  "uniquify hashable sq preserve_order =
     (case (if preserve_order then uniquify_fast hashable sq []
            else uniquify_keys hashable sq []) of
        Inr r \<Rightarrow> Inr r
      | Inl e \<Rightarrow> (if e = TypeError then Inr (uniquify_slow sq []) else Inl e))"

fun reverse_dict_loop :: "('k \<times> 'v) list \<Rightarrow> ('v, 'k) dict \<Rightarrow> ('v, 'k) dict" where
  "reverse_dict_loop [] result = result"
| "reverse_dict_loop ((key, v) # items) result = reverse_dict_loop items (dset v key result)"

definition reverse_dict :: "('k, 'v) dict \<Rightarrow> ('v, 'k) dict" where
  "reverse_dict d = reverse_dict_loop d []"

section \<open>Common prefix and suffix\<close>

function common_prefix_loop :: "'a list \<Rightarrow> 'a list \<Rightarrow> nat \<Rightarrow> nat \<Rightarrow> 'a list \<Rightarrow> 'a list" where
  "common_prefix_loop s1 s2 common_len i pre =
     (if i < common_len
      then (if s1 ! i \<noteq> s2 ! i then pre
            else common_prefix_loop s1 s2 common_len (i + 1) (pre @ [s1 ! i]))
      else pre)"
  by pat_completeness auto
termination
  by (relation "measure (\<lambda>(s1, s2, n, i, p). n - i)") auto

text \<open>Here \<open>s1[-i]\<close> is element \<open>len(s1) - i\<close>.\<close>

function common_suffix_loop :: "'a list \<Rightarrow> 'a list \<Rightarrow> nat \<Rightarrow> nat \<Rightarrow> 'a list \<Rightarrow> 'a list" where
  "common_suffix_loop s1 s2 common_len i suf =
     (if i < common_len + 1
      then (if s1 ! (length s1 - i) \<noteq> s2 ! (length s2 - i) then suf
            else common_suffix_loop s1 s2 common_len (i + 1) (suf @ [s1 ! (length s1 - i)]))
      else suf)"
  by pat_completeness auto
termination
  by (relation "measure (\<lambda>(s1, s2, n, i, p). n + 1 - i)") auto

declare common_prefix_loop.simps [simp del] common_suffix_loop.simps [simp del]

definition find_common_fixes :: "'a list \<Rightarrow> 'a list \<Rightarrow> 'a list \<times> 'a list" where
  "find_common_fixes s1 s2 =
     (let common_len = min (length s1) (length s2);
          pre = common_prefix_loop s1 s2 common_len 0 [];
          suf = common_suffix_loop s1 s2 common_len 1 []
      in (pre, List.rev suf))"

section \<open>Rotations\<close>

definition is_rotated :: "'a list \<Rightarrow> 'a list \<Rightarrow> bool py_result" where
  "is_rotated seq1 seq2 =
     (if length seq1 \<noteq> length seq2 then Inr False
      else rbind (py_index seq2 0) (\<lambda>head_item.
        let start_indexes = List.filter (\<lambda>i. seq1 ! i = head_item) [0..<length seq1];
            double_seq1 = seq1 @ seq1
        in Inr (\<exists>i \<in> set start_indexes.
                  take (length seq1) (drop i double_seq1) = seq2)))"

section \<open>Command-line arguments\<close>

fun lstrip_dashes :: "string \<Rightarrow> string" where
  "lstrip_dashes [] = []"
| "lstrip_dashes (c # cs) = (if c = CHR ''-'' then lstrip_dashes cs else c # cs)"

datatype arg_value = ANone | AStr string | AList "string list"

fun get_args_loop :: "string list \<Rightarrow> (string, arg_value) dict \<Rightarrow> string list
    \<Rightarrow> (string, arg_value) dict \<times> string list" where
  "get_args_loop [] d args = (d, args)"
| "get_args_loop (arg # rest) d args =
     (if prefix ''-'' arg
      then (let parts = str_split (CHR ''='') (lstrip_dashes arg)
            in if length parts = 2
               then get_args_loop rest (dset (parts ! 0) (AStr (parts ! 1)) d) args
               else get_args_loop rest (dset (parts ! 0) ANone d) args)
      else get_args_loop rest d (args @ [arg]))"

definition get_args :: "string list \<Rightarrow> (string, arg_value) dict" where
  "get_args argv = (let (d, args) = get_args_loop argv [] [] in dset ''args'' (AList args) d)"


section \<open>Rotations: the test decides the relation\<close>

lemma take_drop_double: "i < length xs \<Longrightarrow> take (length xs) (drop i (xs @ xs)) = rotate i xs"
  by (simp add: rotate_drop_take)

lemma is_rotated_eq:
  "is_rotated xs ys =
     (if xs = [] \<and> ys = [] then Inl IndexError else Inr (\<exists>n. ys = rotate n xs))"
proof (cases "length xs = length ys \<and> ys \<noteq> []")
  case True
  then obtain y ys' where ys: "ys = y # ys'" by (cases ys) auto
  have ne: "xs \<noteq> []" using True by auto
  have "(\<exists>i \<in> set (List.filter (\<lambda>i. xs ! i = y) [0..<length xs]).
            take (length xs) (drop i (xs @ xs)) = ys) \<longleftrightarrow> (\<exists>n. ys = rotate n xs)"
    (is "?l \<longleftrightarrow> ?r")
  proof
    assume ?l
    then show ?r by (auto simp: take_drop_double simp del: drop_append take_append)
  next
    assume ?r
    then obtain n where n: "ys = rotate n xs" by blast
    define i where "i = n mod length xs"
    have i: "i < length xs" "ys = rotate i xs"
      using ne n by (auto simp: i_def rotate_conv_mod [of n])
    have "xs ! i = y"
      using hd_rotate_conv_nth [OF ne, of i] i ys by (metis list.sel(1) mod_less)
    then show ?l using i
      by (intro bexI [of _ i]) (auto simp: take_drop_double simp del: drop_append take_append)
  qed
  then show ?thesis
    using True ne by (simp add: is_rotated_def ys py_simps)
next
  case False
  then show ?thesis
    by (auto simp: is_rotated_def py_index_def dest: arg_cong [where f = length])
qed

lemma is_rotated_Inr: "ys \<noteq> [] \<Longrightarrow> is_rotated xs ys = Inr (\<exists>n. ys = rotate n xs)"
  by (simp add: is_rotated_eq)

section \<open>Permutations: each exactly as often as its insertion points\<close>

lemma mset_insert_at [simp]: "mset (insert_at i x xs) = add_mset x (mset xs)"
  unfolding insert_at_def by (metis append_take_drop_id mset_append mset.simps(2) union_mset_add_mset_right)

lemma permutations_Cons:
  "xs \<noteq> [] \<Longrightarrow> permutations (x # xs) =
     concat (List.map (\<lambda>p. List.map (\<lambda>i. insert_at i x p) [0..<Suc (length xs)]) (permutations xs))"
  by (subst permutations.simps) simp

lemma permutations_short: "length xs \<le> 1 \<Longrightarrow> permutations xs = [xs]"
  by (subst permutations.simps) simp

lemma permutations_induct [case_names short step]:
  assumes "\<And>xs. length xs \<le> 1 \<Longrightarrow> P xs"
    and "\<And>x xs. xs \<noteq> [] \<Longrightarrow> P xs \<Longrightarrow> P (x # xs)"
  shows "P (xs :: 'a list)"
proof (induction xs)
  case Nil
  then show ?case by (simp add: assms(1))
next
  case (Cons x xs)
  then show ?case by (cases "xs = []") (auto intro: assms)
qed

lemma set_permutations: "set (permutations xs) = {p. mset p = mset xs}"
proof (induction xs rule: permutations_induct)
  case (short xs)
  then have "xs = [] \<or> (\<exists>x. xs = [x])" by (cases xs) auto
  then show ?case by (auto simp: permutations_short)
next
  case (step x xs)
  have "p \<in> set (permutations (x # xs))" if p: "mset p = mset (x # xs)" for p
  proof -
    have "x \<in> set p" using p by (metis list.set_intros(1) set_mset_mset)
    then obtain ys zs where yz: "p = ys @ x # zs" by (meson split_list)
    then have "mset (ys @ zs) = mset xs" using p by simp
    then have m: "ys @ zs \<in> set (permutations xs)" "length (ys @ zs) = length xs"
      using step.IH by (simp, metis size_mset)
    then have "p = insert_at (length ys) x (ys @ zs)" "length ys < Suc (length xs)"
      by (auto simp: yz insert_at_def)
    then show ?thesis
      unfolding permutations_Cons [OF step.hyps] using m(1)
      by (auto simp del: upt_Suc intro!: bexI [of _ "ys @ zs"] image_eqI [of _ _ "length ys"])
  qed
  moreover have "mset p = mset (x # xs)" if "p \<in> set (permutations (x # xs))" for p
    using that step.IH unfolding permutations_Cons [OF step.hyps]
    by (auto simp del: upt_Suc)
  ultimately show ?case by blast
qed

lemma length_permutations: "length (permutations xs) = fact (length xs)"
proof (induction xs rule: permutations_induct)
  case (short xs)
  then show ?case by (cases xs) (auto simp: permutations_short)
next
  case (step x xs)
  have "length (permutations (x # xs)) = Suc (length xs) * length (permutations xs)"
    unfolding permutations_Cons [OF step.hyps] length_concat map_map o_def length_map length_upt
    by (simp add: sum_list_triv algebra_simps)
  then show ?case using step.IH by simp
qed

section \<open>Duplicates: both algorithms keep the first occurrences\<close>

definition first_occurrences :: "'a list \<Rightarrow> 'a list" where
  "first_occurrences xs = rev (remdups (rev xs))"

lemma first_occurrences_snoc [py_simps]:
  "first_occurrences (xs @ [x]) =
     (if x \<in> set xs then first_occurrences xs else first_occurrences xs @ [x])"
  by (simp add: first_occurrences_def)

lemma set_first_occurrences [simp]: "set (first_occurrences xs) = set xs"
  by (simp add: first_occurrences_def)

lemma distinct_first_occurrences [simp]: "distinct (first_occurrences xs)"
  by (simp add: first_occurrences_def)

lemma first_occurrences_Nil [simp]: "first_occurrences [] = []"
  by (simp add: first_occurrences_def)

lemma uniquify_slow_eq:
  "uniquify_slow ys (first_occurrences xs) = first_occurrences (xs @ ys)"
proof (induction ys arbitrary: xs)
  case Nil
  then show ?case by simp
next
  case (Cons y ys)
  show ?case using Cons [of "xs @ [y]"] by (simp add: py_simps split: if_splits)
qed

lemma uniquify_keys_eq:
  assumes "dkeys d = first_occurrences xs" "\<forall>y \<in> set ys. hashable y"
  shows "uniquify_keys hashable ys d = Inr (first_occurrences (xs @ ys))"
  using assms
proof (induction ys arbitrary: xs d)
  case Nil
  then show ?case by simp
next
  case (Cons y ys)
  have "dkeys (dset y 0 d) = first_occurrences (xs @ [y])"
    using Cons.prems(1) set_first_occurrences [of xs] mem_dkeys [of y d]
    by (simp only: dkeys_dset_cases first_occurrences_snoc)
  then show ?case using Cons.IH [of "dset y 0 d" "xs @ [y]"] Cons.prems by simp
qed

lemma uniquify_fast_eq:
  assumes "\<forall>x. dhas d x \<longleftrightarrow> x \<in> set xs" "\<forall>y \<in> set ys. hashable y"
  shows "\<exists>zs. uniquify_fast hashable ys d = Inr zs \<and>
           first_occurrences xs @ zs = first_occurrences (xs @ ys)"
  using assms
proof (induction ys arbitrary: xs d)
  case Nil
  then show ?case by simp
next
  case (Cons y ys)
  show ?case
  proof (cases "dhas d y")
    case True
    then show ?thesis
      using Cons.IH [of d "xs @ [y]"] Cons.prems by (auto simp: py_simps)
  next
    case False
    then have new: "y \<notin> set xs" using Cons.prems(1) by blast
    have "\<forall>x. dhas (dset y 0 d) x \<longleftrightarrow> x \<in> set (xs @ [y])"
    proof
      fix x
      show "dhas (dset y 0 d) x \<longleftrightarrow> x \<in> set (xs @ [y])"
        using spec [OF Cons.prems(1), of x] by (simp only: dget_dset) simp
    qed
    from Cons.IH [OF this] Cons.prems(2) obtain zs where
      "uniquify_fast hashable ys (dset y 0 d) = Inr zs"
      "first_occurrences (xs @ [y]) @ zs = first_occurrences ((xs @ [y]) @ ys)" by auto
    then show ?thesis
      using False new Cons.prems(2) by (intro exI [of _ "y # zs"]) (simp add: first_occurrences_snoc)
  qed
qed

lemma uniquify_unhashable:
  assumes "\<exists>y \<in> set ys. \<not> hashable y"
  shows "uniquify_fast hashable ys d = Inl TypeError" "uniquify_keys hashable ys d = Inl TypeError"
  using assms by (induction ys arbitrary: d) auto

lemma uniquify_eq: "uniquify hashable sq preserve_order = Inr (first_occurrences sq)"
proof (cases "\<forall>y \<in> set sq. hashable y")
  case True
  then show ?thesis
    using uniquify_fast_eq [of "[]" "[]" sq hashable] uniquify_keys_eq [of "[]" "[]" sq hashable]
    by (auto simp: uniquify_def)
next
  case False
  then show ?thesis
    using uniquify_unhashable [of sq hashable "[]"] uniquify_slow_eq [of sq "[]"]
    by (simp add: uniquify_def)
qed

section \<open>Inverting a dictionary\<close>

lemma reverse_dict_loop_eq:
  "reverse_dict_loop items r = fold (\<lambda>(k, v). dset k v) (List.map prod.swap items) r"
  by (induction items r rule: reverse_dict_loop.induct) auto

lemma dget_reverse_dict: "dget (reverse_dict d) = map_of (rev (List.map prod.swap d))"
  using pydict.get_fold_put [of "List.map prod.swap d" "[]"]
  by (simp add: reverse_dict_def reverse_dict_loop_eq)

lemma dict_wf_reverse_dict [simp]: "dict_wf (reverse_dict d)"
  unfolding reverse_dict_def reverse_dict_loop_eq by (rule pydict.wf_fold_put) simp

lemma fold_dset_fresh:
  assumes "distinct (dkeys r @ dkeys items)"
  shows "fold (\<lambda>(k, v). dset k v) items r = r @ items"
  using assms
proof (induction items arbitrary: r)
  case Nil
  then show ?case by simp
next
  case (Cons kv items)
  obtain k v where kv: "kv = (k, v)" by fastforce
  have "dset k v r = r @ [(k, v)]" using Cons.prems kv by (intro dset_absent) (auto simp: map_of_eq_None_iff)
  then show ?case using Cons kv by auto
qed

lemma reverse_dict_distinct:
  "distinct (List.map snd d) \<Longrightarrow> reverse_dict d = List.map prod.swap d"
  using fold_dset_fresh [of "[]" "List.map prod.swap d"]
  by (simp add: reverse_dict_def reverse_dict_loop_eq o_def prod.swap_def)

lemma reverse_dict_involution:
  "dict_wf d \<Longrightarrow> distinct (List.map snd d) \<Longrightarrow> reverse_dict (reverse_dict d) = d"
  by (simp add: reverse_dict_distinct o_def prod.swap_def)

section \<open>Common fixes: the longest ones\<close>

lemma lcp_unfold:
  "longest_common_prefix xs ys =
     (if xs \<noteq> [] \<and> ys \<noteq> [] \<and> hd xs = hd ys
      then hd xs # longest_common_prefix (tl xs) (tl ys) else [])"
  by (cases xs; cases ys) auto

lemma common_prefix_loop_eq:
  "n = min (length s1) (length s2) \<Longrightarrow>
   common_prefix_loop s1 s2 n i pre = pre @ longest_common_prefix (drop i s1) (drop i s2)"
proof (induction s1 s2 n i pre rule: common_prefix_loop.induct)
  case (1 s1 s2 n i pre)
  show ?case
    using 1 by (subst common_prefix_loop.simps, subst lcp_unfold)
      (auto simp: hd_drop_conv_nth drop_Suc [symmetric] tl_drop)
qed

lemma common_suffix_loop_eq:
  "n = min (length s1) (length s2) \<Longrightarrow> 0 < i \<Longrightarrow>
   common_suffix_loop s1 s2 n i suf =
     suf @ longest_common_prefix (drop (i - 1) (rev s1)) (drop (i - 1) (rev s2))"
proof (induction s1 s2 n i suf rule: common_suffix_loop.induct)
  case (1 s1 s2 n i suf)
  show ?case
  proof (cases "i < n + 1")
    case True
    then have "rev s1 ! (i - 1) = s1 ! (length s1 - i)" "rev s2 ! (i - 1) = s2 ! (length s2 - i)"
      "i - 1 < length s1" "i - 1 < length s2"
      using 1 by (auto simp: rev_nth)
    moreover have "tl (drop (i - 1) (rev s)) = drop i (rev s)" for s :: "'a list"
      using 1(3) by (metis Suc_diff_1 drop_Suc tl_drop)
    ultimately show ?thesis
      using 1 True by (subst common_suffix_loop.simps, subst lcp_unfold)
        (auto simp: hd_drop_conv_nth)
  next
    case False
    then have "drop (i - 1) (rev s1) = [] \<or> drop (i - 1) (rev s2) = []"
      using 1 by auto
    then show ?thesis using False by (subst common_suffix_loop.simps, subst lcp_unfold) auto
  qed
qed

lemma find_common_fixes_eq:
  "find_common_fixes s1 s2 =
     (longest_common_prefix s1 s2, rev (longest_common_prefix (rev s1) (rev s2)))"
  by (simp add: find_common_fixes_def Let_def common_prefix_loop_eq common_suffix_loop_eq)

section \<open>Transposition\<close>

lemma zip_star_rect:
  assumes "m \<noteq> []" "\<forall>row \<in> set m. length row = n"
  shows "zip_star m = List.map (\<lambda>j. List.map (\<lambda>row. row ! j) m) [0..<n]"
  using assms
proof (induction n arbitrary: m)
  case 0
  then show ?case by (subst zip_star.simps) (auto simp: neq_Nil_conv)
next
  case (Suc n)
  have ne: "[] \<notin> set m" using Suc.prems by auto
  have "zip_star (List.map tl m) = List.map (\<lambda>j. List.map (\<lambda>row. row ! j) (List.map tl m)) [0..<n]"
    using Suc.prems by (intro Suc.IH) auto
  moreover have "tl row ! j = row ! Suc j" if "row \<in> set m" for row j
    using that ne by (metis nth_tl Suc_less_eq list.exhaust_sel nth_Cons_Suc)
  moreover have "hd row = row ! 0" if "row \<in> set m" for row
    using that ne by (metis hd_conv_nth)
  ultimately show ?case
    using Suc.prems ne
    by (subst zip_star.simps) (simp add: map_upt_Suc o_def cong: map_cong del: upt_Suc)
qed

lemma transpose_involution:
  assumes "m \<noteq> []" "\<forall>row \<in> set m. length row = n" "0 < n"
  shows "rad_transpose (rad_transpose m) = m"
proof -
  define t where "t = rad_transpose m"
  have t: "t = List.map (\<lambda>j. List.map (\<lambda>row. row ! j) m) [0..<n]"
    using assms by (simp add: t_def rad_transpose_def zip_star_rect)
  have "zip_star t = List.map (\<lambda>i. List.map (\<lambda>row. row ! i) t) [0..<length m]"
    using assms by (intro zip_star_rect) (auto simp: t)
  also have "\<dots> = List.map (\<lambda>i. m ! i) [0..<length m]"
  proof (rule map_cong [OF refl])
    fix i assume "i \<in> set [0..<length m]"
    then have "length (m ! i) = n" "i < length m" using assms by auto
    then have "List.map (\<lambda>row. row ! i) t = List.map (\<lambda>j. m ! i ! j) [0..<length (m ! i)]"
      by (simp add: t o_def)
    also have "\<dots> = m ! i" by (rule map_nth)
    finally show "List.map (\<lambda>row. row ! i) t = m ! i" .
  qed
  finally show ?thesis by (simp add: map_nth rad_transpose_def t_def)
qed

section \<open>Command-line arguments\<close>

lemma get_args_loop_args:
  "snd (get_args_loop argv d args) = args @ List.filter (\<lambda>a. \<not> prefix ''-'' a) argv"
  by (induction argv d args rule: get_args_loop.induct) (auto simp: Let_def)

lemma get_args_positional:
  "dget (get_args argv) ''args'' = Some (AList (List.filter (\<lambda>a. \<not> prefix ''-'' a) argv))"
  using get_args_loop_args [of argv "[]" "[]"]
  by (cases "get_args_loop argv [] []") (simp add: get_args_def dict_simps)


section \<open>Properties\<close>

text \<open>C16. \<open>permutations\<close> returns exactly the rearrangements of its argument, and
  factorially many of them counted with repetition.\<close>

theorem permutations_complete:
  "set (permutations xs) = {p. mset p = mset xs} \<and> length (permutations xs) = fact (length xs)"
  by (simp add: set_permutations length_permutations)

text \<open>\<open>uniquify\<close> never raises, and returns the first occurrence of each item in
  order, whichever of its algorithms the hashability of the items selects.\<close>

theorem uniquify_first_occurrences:
  "uniquify hashable sq preserve_order = Inr (rev (remdups (rev sq)))"
  by (simp add: uniquify_eq first_occurrences_def)

end
