(* ===== verification/Topsort.thy ===== *)
theory Topsort
  imports RadSequence
begin

text \<open>
  \<open>bindings/python/topsort.py\<close>: the dependency sort of (parent, child) pairs,
  the same sort by levels, and the search for cycles.  The two dictionaries of
  the source are insertion-ordered dictionaries; the list \<open>answer\<close> that grows
  while it is traversed is split into the part already traversed and the part
  still to come.  \<open>has_key\<close> is membership.
\<close>

datatype 'a topsort_error =
    PyErr py_error
  | CycleError "'a list" "('a, int) dict" "('a, 'a list) dict"

section \<open>The two dictionaries\<close>

definition ensure_key :: "'a \<Rightarrow> ('a, int) dict \<Rightarrow> ('a, int) dict" where
  "ensure_key x np = (if dhas np x then np else dset x 0 np)"

definition add_pair :: "'a \<times> 'a \<Rightarrow> ('a, int) dict \<times> ('a, 'a list) dict
    \<Rightarrow> ('a, int) dict \<times> ('a, 'a list) dict" where
  "add_pair pc st =
     (let (parent, child) = pc; (num_parents, children) = st;
          num_parents = ensure_key child (ensure_key parent num_parents);
          num_parents = dset child (dget_default num_parents child 0 + 1) num_parents;
          children = dset parent (dget_default children parent [] @ [child]) children
      in (num_parents, children))"

definition count_pairs :: "('a \<times> 'a) list \<Rightarrow> ('a, int) dict \<times> ('a, 'a list) dict" where
  "count_pairs pairlist = fold add_pair pairlist ([], [])"

definition parentless :: "('a, int) dict \<Rightarrow> 'a list" where
  "parentless np = List.filter (\<lambda>x. dget np x = Some 0) (dkeys np)"

section \<open>Sorting\<close>

text \<open>The loop over the children of one parent: \<open>num_parents[child] -= 1\<close> raises
  for an absent child.\<close>

fun knock_down :: "'a list \<Rightarrow> ('a, int) dict \<Rightarrow> 'a list \<Rightarrow> (('a, int) dict \<times> 'a list) py_result" where
  "knock_down [] np pending = Inr (np, pending)"
| "knock_down (child # cs) np pending =
     (case dget np child of
        None \<Rightarrow> Inl KeyError
      | Some n \<Rightarrow> knock_down cs (dset child (n - 1) np)
                    (if n - 1 = 0 then pending @ [child] else pending))"

lemma knock_down_length:
  "knock_down cs np pending = Inr (np', pending') \<Longrightarrow> length np' = length np"
  by (induction cs np pending rule: knock_down.induct)
    (auto simp: length_dset_present split: option.splits if_splits)

function topsort_loop :: "'a list \<Rightarrow> 'a list \<Rightarrow> ('a, int) dict \<Rightarrow> ('a, 'a list) dict
    \<Rightarrow> 'a topsort_error + 'a list" where
  "topsort_loop finished [] np ch =
     (if np \<noteq> [] then Inl (CycleError finished np ch) else Inr finished)"
| "topsort_loop finished (parent # pending) np ch =
     (case dget np parent of
        None \<Rightarrow> Inl (PyErr KeyError)
      | Some n \<Rightarrow> (let np = ddel parent np
            in (case dget ch parent of
                  None \<Rightarrow> topsort_loop (finished @ [parent]) pending np ch
                | Some cs \<Rightarrow>
                    (case knock_down cs np pending of
                       Inl e \<Rightarrow> Inl (PyErr e)
                     | Inr (np, pending) \<Rightarrow>
                         topsort_loop (finished @ [parent]) pending np (ddel parent ch)))))"
  by pat_completeness auto
termination
  by (relation "measure (\<lambda>(a, p, np, ch). length np)")
    (auto simp: length_ddel_present dest!: knock_down_length)

definition topsort :: "('a \<times> 'a) list \<Rightarrow> 'a topsort_error + 'a list" where
  "topsort pairlist =
     (let (num_parents, children) = count_pairs pairlist
      in topsort_loop [] (parentless num_parents) num_parents children)"

section \<open>Sorting by levels\<close>

text \<open>
  A generator is the list of what it yields together with how it ends:
  \<open>Stop\<close> for \<open>StopIteration\<close>.
\<close>

datatype 'a level_end =
    Stop
  | LevelFailed py_error
  | LevelCycle "('a, int) dict" "('a, 'a list) dict"

fun level_knock :: "'a list \<Rightarrow> ('a, int) dict \<Rightarrow> ('a, int) dict py_result" where
  "level_knock [] np = Inr np"
| "level_knock (child # cs) np =
     (case dget np child of
        None \<Rightarrow> Inl KeyError
      | Some n \<Rightarrow> level_knock cs (dset child (n - 1) np))"

fun level_loop :: "'a list \<Rightarrow> ('a, int) dict \<Rightarrow> ('a, 'a list) dict
    \<Rightarrow> (('a, int) dict \<times> ('a, 'a list) dict) py_result" where
  "level_loop [] np ch = Inr (np, ch)"
| "level_loop (level_parent # ps) np ch =
     (case dget np level_parent of
        None \<Rightarrow> Inl KeyError
      | Some n \<Rightarrow> (let np = ddel level_parent np
            in (case dget ch level_parent of
                  None \<Rightarrow> level_loop ps np ch
                | Some cs \<Rightarrow> rbind (level_knock cs np) (\<lambda>np.
                    level_loop ps np (ddel level_parent ch)))))"

lemma level_knock_length: "level_knock cs np = Inr np' \<Longrightarrow> length np' = length np"
  by (induction cs np rule: level_knock.induct)
    (auto simp: length_dset_present split: option.splits)

lemma level_loop_length:
  "level_loop ps np ch = Inr (np', ch') \<Longrightarrow> length np' + length ps \<le> length np"
proof (induction ps np ch rule: level_loop.induct)
  case (1 np ch)
  then show ?case by simp
next
  case (2 p ps np ch)
  then obtain n where has: "dget np p = Some n" by (auto split: option.splits)
  note less = length_ddel_present [OF has]
  show ?case
  proof (cases "dget ch p")
    case None
    then show ?thesis using 2 has less by (fastforce simp: Let_def)
  next
    case (Some cs)
    then obtain np1 where "level_knock cs (ddel p np) = Inr np1"
      "level_loop ps np1 (ddel p ch) = Inr (np', ch')"
      using 2(3) has by (auto simp: Let_def py_simps)
    then show ?thesis
      using 2(2) [OF has refl Some, of np1] less level_knock_length by fastforce
  qed
qed

function topsort_levels_core :: "('a, int) dict \<Rightarrow> ('a, 'a list) dict
    \<Rightarrow> 'a list list \<times> 'a level_end" where
  "topsort_levels_core num_parents children =
     (let level_parents = parentless num_parents
      in if level_parents = []
         then ([], if num_parents \<noteq> [] then LevelCycle num_parents children else Stop)
         else (case level_loop level_parents num_parents children of
                 Inl e \<Rightarrow> ([level_parents], LevelFailed e)
               | Inr (np, ch) \<Rightarrow>
                   (let (levels, last_state) = topsort_levels_core np ch
                    in (level_parents # levels, last_state))))"
  by pat_completeness auto
termination
proof (relation "measure (\<lambda>(np, ch). length np)")
  fix np :: "('a, int) dict" and ch lp r np' ch'
  assume "lp = parentless np" "lp \<noteq> []" "level_loop lp np ch = Inr r" "(np', ch') = r"
  then have "length np' + length lp \<le> length np" using level_loop_length by metis
  then show "((np', ch'), np, ch) \<in> measure (\<lambda>(np, ch). length np)"
    using \<open>lp \<noteq> []\<close> by (cases lp) auto
qed simp

declare topsort_levels_core.simps [simp del]

definition topsort_levels :: "('a \<times> 'a) list \<Rightarrow> 'a list list \<times> 'a level_end" where
  "topsort_levels pairlist =
     (let (num_parents, children) = count_pairs pairlist
      in topsort_levels_core num_parents children)"

section \<open>Cycles\<close>

text \<open>
  The state of the search: the stack of paths (top first), the visited nodes,
  and the cycles yielded so far.
\<close>

record 'a search =
  stack :: "'a list list"
  visited :: "'a list"
  cycles :: "'a list list"

fun index_of :: "'a list \<Rightarrow> 'a \<Rightarrow> nat" where
  "index_of [] x = 0"
| "index_of (y # ys) x = (if y = x then 0 else Suc (index_of ys x))"

text \<open>The duplicate test stops at the first rotation; \<open>is_rotated\<close> may raise.\<close>

fun is_dup_cycle :: "'a list list \<Rightarrow> 'a list \<Rightarrow> bool py_result" where
  "is_dup_cycle [] cycle = Inr False"
| "is_dup_cycle (other # cs) cycle =
     rbind (is_rotated other cycle) (\<lambda>b. if b then Inr True else is_dup_cycle cs cycle)"

definition visit_child :: "'a list \<Rightarrow> 'a search \<Rightarrow> 'a \<Rightarrow> 'a search py_result" where
  "visit_child path s child =
     (if child \<in> set path
      then (let cycle = drop (index_of path child) path
            in rbind (is_dup_cycle (cycles s) cycle) (\<lambda>is_dup.
                 Inr (if is_dup then s else s\<lparr>cycles := cycles s @ [cycle]\<rparr>)))
      else Inr (s\<lparr>stack := (path @ [child]) # stack s, visited := child # visited s\<rparr>))"


text \<open>
  Every pushed path is longer by a node that it did not contain, so the popped
  path is replaced by paths with fewer nodes left to add.
\<close>

definition child_nodes :: "('a, 'a list) dict \<Rightarrow> 'a set" where
  "child_nodes d = (\<Union>cs \<in> set (List.map snd d). set cs)"

lemma visit_child_stack:
  assumes "foldM (visit_child path) s cs = Inr s'"
  shows "\<exists>new. stack s' = new @ stack s \<and>
     (\<forall>p \<in> set new. \<exists>c \<in> set cs. c \<notin> set path \<and> p = path @ [c]) \<and>
     (\<forall>c \<in> set cs. c \<notin> set path \<longrightarrow> path @ [c] \<in> set new)"
  using assms
proof (induction cs arbitrary: s)
  case Nil
  then show ?case by simp
next
  case (Cons c cs)
  then obtain t where t: "visit_child path s c = Inr t" "foldM (visit_child path) t cs = Inr s'"
    by (auto simp: py_simps)
  from Cons.IH [OF t(2)] obtain new where n: "stack s' = new @ stack t"
     "\<forall>p \<in> set new. \<exists>c \<in> set cs. c \<notin> set path \<and> p = path @ [c]"
     "\<forall>c \<in> set cs. c \<notin> set path \<longrightarrow> path @ [c] \<in> set new" by blast
  show ?case
  proof (cases "c \<in> set path")
    case True
    then have "stack t = stack s" using t(1) by (auto simp: visit_child_def Let_def py_simps)
    then show ?thesis using n True by (intro exI [of _ new]) auto
  next
    case False
    then have "stack t = (path @ [c]) # stack s" using t(1) by (auto simp: visit_child_def)
    then show ?thesis using n False by (intro exI [of _ "new @ [path @ [c]]"]) auto
  qed
qed

function search_loop :: "('a, 'a list) dict \<Rightarrow> 'a search \<Rightarrow> 'a search py_result" where
  "search_loop parent_children s =
     (case stack s of
        [] \<Rightarrow> Inr s
      | path # paths \<Rightarrow>
          (case py_index path (-1) of
             Inl e \<Rightarrow> Inl e
           | Inr parent \<Rightarrow>
               (case dget parent_children parent of
                  None \<Rightarrow> search_loop parent_children (s\<lparr>stack := paths\<rparr>)
                | Some cs \<Rightarrow>
                    (case foldM (visit_child path) (s\<lparr>stack := paths\<rparr>) cs of
                       Inl e \<Rightarrow> Inl e
                     | Inr s' \<Rightarrow> search_loop parent_children s'))))"
  by pat_completeness auto
termination
proof (relation "inv_image (mult less_than)
    (\<lambda>(d, s). mset (List.map (\<lambda>p. card (child_nodes d - set p)) (stack s)))")
  show "wf (inv_image (mult less_than)
    (\<lambda>(d, s). mset (List.map (\<lambda>p. card (child_nodes d - set p)) (stack (s :: 'a search)))))"
    by (intro wf_inv_image wf_mult wf_less_than)
next
  fix d :: "('a, 'a list) dict" and s :: "'a search" and path paths parent
  assume "stack s = path # paths"
  then show "((d, s\<lparr>stack := paths\<rparr>), (d, s)) \<in> inv_image (mult less_than)
    (\<lambda>(d, s). mset (List.map (\<lambda>p. card (child_nodes d - set p)) (stack s)))"
    by (auto intro: subset_implies_mult)
next
  fix d :: "('a, 'a list) dict" and s s' :: "'a search" and path paths parent cs
  assume st: "stack s = path # paths" and d: "dget d parent = Some cs"
    and f: "foldM (visit_child path) (s\<lparr>stack := paths\<rparr>) cs = Inr s'"
  obtain new where new: "stack s' = new @ paths"
     "\<forall>p \<in> set new. \<exists>c \<in> set cs. c \<notin> set path \<and> p = path @ [c]"
    using visit_child_stack [OF f] by auto
  let ?m = "\<lambda>p. card (child_nodes d - set p)"
  have sub: "set cs \<subseteq> child_nodes d"
    using map_of_SomeD [OF d] by (force simp: child_nodes_def)
  have fin: "finite (child_nodes d)" by (simp add: child_nodes_def)
  have "?m p < ?m path" if p: "p \<in> set new" for p
  proof -
    obtain c where c: "c \<in> set cs" "c \<notin> set path" "p = path @ [c]" using new(2) p by blast
    have "child_nodes d - set p \<subset> child_nodes d - set path" using c sub by auto
    then show ?thesis using fin by (intro psubset_card_mono) auto
  qed
  then have "(mset (List.map ?m paths) + mset (List.map ?m new),
      mset (List.map ?m paths) + {#?m path#}) \<in> mult less_than"
    by (intro one_step_implies_mult) auto
  then show "((d, s'), (d, s)) \<in> inv_image (mult less_than)
    (\<lambda>(d, s). mset (List.map (\<lambda>p. card (child_nodes d - set p)) (stack s)))"
    using st new(1) by (simp add: add.commute)
qed

declare search_loop.simps [simp del]

definition search_root :: "('a, 'a list) dict \<Rightarrow> 'a search \<Rightarrow> 'a \<Rightarrow> 'a search py_result" where
  "search_root parent_children s parent =
     (if parent \<in> set (visited s) then Inr s
      else search_loop parent_children (s\<lparr>stack := [[parent]]\<rparr>))"

definition find_cycles :: "('a, 'a list) dict \<Rightarrow> 'a list list py_result" where
  "find_cycles parent_children =
     rbind (foldM (search_root parent_children)
              \<lparr>stack = [], visited = [], cycles = []\<rparr> (dkeys parent_children))
       (\<lambda>s. Inr (cycles s))"

section \<open>What the dictionaries count\<close>

definition nodes :: "('a \<times> 'a) list \<Rightarrow> 'a set" where
  "nodes ps = set (List.map fst ps) \<union> set (List.map snd ps)"

definition kids :: "('a \<times> 'a) list \<Rightarrow> 'a \<Rightarrow> 'a list" where
  "kids ps a = List.map snd (List.filter (\<lambda>(p, c). p = a) ps)"

definition indeg :: "('a \<times> 'a) list \<Rightarrow> 'a \<Rightarrow> int" where
  "indeg ps x = int (length (List.filter (\<lambda>(p, c). c = x) ps))"

definition rest :: "('a \<times> 'a) list \<Rightarrow> 'a list \<Rightarrow> ('a \<times> 'a) list" where
  "rest ps finished = List.filter (\<lambda>(p, c). p \<notin> set finished) ps"

definition counts :: "('a \<times> 'a) list \<Rightarrow> 'a set \<Rightarrow> ('a, int) dict \<Rightarrow> bool" where
  "counts ps X np \<longleftrightarrow> dict_wf np \<and> (\<forall>x. dget np x = (if x \<in> X then Some (indeg ps x) else None))"

definition holds_kids :: "('a \<times> 'a) list \<Rightarrow> ('a, 'a list) dict \<Rightarrow> bool" where
  "holds_kids ps ch \<longleftrightarrow>
     (\<forall>a. dget ch a = (if kids ps a = [] then None else Some (kids ps a)))"

definition parents_first :: "('a \<times> 'a) set \<Rightarrow> 'a list \<Rightarrow> bool" where
  "parents_first E xs \<longleftrightarrow> (\<forall>i < length xs. \<forall>p. (p, xs ! i) \<in> E \<longrightarrow> p \<in> set (take i xs))"

lemma nodes_snoc [simp]: "nodes (ps @ [(p, c)]) = insert p (insert c (nodes ps))"
  by (auto simp: nodes_def)

lemma nodes_pair: "(p, c) \<in> set ps \<Longrightarrow> p \<in> nodes ps \<and> c \<in> nodes ps"
  by (force simp: nodes_def)

lemma indeg_snoc [simp]: "indeg (ps @ [(p, c)]) x = indeg ps x + (if x = c then 1 else 0)"
  by (auto simp: indeg_def)

lemma kids_snoc [simp]: "kids (ps @ [(p, c)]) a = kids ps a @ (if a = p then [c] else [])"
  by (auto simp: kids_def)

lemma indeg_nonneg [simp]: "0 \<le> indeg ps x"
  by (simp add: indeg_def)

lemma indeg_0_iff: "indeg ps x = 0 \<longleftrightarrow> (\<forall>p. (p, x) \<notin> set ps)"
  by (auto simp: indeg_def filter_empty_conv)

lemma indeg_absent: "x \<notin> nodes ps \<Longrightarrow> indeg ps x = 0"
  by (auto simp: indeg_0_iff dest: nodes_pair)

lemma mem_kids [simp]: "c \<in> set (kids ps a) \<longleftrightarrow> (a, c) \<in> set ps"
  by (force simp: kids_def)

lemma rest_Nil [simp]: "rest ps [] = ps"
  by (simp add: rest_def)

lemma mem_rest [simp]: "(p, c) \<in> set (rest ps f) \<longleftrightarrow> (p, c) \<in> set ps \<and> p \<notin> set f"
  by (auto simp: rest_def)

lemma indeg_rest_snoc:
  "x \<notin> set f \<Longrightarrow> indeg (rest ps (f @ [x])) y = indeg (rest ps f) y - int (count_list (kids ps x) y)"
  by (induction ps) (auto simp: indeg_def rest_def kids_def)

lemma kids_rest: "kids (rest ps f) a = (if a \<in> set f then [] else kids ps a)"
  by (induction ps) (auto simp: rest_def kids_def)

lemma count_pairs_snoc: "count_pairs (ps @ [pc]) = add_pair pc (count_pairs ps)"
  by (simp add: count_pairs_def)

lemma count_pairs_counts:
  "count_pairs ps = (np, ch) \<Longrightarrow> counts ps (nodes ps) np \<and> holds_kids ps ch \<and> dict_wf ch"
proof (induction ps arbitrary: np ch rule: rev_induct)
  case Nil
  then show ?case
    by (auto simp: count_pairs_def counts_def holds_kids_def nodes_def kids_def)
next
  case (snoc pc ps)
  obtain p c where pc: "pc = (p, c)" by fastforce
  obtain np0 ch0 where s: "count_pairs ps = (np0, ch0)" by fastforce
  note IH = snoc.IH [OF s]
  let ?np1 = "ensure_key c (ensure_key p np0)"
  have np1: "dict_wf ?np1" "\<And>x. dget ?np1 x = (if x \<in> insert p (insert c (nodes ps)) then Some (indeg ps x) else None)"
    using IH by (auto simp: ensure_key_def counts_def dict_simps indeg_absent)
  have np: "np = dset c (dget_default ?np1 c 0 + 1) ?np1"
    and ch: "ch = dset p (dget_default ch0 p [] @ [c]) ch0"
    using snoc.prems s by (auto simp: count_pairs_snoc pc add_pair_def Let_def)
  have "counts (ps @ [pc]) (nodes (ps @ [pc])) np"
    using np1 by (auto simp: np counts_def pc dict_simps dget_default_def)
  moreover have "holds_kids (ps @ [pc]) ch"
    using IH by (auto simp: ch holds_kids_def pc dict_simps dget_default_def)
  ultimately show ?case using IH by (simp add: ch)
qed

lemma parentless_set: "set (parentless np) = {x. dget np x = Some 0}"
  by (auto simp: parentless_def dict_simps)
    (metis mem_dkeys list.set_map option.distinct(1))

lemma distinct_parentless: "dict_wf np \<Longrightarrow> distinct (parentless np)"
  by (simp add: parentless_def)

lemma parents_first_snoc [simp]:
  "parents_first E (xs @ [x]) \<longleftrightarrow> parents_first E xs \<and> (\<forall>p. (p, x) \<in> E \<longrightarrow> p \<in> set xs)"
  by (auto simp: parents_first_def nth_append less_Suc_eq)

lemma parents_first_Nil [simp]: "parents_first E []"
  by (simp add: parents_first_def)

lemma parents_first_acyclic:
  assumes "parents_first E xs" "Field E \<subseteq> set xs"
  shows "acyclic E"
proof -
  define pos where "pos x = (LEAST i. i < length xs \<and> xs ! i = x)" for x
  have pos: "pos x < length xs \<and> xs ! pos x = x" if "x \<in> set xs" for x
    unfolding pos_def using that by (metis (mono_tags, lifting) LeastI in_set_conv_nth)
  have least: "pos x \<le> i" if "i < length xs" "xs ! i = x" for x i
    unfolding pos_def using that by (simp add: Least_le)
  have "pos p < pos c" if "(p, c) \<in> E" for p c
  proof -
    have c: "c \<in> set xs" using that assms(2) by (auto simp: Field_def)
    have "p \<in> set (take (pos c) xs)"
      using assms(1) pos [OF c] that by (metis parents_first_def)
    then obtain i where "i < pos c" "xs ! i = p" "i < length xs"
      by (auto simp: in_set_conv_nth)
    then show ?thesis using least by (meson le_less_trans)
  qed
  then have "E \<subseteq> measure pos" by auto
  then have "wf E" using wf_measure wf_subset by blast
  then show ?thesis by (rule wf_acyclic)
qed

lemma no_source_cyclic:
  assumes "finite E" "X \<noteq> {}" "\<And>x. x \<in> X \<Longrightarrow> \<exists>p \<in> X. (p, x) \<in> E"
  shows "\<not> acyclic E"
proof
  assume "acyclic E"
  then have "wf E" using assms(1) by (simp add: finite_acyclic_wf)
  then show False using assms(2,3) by (metis wfE_min ex_in_conv)
qed


section \<open>The sort is correct\<close>

lemma knock_down_eq:
  assumes "\<And>c. c \<in> set cs \<Longrightarrow> dget np c \<noteq> None"
    and "\<And>c n. dget np c = Some n \<Longrightarrow> int (count_list cs c) \<le> n"
    and "distinct pending" "\<And>y. y \<in> set pending \<longleftrightarrow> dget np y = Some 0" "dict_wf np"
  shows "\<exists>np' new. knock_down cs np pending = Inr (np', pending @ new) \<and> dict_wf np' \<and>
     (\<forall>y. dget np' y = map_option (\<lambda>n. n - int (count_list cs y)) (dget np y)) \<and>
     distinct (pending @ new) \<and> (\<forall>y. y \<in> set (pending @ new) \<longleftrightarrow> dget np' y = Some 0)"
  using assms
proof (induction cs arbitrary: np pending)
  case Nil
  then show ?case by (auto simp: option.map_ident intro!: exI [of _ "[]"])
next
  case (Cons c cs)
  obtain n where n: "dget np c = Some n" using Cons.prems(1) by fastforce
  have n1: "1 \<le> n" using Cons.prems(2) [OF n] by simp
  define np1 where "np1 = dset c (n - 1) np"
  define p1 where "p1 = (if n - 1 = 0 then pending @ [c] else pending)"
  have cp: "c \<notin> set pending" using Cons.prems(4) [of c] n n1 by simp
  have "\<exists>np' new. knock_down cs np1 p1 = Inr (np', p1 @ new) \<and> dict_wf np' \<and>
     (\<forall>y. dget np' y = map_option (\<lambda>n. n - int (count_list cs y)) (dget np1 y)) \<and>
     distinct (p1 @ new) \<and> (\<forall>y. y \<in> set (p1 @ new) \<longleftrightarrow> dget np' y = Some 0)"
  proof (rule Cons.IH)
    show "dget np1 x \<noteq> None" if "x \<in> set cs" for x
      using Cons.prems(1) [of x] that by (simp add: np1_def dict_simps)
    show "int (count_list cs x) \<le> m" if "dget np1 x = Some m" for x m
    proof (cases "x = c")
      case True
      then show ?thesis using that Cons.prems(2) [OF n] by (simp add: np1_def dict_simps)
    next
      case False
      then show ?thesis using that Cons.prems(2) [of x m] by (simp add: np1_def dict_simps)
    qed
    show "distinct p1" using Cons.prems(3) cp by (simp add: p1_def)
    show "y \<in> set p1 \<longleftrightarrow> dget np1 y = Some 0" for y
      using Cons.prems(4) [of y] cp by (auto simp: p1_def np1_def dict_simps)
    show "dict_wf np1" using Cons.prems(5) by (simp add: np1_def)
  qed
  then obtain np' new where r: "knock_down cs np1 p1 = Inr (np', p1 @ new)" "dict_wf np'"
    "\<forall>y. dget np' y = map_option (\<lambda>n. n - int (count_list cs y)) (dget np1 y)"
    "distinct (p1 @ new)" "\<forall>y. y \<in> set (p1 @ new) \<longleftrightarrow> dget np' y = Some 0"
    by blast
  have eq: "knock_down (c # cs) np pending = Inr (np', p1 @ new)"
    using r(1) n by (simp add: np1_def p1_def)
  have vals: "\<forall>y. dget np' y = map_option (\<lambda>n. n - int (count_list (c # cs) y)) (dget np y)"
    using r(3) n by (auto simp: np1_def dict_simps)
  show ?case
  proof (cases "n - 1 = 0")
    case True
    then have "p1 = pending @ [c]" by (simp add: p1_def)
    then show ?thesis using eq r vals by (intro exI [of _ np'] exI [of _ "c # new"]) simp
  next
    case False
    then have "p1 = pending" by (simp add: p1_def)
    then show ?thesis using eq r vals by (intro exI [of _ np'] exI [of _ new]) simp
  qed
qed

definition sort_inv :: "('a \<times> 'a) list \<Rightarrow> 'a list \<Rightarrow> 'a list \<Rightarrow> ('a, int) dict
    \<Rightarrow> ('a, 'a list) dict \<Rightarrow> bool" where
  "sort_inv ps finished pending np ch \<longleftrightarrow>
     counts (rest ps finished) (nodes ps - set finished) np \<and>
     holds_kids (rest ps finished) ch \<and>
     distinct finished \<and> set finished \<subseteq> nodes ps \<and> parents_first (set ps) finished \<and>
     distinct pending \<and> (\<forall>y. y \<in> set pending \<longleftrightarrow> dget np y = Some 0)"

definition sort_result :: "('a \<times> 'a) list \<Rightarrow> 'a topsort_error + 'a list \<Rightarrow> bool" where
  "sort_result ps r \<longleftrightarrow>
     (case r of
        Inr ans \<Rightarrow> distinct ans \<and> set ans = nodes ps \<and> parents_first (set ps) ans
      | Inl (CycleError ans np ch) \<Rightarrow>
          \<not> acyclic (set ps) \<and> distinct ans \<and> parents_first (set ps) ans \<and>
          set ans \<inter> set (dkeys np) = {} \<and> set ans \<union> set (dkeys np) = nodes ps \<and>
          (\<forall>x \<in> set (dkeys np). \<exists>p \<in> set (dkeys np). (p, x) \<in> set ps)
      | Inl (PyErr e) \<Rightarrow> False)"

lemma counts_keys: "counts ps X np \<Longrightarrow> set (dkeys np) = X"
proof (rule set_eqI)
  fix x assume "counts ps X np"
  then have "dget np x = (if x \<in> X then Some (indeg ps x) else None)" by (simp add: counts_def)
  then show "x \<in> set (dkeys np) \<longleftrightarrow> x \<in> X" by (simp only: mem_dkeys) simp
qed

lemma sort_inv_keys:
  "sort_inv ps finished pending np ch \<Longrightarrow> set (dkeys np) = nodes ps - set finished"
  by (rule counts_keys [of "rest ps finished"]) (simp add: sort_inv_def)

lemma sort_inv_stuck:
  assumes "sort_inv ps finished [] np ch" "x \<in> set (dkeys np)"
  shows "\<exists>p \<in> set (dkeys np). (p, x) \<in> set ps"
proof -
  have keys: "set (dkeys np) = nodes ps - set finished"
    by (rule sort_inv_keys [OF assms(1)])
  have x: "x \<in> nodes ps - set finished" using assms(2) keys by (simp only:)
  have "dget np x = Some (indeg (rest ps finished) x)"
    using assms(1) x by (simp add: sort_inv_def counts_def)
  moreover have "dget np x \<noteq> Some 0" using assms(1) by (simp add: sort_inv_def)
  ultimately have "indeg (rest ps finished) x \<noteq> 0" by auto
  then obtain p where "(p, x) \<in> set ps" "p \<notin> set finished" by (auto simp: indeg_0_iff)
  moreover from this have "p \<in> nodes ps - set finished" using nodes_pair [of p x ps] by simp
  then have "p \<in> set (dkeys np)" by (simp only: keys)
  ultimately show ?thesis by (intro bexI)
qed

lemma sort_inv_end:
  assumes "sort_inv ps finished [] np ch"
  shows "sort_result ps (if np \<noteq> [] then Inl (CycleError finished np ch) else Inr finished)"
proof -
  have keys: "set (dkeys np) = nodes ps - set finished"
    by (rule sort_inv_keys [OF assms])
  have src: "\<forall>x \<in> set (dkeys np). \<exists>p \<in> set (dkeys np). (p, x) \<in> set ps"
    using sort_inv_stuck [OF assms] by blast
  have inv: "distinct finished" "set finished \<subseteq> nodes ps" "parents_first (set ps) finished"
    using assms by (auto simp: sort_inv_def)
  show ?thesis
  proof (cases "np = []")
    case True
    then show ?thesis using keys inv by (simp add: sort_result_def subset_antisym)
  next
    case False
    then have "set (dkeys np) \<noteq> {}" by simp
    then have "\<not> acyclic (set ps)"
    proof (rule no_source_cyclic [OF finite_set])
      fix x assume "x \<in> set (dkeys np)"
      then show "\<exists>p \<in> set (dkeys np). (p, x) \<in> set ps" by (rule bspec [OF src])
    qed
    then show ?thesis using False inv src
      by (simp add: sort_result_def keys Un_absorb1 del: set_map)
  qed
qed


lemma sort_inv_start:
  assumes "count_pairs ps = (np, ch)"
  shows "sort_inv ps [] (parentless np) np ch"
  using count_pairs_counts [OF assms]
  by (simp add: sort_inv_def parentless_set distinct_parentless counts_def)

text \<open>One parent leaves the dictionaries, and its children lose their pairs with it.\<close>

lemma sort_inv_parent:
  assumes inv: "sort_inv ps finished (parent # pending) np ch"
  shows "dget np parent = Some 0"
    and "parent \<in> nodes ps - set finished"
    and "distinct (finished @ [parent])"
    and "parents_first (set ps) (finished @ [parent])"
    and "kids (rest ps finished) parent = kids ps parent"
    and "parent \<notin> set (kids ps parent)"
proof -
  show zero: "dget np parent = Some 0"
    using inv by (metis sort_inv_def list.set_intros(1))
  then show P: "parent \<in> nodes ps - set finished"
    using inv by (auto simp: sort_inv_def counts_def split: if_splits)
  have "indeg (rest ps finished) parent = 0"
    using zero P inv by (auto simp: sort_inv_def counts_def)
  then have "\<And>p. (p, parent) \<in> set ps \<Longrightarrow> p \<in> set finished" by (auto simp: indeg_0_iff)
  then show "parents_first (set ps) (finished @ [parent])" "parent \<notin> set (kids ps parent)"
    using inv P by (auto simp: sort_inv_def)
  show "distinct (finished @ [parent])" using inv P by (simp add: sort_inv_def)
  show "kids (rest ps finished) parent = kids ps parent" using P by (simp add: kids_rest)
qed

lemma sort_inv_step:
  assumes inv: "sort_inv ps finished (parent # pending) np ch"
  shows "(dget ch parent = None \<longrightarrow>
            sort_inv ps (finished @ [parent]) pending (ddel parent np) ch) \<and>
    (\<forall>cs. dget ch parent = Some cs \<longrightarrow>
       (\<exists>np' new. knock_down cs (ddel parent np) pending = Inr (np', pending @ new) \<and>
          sort_inv ps (finished @ [parent]) (pending @ new) np' (ddel parent ch)))"
proof -
  note P = sort_inv_parent [OF inv]
  let ?f = "finished @ [parent]"
  let ?np = "ddel parent np"
  have R: "counts (rest ps finished) (nodes ps - set finished) np" "holds_kids (rest ps finished) ch"
    and pend: "distinct (parent # pending)" "\<And>y. y \<in> set (parent # pending) \<longleftrightarrow> dget np y = Some 0"
    and fin: "set finished \<subseteq> nodes ps"
    using inv by (auto simp: sort_inv_def)
  have kid: "dget ch parent = (if kids ps parent = [] then None else Some (kids ps parent))"
    using R(2) P(5) by (simp add: holds_kids_def)
  have np': "dict_wf ?np" "\<And>x. dget ?np x =
      (if x \<in> nodes ps - set ?f then Some (indeg (rest ps finished) x) else None)"
    using R(1) by (auto simp: counts_def dict_simps)
  have pend': "y \<in> set pending \<longleftrightarrow> dget ?np y = Some 0" for y
    using pend(1) pend(2) [of y] by (auto simp: dict_simps)
  have in_f: "indeg (rest ps ?f) y = indeg (rest ps finished) y - int (count_list (kids ps parent) y)" for y
    using P(2) by (intro indeg_rest_snoc) auto
  show ?thesis
  proof (intro conjI impI allI)
    assume "dget ch parent = None"
    then have nil: "kids ps parent = []" using kid by (simp split: if_splits)
    then have "counts (rest ps ?f) (nodes ps - set ?f) ?np"
      using np' in_f by (simp add: counts_def)
    moreover have "holds_kids (rest ps ?f) ch"
      using R(2) nil by (auto simp: holds_kids_def kids_rest)
    ultimately show "sort_inv ps ?f pending ?np ch"
      using P fin pend(1) pend' by (simp add: sort_inv_def)
  next
    fix cs assume "dget ch parent = Some cs"
    then have cs: "cs = kids ps parent" using kid by (simp split: if_splits)
    have "\<exists>np' new. knock_down cs ?np pending = Inr (np', pending @ new) \<and> dict_wf np' \<and>
       (\<forall>y. dget np' y = map_option (\<lambda>n. n - int (count_list cs y)) (dget ?np y)) \<and>
       distinct (pending @ new) \<and> (\<forall>y. y \<in> set (pending @ new) \<longleftrightarrow> dget np' y = Some 0)"
    proof (rule knock_down_eq)
      fix c assume c: "c \<in> set cs"
      then have "c \<in> nodes ps" "c \<noteq> parent" using nodes_pair [of parent c ps] P(6) cs by auto
      moreover have "c \<notin> set finished"
      proof
        assume "c \<in> set finished"
        then obtain i where i: "i < length finished" "finished ! i = c" by (auto simp: in_set_conv_nth)
        have "(parent, c) \<in> set ps" using c cs by simp
        then have "parent \<in> set (take i finished)"
          using inv i by (auto simp: sort_inv_def parents_first_def)
        then show False using P(2) by (auto dest: in_set_takeD)
      qed
      ultimately show "dget ?np c \<noteq> None" using np'(2) by simp
    next
      fix c n assume "dget ?np c = Some n"
      then have "n = indeg (rest ps finished) c" using np'(2) by (simp split: if_splits)
      then show "int (count_list cs c) \<le> n" using in_f [of c] cs indeg_nonneg [of "rest ps ?f" c] by simp
    qed (use pend(1) pend' np'(1) in auto)
    then obtain np2 new where k: "knock_down cs ?np pending = Inr (np2, pending @ new)" "dict_wf np2"
       "\<forall>y. dget np2 y = map_option (\<lambda>n. n - int (count_list cs y)) (dget ?np y)"
       "distinct (pending @ new)" "\<forall>y. y \<in> set (pending @ new) \<longleftrightarrow> dget np2 y = Some 0"
      by blast
    have "counts (rest ps ?f) (nodes ps - set ?f) np2"
      using k(2,3) np'(2) in_f cs by (simp add: counts_def)
    moreover have "holds_kids (rest ps ?f) (ddel parent ch)"
      using R(2) by (auto simp: holds_kids_def kids_rest dict_simps)
    ultimately have "sort_inv ps ?f (pending @ new) np2 (ddel parent ch)"
      using P fin k(4,5) by (simp add: sort_inv_def)
    then show "\<exists>np' new. knock_down cs ?np pending = Inr (np', pending @ new) \<and>
          sort_inv ps ?f (pending @ new) np' (ddel parent ch)"
      using k(1) by blast
  qed
qed

lemma topsort_loop_result:
  "sort_inv ps finished pending np ch \<Longrightarrow> sort_result ps (topsort_loop finished pending np ch)"
proof (induction finished pending np ch rule: topsort_loop.induct)
  case (1 finished np ch)
  then show ?case using sort_inv_end by fastforce
next
  case (2 finished parent pending np ch)
  note step = sort_inv_step [OF 2(3)]
  have z: "dget np parent = Some 0" by (rule sort_inv_parent(1) [OF 2(3)])
  show ?case
  proof (cases "dget ch parent")
    case None
    then show ?thesis using 2(1) [OF z refl None] step z by (simp add: Let_def)
  next
    case (Some cs)
    then obtain np' new where k: "knock_down cs (ddel parent np) pending = Inr (np', pending @ new)"
      "sort_inv ps (finished @ [parent]) (pending @ new) np' (ddel parent ch)"
      using step by blast
    then show ?thesis using 2(2) [OF z refl Some k(1) refl k(2)] z Some by (simp add: Let_def)
  qed
qed

lemma topsort_result: "sort_result ps (topsort ps)"
  using topsort_loop_result [OF sort_inv_start [of ps]]
  by (simp add: topsort_def split: prod.splits)


section \<open>The levels are the earliest possible\<close>

definition ready :: "('a \<times> 'a) list \<Rightarrow> 'a set \<Rightarrow> 'a set" where
  "ready ps D = {x \<in> nodes ps - D. \<forall>p. (p, x) \<in> set ps \<longrightarrow> p \<in> D}"

fun levels_ok :: "('a \<times> 'a) list \<Rightarrow> 'a set \<Rightarrow> 'a list list \<Rightarrow> bool" where
  "levels_ok ps D [] = True"
| "levels_ok ps D (l # ls) =
     (l \<noteq> [] \<and> distinct l \<and> set l = ready ps D \<and> levels_ok ps (D \<union> set l) ls)"

definition levels_end_ok :: "('a \<times> 'a) list \<Rightarrow> 'a set \<Rightarrow> 'a level_end \<Rightarrow> bool" where
  "levels_end_ok ps D e \<longleftrightarrow>
     (case e of
        Stop \<Rightarrow> D = nodes ps \<and> acyclic (set ps)
      | LevelCycle np ch \<Rightarrow> \<not> acyclic (set ps) \<and> set (dkeys np) = nodes ps - D \<and> ready ps D = {}
      | LevelFailed err \<Rightarrow> False)"

lemma sort_inv_ready: "sort_inv ps finished pending np ch \<Longrightarrow> set pending = ready ps (set finished)"
proof (rule set_eqI)
  fix x assume inv: "sort_inv ps finished pending np ch"
  have "x \<in> set pending \<longleftrightarrow> dget np x = Some 0" using inv by (simp add: sort_inv_def)
  also have "\<dots> \<longleftrightarrow> x \<in> nodes ps - set finished \<and> indeg (rest ps finished) x = 0"
    using inv by (auto simp: sort_inv_def counts_def)
  also have "\<dots> \<longleftrightarrow> x \<in> ready ps (set finished)" by (auto simp: ready_def indeg_0_iff)
  finally show "x \<in> set pending \<longleftrightarrow> x \<in> ready ps (set finished)" .
qed

lemma level_knock_knock_down:
  "knock_down cs np pending = Inr (np', pending') \<Longrightarrow> level_knock cs np = Inr np'"
  by (induction cs np pending rule: knock_down.induct) (auto split: option.splits if_splits)

lemma level_loop_inv:
  "sort_inv ps finished (lv @ extra) np ch \<Longrightarrow>
   \<exists>np' ch' new. level_loop lv np ch = Inr (np', ch') \<and> sort_inv ps (finished @ lv) new np' ch'"
proof (induction lv arbitrary: finished extra np ch)
  case Nil
  then show ?case by auto
next
  case (Cons p lv)
  then have inv: "sort_inv ps finished (p # lv @ extra) np ch" by simp
  note step = sort_inv_step [OF inv]
  have z: "dget np p = Some 0" by (rule sort_inv_parent(1) [OF inv])
  show ?case
  proof (cases "dget ch p")
    case None
    then show ?thesis using step z Cons.IH [of "finished @ [p]" extra "ddel p np" ch] by simp
  next
    case (Some cs)
    then obtain np' new where "knock_down cs (ddel p np) (lv @ extra) = Inr (np', (lv @ extra) @ new)"
      "sort_inv ps (finished @ [p]) (lv @ (extra @ new)) np' (ddel p ch)"
      using step by auto
    then show ?thesis
      using Cons.IH [of "finished @ [p]" "extra @ new" np' "ddel p ch"] z Some
      by (simp add: level_knock_knock_down)
  qed
qed

lemma sort_inv_parentless:
  "sort_inv ps finished pending np ch \<Longrightarrow> sort_inv ps finished (parentless np) np ch"
  by (auto simp: sort_inv_def parentless_set distinct_parentless counts_def)

lemma topsort_levels_core_ok:
  assumes "sort_inv ps finished (parentless np) np ch" "topsort_levels_core np ch = (ls, e)"
  shows "levels_ok ps (set finished) ls \<and> levels_end_ok ps (set finished \<union> set (concat ls)) e"
  using assms
proof (induction np ch arbitrary: finished ls e rule: topsort_levels_core.induct)
  case (1 np ch)
  define lv where "lv = parentless np"
  have rd: "set lv = ready ps (set finished)"
    using sort_inv_ready 1(2) by (simp add: lv_def)
  show ?case
  proof (cases "lv = []")
    case True
    then have "sort_inv ps finished [] np ch" using 1(2) by (simp add: lv_def)
    note E = sort_inv_end [OF this] sort_inv_keys [OF this]
    have r: "ls = []" "e = (if np \<noteq> [] then LevelCycle np ch else Stop)"
      using 1(3) True by (simp_all add: topsort_levels_core.simps [of np ch] lv_def Let_def)
    show ?thesis
    proof (cases "np = []")
      case True
      then have "set finished = nodes ps" "parents_first (set ps) finished"
        using E(1) by (auto simp: sort_result_def)
      moreover from this have "acyclic (set ps)"
        by (intro parents_first_acyclic) (auto simp: Field_def dest: nodes_pair)
      ultimately show ?thesis using r True by (simp add: levels_end_ok_def)
    next
      case False
      then show ?thesis using E r rd \<open>lv = []\<close>
        by (simp add: levels_end_ok_def sort_result_def)
    qed
  next
    case False
    obtain np' ch' new where l: "level_loop lv np ch = Inr (np', ch')"
      "sort_inv ps (finished @ lv) new np' ch'"
      using level_loop_inv [of ps finished lv "[]" np ch] 1(2) by (auto simp: lv_def)
    obtain ls' e' where t: "topsort_levels_core np' ch' = (ls', e')" by fastforce
    have r: "ls = lv # ls'" "e = e'"
      using 1(3) False l(1) t by (simp_all add: topsort_levels_core.simps [of np ch] lv_def Let_def)
    have "levels_ok ps (set (finished @ lv)) ls' \<and>
          levels_end_ok ps (set (finished @ lv) \<union> set (concat ls')) e'"
      using 1(1) [OF lv_def False l(1) refl sort_inv_parentless [OF l(2)] t] .
    moreover have "distinct lv" using 1(2) by (simp add: sort_inv_def lv_def)
    ultimately show ?thesis using r rd False by (simp add: Un_assoc)
  qed
qed

lemma topsort_levels_ok:
  assumes "topsort_levels ps = (ls, e)"
  shows "levels_ok ps {} ls" "levels_end_ok ps (set (concat ls)) e"
proof -
  obtain np ch where c: "count_pairs ps = (np, ch)" by fastforce
  then have "topsort_levels_core np ch = (ls, e)" using assms by (simp add: topsort_levels_def)
  from topsort_levels_core_ok [OF sort_inv_start [OF c] this]
  show "levels_ok ps {} ls" "levels_end_ok ps (set (concat ls)) e" by simp_all
qed

lemma parents_first_nodes_acyclic:
  assumes "parents_first (set ps) xs" "set xs = nodes ps"
  shows "acyclic (set ps)"
proof (rule parents_first_acyclic [OF assms(1)])
  show "Field (set ps) \<subseteq> set xs"
    unfolding assms(2) Field_def nodes_def Domain_fst Range_snd set_map by simp
qed

lemma topsort_acyclic: "is_ok (topsort ps) \<longleftrightarrow> acyclic (set ps)"
proof (cases "topsort ps")
  case (Inr ans)
  then have "parents_first (set ps) ans" "set ans = nodes ps"
    using topsort_result [of ps] by (simp_all add: sort_result_def)
  then show ?thesis using Inr parents_first_nodes_acyclic by (simp add: is_ok_iff)
next
  case (Inl e)
  then have "\<not> acyclic (set ps)"
    using topsort_result [of ps] by (simp add: sort_result_def split: topsort_error.splits)
  then show ?thesis using Inl by (simp add: is_ok_iff)
qed

lemma topsort_levels_acyclic: "snd (topsort_levels ps) = Stop \<longleftrightarrow> acyclic (set ps)"
  using topsort_levels_ok(2) [of ps "fst (topsort_levels ps)" "snd (topsort_levels ps)"]
  by (auto simp: levels_end_ok_def split: level_end.splits)


section \<open>The cycle search is sound and complete up to rotation\<close>

definition edges :: "('a, 'a list) dict \<Rightarrow> ('a \<times> 'a) set" where
  "edges d = {(p, c). \<exists>cs. dget d p = Some cs \<and> c \<in> set cs}"

definition walk :: "('a \<times> 'a) set \<Rightarrow> 'a list \<Rightarrow> bool" where
  "walk E xs \<longleftrightarrow> successively (\<lambda>x y. (x, y) \<in> E) xs"

definition simple_cycle :: "('a \<times> 'a) set \<Rightarrow> 'a list \<Rightarrow> bool" where
  "simple_cycle E xs \<longleftrightarrow> xs \<noteq> [] \<and> distinct xs \<and> walk E xs \<and> (last xs, hd xs) \<in> E"

definition rotation_of :: "'a list \<Rightarrow> 'a list \<Rightarrow> bool" where
  "rotation_of xs ys \<longleftrightarrow> (\<exists>n. ys = rotate n xs)"

definition found :: "'a search \<Rightarrow> 'a list \<Rightarrow> bool" where
  "found s c \<longleftrightarrow> (\<exists>c' \<in> set (cycles s). rotation_of c' c)"

lemma walk_Nil [simp]: "walk E []" and walk_single [simp]: "walk E [x]"
  by (simp_all add: walk_def)

lemma walk_append:
  "walk E (xs @ ys) \<longleftrightarrow> walk E xs \<and> walk E ys \<and> (xs \<noteq> [] \<longrightarrow> ys \<noteq> [] \<longrightarrow> (last xs, hd ys) \<in> E)"
  by (auto simp: walk_def successively_append_iff)

lemma rotation_of_refl [simp]: "rotation_of xs xs"
  unfolding rotation_of_def by (rule exI [of _ 0]) simp

lemma rotation_of_trans: "rotation_of xs ys \<Longrightarrow> rotation_of ys zs \<Longrightarrow> rotation_of xs zs"
  unfolding rotation_of_def by (metis rotate_rotate)

lemma rotation_of_sym: "rotation_of xs ys \<Longrightarrow> rotation_of ys xs"
proof -
  assume "rotation_of xs ys"
  then obtain n where n: "ys = rotate n xs" by (auto simp: rotation_of_def)
  show "rotation_of ys xs"
  proof (cases "xs = []")
    case True
    then show ?thesis using n by simp
  next
    case False
    have "rotate (length xs - n mod length xs) ys =
          rotate (length xs - n mod length xs + n mod length xs) xs"
      using n by (simp add: rotate_rotate [symmetric] rotate_conv_mod [of n])
    also have "length xs - n mod length xs + n mod length xs = length xs"
      using False by (simp add: less_imp_le)
    finally show ?thesis unfolding rotation_of_def by (metis rotate_length01 rotate_conv_mod mod_self rotate0 id_apply)
  qed
qed

lemma index_of:
  "x \<in> set xs \<Longrightarrow> index_of xs x < length xs \<and> xs ! index_of xs x = x"
  by (induction xs) auto

lemma index_of_append: "x \<notin> set xs \<Longrightarrow> index_of (xs @ x # ys) x = length xs"
  by (induction xs) auto

lemma drop_index_of:
  assumes "x \<in> set xs"
  shows "drop (index_of xs x) xs \<noteq> []" "hd (drop (index_of xs x) xs) = x"
    "last (drop (index_of xs x) xs) = last xs"
  using index_of [OF assms] by (auto simp: hd_drop_conv_nth last_drop)

lemma back_edge_cycle:
  assumes "distinct path" "walk E path" "x \<in> set path" "(last path, x) \<in> E"
  shows "simple_cycle E (drop (index_of path x) path)"
proof -
  have "walk E (take (index_of path x) path @ drop (index_of path x) path)" using assms(2) by simp
  then have "walk E (drop (index_of path x) path)" unfolding walk_append by blast
  then show ?thesis using assms drop_index_of [OF assms(3)] by (simp add: simple_cycle_def)
qed

lemma is_dup_cycle_eq:
  "c \<noteq> [] \<Longrightarrow> is_dup_cycle cs c = Inr (\<exists>c' \<in> set cs. rotation_of c' c)"
  by (induction cs) (auto simp: is_rotated_Inr rotation_of_def)

text \<open>What holds at every moment of a search from the root \<open>r\<close>.\<close>

definition path_ok :: "('a \<times> 'a) set \<Rightarrow> 'a \<Rightarrow> 'a list \<Rightarrow> bool" where
  "path_ok E r p \<longleftrightarrow> p \<noteq> [] \<and> hd p = r \<and> distinct p \<and> walk E p"

definition cycles_ok :: "('a \<times> 'a) set \<Rightarrow> 'a list list \<Rightarrow> bool" where
  "cycles_ok E cs \<longleftrightarrow> (\<forall>c \<in> set cs. simple_cycle E c) \<and> sorted_wrt (\<lambda>a b. \<not> rotation_of a b) cs"

lemma path_ok_reaches: "path_ok E r p \<Longrightarrow> (r, last p) \<in> E\<^sup>*"
proof (induction p rule: rev_induct)
  case Nil
  then show ?case by (simp add: path_ok_def)
next
  case (snoc x p)
  show ?case
  proof (cases "p = []")
    case True
    then show ?thesis using snoc.prems by (simp add: path_ok_def)
  next
    case False
    then have "path_ok E r p" "(last p, x) \<in> E" using snoc.prems by (auto simp: path_ok_def walk_append)
    then show ?thesis using snoc.IH by (auto intro: rtrancl_into_rtrancl)
  qed
qed

lemma visit_child_ok:
  assumes "path_ok E r path" "(last path, c) \<in> E" "cycles_ok E (cycles s)"
  shows "\<exists>s'. visit_child path s c = Inr s' \<and> cycles_ok E (cycles s') \<and>
     set (cycles s) \<subseteq> set (cycles s') \<and>
     set (visited s') \<subseteq> insert c (set (visited s)) \<and>
     set (visited s) \<subseteq> set (visited s') \<and>
     (c \<in> set path \<longrightarrow> found s' (drop (index_of path c) path)) \<and>
     (c \<notin> set path \<longrightarrow> c \<in> set (visited s'))"
proof (cases "c \<in> set path")
  case True
  have cyc: "simple_cycle E (drop (index_of path c) path)"
    using assms(1,2) True by (intro back_edge_cycle) (auto simp: path_ok_def)
  show ?thesis
    using True cyc assms(3) drop_index_of(1) [OF True]
    by (auto simp: visit_child_def Let_def is_dup_cycle_eq cycles_ok_def found_def sorted_wrt_append)
next
  case False
  then show ?thesis using assms(3) by (auto simp: visit_child_def)
qed

lemma visit_children_ok:
  assumes "path_ok E r path" "\<forall>c \<in> set cs. (last path, c) \<in> E" "cycles_ok E (cycles s)"
  shows "\<exists>s'. foldM (visit_child path) s cs = Inr s' \<and> cycles_ok E (cycles s') \<and>
     set (cycles s) \<subseteq> set (cycles s') \<and>
     set (visited s') \<subseteq> set cs \<union> set (visited s) \<and>
     set (visited s) \<subseteq> set (visited s') \<and>
     (\<forall>c \<in> set cs. c \<in> set path \<longrightarrow> found s' (drop (index_of path c) path))"
  using assms
proof (induction cs arbitrary: s)
  case Nil
  then show ?case by simp
next
  case (Cons c cs)
  obtain t where t: "visit_child path s c = Inr t" "cycles_ok E (cycles t)"
     "set (cycles s) \<subseteq> set (cycles t)" "set (visited t) \<subseteq> insert c (set (visited s))"
     "set (visited s) \<subseteq> set (visited t)"
     "c \<in> set path \<longrightarrow> found t (drop (index_of path c) path)"
    using visit_child_ok [OF Cons.prems(1) _ Cons.prems(3), of c] Cons.prems(2) by auto
  obtain s' where s': "foldM (visit_child path) t cs = Inr s'" "cycles_ok E (cycles s')"
     "set (cycles t) \<subseteq> set (cycles s')" "set (visited s') \<subseteq> set cs \<union> set (visited t)"
     "set (visited t) \<subseteq> set (visited s')"
     "\<forall>c \<in> set cs. c \<in> set path \<longrightarrow> found s' (drop (index_of path c) path)"
    using Cons.IH [OF Cons.prems(1) _ t(2)] Cons.prems(2) by auto
  have "found s' x" if "found t x" for x using that s'(3) by (auto simp: found_def)
  then show ?case using t s' by (intro exI [of _ s']) auto
qed


definition explored :: "('a \<times> 'a) set \<Rightarrow> 'a search \<Rightarrow> 'a list \<Rightarrow> bool" where
  "explored E s p \<longleftrightarrow>
     (\<forall>ext x. path_ok E (hd p) (p @ ext) \<longrightarrow> (last (p @ ext), x) \<in> E \<longrightarrow> x \<in> set (p @ ext) \<longrightarrow>
        found s (drop (index_of (p @ ext) x) (p @ ext)))"

lemma found_mono: "found s c \<Longrightarrow> set (cycles s) \<subseteq> set (cycles s') \<Longrightarrow> found s' c"
  by (auto simp: found_def)

lemma explored_mono: "explored E s p \<Longrightarrow> set (cycles s) \<subseteq> set (cycles s') \<Longrightarrow> explored E s' p"
  unfolding explored_def using found_mono by blast

lemma explored_top:
  assumes p: "p \<noteq> []"
    and here: "\<And>x. (last p, x) \<in> E \<Longrightarrow> x \<in> set p \<Longrightarrow> found s (drop (index_of p x) p)"
    and there: "\<And>c. (last p, c) \<in> E \<Longrightarrow> c \<notin> set p \<Longrightarrow> explored E s (p @ [c])"
  shows "explored E s p"
  unfolding explored_def
proof (intro allI impI)
  fix ext x
  assume ok: "path_ok E (hd p) (p @ ext)" and e: "(last (p @ ext), x) \<in> E" "x \<in> set (p @ ext)"
  show "found s (drop (index_of (p @ ext) x) (p @ ext))"
  proof (cases ext)
    case Nil
    then show ?thesis using here e by simp
  next
    case (Cons c ext')
    then have "(last p, c) \<in> E" "c \<notin> set p" using ok p by (auto simp: path_ok_def walk_append)
    then have "explored E s (p @ [c])" by (rule there)
    moreover have "p @ ext = (p @ [c]) @ ext'" "hd (p @ [c]) = hd p" using Cons p by auto
    ultimately show ?thesis using ok e unfolding explored_def by metis
  qed
qed

definition search_post :: "('a \<times> 'a) set \<Rightarrow> 'a \<Rightarrow> 'a search \<Rightarrow> 'a search \<Rightarrow> bool" where
  "search_post E r s s' \<longleftrightarrow>
     cycles_ok E (cycles s') \<and> set (cycles s) \<subseteq> set (cycles s') \<and>
     set (visited s) \<subseteq> set (visited s') \<and>
     (\<forall>v \<in> set (visited s'). v \<in> set (visited s) \<or> (r, v) \<in> E\<^sup>*)"

lemma search_loop_ok:
  assumes "\<forall>p \<in> set (stack s). path_ok (edges d) r p" "cycles_ok (edges d) (cycles s)"
  shows "\<exists>s'. search_loop d s = Inr s' \<and> search_post (edges d) r s s' \<and>
    (\<forall>p \<in> set (stack s). explored (edges d) s' p)"
  using assms
proof (induction d s rule: search_loop.induct)
  case (1 d s)
  show ?case
  proof (cases "stack s")
    case Nil
    then show ?thesis using 1(4) by (simp add: search_loop.simps [of d s] search_post_def)
  next
    case (Cons path paths)
    have ok: "path_ok (edges d) r path" using 1(3) Cons by simp
    then have ne: "path \<noteq> []" and idx: "py_index path (-1) = Inr (last path)"
      by (auto simp: path_ok_def py_index_last)
    show ?thesis
    proof (cases "dget d (last path)")
      case None
      have "\<exists>s'. search_loop d (s\<lparr>stack := paths\<rparr>) = Inr s' \<and>
          search_post (edges d) r (s\<lparr>stack := paths\<rparr>) s' \<and>
          (\<forall>p \<in> set paths. explored (edges d) s' p)"
        using 1(1) [OF Cons idx None] 1(3,4) Cons by simp
      then obtain s' where s': "search_loop d (s\<lparr>stack := paths\<rparr>) = Inr s'"
        "search_post (edges d) r (s\<lparr>stack := paths\<rparr>) s'" "\<forall>p \<in> set paths. explored (edges d) s' p"
        by blast
      have "explored (edges d) s' path"
        using None by - (rule explored_top [OF ne], simp_all add: edges_def)
      then show ?thesis
        using s' Cons idx None by (simp add: search_loop.simps [of d s] search_post_def)
    next
      case (Some cs)
      have step: "\<forall>c \<in> set cs. (last path, c) \<in> edges d" using Some by (auto simp: edges_def)
      obtain t where t: "foldM (visit_child path) (s\<lparr>stack := paths\<rparr>) cs = Inr t"
        "cycles_ok (edges d) (cycles t)" "set (cycles s) \<subseteq> set (cycles t)"
        "set (visited t) \<subseteq> set cs \<union> set (visited s)" "set (visited s) \<subseteq> set (visited t)"
        "\<forall>c \<in> set cs. c \<in> set path \<longrightarrow> found t (drop (index_of path c) path)"
        using visit_children_ok [OF ok step, of "s\<lparr>stack := paths\<rparr>"] 1(4) by auto
      obtain new where new: "stack t = new @ paths"
        "\<forall>p \<in> set new. \<exists>c \<in> set cs. c \<notin> set path \<and> p = path @ [c]"
        "\<forall>c \<in> set cs. c \<notin> set path \<longrightarrow> path @ [c] \<in> set new"
        using visit_child_stack [OF t(1)] by auto
      have "path_ok (edges d) r p" if p: "p \<in> set new" for p
      proof -
        obtain c where "c \<in> set cs" "c \<notin> set path" "p = path @ [c]" using new(2) p by blast
        then show ?thesis using ok step by (auto simp: path_ok_def walk_append)
      qed
      then have "\<forall>p \<in> set (stack t). path_ok (edges d) r p" using 1(3) Cons new(1) by auto
      from 1(2) [OF Cons idx Some t(1) this t(2)] obtain s' where s':
        "search_loop d t = Inr s'" "search_post (edges d) r t s'"
        "\<forall>p \<in> set (stack t). explored (edges d) s' p" by blast
      have sub: "set (cycles t) \<subseteq> set (cycles s')" using s'(2) by (simp add: search_post_def)
      have "explored (edges d) s' path"
      proof (rule explored_top [OF ne])
        fix x assume "(last path, x) \<in> edges d" "x \<in> set path"
        then show "found s' (drop (index_of path x) path)"
          using t(6) Some found_mono [OF _ sub] by (auto simp: edges_def)
      next
        fix c assume "(last path, c) \<in> edges d" "c \<notin> set path"
        then show "explored (edges d) s' (path @ [c])"
          using s'(3) new(1,3) Some by (auto simp: edges_def)
      qed
      moreover have "\<forall>p \<in> set paths. explored (edges d) s' p" using s'(3) new(1) by simp
      moreover have "(r, c) \<in> (edges d)\<^sup>*" if "c \<in> set cs" for c
        using path_ok_reaches [OF ok] step that by (meson rtrancl.rtrancl_into_rtrancl)
      then have "search_post (edges d) r s s'"
        using s'(2) t(3-5) unfolding search_post_def by blast
      ultimately show ?thesis
        using Cons idx Some t(1) s'(1) by (simp add: search_loop.simps [of d s])
    qed
  qed
qed

text \<open>
  Between two roots: every cycle found is a cycle of the graph, and every
  visited node is reachable from a root that has been explored.
\<close>

definition roots_ok :: "('a, 'a list) dict \<Rightarrow> 'a list \<Rightarrow> 'a search \<Rightarrow> bool" where
  "roots_ok d ks s \<longleftrightarrow> cycles_ok (edges d) (cycles s) \<and>
     (\<forall>v \<in> set ks \<union> set (visited s). \<exists>r. explored (edges d) s [r] \<and> (r, v) \<in> (edges d)\<^sup>*)"

lemma search_root_ok:
  assumes "roots_ok d ks s"
  shows "\<exists>s'. search_root d s k = Inr s' \<and> roots_ok d (ks @ [k]) s'"
proof (cases "k \<in> set (visited s)")
  case True
  then show ?thesis using assms by (auto simp: search_root_def roots_ok_def)
next
  case False
  have "\<forall>p \<in> set (stack (s\<lparr>stack := [[k]]\<rparr>)). path_ok (edges d) k p" by (simp add: path_ok_def)
  from search_loop_ok [OF this] assms obtain s' where s':
    "search_loop d (s\<lparr>stack := [[k]]\<rparr>) = Inr s'" "search_post (edges d) k s s'"
    "explored (edges d) s' [k]"
    by (auto simp: roots_ok_def search_post_def)
  have "set (cycles s) \<subseteq> set (cycles s')" using s'(2) by (simp add: search_post_def)
  then have old: "explored (edges d) s' p" if "explored (edges d) s p" for p
    using explored_mono that by blast
  have "roots_ok d (ks @ [k]) s'"
    unfolding roots_ok_def
  proof (intro conjI ballI)
    show "cycles_ok (edges d) (cycles s')" using s'(2) by (simp add: search_post_def)
    fix v assume "v \<in> set (ks @ [k]) \<union> set (visited s')"
    then consider "v \<in> set ks \<union> set (visited s)" | "v = k" | "(k, v) \<in> (edges d)\<^sup>*"
      using s'(2) by (auto simp: search_post_def)
    then show "\<exists>r. explored (edges d) s' [r] \<and> (r, v) \<in> (edges d)\<^sup>*"
    proof cases
      case 1
      then obtain r where "explored (edges d) s [r]" "(r, v) \<in> (edges d)\<^sup>*"
        using assms unfolding roots_ok_def by meson
      then show ?thesis using old by meson
    next
      case 2
      then show ?thesis using s'(3) by (intro exI [of _ k]) simp
    next
      case 3
      then show ?thesis using s'(3) by (intro exI [of _ k] conjI)
    qed
  qed
  then show ?thesis using False s'(1) by (simp add: search_root_def)
qed

lemma search_roots_ok:
  "roots_ok d ks s \<Longrightarrow> \<exists>s'. foldM (search_root d) s js = Inr s' \<and> roots_ok d (ks @ js) s'"
proof (induction js arbitrary: ks s)
  case Nil
  then show ?case by simp
next
  case (Cons j js)
  obtain t where t: "search_root d s j = Inr t" "roots_ok d (ks @ [j]) t"
    using search_root_ok [OF Cons.prems] by blast
  then show ?case using Cons.IH [OF t(2)] by auto
qed


text \<open>A node that reaches a set reaches it by a simple path that meets it only at its end.\<close>

lemma walk_of_reach: "(r, v) \<in> E\<^sup>* \<Longrightarrow> \<exists>p. p \<noteq> [] \<and> hd p = r \<and> last p = v \<and> walk E p"
proof (induction rule: rtrancl_induct)
  case base
  show ?case by (rule exI [of _ "[r]"]) simp
next
  case (step y z)
  then obtain p where p: "p \<noteq> []" "hd p = r" "last p = y" "walk E p" by blast
  then show ?case using step.hyps(2) by (intro exI [of _ "p @ [z]"]) (simp add: walk_append)
qed

lemma simple_path_to:
  assumes "(r, v) \<in> E\<^sup>*" "v \<in> C"
  shows "\<exists>p x. path_ok E r (p @ [x]) \<and> x \<in> C \<and> set p \<inter> C = {}"
proof -
  define ok where "ok q \<longleftrightarrow> q \<noteq> [] \<and> hd q = r \<and> last q \<in> C \<and> walk E q" for q
  have "\<exists>q. ok q" using walk_of_reach [OF assms(1)] assms(2) by (auto simp: ok_def)
  then obtain q where q: "ok q" and least: "\<And>q'. ok q' \<Longrightarrow> length q \<le> length q'"
    using ex_has_least_nat [of ok _ length] by blast
  obtain p x where px: "q = p @ [x]" using q by (cases q rule: rev_cases) (auto simp: ok_def)
  have "set p \<inter> C = {}"
  proof (rule ccontr)
    assume "set p \<inter> C \<noteq> {}"
    then obtain a y b where ab: "p = a @ y # b" "y \<in> C" by (metis disjoint_iff split_list)
    have "q = (a @ [y]) @ (b @ [x])" using ab(1) px by simp
    then have "walk E (a @ [y])" using q unfolding ok_def by (metis walk_append)
    then have "ok (a @ [y])" using q px ab by (cases a) (auto simp: ok_def)
    then show False using least ab(1) px by fastforce
  qed
  moreover have "distinct q"
  proof (rule ccontr)
    assume "\<not> distinct q"
    then obtain a y b c where c: "q = a @ [y] @ b @ [y] @ c" using not_distinct_decomp by blast
    then have "q = (a @ [y]) @ (b @ [y] @ c)" "q = (a @ [y] @ b) @ ([y] @ c)" by simp_all
    then have "walk E (a @ [y])" "walk E ([y] @ c)" using q unfolding ok_def by (metis walk_append)+
    then have "walk E ((a @ [y]) @ c)" unfolding walk_append [of E "a @ [y]"] walk_append [of E "[y]"]
      by simp
    then have "ok (a @ [y] @ c)" using q c by (cases a; cases c) (auto simp: ok_def)
    then show False using least [of "a @ [y] @ c"] c by simp
  qed
  ultimately show ?thesis using q px unfolding ok_def path_ok_def
    by (intro exI [of _ p] exI [of _ x]) simp
qed

lemma simple_cycle_Cons:
  "simple_cycle E (x # t) \<longleftrightarrow> distinct (x # t) \<and> walk E (x # t @ [x])"
proof -
  have "walk E ((x # t) @ [x]) \<longleftrightarrow> walk E (x # t) \<and> (last (x # t), x) \<in> E"
    unfolding walk_append by simp
  then show ?thesis by (auto simp: simple_cycle_def)
qed

lemma simple_cycle_rotate1: "simple_cycle E c \<Longrightarrow> simple_cycle E (rotate1 c)"
proof (cases c)
  case (Cons x t)
  assume c: "simple_cycle E c"
  show ?thesis
  proof (cases t)
    case Nil
    then show ?thesis using c Cons by simp
  next
    case (Cons y u)
    have w: "walk E (x # t @ [x])" "distinct (x # t)"
      using c \<open>c = x # t\<close> by (simp_all add: simple_cycle_Cons)
    have "walk E ([x] @ (t @ [x]))" using w(1) by simp
    then have "walk E (t @ [x])" "(x, y) \<in> E"
      unfolding walk_append [of E "[x]"] using Cons by simp_all
    moreover have "rotate1 c = y # u @ [x]" using \<open>c = x # t\<close> Cons by simp
    ultimately show ?thesis
      using w(2) Cons by (auto simp: simple_cycle_def)
  qed
qed simp

lemma simple_cycle_rotate: "simple_cycle E c \<Longrightarrow> simple_cycle E (rotate n c)"
  by (induction n) (auto intro: simple_cycle_rotate1)

lemma explored_finds:
  assumes ex: "explored E s [r]" and reach: "(r, hd c) \<in> E\<^sup>*" and cyc: "simple_cycle E c"
  shows "found s c"
proof -
  have "hd c \<in> set c" using cyc by (simp add: simple_cycle_def)
  then obtain p x where p: "path_ok E r (p @ [x])" "x \<in> set c" "set p \<inter> set c = {}"
    using simple_path_to [OF reach] by blast
  obtain i where i: "i < length c" "c ! i = x" using p(2) by (auto simp: in_set_conv_nth)
  define c' where "c' = rotate i c"
  have rot: "rotation_of c' c" unfolding c'_def by (rule rotation_of_sym) (auto simp: rotation_of_def)
  have hd: "hd c' = x"
  proof -
    have "c \<noteq> []" using i by auto
    then show ?thesis using hd_rotate_conv_nth [of c i] i by (simp add: c'_def)
  qed
  have cyc': "simple_cycle E c'" using cyc by (simp add: c'_def simple_cycle_rotate)
  have "c' \<noteq> []" using cyc' by (simp add: simple_cycle_def)
  then obtain t where t: "c' = x # t" using hd by (cases c') auto
  have d: "distinct (x # t)" "walk E (x # t)" "(last (x # t), x) \<in> E"
    using cyc' t by (simp_all add: simple_cycle_def)
  have st: "set t \<subseteq> set c" using t by (metis c'_def set_rotate set_subset_Cons)
  define q where "q = p @ x # t"
  have split: "p @ [x] = [r] @ tl (p @ [x])" using p(1)
    unfolding path_ok_def by (metis append_Cons append_Nil list.collapse)
  have q: "path_ok E r q"
  proof -
    have "walk E (p @ (x # t))"
      using p(1) d(2) unfolding path_ok_def walk_append [of E p] by simp
    moreover have "distinct (p @ x # t)" using p(1,3) d(1) st by (auto simp: path_ok_def)
    moreover have "hd (p @ x # t) = r" using p(1) by (cases p) (auto simp: path_ok_def)
    ultimately show ?thesis by (simp add: path_ok_def q_def)
  qed
  have "q = [r] @ (tl (p @ [x]) @ t)" using split by (simp add: q_def)
  moreover have "(last q, x) \<in> E" "x \<in> set q" using d(3) by (auto simp: q_def)
  ultimately have "found s (drop (index_of q x) q)"
    using ex q unfolding explored_def by (metis list.sel(1))
  moreover have "x \<notin> set p" using p(2,3) by blast
  then have "drop (index_of q x) q = c'" by (simp add: q_def index_of_append t)
  ultimately have "found s c'" by simp
  then show ?thesis using rot rotation_of_trans unfolding found_def by blast
qed

definition cycles_spec :: "('a, 'a list) dict \<Rightarrow> 'a list list \<Rightarrow> bool" where
  "cycles_spec d cs \<longleftrightarrow>
     (\<forall>c \<in> set cs. simple_cycle (edges d) c) \<and>
     sorted_wrt (\<lambda>a b. \<not> rotation_of a b) cs \<and>
     (\<forall>c. simple_cycle (edges d) c \<longrightarrow> (\<exists>c' \<in> set cs. rotation_of c' c))"

lemma find_cycles_result: "\<exists>cs. find_cycles d = Inr cs \<and> cycles_spec d cs"
proof -
  have "roots_ok d [] \<lparr>stack = [], visited = [], cycles = []\<rparr>"
    by (simp add: roots_ok_def cycles_ok_def)
  from search_roots_ok [OF this, of "dkeys d"] obtain s where s:
    "foldM (search_root d) \<lparr>stack = [], visited = [], cycles = []\<rparr> (dkeys d) = Inr s"
    "roots_ok d (dkeys d) s" by auto
  have "found s c" if c: "simple_cycle (edges d) c" for c
  proof -
    obtain x t where xt: "c = x # t" using c by (cases c) (auto simp: simple_cycle_def)
    have "\<exists>y. (hd c, y) \<in> edges d"
    proof (cases t)
      case Nil
      then show ?thesis using c xt by (auto simp: simple_cycle_def)
    next
      case (Cons y u)
      then show ?thesis using c xt by (auto simp: simple_cycle_def walk_def)
    qed
    then obtain y cs where "dget d (hd c) = Some cs" by (auto simp: edges_def)
    then have "hd c \<in> set (dkeys d)" by (simp only: mem_dkeys) simp
    then obtain r where "explored (edges d) s [r]" "(r, hd c) \<in> (edges d)\<^sup>*"
      using s(2) unfolding roots_ok_def by (meson UnI1)
    then show ?thesis using c by (rule explored_finds)
  qed
  then have "cycles_spec d (cycles s)"
    using s(2) unfolding cycles_spec_def roots_ok_def cycles_ok_def found_def by simp
  then show ?thesis using s(1) by (simp add: find_cycles_def)
qed


section \<open>Properties\<close>

text \<open>C2. \<open>topsort\<close> never raises \<open>KeyError\<close>.  It returns every node of the pair list
  exactly once with all parents of a node before it, or raises \<open>CycleError\<close>
  carrying the sorted part and the count dictionary of exactly the other nodes,
  each of which still has a parent among them; this happens only for a cyclic
  relation.\<close>

theorem topsort_sorts: "sort_result ps (topsort ps)"
  by (rule topsort_result)

text \<open>C10. The levels yielded by \<open>topsort_levels\<close> are the earliest possible: each level
  is, without duplicates, exactly the nodes not yet yielded whose parents have
  all been yielded.  The generator stops when every node has been yielded, and
  ends in \<open>CycleError\<close> when the relation is cyclic.\<close>

theorem topsort_levels_earliest:
  "levels_ok ps {} (fst (topsort_levels ps)) \<and>
   levels_end_ok ps (set (concat (fst (topsort_levels ps)))) (snd (topsort_levels ps))"
  by (rule conjI; rule topsort_levels_ok [where e = "snd (topsort_levels ps)"]; simp)

text \<open>The two sorts agree: \<open>topsort\<close> returns a list exactly when \<open>topsort_levels\<close>
  ends without an error.\<close>

theorem topsort_and_levels_agree: "is_ok (topsort ps) \<longleftrightarrow> snd (topsort_levels ps) = Stop"
  by (simp add: topsort_acyclic topsort_levels_acyclic)

text \<open>C3. \<open>find_cycles\<close> always ends, never raises, yields only simple cycles of the
  graph, no cycle twice up to rotation, and every simple cycle up to rotation,
  although it skips every root that an earlier search has visited.\<close>

theorem find_cycles_sound_complete: "\<exists>cs. find_cycles d = Inr cs \<and> cycles_spec d cs"
  by (rule find_cycles_result)

end
