(* ===== verification/ShellCmd.thy ===== *)
theory ShellCmd
  imports PyString
begin

text \<open>
  \<open>waf-tools/shellcmd.py\<close>: the parser of shell-like command lines and their
  execution.  A pipeline is a list of nodes.  The parser is a step function on
  its state and the next token.  Execution is a state-and-exception action: its
  state logs the processes launched, the files opened and closed and the lines
  printed.  The operating system is a parameter: which files open, and what
  launching a process after some others returns.
\<close>

section \<open>Nodes\<close>

datatype out_target = OutNone | OutPipe | OutFile string
datatype err_target = ErrNone | ErrPipe | ErrStdout | ErrFile string

record command =
  name :: string
  argv :: "string list"
  stdin :: "string option"
  stdout :: out_target
  stderr :: err_target
  env_vars :: "(string, string) dict option"

datatype node = Command command | Chdir "string option" | Pipe | And | Or

definition new_command :: "string \<Rightarrow> command" where
  "new_command nm = \<lparr>name = nm, argv = [nm], stdin = None, stdout = OutNone,
     stderr = ErrNone, env_vars = None\<rparr>"

text \<open>The last branch of the source tests for \<open>And\<close> again, so \<open>Or\<close> prints nothing.\<close>

fun abbreviate_node :: "node \<Rightarrow> string list" where
  "abbreviate_node (Command c) = [name c]"
| "abbreviate_node (Chdir d) = [''cd '' @ (case d of None \<Rightarrow> ''None'' | Some x \<Rightarrow> x)]"
| "abbreviate_node Pipe = [''|'']"
| "abbreviate_node And = [''&&'']"
| "abbreviate_node Or = []"

definition get_abbreviated_command :: "node list \<Rightarrow> string" where
  "get_abbreviated_command pipeline = join '' '' (concat (List.map abbreviate_node pipeline))"

section \<open>Parsing\<close>

text \<open>
  The regular expression \<open>^([a-zA-Z0-9_]+)=(\S+)$\<close>: the name runs up to the
  first equals sign; a final newline is outside the second group.
\<close>

definition word_char :: "char \<Rightarrow> bool" where
  "word_char c \<longleftrightarrow>
     c \<in> set ''abcdefghijklmnopqrstuvwxyzABCDEFGHIJKLMNOPQRSTUVWXYZ0123456789_''"

definition env_var_match :: "string \<Rightarrow> (string \<times> string) option" where
  "env_var_match token =
     (let nm = takeWhile (\<lambda>c. c \<noteq> CHR ''='') token;
          after = dropWhile (\<lambda>c. c \<noteq> CHR ''='') token;
          val = tl after;
          val = (if val \<noteq> [] \<and> last val = newline then butlast val else val)
      in if after \<noteq> [] \<and> nm \<noteq> [] \<and> (\<forall>c \<in> set nm. word_char c)
            \<and> val \<noteq> [] \<and> (\<forall>c \<in> set val. \<not> is_space c)
         then Some (nm, val) else None)"

datatype parse_state = BEGIN | COMMAND | CHDIR | STDERR | STDOUT | STDIN

record parser =
  state :: parse_state
  current_command :: "node option"
  pipeline :: "node list"
  env :: "(string, string) dict"

definition commit_command :: "parser \<Rightarrow> parser py_result" where
  "commit_command p =
     (case current_command p of
        None \<Rightarrow> Inl AssertionError
      | Some c \<Rightarrow> Inr (p\<lparr>pipeline := pipeline p @ [c], current_command := None\<rparr>))"

text \<open>Commit the current command and append an operator.\<close>

definition commit_op :: "node \<Rightarrow> parser \<Rightarrow> parser py_result" where
  "commit_op op p = rbind (commit_command p) (\<lambda>p.
     Inr (p\<lparr>pipeline := pipeline p @ [op], state := BEGIN\<rparr>))"

definition parse_begin :: "string \<Rightarrow> parser \<Rightarrow> parser py_result" where
  "parse_begin token p =
     (case env_var_match token of
        Some (k, v) \<Rightarrow> Inr (p\<lparr>env := dset k v (env p)\<rparr>)
      | None \<Rightarrow>
          (if current_command p \<noteq> None then Inl AssertionError
           else if token = ''cd''
           then (if env p \<noteq> [] then Inl AssertionError
                 else Inr (p\<lparr>current_command := Some (Chdir None), state := CHDIR\<rparr>))
           else (let cmd = new_command token
                 in if env p \<noteq> []
                    then Inr (p\<lparr>current_command := Some (Command (cmd\<lparr>env_vars := Some (env p)\<rparr>)),
                               env := [], state := COMMAND\<rparr>)
                    else Inr (p\<lparr>current_command := Some (Command cmd), state := COMMAND\<rparr>))))"

definition parse_command :: "string \<Rightarrow> command \<Rightarrow> parser \<Rightarrow> parser py_result" where
  "parse_command token cmd p =
     (if token = ''>'' then Inr (p\<lparr>state := STDOUT\<rparr>)
      else if token = ''2>'' then Inr (p\<lparr>state := STDERR\<rparr>)
      else if token = ''2>&1''
      then (if stderr cmd \<noteq> ErrNone then Inl AssertionError
            else Inr (p\<lparr>current_command := Some (Command (cmd\<lparr>stderr := ErrStdout\<rparr>))\<rparr>))
      else if token = ''<'' then Inr (p\<lparr>state := STDIN\<rparr>)
      else if token = ''|''
      then (if stdout cmd \<noteq> OutNone then Inl AssertionError
            else commit_op Pipe (p\<lparr>current_command := Some (Command (cmd\<lparr>stdout := OutPipe\<rparr>))\<rparr>))
      else if token = ''&&'' then commit_op And p
      else if token = ''||'' then commit_op Or p
      else Inr (p\<lparr>current_command := Some (Command (cmd\<lparr>argv := argv cmd @ [token]\<rparr>))\<rparr>))"

definition parse_chdir :: "string \<Rightarrow> string option \<Rightarrow> parser \<Rightarrow> parser py_result" where
  "parse_chdir token dir p =
     (if token = ''&&'' then commit_op And p
      else if dir \<noteq> None then Inl AssertionError
      else Inr (p\<lparr>current_command := Some (Chdir (Some token))\<rparr>))"

definition parse_redirect :: "string \<Rightarrow> command \<Rightarrow> parser \<Rightarrow> parser py_result" where
  "parse_redirect token cmd p =
     (case state p of
        STDOUT \<Rightarrow>
          (if stdout cmd \<noteq> OutNone then Inl AssertionError
           else Inr (p\<lparr>current_command := Some (Command (cmd\<lparr>stdout := OutFile token\<rparr>)), state := COMMAND\<rparr>))
      | STDERR \<Rightarrow>
          (if stderr cmd \<noteq> ErrNone then Inl AssertionError
           else Inr (p\<lparr>current_command := Some (Command (cmd\<lparr>stderr := ErrFile token\<rparr>)), state := COMMAND\<rparr>))
      | _ \<Rightarrow>
          (if stdin cmd \<noteq> None then Inl AssertionError
           else Inr (p\<lparr>current_command := Some (Command (cmd\<lparr>stdin := Some token\<rparr>)), state := COMMAND\<rparr>)))"

definition parse_step :: "parser \<Rightarrow> string \<Rightarrow> parser py_result" where
  "parse_step p token =
     (if state p = BEGIN then parse_begin token p
      else (case current_command p of
              Some (Command cmd) \<Rightarrow>
                (if state p = COMMAND then parse_command token cmd p
                 else if state p = CHDIR then Inl AttributeError
                 else parse_redirect token cmd p)
            | Some (Chdir dir) \<Rightarrow>
                (if state p = CHDIR then parse_chdir token dir p else Inl AttributeError)
            | _ \<Rightarrow> Inl AttributeError))"

definition new_parser :: parser where
  "new_parser = \<lparr>state = BEGIN, current_command = None, pipeline = [], env = []\<rparr>"

definition parse :: "string list \<Rightarrow> node list py_result" where
  "parse tokens =
     rbind (foldM parse_step new_parser tokens) (\<lambda>p.
     rbind (commit_command p) (\<lambda>p. Inr (pipeline p)))"

section \<open>Execution\<close>

datatype handle = HIn string | HOut string | HNull
datatype stdin_src = Inherit | FromFile string | FromPipe

record launch =
  l_argv :: "string list"
  l_stdin :: stdin_src
  l_stdout :: out_target
  l_stderr :: err_target
  l_env :: "(string, string) dict option"
  l_cwd :: "string option"

record os_env =
  open_ok :: "string \<Rightarrow> bool"
  spawn :: "launch list \<Rightarrow> launch \<Rightarrow> py_error + int"
  environ :: "(string, string) dict"

record run_state =
  files_to_close :: "handle list"
  closed :: "handle list"
  opened :: "handle list"
  piped :: "int list"
  display :: "string list"
  piping :: bool
  cwd :: string
  procs :: "launch list"
  printed :: "string list"

definition new_run :: run_state where
  "new_run = \<lparr>files_to_close = [], closed = [], opened = [], piped = [], display = [],
     piping = False, cwd = ''.'', procs = [], printed = []\<rparr>"

text \<open>Wait for every process; the loop stops at the first failure with the last value.\<close>

definition exec_piped_commands :: "int list \<Rightarrow> int" where
  "exec_piped_commands retvals =
     (if \<exists>r \<in> set retvals. r \<noteq> 0 then last retvals else 0)"

definition open_out_file :: "os_env \<Rightarrow> string \<Rightarrow> (run_state, unit) action" where
  "open_out_file os f =
     (if f = ''NUL:'' \<or> f = ''/dev/null''
      then supdate (\<lambda>s. s\<lparr>files_to_close := files_to_close s @ [HNull]\<rparr>)
      else if open_ok os f
      then supdate (\<lambda>s. s\<lparr>files_to_close := files_to_close s @ [HOut f], opened := opened s @ [HOut f]\<rparr>)
      else sraise OSError)"

definition show_part :: "bool \<Rightarrow> string \<Rightarrow> (run_state, unit) action" where
  "show_part verbose t =
     (if verbose then supdate (\<lambda>s. s\<lparr>display := display s @ [t]\<rparr>) else sret ())"

definition setup_stdin :: "os_env \<Rightarrow> bool \<Rightarrow> command \<Rightarrow> (run_state, stdin_src) action" where
  "setup_stdin os verbose cmd s =
     (if piping s
      then (if piped s = [] then sraise IndexError s else sret FromPipe s)
      else (case stdin cmd of
              None \<Rightarrow> sret Inherit s
            | Some f \<Rightarrow>
                (if open_ok os f
                 then sbind (show_part verbose (''< '' @ f)) (\<lambda>_.
                      sbind (supdate (\<lambda>s. s\<lparr>files_to_close := files_to_close s @ [HIn f],
                                            opened := opened s @ [HIn f]\<rparr>)) (\<lambda>_.
                      sret (FromFile f))) s
                 else sraise OSError s)))"

definition setup_stdout :: "os_env \<Rightarrow> bool \<Rightarrow> command \<Rightarrow> (run_state, unit) action" where
  "setup_stdout os verbose cmd =
     (case stdout cmd of
        OutFile f \<Rightarrow> sbind (open_out_file os f) (\<lambda>_. show_part verbose (''> '' @ f))
      | _ \<Rightarrow> sret ())"

definition setup_stderr :: "os_env \<Rightarrow> bool \<Rightarrow> command \<Rightarrow> (run_state, unit) action" where
  "setup_stderr os verbose cmd =
     (case stderr cmd of
        ErrFile f \<Rightarrow> sbind (open_out_file os f) (\<lambda>_. show_part verbose (''2> '' @ f))
      | ErrStdout \<Rightarrow> show_part verbose ''2>&1''
      | _ \<Rightarrow> sret ())"

definition command_env :: "os_env \<Rightarrow> command \<Rightarrow> (string, string) dict option" where
  "command_env os cmd =
     (case env_vars cmd of
        None \<Rightarrow> None
      | Some vars \<Rightarrow> (if vars = [] then None
                      else Some (fold (\<lambda>(k, v). dset k v) vars (environ os))))"

definition show_command :: "command \<Rightarrow> string" where
  "show_command cmd =
     (case env_vars cmd of
        None \<Rightarrow> join '' '' (argv cmd)
      | Some vars \<Rightarrow>
          (if vars = [] then join '' '' (argv cmd)
           else join '' '' (List.map (\<lambda>(k, v). k @ ''='' @ v) vars) @ '' '' @ join '' '' (argv cmd)))"

definition popen :: "os_env \<Rightarrow> command \<Rightarrow> stdin_src \<Rightarrow> (run_state, unit) action" where
  "popen os cmd src s =
     (let l = \<lparr>l_argv = argv cmd, l_stdin = src, l_stdout = stdout cmd, l_stderr = stderr cmd,
               l_env = command_env os cmd,
               l_cwd = (if cwd s = ''.'' then None else Some (cwd s))\<rparr>
      in case spawn os (procs s) l of
           Inl e \<Rightarrow> (s, Inl e)
         | Inr code \<Rightarrow> (s\<lparr>procs := procs s @ [l], piped := piped s @ [code]\<rparr>, Inr ()))"

definition start_command :: "os_env \<Rightarrow> bool \<Rightarrow> command \<Rightarrow> (run_state, unit) action" where
  "start_command os verbose cmd =
     sbind (show_part verbose (show_command cmd)) (\<lambda>_.
     sbind (setup_stdin os verbose cmd) (\<lambda>src.
     sbind (setup_stdout os verbose cmd) (\<lambda>_.
     sbind (setup_stderr os verbose cmd) (\<lambda>_.
     popen os cmd src))))"

definition close_files :: "run_state \<Rightarrow> run_state" where
  "close_files s =
     s\<lparr>closed := closed s @ List.filter (\<lambda>h. h \<noteq> HNull) (files_to_close s), files_to_close := []\<rparr>"

text \<open>
  After an operator the pipe so far is waited for.  The verbose message of both
  branches reads \<open>retval\<close>, which nothing has bound.
\<close>

definition finish_pipe :: "(run_state, int) action" where
  "finish_pipe s = (close_files s, Inr (exec_piped_commands (piped s)))"

definition next_pipe :: "run_state \<Rightarrow> run_state" where
  "next_pipe s = s\<lparr>piping := False, piped := [], display := []\<rparr>"

text \<open>One turn of the loop returns from \<open>run\<close> or leaves nodes to do.\<close>

datatype turn = Return "int option" | Continue "node list"

definition run_chdir :: "bool \<Rightarrow> string option \<Rightarrow> node list \<Rightarrow> (run_state, turn) action" where
  "run_chdir verbose d rest =
     (case rest of
        [] \<Rightarrow> sraise IndexError
      | next_op # rest' \<Rightarrow>
          (if next_op \<noteq> And then sraise AssertionError
           else (case d of
                   None \<Rightarrow> sraise TypeError
                 | Some dir \<Rightarrow>
                     sbind (supdate (\<lambda>s. s\<lparr>cwd := path_join (cwd s) dir\<rparr>)) (\<lambda>_.
                     sbind (show_part verbose (''cd '' @ dir @ '' &&'')) (\<lambda>_.
                     sret (Continue rest'))))))"

definition run_last :: "bool \<Rightarrow> (run_state, turn) action" where
  "run_last verbose =
     sbind finish_pipe (\<lambda>retval.
     sbind (supdate (\<lambda>s. s\<lparr>printed := printed s @
              (if verbose then [join '' '' (display s) @ '': exit code '' @ str_int retval] else [])\<rparr>)) (\<lambda>_.
     sret (Return (Some retval))))"

definition run_operator :: "bool \<Rightarrow> node \<Rightarrow> node list \<Rightarrow> (run_state, turn) action" where
  "run_operator verbose next_node rest =
     (case next_node of
        Pipe \<Rightarrow>
          sbind (supdate (\<lambda>s. s\<lparr>piping := True, display := display s @ [''|'']\<rparr>)) (\<lambda>_.
          sret (Continue rest))
      | Or \<Rightarrow>
          sbind finish_pipe (\<lambda>this_retval.
          if verbose then sraise UnboundLocalError
          else if this_retval = 0 then sret (Return (Some this_retval))
          else sbind (supdate next_pipe) (\<lambda>_. sret (Continue rest)))
      | And \<Rightarrow>
          sbind finish_pipe (\<lambda>this_retval.
          if verbose then sraise UnboundLocalError
          else if this_retval \<noteq> 0 then sret (Return (Some this_retval))
          else sbind (supdate next_pipe) (\<lambda>_. sret (Continue rest)))
      | _ \<Rightarrow> sret (Continue rest))"

definition run_node :: "os_env \<Rightarrow> bool \<Rightarrow> node \<Rightarrow> node list \<Rightarrow> (run_state, turn) action" where
  "run_node os verbose node rest =
     (case node of
        Chdir d \<Rightarrow> run_chdir verbose d rest
      | Command cmd \<Rightarrow>
          sbind (start_command os verbose cmd) (\<lambda>_.
          case rest of
            [] \<Rightarrow> run_last verbose
          | next_node # rest' \<Rightarrow> run_operator verbose next_node rest')
      | _ \<Rightarrow> sraise AssertionError)"

lemma run_operator_continue:
  "run_operator v n rest s = (s', Inr (Continue ns)) \<Longrightarrow> ns = rest"
  by (cases n)
    (auto simp: run_operator_def action_simps sbind_def finish_pipe_def split: if_splits)

lemma run_node_continue:
  "run_node os v node rest s = (s', Inr (Continue ns)) \<Longrightarrow> length ns \<le> length rest"
proof (cases node)
  case (Command cmd)
  assume r: "run_node os v node rest s = (s', Inr (Continue ns))"
  obtain s1 r1 where s1: "start_command os v cmd s = (s1, r1)" by fastforce
  show ?thesis
  proof (cases rest)
    case Nil
    then show ?thesis
      using r Command s1
      by (cases r1) (auto simp: run_node_def sbind_def [of "start_command os v cmd"] run_last_def
          sbind_def [of finish_pipe] finish_pipe_def action_simps)
  next
    case (Cons n rest')
    then show ?thesis
      using r Command s1
      by (cases r1) (auto simp: run_node_def sbind_def [of "start_command os v cmd"]
          dest!: run_operator_continue)
  qed
next
  case (Chdir d)
  assume "run_node os v node rest s = (s', Inr (Continue ns))"
  then show ?thesis
    using Chdir by (auto simp: run_node_def run_chdir_def show_part_def action_simps
        split: list.splits if_splits option.splits)
qed (auto simp: run_node_def action_simps)

function run_loop :: "os_env \<Rightarrow> bool \<Rightarrow> node list \<Rightarrow> (run_state, int option) action" where
  "run_loop os verbose nodes s =
     (case nodes of
        [] \<Rightarrow> sret None s
      | node # rest \<Rightarrow>
          (case run_node os verbose node rest s of
             (s', Inl e) \<Rightarrow> (s', Inl e)
           | (s', Inr (Return r)) \<Rightarrow> (s', Inr r)
           | (s', Inr (Continue nodes')) \<Rightarrow> run_loop os verbose nodes' s'))"
  by pat_completeness auto
termination
  by (relation "measure (\<lambda>(os, v, nodes, s). length nodes)")
    (auto simp: le_imp_less_Suc dest!: run_node_continue [OF sym])

declare run_loop.simps [simp del]

definition run :: "os_env \<Rightarrow> bool \<Rightarrow> node list \<Rightarrow> run_state \<times> (py_error + int option)" where
  "run os verbose nodes = run_loop os verbose nodes new_run"


section \<open>What the parser accepts\<close>

definition command_ok :: "command \<Rightarrow> bool" where
  "command_ok c \<longleftrightarrow> argv c \<noteq> [] \<and> hd (argv c) = name c \<and> env_vars c \<noteq> Some [] \<and> stderr c \<noteq> ErrPipe"

text \<open>Items and operators alternate, and the output is a pipe exactly before \<open>|\<close>.\<close>

fun item_ok :: "node \<Rightarrow> node option \<Rightarrow> bool" where
  "item_ok (Command c) next_op =
     (command_ok c \<and> (stdout c = OutPipe \<longleftrightarrow> next_op = Some Pipe) \<and> next_op \<in> {None, Some Pipe, Some And, Some Or})"
| "item_ok (Chdir d) next_op = (next_op \<in> {None, Some And})"
| "item_ok _ next_op = False"

fun wf_nodes :: "node list \<Rightarrow> bool" where
  "wf_nodes [] = False"
| "wf_nodes [n] = item_ok n None"
| "wf_nodes (n # op # ns) = (item_ok n (Some op) \<and> wf_nodes ns)"

fun wf_open :: "node list \<Rightarrow> bool" where
  "wf_open [] = True"
| "wf_open [n] = False"
| "wf_open (n # op # ns) = (item_ok n (Some op) \<and> wf_open ns)"

lemma wf_open_append: "wf_open ns \<Longrightarrow> item_ok n (Some op) \<Longrightarrow> wf_open (ns @ [n, op])"
  by (induction ns rule: wf_open.induct) auto

lemma wf_nodes_append: "wf_open ns \<Longrightarrow> item_ok n None \<Longrightarrow> wf_nodes (ns @ [n])"
  by (induction ns rule: wf_open.induct) auto

text \<open>The invariant of the parser: its state says what the current command is.\<close>

definition parser_ok :: "parser \<Rightarrow> bool" where
  "parser_ok p \<longleftrightarrow> wf_open (pipeline p) \<and>
     (case current_command p of
        None \<Rightarrow> state p = BEGIN
      | Some (Command c) \<Rightarrow> command_ok c \<and> stdout c \<noteq> OutPipe \<and> state p \<in> {COMMAND, STDOUT, STDERR, STDIN}
      | Some (Chdir d) \<Rightarrow> state p = CHDIR
      | Some _ \<Rightarrow> False)"

lemma commit_op_ok:
  assumes "wf_open (pipeline p)" "commit_op op p = Inr p'"
    "\<And>n. current_command p = Some n \<Longrightarrow> item_ok n (Some op)"
  shows "parser_ok p'"
  using assms
  by (cases "current_command p")
    (auto simp: commit_op_def commit_command_def parser_ok_def wf_open_append)

lemma parse_begin_ok:
  assumes "parser_ok p" "state p = BEGIN" "parse_begin token p = Inr p'"
  shows "parser_ok p'"
proof (cases "env_var_match token")
  case (Some kv)
  then obtain k v where "p' = p\<lparr>env := dset k v (env p)\<rparr>"
    using assms(3) by (cases kv) (auto simp: parse_begin_def)
  then show ?thesis using assms(1) by (simp add: parser_ok_def cong: option.case_cong node.case_cong)
next
  case None
  then have w: "wf_open (pipeline p)" "current_command p = None"
    using assms by (auto simp: parse_begin_def parser_ok_def split: if_splits)
  have c: "command_ok (new_command token)" "stdout (new_command token) = OutNone"
    by (simp_all add: command_ok_def new_command_def)
  have e: "command_ok (new_command token\<lparr>env_vars := Some (env p)\<rparr>)" if "env p \<noteq> []"
    using that by (simp add: command_ok_def new_command_def)
  show ?thesis
    using assms(3) None w c e
    by (cases "token = ''cd''"; cases "env p = []") (auto simp: parse_begin_def parser_ok_def Let_def)
qed

lemma parse_command_ok:
  assumes "parser_ok p" "current_command p = Some (Command cmd)" "state p = COMMAND"
    "parse_command token cmd p = Inr p'"
  shows "parser_ok p'"
proof -
  have w: "wf_open (pipeline p)" "command_ok cmd" "stdout cmd \<noteq> OutPipe"
    using assms(1,2) by (simp_all add: parser_ok_def)
  have c: "parser_ok q" if "commit_op op q' = Inr q" "pipeline q' = pipeline p"
      "current_command q' = Some (Command cmd')" "command_ok cmd'"
      "stdout cmd' = OutPipe \<longleftrightarrow> op = Pipe" "op \<in> {Pipe, And, Or}" for q q' op cmd'
    using that w(1) by (intro commit_op_ok [of q' op q]) auto
  show ?thesis
  proof (cases "token \<in> {''|'', ''&&'', ''||''}")
    case True
    then consider "token = ''|''" | "token = ''&&''" | "token = ''||''" by blast
    then show ?thesis
    proof cases
      case 1
      then show ?thesis
        using assms(4) w c [of Pipe "p\<lparr>current_command := Some (Command (cmd\<lparr>stdout := OutPipe\<rparr>))\<rparr>" p'
            "cmd\<lparr>stdout := OutPipe\<rparr>"]
        by (auto simp: parse_command_def command_ok_def split: if_splits)
    next
      case 2
      then show ?thesis using assms(2,4) w c [of And p p' cmd] by (simp add: parse_command_def)
    next
      case 3
      then show ?thesis using assms(2,4) w c [of Or p p' cmd] by (simp add: parse_command_def)
    qed
  next
    case False
    then show ?thesis
      using assms w
      by (auto simp: parse_command_def parser_ok_def command_ok_def hd_append split: if_splits)
  qed
qed

lemma parse_chdir_ok:
  assumes "parser_ok p" "current_command p = Some (Chdir d)" "state p = CHDIR"
    "parse_chdir token d p = Inr p'"
  shows "parser_ok p'"
proof (cases "token = ''&&''")
  case True
  then show ?thesis
    using assms by (intro commit_op_ok [of p And p']) (auto simp: parse_chdir_def parser_ok_def)
next
  case False
  then show ?thesis using assms by (auto simp: parse_chdir_def parser_ok_def split: if_splits)
qed

lemma parse_redirect_ok:
  assumes "parser_ok p" "current_command p = Some (Command cmd)" "state p \<in> {STDOUT, STDERR, STDIN}"
    "parse_redirect token cmd p = Inr p'"
  shows "parser_ok p'"
proof -
  have w: "wf_open (pipeline p)" "command_ok cmd" "stdout cmd \<noteq> OutPipe"
    using assms(1,2) by (simp_all add: parser_ok_def)
  have r: "parser_ok (p\<lparr>current_command := Some (Command c), state := COMMAND\<rparr>)"
    if "command_ok c" "stdout c \<noteq> OutPipe" for c
    using w(1) that by (simp add: parser_ok_def)
  have k: "command_ok (cmd\<lparr>stdout := out\<rparr>)" "command_ok (cmd\<lparr>stderr := ErrFile f\<rparr>)"
    "command_ok (cmd\<lparr>stdin := i\<rparr>)" for out f i
    using w(2) by (simp_all add: command_ok_def)
  consider "state p = STDOUT" | "state p = STDERR" | "state p = STDIN" using assms(3) by blast
  then show ?thesis
  proof cases
    case 1
    then have "p' = p\<lparr>current_command := Some (Command (cmd\<lparr>stdout := OutFile token\<rparr>)), state := COMMAND\<rparr>"
      using assms(4) by (simp add: parse_redirect_def split: if_splits)
    then show ?thesis using r k(1) by simp
  next
    case 2
    then have "p' = p\<lparr>current_command := Some (Command (cmd\<lparr>stderr := ErrFile token\<rparr>)), state := COMMAND\<rparr>"
      using assms(4) by (simp add: parse_redirect_def split: if_splits)
    then show ?thesis using r [OF k(2)] w(3) by simp
  next
    case 3
    then have "p' = p\<lparr>current_command := Some (Command (cmd\<lparr>stdin := Some token\<rparr>)), state := COMMAND\<rparr>"
      using assms(4) by (simp add: parse_redirect_def split: if_splits)
    then show ?thesis using r [OF k(3)] w(3) by simp
  qed
qed

lemma parse_step_ok:
  assumes ok: "parser_ok p" and st: "parse_step p token = Inr p'"
  shows "parser_ok p'"
proof (cases "state p = BEGIN")
  case True
  then have "parse_begin token p = Inr p'" using st by (simp add: parse_step_def)
  then show ?thesis by (rule parse_begin_ok [OF ok True])
next
  case False
  then obtain n where n: "current_command p = Some n"
    using ok by (cases "current_command p") (auto simp: parser_ok_def)
  show ?thesis
  proof (cases n)
    case (Command cmd)
    then have sts: "state p = COMMAND \<or> state p \<in> {STDOUT, STDERR, STDIN}"
      using ok n by (auto simp: parser_ok_def)
    show ?thesis
    proof (cases "state p = COMMAND")
      case True
      then have "parse_command token cmd p = Inr p'" using st n Command by (simp add: parse_step_def)
      then show ?thesis using parse_command_ok [OF ok _ True] n Command by blast
    next
      case False
      then have r: "state p \<in> {STDOUT, STDERR, STDIN}" using sts by blast
      then have "parse_redirect token cmd p = Inr p'"
        using st n Command by (auto simp: parse_step_def)
      then show ?thesis using parse_redirect_ok [OF ok _ r] n Command by blast
    qed
  next
    case (Chdir d)
    then have c: "state p = CHDIR" using ok n by (simp add: parser_ok_def)
    then have "parse_chdir token d p = Inr p'" using st n Chdir by (simp add: parse_step_def)
    then show ?thesis using parse_chdir_ok [OF ok _ c] n Chdir by blast
  qed (use ok n in \<open>auto simp: parser_ok_def\<close>)
qed

lemma parse_wf:
  assumes "parse tokens = Inr nodes"
  shows "wf_nodes nodes"
proof -
  obtain p q where p: "foldM parse_step new_parser tokens = Inr p" "commit_command p = Inr q"
    "nodes = pipeline q" using assms by (auto simp: parse_def py_simps)
  have "parser_ok new_parser" by (simp add: parser_ok_def new_parser_def)
  then have ok: "parser_ok p" using foldM_invariant [OF p(1), of parser_ok] parse_step_ok by blast
  then obtain n where n: "current_command p = Some n" "nodes = pipeline p @ [n]"
    using p(2,3) by (auto simp: commit_command_def split: option.splits)
  then have "wf_open (pipeline p)" "item_ok n None"
    using ok by (auto simp: parser_ok_def split: node.splits)
  then show ?thesis using n(2) wf_nodes_append by simp
qed

section \<open>Printing a pipeline and parsing it again\<close>

definition special_token :: "string \<Rightarrow> bool" where
  "special_token t \<longleftrightarrow> t \<in> {''>'', ''2>'', ''2>&1'', ''<'', ''|'', ''&&'', ''||''}"

definition env_tokens :: "(string, string) dict option \<Rightarrow> string list" where
  "env_tokens e = (case e of None \<Rightarrow> [] | Some vars \<Rightarrow> List.map (\<lambda>(k, v). k @ ''='' @ v) vars)"

definition in_tokens :: "string option \<Rightarrow> string list" where
  "in_tokens i = (case i of None \<Rightarrow> [] | Some f \<Rightarrow> [''<'', f])"

definition out_tokens :: "out_target \<Rightarrow> string list" where
  "out_tokens t = (case t of OutFile f \<Rightarrow> [''>'', f] | _ \<Rightarrow> [])"

definition err_tokens :: "err_target \<Rightarrow> string list" where
  "err_tokens t = (case t of ErrFile f \<Rightarrow> [''2>'', f] | ErrStdout \<Rightarrow> [''2>&1''] | _ \<Rightarrow> [])"

definition command_tokens :: "command \<Rightarrow> string list" where
  "command_tokens c =
     env_tokens (env_vars c) @ argv c @ in_tokens (stdin c) @ out_tokens (stdout c) @ err_tokens (stderr c)"

fun node_tokens :: "node \<Rightarrow> string list" where
  "node_tokens (Command c) = command_tokens c"
| "node_tokens (Chdir d) = ''cd'' # (case d of None \<Rightarrow> [] | Some x \<Rightarrow> [x])"
| "node_tokens Pipe = [''|'']"
| "node_tokens And = [''&&'']"
| "node_tokens Or = [''||'']"

definition unparse :: "node list \<Rightarrow> string list" where
  "unparse nodes = concat (List.map node_tokens nodes)"

text \<open>The words that survive: no argument is an operator, and the command name is read as one.\<close>

definition vars_plain :: "(string, string) dict \<Rightarrow> bool" where
  "vars_plain vars \<longleftrightarrow> dict_wf vars \<and> (\<forall>(k, v) \<in> set vars. env_var_match (k @ ''='' @ v) = Some (k, v))"

fun plain :: "node \<Rightarrow> bool" where
  "plain (Command c) =
     ((\<forall>w \<in> set (tl (argv c)). \<not> special_token w) \<and> name c \<noteq> ''cd'' \<and> env_var_match (name c) = None \<and>
      (case env_vars c of None \<Rightarrow> True | Some vars \<Rightarrow> vars_plain vars))"
| "plain (Chdir (Some d)) = (d \<noteq> ''&&'')"
| "plain _ = True"

lemma parse_env:
  assumes "state p = BEGIN" "dict_wf (env p @ vars)"
    "\<forall>(k, v) \<in> set vars. env_var_match (k @ ''='' @ v) = Some (k, v)"
  shows "foldM parse_step p (List.map (\<lambda>(k, v). k @ ''='' @ v) vars) = Inr (p\<lparr>env := env p @ vars\<rparr>)"
  using assms
proof (induction vars arbitrary: p)
  case Nil
  then show ?case by simp
next
  case (Cons kv vars)
  obtain k v where kv: "kv = (k, v)" by fastforce
  have "dset k v (env p) = env p @ [(k, v)]"
    using Cons.prems(2) kv by (intro dset_absent) (auto simp: map_of_eq_None_iff)
  then have "parse_step p (k @ ''='' @ v) = Inr (p\<lparr>env := env p @ [(k, v)]\<rparr>)"
    using Cons.prems(1,3) kv by (simp add: parse_step_def parse_begin_def)
  then show ?case using Cons.IH [of "p\<lparr>env := env p @ [(k, v)]\<rparr>"] Cons.prems kv by simp
qed

lemma parse_args:
  assumes "state p = COMMAND" "current_command p = Some (Command c)" "\<forall>w \<in> set ws. \<not> special_token w"
  shows "foldM parse_step p ws = Inr (p\<lparr>current_command := Some (Command (c\<lparr>argv := argv c @ ws\<rparr>))\<rparr>)"
  using assms
proof (induction ws arbitrary: p c)
  case Nil
  then show ?case by (cases p) simp
next
  case (Cons w ws)
  have "parse_step p w = Inr (p\<lparr>current_command := Some (Command (c\<lparr>argv := argv c @ [w]\<rparr>))\<rparr>)"
    using Cons.prems by (simp add: parse_step_def parse_command_def special_token_def)
  then show ?case
    using Cons.IH [of "p\<lparr>current_command := Some (Command (c\<lparr>argv := argv c @ [w]\<rparr>))\<rparr>"
        "c\<lparr>argv := argv c @ [w]\<rparr>"] Cons.prems
    by simp
qed

lemma parse_redirects:
  assumes "state p = COMMAND" "current_command p = Some (Command c)"
    "stdin c = None" "stdout c = OutNone" "stderr c = ErrNone" "e \<noteq> ErrPipe"
  shows "foldM parse_step p (in_tokens i @ out_tokens out @ err_tokens e) =
     Inr (p\<lparr>current_command := Some (Command (c\<lparr>stdin := i,
       stdout := (if out = OutPipe then OutNone else out), stderr := e\<rparr>))\<rparr>)"
  using assms
  by (cases i; cases out; cases e)
    (auto simp: in_tokens_def out_tokens_def err_tokens_def parse_step_def parse_command_def
      parse_redirect_def intro!: parser.equality command.equality)


definition open_current :: "node \<Rightarrow> node" where
  "open_current n = (case n of
     Command c \<Rightarrow> Command (c\<lparr>stdout := (if stdout c = OutPipe then OutNone else stdout c)\<rparr>)
   | _ \<Rightarrow> n)"

definition item_state :: "node \<Rightarrow> parse_state" where
  "item_state n = (case n of Chdir d \<Rightarrow> CHDIR | _ \<Rightarrow> COMMAND)"

lemma parse_item:
  assumes p: "state p = BEGIN" "current_command p = None" "env p = []"
    and n: "item_ok n op" "plain n"
  shows "foldM parse_step p (node_tokens n) =
     Inr (p\<lparr>state := item_state n, current_command := Some (open_current n)\<rparr>)"
proof (cases n)
  case (Command c)
  have ok: "argv c \<noteq> []" "hd (argv c) = name c" "env_vars c \<noteq> Some []" "stderr c \<noteq> ErrPipe"
    using n(1) Command by (cases op; simp add: command_ok_def)+
  have pl: "\<forall>w \<in> set (tl (argv c)). \<not> special_token w" "name c \<noteq> ''cd''"
    "env_var_match (name c) = None"
    "\<And>vars. env_vars c = Some vars \<Longrightarrow> vars_plain vars"
    using n(2) Command by (auto split: option.splits)
  define c0 where "c0 = (new_command (name c))\<lparr>env_vars := env_vars c\<rparr>"
  define p1 where "p1 = p\<lparr>state := COMMAND, current_command := Some (Command c0)\<rparr>"
  have vars: "foldM parse_step p (env_tokens (env_vars c) @ [name c]) = Inr p1"
  proof (cases "env_vars c")
    case None
    then show ?thesis
      using p pl by (simp add: env_tokens_def parse_step_def parse_begin_def p1_def c0_def new_command_def Let_def)
  next
    case (Some vars)
    then have "foldM parse_step p (env_tokens (env_vars c)) = Inr (p\<lparr>env := env p @ vars\<rparr>)"
      using parse_env [of p vars] p pl(4) by (simp add: env_tokens_def vars_plain_def)
    moreover have "parse_step (p\<lparr>env := vars\<rparr>) (name c) = Inr p1"
      using p pl ok(3) Some
      by (simp add: parse_step_def parse_begin_def p1_def c0_def new_command_def Let_def)
    ultimately show ?thesis using p(3) by (simp add: foldM_append)
  qed
  define c1 where "c1 = c0\<lparr>argv := argv c\<rparr>"
  have args: "foldM parse_step p1 (tl (argv c)) = Inr (p1\<lparr>current_command := Some (Command c1)\<rparr>)"
  proof -
    have "argv c = name c # tl (argv c)" using ok(1,2) by (metis list.collapse)
    then show ?thesis
      using parse_args [of p1 c0 "tl (argv c)"] pl(1)
      by (simp add: p1_def c1_def c0_def new_command_def)
  qed
  have toks: "node_tokens n = (env_tokens (env_vars c) @ [name c]) @ tl (argv c) @
      (in_tokens (stdin c) @ out_tokens (stdout c) @ err_tokens (stderr c))"
    using Command ok(1,2) by (cases "argv c") (simp_all add: command_tokens_def)
  have red: "foldM parse_step (p1\<lparr>current_command := Some (Command c1)\<rparr>)
      (in_tokens (stdin c) @ out_tokens (stdout c) @ err_tokens (stderr c)) =
    Inr (p1\<lparr>current_command := Some (Command (c1\<lparr>stdin := stdin c,
       stdout := (if stdout c = OutPipe then OutNone else stdout c), stderr := stderr c\<rparr>))\<rparr>)"
    using parse_redirects [of "p1\<lparr>current_command := Some (Command c1)\<rparr>" c1 "stderr c" "stdin c" "stdout c"]
      ok(4) by (simp add: p1_def c1_def c0_def new_command_def)
  have "c1\<lparr>stdin := stdin c, stdout := (if stdout c = OutPipe then OutNone else stdout c), stderr := stderr c\<rparr>
      = c\<lparr>stdout := (if stdout c = OutPipe then OutNone else stdout c)\<rparr>"
    by (rule command.equality) (simp_all add: c1_def c0_def new_command_def)
  then show ?thesis
    unfolding toks foldM_append [of _ _ "env_tokens (env_vars c) @ [name c]"] vars rbind.simps
      foldM_append [of _ _ "tl (argv c)"] args red
    using Command by (simp add: p1_def open_current_def item_state_def)
next
  case (Chdir d)
  show ?thesis
  proof (cases d)
    case None
    then show ?thesis
      using p Chdir by (simp add: parse_step_def parse_begin_def env_var_match_def open_current_def item_state_def)
  next
    case (Some x)
    then show ?thesis
      using p n Chdir by (simp add: parse_step_def parse_begin_def parse_chdir_def env_var_match_def
          open_current_def item_state_def)
  qed
qed (use n in auto)

lemma parse_operator:
  assumes "item_ok n (Some op)" "current_command p = Some (open_current n)" "state p = item_state n"
  shows "foldM parse_step p (node_tokens op) =
     Inr (p\<lparr>state := BEGIN, current_command := None, pipeline := pipeline p @ [n, op]\<rparr>)"
proof (cases n)
  case (Command c)
  then consider "op = Pipe" "stdout c = OutPipe" | "op = And" "stdout c \<noteq> OutPipe" | "op = Or" "stdout c \<noteq> OutPipe"
    using assms(1) by auto
  then show ?thesis
    using assms Command
    by cases (auto simp: parse_step_def parse_command_def commit_op_def commit_command_def
        open_current_def item_state_def intro!: parser.equality command.equality)
next
  case (Chdir d)
  then show ?thesis
    using assms by (auto simp: parse_step_def parse_chdir_def commit_op_def commit_command_def
        open_current_def item_state_def)
qed (use assms in auto)

lemma unparse_Cons [simp]: "unparse (n # ns) = node_tokens n @ unparse ns"
  by (simp add: unparse_def)

lemma unparse_Nil [simp]: "unparse [] = []"
  by (simp add: unparse_def)

lemma parse_unparse_from:
  assumes "wf_nodes nodes" "\<forall>n \<in> set nodes. plain n"
    and "state p = BEGIN" "current_command p = None" "env p = []"
  shows "rbind (foldM parse_step p (unparse nodes)) commit_command =
    Inr (p\<lparr>state := item_state (last nodes), current_command := None, pipeline := pipeline p @ nodes\<rparr>)"
  using assms
proof (induction nodes arbitrary: p rule: wf_nodes.induct)
  case 1
  then show ?case by simp
next
  case (2 n)
  then have item: "item_ok n None" "plain n" by simp_all
  have "open_current n = n"
    using item(1) by (cases n) (auto simp: open_current_def)
  then show ?case
    using parse_item [OF 2(3-5) item] by (simp add: commit_command_def)
next
  case (3 n op ns)
  then have item: "item_ok n (Some op)" "plain n" by simp_all
  let ?p1 = "p\<lparr>state := item_state n, current_command := Some (open_current n)\<rparr>"
  let ?p2 = "?p1\<lparr>state := BEGIN, current_command := None, pipeline := pipeline p @ [n, op]\<rparr>"
  have "foldM parse_step p (unparse (n # op # ns)) = foldM parse_step ?p2 (unparse ns)"
    using parse_item [OF 3(4-6) item] parse_operator [OF item(1), of ?p1]
    by (simp add: foldM_append)
  moreover have "ns \<noteq> []" using 3(2) by auto
  ultimately show ?case
    using 3(1) [of ?p2] 3(2,3,6) by simp
qed

lemma parse_unparse:
  assumes "wf_nodes nodes" "\<forall>n \<in> set nodes. plain n"
  shows "parse (unparse nodes) = Inr nodes"
proof -
  have "rbind (foldM parse_step new_parser (unparse nodes)) commit_command =
    Inr (new_parser\<lparr>state := item_state (last nodes), current_command := None, pipeline := nodes\<rparr>)"
    using parse_unparse_from [OF assms, of new_parser] by (simp add: new_parser_def)
  then show ?thesis
    by (cases "foldM parse_step new_parser (unparse nodes)") (auto simp: parse_def)
qed

section \<open>Execution: files, errors and the order of commands\<close>

lemma exec_piped_commands_last: "rs \<noteq> [] \<Longrightarrow> exec_piped_commands rs = last rs"
  unfolding exec_piped_commands_def by (metis last_in_set)

text \<open>Every file that \<open>run\<close> opens is logged, and is waiting to be closed until it is closed.\<close>

definition files_ok :: "run_state \<Rightarrow> bool" where
  "files_ok s \<longleftrightarrow> opened s = closed s @ List.filter (\<lambda>h. h \<noteq> HNull) (files_to_close s)"

definition keeps :: "(run_state \<Rightarrow> bool) \<Rightarrow> (run_state, 'a) action \<Rightarrow> bool" where
  "keeps P m \<longleftrightarrow> (\<forall>s. P s \<longrightarrow> P (fst (m s)))"

lemma keeps_sbind: "keeps P m \<Longrightarrow> (\<And>x. keeps P (f x)) \<Longrightarrow> keeps P (sbind m f)"
  unfolding keeps_def sbind_def by (auto split: prod.splits sum.splits)

lemma keeps_basic: "keeps P (sret x)" "keeps P (sraise e)" "(\<And>s. P s \<Longrightarrow> P (g s)) \<Longrightarrow> keeps P (supdate g)"
  by (simp_all add: keeps_def action_simps)

lemma keeps_files:
  "keeps files_ok (show_part v t)" "keeps files_ok (open_out_file os f)"
  "keeps files_ok (setup_stdout os v c)" "keeps files_ok (setup_stderr os v c)"
  "keeps files_ok (setup_stdin os v c)" "keeps files_ok (popen os c src)"
proof -
  show 1: "keeps files_ok (show_part v t)" for v t
    by (auto simp: show_part_def keeps_def action_simps files_ok_def)
  show 2: "keeps files_ok (open_out_file os f)" for os f
    by (auto simp: open_out_file_def keeps_def action_simps files_ok_def)
  show "keeps files_ok (setup_stdout os v c)"
    by (auto simp: setup_stdout_def keeps_basic intro!: keeps_sbind 1 2 split: out_target.split)
  show "keeps files_ok (setup_stderr os v c)"
    by (auto simp: setup_stderr_def keeps_basic intro!: keeps_sbind 1 2 split: err_target.split)
  show "keeps files_ok (setup_stdin os v c)"
    by (auto simp: setup_stdin_def keeps_def action_simps files_ok_def show_part_def split: option.splits)
  show "keeps files_ok (popen os c src)"
    by (auto simp: popen_def keeps_def files_ok_def Let_def split: sum.splits)
qed

lemma start_command_files: "files_ok s \<Longrightarrow> files_ok (fst (start_command os v c s))"
proof -
  have "keeps files_ok (start_command os v c)"
    unfolding start_command_def by (intro keeps_sbind keeps_files)
  then show "files_ok s \<Longrightarrow> files_ok (fst (start_command os v c s))" by (simp add: keeps_def)
qed

lemma finish_pipe_files:
  "finish_pipe s = (s', r) \<Longrightarrow> files_ok s \<Longrightarrow> files_ok s' \<and> files_to_close s' = [] \<and> (\<exists>k. r = Inr k)"
  by (auto simp: finish_pipe_def close_files_def files_ok_def)

lemma run_last_files:
  "files_ok s \<Longrightarrow> run_last v s = (s', r) \<Longrightarrow> files_ok s' \<and> files_to_close s' = []"
  by (auto simp: run_last_def sbind_def [of finish_pipe] finish_pipe_def close_files_def files_ok_def
      action_simps)

lemma run_operator_files:
  "files_ok s \<Longrightarrow> run_operator v n rest s = (s', r) \<Longrightarrow>
     files_ok s' \<and> ((\<exists>k. r = Inr (Return k)) \<longrightarrow> files_to_close s' = [])"
  by (cases n)
    (auto simp: run_operator_def sbind_def [of finish_pipe] finish_pipe_def close_files_def files_ok_def
      next_pipe_def action_simps split: if_splits)

lemma run_node_files:
  assumes "files_ok s" "run_node os v node rest s = (s', r)"
  shows "files_ok s' \<and> ((\<exists>k. r = Inr (Return k)) \<longrightarrow> files_to_close s' = [])"
proof (cases node)
  case (Command cmd)
  obtain s1 r1 where s1: "start_command os v cmd s = (s1, r1)" by fastforce
  then have f: "files_ok s1" using start_command_files [OF assms(1), of os v cmd] by simp
  show ?thesis
  proof (cases r1)
    case (Inl e)
    then show ?thesis using assms(2) Command s1 f by (auto simp: run_node_def sbind_def)
  next
    case (Inr u)
    then have "(case rest of [] \<Rightarrow> run_last v | n # rest' \<Rightarrow> run_operator v n rest') s1 = (s', r)"
      using assms(2) Command s1 by (simp add: run_node_def sbind_def)
    then show ?thesis
      using run_last_files [OF f] run_operator_files [OF f] by (cases rest) auto
  qed
next
  case (Chdir d)
  then show ?thesis
    using assms by (auto simp: run_node_def run_chdir_def show_part_def action_simps files_ok_def
        split: list.splits if_splits option.splits)
qed (use assms in \<open>auto simp: run_node_def action_simps\<close>)

lemma run_loop_files:
  "files_ok s \<Longrightarrow> run_loop os v nodes s = (s', r) \<Longrightarrow>
     files_ok s' \<and> ((\<exists>k. r = Inr (Some k)) \<longrightarrow> files_to_close s' = [])"
proof (induction os v nodes s arbitrary: s' r rule: run_loop.induct)
  case (1 os v nodes s)
  show ?case
  proof (cases nodes)
    case Nil
    then show ?thesis using 1(2,3) by (auto simp: run_loop.simps [of os v "[]" s] action_simps)
  next
    case (Cons node rest)
    obtain s1 r1 where s1: "run_node os v node rest s = (s1, r1)" by fastforce
    note f = run_node_files [OF 1(2) s1]
    show ?thesis
    proof (cases r1)
      case (Inl e)
      then show ?thesis using 1(3) Cons s1 f by (auto simp: run_loop.simps [of os v "node # rest" s])
    next
      case (Inr t)
      then show ?thesis
        using 1(1) [OF Cons s1 [symmetric] Inr] 1(3) Cons s1 f
        by (cases t) (auto simp: run_loop.simps [of os v "node # rest" s])
    qed
  qed
qed


section \<open>Comparison with the shell\<close>

text \<open>
  What a shell does with the same nodes: \<open>&&\<close> and \<open>||\<close> associate to the left,
  and the status of the last pipe that ran decides whether the next one runs;
  a pipe that is skipped leaves the status alone.  \<open>Some r\<close> is that status.
  A directory change is taken to succeed and to change the directory wherever it
  stands, also behind \<open>|\<close>, where a shell would confine it to a subshell.
\<close>

function sh_loop :: "os_env \<Rightarrow> int option \<Rightarrow> node list \<Rightarrow> (run_state, int option) action" where
  "sh_loop os st nodes s =
     (case st of
        Some r \<Rightarrow>
          (case nodes of
             [] \<Rightarrow> (s, Inr (Some r))
           | op # rest \<Rightarrow>
               (if (op = And \<and> r = 0) \<or> (op = Or \<and> r \<noteq> 0) then sh_loop os None rest (next_pipe s)
                else sh_loop os (Some r) (dropWhile (\<lambda>n. n \<noteq> And \<and> n \<noteq> Or) rest) s))
      | None \<Rightarrow>
          (case nodes of
             [] \<Rightarrow> (s, Inr None)
           | Command cmd # rest \<Rightarrow>
               (case start_command os False cmd s of
                  (s1, Inl e) \<Rightarrow> (s1, Inl e)
                | (s1, Inr _) \<Rightarrow>
                    (if rest \<noteq> [] \<and> hd rest = Pipe
                     then sh_loop os None (tl rest) (s1\<lparr>piping := True, display := display s1 @ [''|'']\<rparr>)
                     else sh_loop os (Some (last (piped s1))) rest (close_files s1)))
           | Chdir d # rest \<Rightarrow>
               (case run_chdir False d rest s of
                  (s1, Inl e) \<Rightarrow> (s1, Inl e)
                | (s1, Inr _) \<Rightarrow> sh_loop os None (tl rest) s1)
           | _ \<Rightarrow> (s, Inl AssertionError)))"
  by pat_completeness auto
termination
  by (relation "measure (\<lambda>(os, st, nodes, s). length nodes)")
    (auto simp: less_Suc_eq_le length_dropWhile_le)

declare sh_loop.simps [simp del]

definition sh_run :: "os_env \<Rightarrow> node list \<Rightarrow> run_state \<times> (py_error + int option)" where
  "sh_run os nodes = sh_loop os None nodes new_run"

lemma sh_loop_skip:
  "(r \<noteq> 0 \<and> Or \<notin> set nodes) \<or> (r = 0 \<and> And \<notin> set nodes) \<Longrightarrow>
   sh_loop os (Some r) nodes s = (s, Inr (Some r))"
proof (induction "length nodes" arbitrary: nodes rule: less_induct)
  case less
  show ?case
  proof (cases nodes)
    case Nil
    then show ?thesis by (simp add: sh_loop.simps [of os "Some r" "[]" s])
  next
    case (Cons op rest)
    define rest' where "rest' = dropWhile (\<lambda>n. n \<noteq> And \<and> n \<noteq> Or) rest"
    have "length rest' < length nodes" "set rest' \<subseteq> set nodes"
      using length_dropWhile_le [of _ rest] Cons
      by (auto simp: rest'_def less_Suc_eq_le dest: set_dropWhileD)
    then have "sh_loop os (Some r) rest' s = (s, Inr (Some r))" using less by blast
    moreover have "\<not> ((op = And \<and> r = 0) \<or> (op = Or \<and> r \<noteq> 0))" using less.prems Cons by auto
    ultimately show ?thesis
      by (auto simp: sh_loop.simps [of os "Some r" "op # rest" s] Cons rest'_def [symmetric])
  qed
qed

lemma start_command_piped: "start_command os v c s = (s1, Inr u) \<Longrightarrow> piped s1 \<noteq> []"
  by (auto simp: start_command_def popen_def Let_def dest!: sbind_cases split: sum.splits)

lemma run_loop_unfold:
  "run_loop os v (n # ns) s =
     (case run_node os v n ns s of
        (s', Inl e) \<Rightarrow> (s', Inl e)
      | (s', Inr (Return r)) \<Rightarrow> (s', Inr r)
      | (s', Inr (Continue nodes')) \<Rightarrow> run_loop os v nodes' s')"
  by (subst run_loop.simps) simp

lemma run_loop_sh:
  assumes "wf_nodes nodes" "And \<notin> set nodes \<or> Or \<notin> set nodes"
  shows "run_loop os False nodes s = sh_loop os None nodes s"
  using assms
proof (induction nodes arbitrary: s rule: wf_nodes.induct)
  case 1
  then show ?case by simp
next
  case (2 n)
  show ?case
  proof (cases n)
    case (Command cmd)
    obtain s1 r1 where s1: "start_command os False cmd s = (s1, r1)" by fastforce
    show ?thesis
    proof (cases r1)
      case (Inl e)
      then show ?thesis
        using Command s1
        by (simp add: run_loop_unfold run_node_def sbind_def sh_loop.simps [of os None "[Command cmd]" s])
    next
      case (Inr u)
      then have "piped s1 \<noteq> []" using s1 start_command_piped by blast
      then show ?thesis
        using Command s1 Inr
        by (simp add: run_loop_unfold run_node_def sbind_def run_last_def finish_pipe_def action_simps
            exec_piped_commands_last sh_loop.simps [of os None "[Command cmd]" s]
            sh_loop.simps [of os "Some (last (piped s1))" "[]"] close_files_def)
    qed
  next
    case (Chdir d)
    then show ?thesis
      by (simp add: run_loop_unfold run_node_def run_chdir_def action_simps sh_loop.simps [of os None "[Chdir d]" s])
  qed (use 2 in auto)
next
  case (3 n op ns)
  then have item: "item_ok n (Some op)" and wf: "wf_nodes ns"
    and ops: "And \<notin> set ns \<or> Or \<notin> set ns" by auto
  have IH: "run_loop os False ns t = sh_loop os None ns t" for t using 3 by auto
  show ?case
  proof (cases n)
    case (Chdir d)
    then have "op = And" using item by simp
    then show ?thesis
      using Chdir IH
      by (cases d) (simp_all add: run_loop_unfold run_node_def run_chdir_def show_part_def action_simps
          sh_loop.simps [of os None "Chdir None # And # ns" s]
          sh_loop.simps [of os None "Chdir (Some x) # And # ns" s for x])
  next
    case (Command cmd)
    obtain s1 r1 where s1: "start_command os False cmd s = (s1, r1)" by fastforce
    show ?thesis
    proof (cases r1)
      case (Inl e)
      then show ?thesis
        using Command s1
        by (simp add: run_loop_unfold run_node_def sbind_def sh_loop.simps [of os None "Command cmd # q # ns" s for q])
    next
      case (Inr u)
      define k where "k = last (piped s1)"
      have k: "exec_piped_commands (piped s1) = k"
        using s1 Inr start_command_piped exec_piped_commands_last by (simp add: k_def)
      consider "op = Pipe" | "op = And" | "op = Or" using item Command by auto
      then show ?thesis
      proof cases
        case 1
        then show ?thesis
          using Command s1 Inr IH
          by (simp add: run_loop_unfold run_node_def sbind_def run_operator_def action_simps
              sh_loop.simps [of os None "Command cmd # q # ns" s for q])
      next
        case 2
        then have "k \<noteq> 0 \<Longrightarrow> sh_loop os (Some k) (op # ns) t = (t, Inr (Some k))" for t
          using 3(3) by (intro sh_loop_skip) auto
        moreover have "k = 0 \<Longrightarrow> sh_loop os (Some k) (op # ns) t = sh_loop os None ns (next_pipe t)" for t
          using 2 by (simp add: sh_loop.simps [of os "Some j" "q # ns" for j q])
        ultimately show ?thesis
          using Command s1 Inr IH 2
          by (simp add: run_loop_unfold run_node_def sbind_def run_operator_def finish_pipe_def k
              action_simps sh_loop.simps [of os None "Command cmd # q # ns" s for q] k_def [symmetric])
      next
        case 3
        then have "k = 0 \<Longrightarrow> sh_loop os (Some k) (op # ns) t = (t, Inr (Some k))" for t
          using \<open>And \<notin> set (n # op # ns) \<or> Or \<notin> set (n # op # ns)\<close> by (intro sh_loop_skip) auto
        moreover have "k \<noteq> 0 \<Longrightarrow> sh_loop os (Some k) (op # ns) t = sh_loop os None ns (next_pipe t)" for t
          using 3 by (simp add: sh_loop.simps [of os "Some j" "q # ns" for j q])
        ultimately show ?thesis
          using Command s1 Inr IH 3
          by (simp add: run_loop_unfold run_node_def sbind_def run_operator_def finish_pipe_def k
              action_simps sh_loop.simps [of os None "Command cmd # q # ns" s for q] k_def [symmetric])
      qed
    qed
  qed (use item in auto)
qed

section \<open>Properties\<close>

text \<open>C15. A parsed pipeline is well formed: commands and operators alternate, it ends
  with a command or a directory change, every directory change is last or
  followed by \<open>&&\<close>, the output of a command is a pipe exactly when \<open>|\<close> follows,
  and every command has its name as the first element of its argument vector.\<close>

theorem parse_well_formed: "parse tokens = Inr nodes \<Longrightarrow> wf_nodes nodes"
  by (rule parse_wf)

definition demo_tokens :: "string list" where
  "demo_tokens = [''cd'', ''d'', ''&&'', ''a'', ''x'', ''|'', ''b'', ''>'', ''f'']"

definition demo_nodes :: "node list" where
  "demo_nodes =
     [Chdir (Some ''d''), And,
      Command ((new_command ''a'')\<lparr>argv := [''a'', ''x''], stdout := OutPipe\<rparr>), Pipe,
      Command ((new_command ''b'')\<lparr>stdout := OutFile ''f''\<rparr>)]"

lemma parse_demo: "parse demo_tokens = Inr demo_nodes"
  by code_simp

theorem parse_well_formed_witness: "wf_nodes demo_nodes"
  by (rule parse_well_formed [OF parse_demo])

text \<open>C7. Printing a well-formed pipeline whose words are plain and parsing the tokens
  gives the pipeline back, redirections, environment variables and directory
  changes included.\<close>

theorem parse_unparse_roundtrip:
  "wf_nodes nodes \<Longrightarrow> list_all plain nodes \<Longrightarrow> parse (unparse nodes) = Inr nodes"
  by (rule parse_unparse) (auto simp: list_all_iff)

theorem parse_unparse_roundtrip_witness: "parse (unparse demo_nodes) = Inr demo_nodes"
  by (rule parse_unparse_roundtrip) code_simp+


definition demo_os :: os_env where
  "demo_os = \<lparr>open_ok = (\<lambda>f. True),
     spawn = (\<lambda>ls l. Inr (if l_argv l = [''false''] then 1 else 0)), environ = []\<rparr>"


text \<open>A chain that mixes the operators does not run as in the shell: for
  \<open>false && x || y\<close> the shell runs \<open>y\<close> and succeeds, while \<open>run\<close> returns the failure
  of \<open>false\<close> without starting \<open>y\<close>.\<close>

theorem run_mixed_chain_stops_early:
  "rbind (parse [''false'', ''&&'', ''x'', ''||'', ''y'']) (\<lambda>nodes. snd (run demo_os False nodes)) = Inr (Some 1) \<and>
   rbind (parse [''false'', ''&&'', ''x'', ''||'', ''y'']) (\<lambda>nodes. snd (sh_run demo_os nodes)) = Inr (Some 0)"
  by code_simp

text \<open>When \<open>run\<close> returns a status, every file it opened has been closed, in the
  order of opening and each once.\<close>

theorem run_closes_files:
  "run os verbose nodes = (s, Inr (Some retval)) \<Longrightarrow> closed s = opened s"
  using run_loop_files [of new_run os verbose nodes s "Inr (Some retval)"]
  by (simp add: run_def files_ok_def new_run_def)

theorem run_closes_files_witness:
  "closed (fst (run demo_os True demo_nodes)) = opened (fst (run demo_os True demo_nodes))"
proof (rule run_closes_files)
  show "run demo_os True demo_nodes = (fst (run demo_os True demo_nodes), Inr (Some 0))"
    by code_simp
qed


text \<open>A verbose run raises \<open>UnboundLocalError\<close> as soon as its first command, having
  started, is followed by \<open>&&\<close> or \<open>||\<close>: the message of those branches reads a
  variable that only the last branch binds.\<close>

theorem verbose_operator_unbound:
  "start_command os True c new_run = (s1, Inr ()) \<Longrightarrow> op = And \<or> op = Or \<Longrightarrow>
   snd (run os True (Command c # op # rest)) = Inl UnboundLocalError"
  by (auto simp: run_def run_loop_unfold run_node_def sbind_def run_operator_def finish_pipe_def
      action_simps)

theorem verbose_operator_unbound_witness:
  "snd (run demo_os True [Command (new_command ''a''), And, Command (new_command ''b'')]) =
     Inl UnboundLocalError"
proof (rule verbose_operator_unbound)
  show "start_command demo_os True (new_command ''a'') new_run =
      (fst (start_command demo_os True (new_command ''a'') new_run), Inr ())"
    by code_simp
qed simp

end
