(* ===== verification/Registry.thy ===== *)
theory Registry
  imports PyString
begin

text \<open>
  The idiom "return the entry of this name, or append a new one" on a list of
  named objects.  A reference to an object of the list is its position.  The
  contract of such a list is the locale \<open>registry\<close>; the operation below provides
  it for every component that has such lists.
\<close>

text \<open>The \<open>for\<close> loop over the list, then the append.\<close>

fun find_name :: "('a \<Rightarrow> string) \<Rightarrow> string \<Rightarrow> 'a list \<Rightarrow> nat \<Rightarrow> nat option" where
  "find_name name_of nm [] i = None"
| "find_name name_of nm (x # xs) i = (if name_of x = nm then Some i else find_name name_of nm xs (i + 1))"

definition find_or_add :: "('a \<Rightarrow> string) \<Rightarrow> (string \<Rightarrow> 'a) \<Rightarrow> string \<Rightarrow> 'a list \<Rightarrow> nat \<times> 'a list" where
  "find_or_add name_of new nm xs =
     (case find_name name_of nm xs 0 of
        Some i \<Rightarrow> (i, xs)
      | None \<Rightarrow> (length xs, xs @ [new nm]))"

text \<open>An assignment through the reference \<open>i\<close>.\<close>

definition update_at :: "nat \<Rightarrow> ('a \<Rightarrow> 'a) \<Rightarrow> 'a list \<Rightarrow> 'a list" where
  "update_at i f xs = (if i < length xs then xs[i := f (xs ! i)] else xs)"

locale registry =
  fixes get :: "string \<Rightarrow> 'a list \<Rightarrow> nat \<times> 'a list"
    and name_of :: "'a \<Rightarrow> string"
  assumes get_valid: "get nm xs = (i, ys) \<Longrightarrow> i < length ys \<and> name_of (ys ! i) = nm"
    and get_known: "nm \<in> name_of ` set xs \<Longrightarrow> snd (get nm xs) = xs"
    and get_new: "nm \<notin> name_of ` set xs \<Longrightarrow> \<exists>x. name_of x = nm \<and> snd (get nm xs) = xs @ [x]"
begin

definition unique_names :: "'a list \<Rightarrow> bool" where
  "unique_names xs \<longleftrightarrow> distinct (List.map name_of xs)"

lemma get_keeps_prefix: "\<exists>new. snd (get nm xs) = xs @ new"
  using get_known get_new by (metis append_Nil2)

lemma get_unique: "unique_names xs \<Longrightarrow> unique_names (snd (get nm xs))"
proof (cases "nm \<in> name_of ` set xs")
  case True
  then show "unique_names xs \<Longrightarrow> ?thesis" by (simp add: get_known)
next
  case False
  assume u: "unique_names xs"
  obtain x where "name_of x = nm" "snd (get nm xs) = xs @ [x]" using get_new [OF False] by blast
  then show ?thesis using u False by (simp add: unique_names_def image_iff)
qed

lemma get_again:
  assumes "unique_names xs" "get nm xs = (i, ys)"
  shows "get nm ys = (i, ys)"
proof -
  have v: "i < length ys" "name_of (ys ! i) = nm" using get_valid assms(2) by blast+
  have u: "unique_names ys" using get_unique [OF assms(1), of nm] assms(2) by simp
  have k: "snd (get nm ys) = ys" using v by (intro get_known) (metis image_eqI nth_mem)
  obtain j where j: "get nm ys = (j, ys)" using k by (cases "get nm ys") auto
  then have "j < length ys" "name_of (ys ! j) = nm" using get_valid by blast+
  then have "j = i"
    using u v unfolding unique_names_def distinct_conv_nth by (metis length_map nth_map)
  then show ?thesis using j by simp
qed

lemma update_unique:
  "unique_names xs \<Longrightarrow> (\<And>x. name_of (f x) = name_of x) \<Longrightarrow> unique_names (update_at i f xs)"
  unfolding unique_names_def update_at_def
  by (auto simp: map_update) (metis list_update_id nth_map)

end

lemma find_name_Some:
  "find_name name_of nm xs i = Some j \<Longrightarrow> i \<le> j \<and> j < i + length xs \<and> name_of (xs ! (j - i)) = nm"
proof (induction xs arbitrary: i)
  case (Cons x xs)
  show ?case
  proof (cases "name_of x = nm")
    case True
    then show ?thesis using Cons.prems by simp
  next
    case False
    then have "i + 1 \<le> j \<and> j < i + 1 + length xs \<and> name_of (xs ! (j - (i + 1))) = nm"
      using Cons.IH [of "i + 1"] Cons.prems False by simp
    then show ?thesis by (simp add: nth_Cons' Suc_le_eq)
  qed
qed simp

lemma find_name_None: "find_name name_of nm xs i = None \<longleftrightarrow> nm \<notin> name_of ` set xs"
  by (induction xs arbitrary: i) auto

lemma registry_find_or_add:
  assumes "\<And>nm. name_of (new nm) = nm"
  shows "registry (find_or_add name_of new) name_of"
proof
  fix nm xs i ys
  assume "find_or_add name_of new nm xs = (i, ys)"
  then show "i < length ys \<and> name_of (ys ! i) = nm"
    using assms by (auto simp: find_or_add_def split: option.splits dest!: find_name_Some)
next
  fix nm :: string and xs :: "'a list"
  assume "nm \<in> name_of ` set xs"
  then show "snd (find_or_add name_of new nm xs) = xs"
    using find_name_None [of name_of nm xs 0] by (auto simp: find_or_add_def split: option.splits)
next
  fix nm :: string and xs :: "'a list"
  assume "nm \<notin> name_of ` set xs"
  then show "\<exists>x. name_of x = nm \<and> snd (find_or_add name_of new nm xs) = xs @ [x]"
    using find_name_None [of name_of nm xs 0] assms by (auto simp: find_or_add_def)
qed

lemma length_update_at [simp]: "length (update_at i f xs) = length xs"
  by (simp add: update_at_def)

lemma set_update_at: "x \<in> set (update_at i f xs) \<Longrightarrow> x \<in> set xs \<or> (\<exists>y \<in> set xs. x = f y)"
proof (cases "i < length xs")
  case True
  assume "x \<in> set (update_at i f xs)"
  then have "x \<in> insert (f (xs ! i)) (set xs)"
    using True set_update_subset_insert [of xs i] by (auto simp: update_at_def)
  then show ?thesis using True nth_mem by blast
qed (simp add: update_at_def)

end
