(* ===== verification/Timeline.thy ===== *)
theory Timeline
  imports Registry
begin

text \<open>
  The data model of \<open>utils/grid.py\<close>: ranges and events of a timeline, their
  binary searches, queries, sorting and bounds, the named collections, and the
  reader of the trace file.  Times are integers, as \<open>read_data\<close> makes them.
  The statements are those of Python 2, which the file needs (a \<open>cmp\<close> argument
  of \<open>list.sort\<close>, \<open>has_key\<close>): \<open>/\<close> on integers is floor division.
\<close>

section \<open>Ranges\<close>

record data_range =
  dr_start :: int
  dr_end :: int
  dr_value :: string

record 'v event =
  at :: int
  ev_value :: 'v

definition ranges_cmp :: "data_range \<Rightarrow> data_range \<Rightarrow> int" where
  "ranges_cmp a b = (let diff = dr_start a - dr_start b in if diff < 0 then -1 else if diff > 0 then 1 else 0)"

definition events_cmp :: "'v event \<Rightarrow> 'v event \<Rightarrow> int" where
  "events_cmp a b = (let diff = at a - at b in if diff < 0 then -1 else if diff > 0 then 1 else 0)"

text \<open>\<open>list.sort(cmp)\<close> is stable: an element is placed before the first one that is
  greater or equal when the elements are inserted from the last to the first.\<close>

fun insert_cmp :: "('a \<Rightarrow> 'a \<Rightarrow> int) \<Rightarrow> 'a \<Rightarrow> 'a list \<Rightarrow> 'a list" where
  "insert_cmp c x [] = [x]"
| "insert_cmp c x (y # ys) = (if c x y \<le> 0 then x # y # ys else y # insert_cmp c x ys)"

definition sort_cmp :: "('a \<Rightarrow> 'a \<Rightarrow> int) \<Rightarrow> 'a list \<Rightarrow> 'a list" where
  "sort_cmp c xs = foldr (insert_cmp c) xs []"

record timeline_data_range =
  tdr_name :: string
  ranges :: "data_range list"

function range_search :: "data_range list \<Rightarrow> int \<Rightarrow> int \<Rightarrow> int \<Rightarrow> int" where
  "range_search rs key l u =
     (if l \<le> u
      then (let i = (l + u) div 2
            in if key \<ge> dr_start (rs ! nat i) \<and> key \<le> dr_end (rs ! nat i) then i
               else if key < dr_start (rs ! nat i) then range_search rs key l (i - 1)
               else range_search rs key (i + 1) u)
      else -1)"
  by pat_completeness auto
termination
  by (relation "measure (\<lambda>(rs, k, l, u). nat (u - l + 1))") auto

declare range_search.simps [simp del]

definition search_ranges :: "timeline_data_range \<Rightarrow> int \<Rightarrow> int" where
  "search_ranges t key = range_search (ranges t) key 0 (int (length (ranges t)) - 1)"

definition add_range :: "data_range \<Rightarrow> timeline_data_range \<Rightarrow> timeline_data_range" where
  "add_range r t = t\<lparr>ranges := ranges t @ [r]\<rparr>"

definition get_ranges_bounds :: "timeline_data_range \<Rightarrow> int \<Rightarrow> int \<Rightarrow> int \<times> int" where
  "get_ranges_bounds t start stop =
     (let s = search_ranges t start; e = search_ranges t stop
      in if s = -1 \<and> e = -1 then (0, 0)
         else if s = -1 then (0, e + 1)
         else if e = -1 then (s, int (length (ranges t)))
         else (s, e + 1))"

definition get_ranges :: "timeline_data_range \<Rightarrow> int \<Rightarrow> int \<Rightarrow> data_range list" where
  "get_ranges t start stop =
     (let s = search_ranges t start; e = search_ranges t stop
      in if s = -1 \<and> e = -1 then []
         else if s = -1 then py_slice (ranges t) 0 (e + 1)
         else if e = -1 then py_slice (ranges t) s (int (length (ranges t)))
         else py_slice (ranges t) s (e + 1))"

definition sort_ranges :: "timeline_data_range \<Rightarrow> timeline_data_range" where
  "sort_ranges t = t\<lparr>ranges := sort_cmp ranges_cmp (ranges t)\<rparr>"

definition ranges_bounds :: "timeline_data_range \<Rightarrow> int \<times> int" where
  "ranges_bounds t =
     (if length (ranges t) > 0
      then (dr_start (ranges t ! 0), dr_end (ranges t ! (length (ranges t) - 1)))
      else (0, 0))"

section \<open>Events\<close>

record 'v timeline_event =
  te_name :: string
  events :: "'v event list"

function event_search :: "'v event list \<Rightarrow> int \<Rightarrow> int \<Rightarrow> int \<Rightarrow> int" where
  "event_search es key l u =
     (if l \<le> u
      then (let i = (l + u) div 2
            in if key = at (es ! nat i) then i
               else if key < at (es ! nat i) then event_search es key l (i - 1)
               else event_search es key (i + 1) u)
      else l)"
  by pat_completeness auto
termination
  by (relation "measure (\<lambda>(es, k, l, u). nat (u - l + 1))") auto

declare event_search.simps [simp del]

definition search_events :: "'v timeline_event \<Rightarrow> int \<Rightarrow> int" where
  "search_events t key = event_search (events t) key 0 (int (length (events t)) - 1)"

definition add_event :: "'v event \<Rightarrow> 'v timeline_event \<Rightarrow> 'v timeline_event" where
  "add_event e t = t\<lparr>events := events t @ [e]\<rparr>"

definition get_events :: "'v timeline_event \<Rightarrow> int \<Rightarrow> int \<Rightarrow> 'v event list" where
  "get_events t start stop =
     (let s = search_events t start; e = search_events t stop in py_slice (events t) s (e + 1))"

definition get_events_bounds :: "'v timeline_event \<Rightarrow> int \<Rightarrow> int \<Rightarrow> int \<times> int" where
  "get_events_bounds t start stop =
     (let s = search_events t start; e = search_events t stop in (s, e + 1))"

definition sort_events :: "'v timeline_event \<Rightarrow> 'v timeline_event" where
  "sort_events t = t\<lparr>events := sort_cmp events_cmp (events t)\<rparr>"

definition events_bounds :: "'v timeline_event \<Rightarrow> int \<times> int" where
  "events_bounds t =
     (if length (events t) > 0 then (at (events t ! 0), at (last (events t))) else (0, 0))"

section \<open>Timelines\<close>

record timeline =
  tl_name :: string
  tl_ranges :: "timeline_data_range list"
  event_str :: "string timeline_event list"
  event_int :: "int timeline_event list"

definition new_tdr :: "string \<Rightarrow> timeline_data_range" where
  "new_tdr nm = \<lparr>tdr_name = nm, ranges = []\<rparr>"

definition new_te :: "string \<Rightarrow> 'v timeline_event" where
  "new_te nm = \<lparr>te_name = nm, events = []\<rparr>"

definition new_timeline :: "string \<Rightarrow> timeline" where
  "new_timeline nm = \<lparr>tl_name = nm, tl_ranges = [], event_str = [], event_int = []\<rparr>"

definition get_range :: "string \<Rightarrow> timeline_data_range list \<Rightarrow> nat \<times> timeline_data_range list" where
  "get_range = find_or_add tdr_name new_tdr"

definition get_event :: "string \<Rightarrow> 'v timeline_event list \<Rightarrow> nat \<times> 'v timeline_event list" where
  "get_event = find_or_add te_name new_te"

definition get_timeline :: "string \<Rightarrow> timeline list \<Rightarrow> nat \<times> timeline list" where
  "get_timeline = find_or_add tl_name new_timeline"

definition timeline_sort :: "timeline \<Rightarrow> timeline" where
  "timeline_sort t =
     t\<lparr>tl_ranges := List.map sort_ranges (tl_ranges t),
       event_int := List.map sort_events (event_int t),
       event_str := List.map sort_events (event_str t)\<rparr>"

text \<open>Every bound computation starts from 0 and 0.\<close>

definition widen :: "int \<times> int \<Rightarrow> int \<times> int \<Rightarrow> int \<times> int" where
  "widen b b' = (let (lo, hi) = b; (lo', hi') = b'
     in (if lo' < lo then lo' else lo, if hi' > hi then hi' else hi))"

definition timeline_bounds :: "timeline \<Rightarrow> int \<times> int" where
  "timeline_bounds t =
     (let b = foldl widen (0, 0) (List.map ranges_bounds (tl_ranges t));
          b = foldl widen b (List.map events_bounds (event_str t))
      in foldl widen b (List.map events_bounds (event_int t)))"

definition timelines_sort :: "timeline list \<Rightarrow> timeline list" where
  "timelines_sort ts = List.map timeline_sort ts"

definition timelines_bounds :: "timeline list \<Rightarrow> int \<times> int" where
  "timelines_bounds ts = foldl widen (0, 0) (List.map timeline_bounds ts)"

definition get_all_range_values :: "timeline list \<Rightarrow> string list" where
  "get_all_range_values ts =
     dkeys (fold (\<lambda>r d. dset (dr_value r) (1 :: int) d)
                 (concat (List.map (\<lambda>t. concat (List.map ranges (tl_ranges t))) ts)) [])"

section \<open>Colors\<close>

text \<open>
  The default colors are an attribute of the class, shared by all instances;
  \<open>pop\<close> takes the last and raises when none is left.
\<close>

type_synonym color = "int \<times> int \<times> int"

record colors =
  color_of :: "(string, color) dict"
  default_colors :: "color list"

definition initial_colors :: colors where
  "initial_colors = \<lparr>color_of = [],
     default_colors = [(1, 0, 0), (0, 1, 0), (0, 0, 1), (1, 1, 0), (1, 0, 1), (0, 1, 1)]\<rparr>"

definition color_add :: "string \<Rightarrow> color \<Rightarrow> colors \<Rightarrow> colors" where
  "color_add nm c cs = cs\<lparr>color_of := dset nm c (color_of cs)\<rparr>"

definition color_lookup :: "string \<Rightarrow> colors \<Rightarrow> (colors \<times> color option) py_result" where
  "color_lookup nm cs =
     (if dhas (color_of cs) nm then Inr (cs, dget (color_of cs) nm)
      else if default_colors cs = [] then Inl IndexError
      else (let cs = color_add nm (last (default_colors cs))
                       (cs\<lparr>default_colors := butlast (default_colors cs)\<rparr>)
            in Inr (cs, dget (color_of cs) nm)))"

section \<open>Reading a trace\<close>

text \<open>
  The four regular expressions separate fields by single spaces; a field
  \<open>[^ ]+\<close> is not empty, an inner \<open>[0-9]+\<close> is all digits, and the last one takes
  the leading digits of what follows.
\<close>

definition hex_value :: "char \<Rightarrow> int option" where
  "hex_value c =
     (if is_digit c then Some (digit_value c)
      else if c \<in> set ''abcdef'' then Some (10 + int (length (takeWhile (\<lambda>d. d \<noteq> c) ''abcdef'')))
      else if c \<in> set ''ABCDEF'' then Some (10 + int (length (takeWhile (\<lambda>d. d \<noteq> c) ''ABCDEF'')))
      else None)"

datatype trace_line =
    RangeLine string string string int int
  | EventStrLine string string string int
  | EventIntLine string string int int
  | ColorLine string int int int
  | OtherLine

definition parse_range_line :: "string list \<Rightarrow> trace_line option" where
  "parse_range_line fs =
     (if length fs \<ge> 6 \<and> fs ! 0 = ''range'' \<and> fs ! 1 \<noteq> [] \<and> fs ! 2 \<noteq> [] \<and> fs ! 3 \<noteq> []
      then (case (whole_number (fs ! 4), leading_number (fs ! 5)) of
              (Some a, Some b) \<Rightarrow> Some (RangeLine (fs ! 1) (fs ! 2) (fs ! 3) a b)
            | _ \<Rightarrow> None)
      else None)"

definition parse_event_str_line :: "string list \<Rightarrow> trace_line option" where
  "parse_event_str_line fs =
     (if length fs \<ge> 5 \<and> fs ! 0 = ''event-str'' \<and> fs ! 1 \<noteq> [] \<and> fs ! 2 \<noteq> [] \<and> fs ! 3 \<noteq> []
      then (case leading_number (fs ! 4) of
              Some a \<Rightarrow> Some (EventStrLine (fs ! 1) (fs ! 2) (fs ! 3) a)
            | None \<Rightarrow> None)
      else None)"

definition parse_event_int_line :: "string list \<Rightarrow> trace_line option" where
  "parse_event_int_line fs =
     (if length fs \<ge> 5 \<and> fs ! 0 = ''event-int'' \<and> fs ! 1 \<noteq> [] \<and> fs ! 2 \<noteq> []
      then (case (whole_number (fs ! 3), leading_number (fs ! 4)) of
              (Some v, Some a) \<Rightarrow> Some (EventIntLine (fs ! 1) (fs ! 2) v a)
            | _ \<Rightarrow> None)
      else None)"

definition parse_color_line :: "string list \<Rightarrow> trace_line option" where
  "parse_color_line fs =
     (if length fs \<ge> 3 \<and> fs ! 0 = ''color'' \<and> fs ! 1 \<noteq> [] \<and> prefix ''#'' (fs ! 2) \<and> length (fs ! 2) \<ge> 7
      then (case List.map hex_value (take 6 (drop 1 (fs ! 2))) of
              [Some a, Some b, Some c, Some d, Some e, Some f] \<Rightarrow>
                Some (ColorLine (fs ! 1) (16 * a + b) (16 * c + d) (16 * e + f))
            | _ \<Rightarrow> None)
      else None)"

definition parse_line :: "string \<Rightarrow> trace_line" where
  "parse_line line =
     (let fs = str_split (CHR '' '') line
      in case parse_range_line fs of Some l \<Rightarrow> l
       | None \<Rightarrow> (case parse_event_str_line fs of Some l \<Rightarrow> l
       | None \<Rightarrow> (case parse_event_int_line fs of Some l \<Rightarrow> l
       | None \<Rightarrow> (case parse_color_line fs of Some l \<Rightarrow> l
       | None \<Rightarrow> OtherLine))))"

type_synonym trace = "colors \<times> timeline list"

definition record_range :: "string \<Rightarrow> data_range \<Rightarrow> timeline \<Rightarrow> timeline" where
  "record_range nm r t =
     (let (i, rs) = get_range nm (tl_ranges t) in t\<lparr>tl_ranges := update_at i (add_range r) rs\<rparr>)"

definition record_str :: "string \<Rightarrow> string event \<Rightarrow> timeline \<Rightarrow> timeline" where
  "record_str nm e t =
     (let (i, es) = get_event nm (event_str t) in t\<lparr>event_str := update_at i (add_event e) es\<rparr>)"

definition record_int :: "string \<Rightarrow> int event \<Rightarrow> timeline \<Rightarrow> timeline" where
  "record_int nm e t =
     (let (i, es) = get_event nm (event_int t) in t\<lparr>event_int := update_at i (add_event e) es\<rparr>)"

definition on_timeline :: "string \<Rightarrow> (timeline \<Rightarrow> timeline) \<Rightarrow> timeline list \<Rightarrow> timeline list" where
  "on_timeline nm f ts = (let (i, ts) = get_timeline nm ts in update_at i f ts)"

definition read_line :: "trace \<Rightarrow> string \<Rightarrow> trace" where
  "read_line tr line =
     (let (cs, ts) = tr in
      case parse_line line of
        RangeLine who nm v s e \<Rightarrow>
          (cs, on_timeline who (record_range nm \<lparr>dr_start = s, dr_end = e, dr_value = v\<rparr>) ts)
      | EventStrLine who nm v a \<Rightarrow> (cs, on_timeline who (record_str nm \<lparr>at = a, ev_value = v\<rparr>) ts)
      | EventIntLine who nm v a \<Rightarrow> (cs, on_timeline who (record_int nm \<lparr>at = a, ev_value = v\<rparr>) ts)
      | ColorLine nm r g b \<Rightarrow> (color_add nm (r div 255, g div 255, b div 255) cs, ts)
      | OtherLine \<Rightarrow> (cs, ts))"

definition read_data :: "string list \<Rightarrow> trace" where
  "read_data lines =
     (let (cs, ts) = foldl read_line (initial_colors, []) lines in (cs, timelines_sort ts))"


section \<open>The collections are registries\<close>

interpretation tdr_reg: registry get_range tdr_name
  unfolding get_range_def by (rule registry_find_or_add) (simp add: new_tdr_def)

interpretation te_reg: registry "get_event :: string \<Rightarrow> 'v timeline_event list \<Rightarrow> _" te_name
  unfolding get_event_def by (rule registry_find_or_add) (simp add: new_te_def)

interpretation tl_reg: registry get_timeline tl_name
  unfolding get_timeline_def by (rule registry_find_or_add) (simp add: new_timeline_def)

section \<open>Sorting\<close>

lemma sort_cmp_key:
  assumes "\<And>x y. c x y \<le> 0 \<longleftrightarrow> f x \<le> (f y :: int)"
  shows "sort_cmp c xs = sort_key f xs"
proof -
  have "insert_cmp c x ys = insort_key f x ys" for x ys
    by (induction ys) (auto simp: assms)
  then have "insert_cmp c = insort_key f" by (intro ext)
  then show ?thesis by (simp add: sort_cmp_def sort_key_def)
qed

lemma sort_ranges_key: "sort_cmp ranges_cmp rs = sort_key dr_start rs"
  by (rule sort_cmp_key) (simp add: ranges_cmp_def Let_def)

lemma sort_events_key: "sort_cmp events_cmp es = sort_key at es"
  by (rule sort_cmp_key) (simp add: events_cmp_def Let_def)

section \<open>Queries on disjoint ranges\<close>

definition covers :: "data_range \<Rightarrow> int \<Rightarrow> bool" where
  "covers r key \<longleftrightarrow> dr_start r \<le> key \<and> key \<le> dr_end r"

definition overlaps :: "data_range \<Rightarrow> int \<Rightarrow> int \<Rightarrow> bool" where
  "overlaps r start stop \<longleftrightarrow> start \<le> dr_end r \<and> dr_start r \<le> stop"

definition disjoint_ranges :: "data_range list \<Rightarrow> bool" where
  "disjoint_ranges rs \<longleftrightarrow>
     list_all (\<lambda>r. dr_start r \<le> dr_end r) rs \<and> sorted_wrt (\<lambda>a b. dr_end a < dr_start b) rs"

lemma disjoint_before:
  assumes "disjoint_ranges rs" "i < j" "j < length rs"
  shows "dr_start (rs ! i) \<le> dr_end (rs ! i)" "dr_end (rs ! i) < dr_start (rs ! j)"
    "dr_start (rs ! j) \<le> dr_end (rs ! j)"
  using assms by (auto simp: disjoint_ranges_def list_all_length sorted_wrt_iff_nth_less)

lemma range_search_found:
  "disjoint_ranges rs \<Longrightarrow> j < length rs \<Longrightarrow> covers (rs ! j) key \<Longrightarrow> 0 \<le> l \<Longrightarrow> l \<le> int j \<Longrightarrow>
   int j \<le> u \<Longrightarrow> u < int (length rs) \<Longrightarrow> range_search rs key l u = int j"
proof (induction rs key l u rule: range_search.induct)
  case (1 rs key l u)
  note IH = "1.IH" and P = "1.prems"
  define i where "i = (l + u) div 2"
  have i: "l \<le> i" "i \<le> u" "0 \<le> i" "nat i < length rs" and lu: "l \<le> u" using P by (auto simp: i_def)
  have un: "range_search rs key l u =
      (if key \<ge> dr_start (rs ! nat i) \<and> key \<le> dr_end (rs ! nat i) then i
       else if key < dr_start (rs ! nat i) then range_search rs key l (i - 1)
       else range_search rs key (i + 1) u)"
    using lu by (subst range_search.simps) (simp add: i_def Let_def)
  consider (less) "nat i < j" | (eq) "nat i = j" | (greater) "j < nat i" by linarith
  then show ?case
  proof cases
    case less
    then have k: "dr_end (rs ! nat i) < key" "\<not> key < dr_start (rs ! nat i)"
      using disjoint_before [OF P(1) less P(2)] P(3) by (auto simp: covers_def)
    then have "range_search rs key (i + 1) u = int j"
      using IH(2) [OF lu i_def] P i less by auto
    then show ?thesis using un k by simp
  next
    case eq
    then show ?thesis using un P(3) i(3) by (auto simp: covers_def)
  next
    case greater
    then have k: "key < dr_start (rs ! nat i)"
      using disjoint_before [OF P(1) greater i(4)] P(3) by (auto simp: covers_def)
    then have "range_search rs key l (i - 1) = int j"
      using IH(1) [OF lu i_def] P i greater by auto
    then show ?thesis using un k by simp
  qed
qed

lemma range_search_sound:
  "0 \<le> l \<Longrightarrow> u < int (length rs) \<Longrightarrow>
   range_search rs key l u = -1 \<or>
   (\<exists>j < length rs. range_search rs key l u = int j \<and> covers (rs ! j) key)"
proof (induction rs key l u rule: range_search.induct)
  case (1 rs key l u)
  note IH = "1.IH" and P = "1.prems"
  show ?case
  proof (cases "l \<le> u")
    case False
    then show ?thesis by (subst (1) range_search.simps) simp
  next
    case True
    define i where "i = (l + u) div 2"
    have i: "l \<le> i" "i \<le> u" "0 \<le> i" "nat i < length rs" using P True by (auto simp: i_def)
    have un: "range_search rs key l u =
      (if key \<ge> dr_start (rs ! nat i) \<and> key \<le> dr_end (rs ! nat i) then i
       else if key < dr_start (rs ! nat i) then range_search rs key l (i - 1)
       else range_search rs key (i + 1) u)"
      using True by (subst range_search.simps) (simp add: i_def Let_def)
    consider (here) "covers (rs ! nat i) key" | (below) "key < dr_start (rs ! nat i)"
      | (above) "\<not> key < dr_start (rs ! nat i)" "\<not> covers (rs ! nat i) key" by blast
    then show ?thesis
    proof cases
      case here
      then show ?thesis using un i by (intro disjI2 exI [of _ "nat i"]) (simp add: covers_def)
    next
      case below
      then show ?thesis using un IH(1) [OF True i_def] P i by (simp add: covers_def)
    next
      case above
      then show ?thesis using un IH(2) [OF True i_def] P i by (simp add: covers_def)
    qed
  qed
qed

lemma search_ranges_found:
  "disjoint_ranges (ranges t) \<Longrightarrow> j < length (ranges t) \<Longrightarrow> covers (ranges t ! j) key \<Longrightarrow>
   search_ranges t key = int j"
  unfolding search_ranges_def by (rule range_search_found) auto

lemma get_ranges_exact_at:
  assumes d: "disjoint_ranges (ranges t)" and a: "a < length (ranges t)" "covers (ranges t ! a) start"
    and b: "b < length (ranges t)" "covers (ranges t ! b) stop" and le: "start \<le> stop"
  shows "get_ranges t start stop = List.filter (\<lambda>r. overlaps r start stop) (ranges t)"
proof -
  let ?rs = "ranges t"
  have ab: "a \<le> b"
  proof (rule ccontr)
    assume "\<not> a \<le> b"
    then have "dr_end (?rs ! b) < dr_start (?rs ! a)" using disjoint_before [OF d, of b a] a by simp
    then show False using a(2) b(2) le by (simp add: covers_def)
  qed
  have g: "get_ranges t start stop = take (b + 1 - a) (drop a ?rs)"
    using search_ranges_found [OF d a] search_ranges_found [OF d b] py_slice_nat [of ?rs a "b + 1"]
    by (simp add: get_ranges_def Let_def add.commute)
  have before: "\<not> overlaps (?rs ! i) start stop" if "i < a" for i
    using disjoint_before [OF d that a(1)] a(2) by (simp add: overlaps_def covers_def)
  have after: "\<not> overlaps (?rs ! i) start stop" if "b < i" "i < length ?rs" for i
    using disjoint_before [OF d that] b(2) by (simp add: overlaps_def covers_def)
  have inside: "overlaps (?rs ! i) start stop" if i: "a \<le> i" "i \<le> b" for i
  proof -
    have "dr_start (?rs ! a) \<le> dr_end (?rs ! i)" "start \<le> dr_end (?rs ! i)"
      using disjoint_before [OF d, of a i] a(2) b(1) i by (cases "a = i"; simp add: covers_def)+
    moreover have "dr_start (?rs ! i) \<le> stop"
      using disjoint_before [OF d, of i b] b i by (cases "i = b"; simp add: covers_def)
    ultimately show ?thesis by (simp add: overlaps_def)
  qed
  have split: "?rs = take a ?rs @ take (b + 1 - a) (drop a ?rs) @ drop (b + 1) ?rs"
    using ab by (intro split_three [symmetric]) simp
  have "List.filter (\<lambda>r. overlaps r start stop) (take a ?rs) = []"
    using before by (auto simp: filter_empty_conv in_set_conv_nth)
  moreover have "List.filter (\<lambda>r. overlaps r start stop) (take (b + 1 - a) (drop a ?rs)) = take (b + 1 - a) (drop a ?rs)"
    using inside a(1) by (intro filter_eq_self) (auto simp: in_set_conv_nth)
  moreover have "List.filter (\<lambda>r. overlaps r start stop) (drop (b + 1) ?rs) = []"
    using after by (auto simp: filter_empty_conv in_set_conv_nth)
  ultimately have "List.filter (\<lambda>r. overlaps r start stop) ?rs = take (b + 1 - a) (drop a ?rs)"
    by (subst split) simp
  then show ?thesis using g by simp
qed

lemma get_ranges_gap:
  assumes "\<forall>r \<in> set (ranges t). \<not> covers r start \<and> \<not> covers r stop"
  shows "get_ranges t start stop = []"
proof -
  have "search_ranges t key = -1" if "\<forall>r \<in> set (ranges t). \<not> covers r key" for key
    using range_search_sound [of 0 "int (length (ranges t)) - 1" "ranges t" key] that
    by (auto simp: search_ranges_def)
  then show ?thesis using assms by (simp add: get_ranges_def)
qed

section \<open>Queries on events\<close>

definition strict_events :: "'v event list \<Rightarrow> bool" where
  "strict_events es \<longleftrightarrow> sorted_wrt (\<lambda>a b. at a < at b) es"

lemma strict_before: "strict_events es \<Longrightarrow> i < j \<Longrightarrow> j < length es \<Longrightarrow> at (es ! i) < at (es ! j)"
  by (simp add: strict_events_def sorted_wrt_iff_nth_less)

lemma event_search_position:
  "strict_events es \<Longrightarrow> 0 \<le> l \<Longrightarrow> l \<le> u + 1 \<Longrightarrow> u < int (length es) \<Longrightarrow>
   (\<forall>j. int j < l \<longrightarrow> at (es ! j) < key) \<Longrightarrow>
   (\<forall>j < length es. u < int j \<longrightarrow> key \<le> at (es ! j)) \<Longrightarrow>
   \<exists>p \<le> length es. event_search es key l u = int p \<and> (\<forall>j < p. at (es ! j) < key) \<and>
     (\<forall>j < length es. p \<le> j \<longrightarrow> key \<le> at (es ! j))"
proof (induction es key l u rule: event_search.induct)
  case (1 es key l u)
  note IH = "1.IH" and P = "1.prems"
  show ?case
  proof (cases "l \<le> u")
    case False
    then have "u = l - 1" "event_search es key l u = l"
      using P(3) by (auto simp: event_search.simps [of es key l u])
    then show ?thesis using P by (intro exI [of _ "nat l"]) auto
  next
    case True
    define i where "i = (l + u) div 2"
    have i: "l \<le> i" "i \<le> u" "0 \<le> i" "nat i < length es" using P True by (auto simp: i_def)
    have un: "event_search es key l u =
      (if key = at (es ! nat i) then i
       else if key < at (es ! nat i) then event_search es key l (i - 1)
       else event_search es key (i + 1) u)"
      using True by (subst event_search.simps) (simp add: i_def Let_def)
    have lt: "at (es ! j) < at (es ! nat i)" if "j < nat i" for j using strict_before [OF P(1) that i(4)] .
    have gt: "at (es ! nat i) \<le> at (es ! j)" if "nat i \<le> j" "j < length es" for j
      using strict_before [OF P(1), of "nat i" j] that by (cases "nat i = j") auto
    consider (here) "key = at (es ! nat i)" | (below) "key < at (es ! nat i)" | (above) "at (es ! nat i) < key"
      by linarith
    then show ?thesis
    proof cases
      case here
      then show ?thesis using un lt gt i by (intro exI [of _ "nat i"]) auto
    next
      case below
      have "\<forall>j < length es. i - 1 < int j \<longrightarrow> key \<le> at (es ! j)"
        using below gt by (meson le_less_trans less_imp_le nat_le_iff not_less order.trans zle_diff1_eq)
      then show ?thesis using IH(1) [OF True i_def] P i below un by simp
    next
      case above
      have "\<forall>j. int j < i + 1 \<longrightarrow> at (es ! j) < key"
      proof (intro allI impI)
        fix j assume "int j < i + 1"
        then have "j < nat i \<or> j = nat i" by linarith
        then show "at (es ! j) < key" using lt above by fastforce
      qed
      moreover have "event_search es key l u = event_search es key (i + 1) u" using un above by simp
      ultimately show ?thesis using IH(2) [OF True i_def] P i above by simp
    qed
  qed
qed

lemma search_events_position:
  assumes "strict_events (events t)"
  shows "\<exists>p \<le> length (events t). search_events t key = int p \<and>
    (\<forall>j < p. at (events t ! j) < key) \<and> (\<forall>j < length (events t). p \<le> j \<longrightarrow> key \<le> at (events t ! j))"
  using event_search_position [OF assms, of 0 "int (length (events t)) - 1" key]
  by (auto simp: search_events_def)

lemma get_events_within:
  assumes st: "strict_events (events t)" and le: "start \<le> stop"
  shows "\<exists>extra. get_events t start stop =
       List.filter (\<lambda>e. start \<le> at e \<and> at e \<le> stop) (events t) @ extra \<and>
     length extra \<le> 1 \<and> (\<forall>e \<in> set extra. stop < at e)"
proof -
  let ?es = "events t" and ?P = "\<lambda>e. start \<le> at e \<and> at e \<le> stop"
  obtain a where a: "a \<le> length ?es" "search_events t start = int a"
    "\<And>j. j < a \<Longrightarrow> at (?es ! j) < start" "\<And>j. a \<le> j \<Longrightarrow> j < length ?es \<Longrightarrow> start \<le> at (?es ! j)"
    using search_events_position [OF st, of start] by blast
  obtain b where b: "b \<le> length ?es" "search_events t stop = int b"
    "\<And>j. j < b \<Longrightarrow> at (?es ! j) < stop" "\<And>j. b \<le> j \<Longrightarrow> j < length ?es \<Longrightarrow> stop \<le> at (?es ! j)"
    using search_events_position [OF st, of stop] by blast
  have ab: "a \<le> b"
  proof (rule ccontr)
    assume n: "\<not> a \<le> b"
    then have "at (?es ! b) < start" "stop \<le> at (?es ! b)" using a(1,3) b(4) by auto
    then show False using le by simp
  qed
  have g: "get_events t start stop = take (b + 1 - a) (drop a ?es)"
    using a(2) b(2) py_slice_nat [of ?es a "b + 1"] by (simp add: get_events_def Let_def add.commute)
  define mid where "mid = take (b - a) (drop a ?es)"
  have split: "?es = take a ?es @ mid @ drop b ?es"
    unfolding mid_def using ab by (intro split_three [symmetric])
  have g': "get_events t start stop = mid @ take 1 (drop b ?es)"
  proof -
    have "take (b - a + 1) (drop a ?es) = mid @ take 1 (drop (b - a) (drop a ?es))"
      unfolding mid_def by (rule take_add)
    moreover have "b + 1 - a = b - a + 1" "drop (b - a) (drop a ?es) = drop b ?es" using ab by simp_all
    ultimately show ?thesis using g by simp
  qed
  have "List.filter ?P (take a ?es) = []"
    using a(3) by (auto simp: filter_empty_conv in_set_conv_nth not_le)
  moreover have "List.filter ?P mid = mid"
    using a(4) b(1,3) by (intro filter_eq_self) (auto simp: mid_def in_set_conv_nth less_imp_le)
  ultimately have f: "List.filter ?P ?es = mid @ List.filter ?P (drop b ?es)"
    by (subst split) simp
  show ?thesis
  proof (cases "drop b ?es")
    case Nil
    then show ?thesis using f g' by (intro exI [of _ "[]"]) simp
  next
    case (Cons x rest)
    then have bl: "b < length ?es" and x: "?es ! b = x"
      by (metis drop_all list.distinct(1) not_le, metis Cons_nth_drop_Suc drop_all list.distinct(1) list.inject not_le)
    have late: "stop < at y" if y: "y \<in> set rest" for y
    proof -
      have "rest = drop (b + 1) ?es" using Cons by (metis Suc_eq_plus1 drop_Suc drop_tl list.sel(3) tl_drop)
      then obtain k where "y = ?es ! (b + 1 + k)" "b + 1 + k < length ?es"
        using y by (auto simp: in_set_conv_nth)
      then show ?thesis using strict_before [OF st, of b "b + 1 + k"] b(4) [of b] bl by simp
    qed
    then have r: "List.filter ?P rest = []" by (auto simp: filter_empty_conv not_le)
    show ?thesis
    proof (cases "at x \<le> stop")
      case True
      then have "?P x" using le b(4) [of b] bl x by simp
      then show ?thesis using f g' Cons r by (intro exI [of _ "[]"]) simp
    next
      case False
      then show ?thesis using f g' Cons r by (intro exI [of _ "[x]"]) simp
    qed
  qed
qed


section \<open>Bounds\<close>

lemma widen_covers:
  "foldl widen b bs = (lo, hi) \<Longrightarrow>
     lo \<le> fst b \<and> snd b \<le> hi \<and> (\<forall>b' \<in> set bs. lo \<le> fst b' \<and> snd b' \<le> hi)"
proof (induction bs arbitrary: b)
  case Nil
  then show ?case by simp
next
  case (Cons b' bs)
  from Cons.IH [of "widen b b'"] Cons.prems show ?case
    by (cases b; cases b') (auto simp: widen_def Let_def split: if_splits)
qed

lemma ranges_bounds_cover:
  assumes "disjoint_ranges (ranges t)" "r \<in> set (ranges t)"
  shows "fst (ranges_bounds t) \<le> dr_start r \<and> dr_end r \<le> snd (ranges_bounds t)"
proof -
  obtain i where i: "i < length (ranges t)" "r = ranges t ! i" using assms(2) by (auto simp: in_set_conv_nth)
  let ?n = "length (ranges t) - 1"
  have "dr_start (ranges t ! 0) \<le> dr_start r"
    using disjoint_before [OF assms(1), of 0 i] i by (cases "i = 0") auto
  moreover have "dr_end r \<le> dr_end (ranges t ! ?n)"
  proof (cases "i = ?n")
    case False
    then have "i < ?n" "?n < length (ranges t)" using i by linarith+
    then show ?thesis using disjoint_before [OF assms(1), of i ?n] i by simp
  qed (use i in simp)
  moreover have "ranges t \<noteq> []" using i by auto
  ultimately show ?thesis by (simp add: ranges_bounds_def)
qed

lemma sorted_at_nth: "sorted (List.map at es) \<Longrightarrow> i \<le> j \<Longrightarrow> j < length es \<Longrightarrow> at (es ! i) \<le> at (es ! j)"
  using sorted_nth_mono [of "List.map at es" i j] by simp

lemma events_bounds_cover:
  assumes "sorted (List.map at (events t))" "e \<in> set (events t)"
  shows "fst (events_bounds t) \<le> at e \<and> at e \<le> snd (events_bounds t)"
proof -
  obtain i where i: "i < length (events t)" "e = events t ! i" using assms(2) by (auto simp: in_set_conv_nth)
  have "at (events t ! 0) \<le> at e" "at e \<le> at (events t ! (length (events t) - 1))"
    using sorted_at_nth [OF assms(1)] i by auto
  moreover have "events t \<noteq> []" using i by auto
  ultimately show ?thesis by (simp add: events_bounds_def last_conv_nth)
qed

section \<open>What reading a trace establishes\<close>

definition timeline_ok :: "timeline \<Rightarrow> bool" where
  "timeline_ok t \<longleftrightarrow> tdr_reg.unique_names (tl_ranges t) \<and>
     te_reg.unique_names (event_str t) \<and> te_reg.unique_names (event_int t)"

definition timeline_sorted :: "timeline \<Rightarrow> bool" where
  "timeline_sorted t \<longleftrightarrow>
     (\<forall>r \<in> set (tl_ranges t). sorted (List.map dr_start (ranges r))) \<and>
     (\<forall>e \<in> set (event_str t). sorted (List.map at (events e))) \<and>
     (\<forall>e \<in> set (event_int t). sorted (List.map at (events e)))"

lemma add_event_unique:
  "te_reg.unique_names es \<Longrightarrow> get_event nm es = (i, us) \<Longrightarrow>
   te_reg.unique_names (update_at i (add_event x) us)"
  using te_reg.get_unique [of es nm] by (intro te_reg.update_unique) (simp_all add: add_event_def)

lemma add_range_unique:
  "tdr_reg.unique_names rs \<Longrightarrow> get_range nm rs = (i, us) \<Longrightarrow>
   tdr_reg.unique_names (update_at i (add_range r) us)"
  using tdr_reg.get_unique [of rs nm] by (intro tdr_reg.update_unique) (simp_all add: add_range_def)

lemma record_ok:
  "timeline_ok t \<Longrightarrow> timeline_ok (record_range nm r t)"
  "timeline_ok t \<Longrightarrow> timeline_ok (record_str nm e t)"
  "timeline_ok t \<Longrightarrow> timeline_ok (record_int nm e' t)"
  by (auto simp: timeline_ok_def record_range_def record_str_def record_int_def
      intro: add_event_unique add_range_unique split: prod.splits)

definition timelines_ok :: "timeline list \<Rightarrow> bool" where
  "timelines_ok ts \<longleftrightarrow> tl_reg.unique_names ts \<and> (\<forall>t \<in> set ts. timeline_ok t)"

lemma on_timeline_ok:
  assumes ok: "timelines_ok ts" and f: "\<And>t. timeline_ok t \<Longrightarrow> timeline_ok (f t)"
    and nm: "\<And>t. tl_name (f t) = tl_name t"
  shows "timelines_ok (on_timeline who f ts)"
proof -
  obtain i us where g: "get_timeline who ts = (i, us)" by fastforce
  have u: "tl_reg.unique_names us"
    using tl_reg.get_unique [of ts who] ok g by (simp add: timelines_ok_def)
  have "us = ts \<or> us = ts @ [new_timeline who]"
    using g by (auto simp: get_timeline_def find_or_add_def split: option.splits)
  then have all: "\<forall>t \<in> set us. timeline_ok t"
    using ok by (auto simp: timelines_ok_def timeline_ok_def new_timeline_def
        tdr_reg.unique_names_def te_reg.unique_names_def)
  have "tl_reg.unique_names (update_at i f us)" using u nm by (rule tl_reg.update_unique)
  moreover have "\<forall>t \<in> set (update_at i f us). timeline_ok t"
    using all f by (auto dest!: set_update_at)
  ultimately show ?thesis by (simp add: timelines_ok_def on_timeline_def g)
qed

lemma record_name [simp]:
  "tl_name (record_range nm r t) = tl_name t" "tl_name (record_str nm e t) = tl_name t"
  "tl_name (record_int nm e' t) = tl_name t"
  by (simp_all add: record_range_def record_str_def record_int_def split: prod.splits)

lemma read_line_ok: "timelines_ok (snd tr) \<Longrightarrow> timelines_ok (snd (read_line tr line))"
  by (cases tr)
    (auto simp: read_line_def record_ok intro!: on_timeline_ok split: trace_line.splits)

lemma read_lines_ok: "timelines_ok (snd tr) \<Longrightarrow> timelines_ok (snd (foldl read_line tr ls))"
proof (induction ls arbitrary: tr)
  case (Cons l ls)
  show ?case using Cons.IH [OF read_line_ok [OF Cons.prems]] by simp
qed simp

lemma timeline_sort_ok:
  "timeline_ok t \<Longrightarrow> timeline_ok (timeline_sort t)" "timeline_sorted (timeline_sort t)"
  "tl_name (timeline_sort t) = tl_name t"
  by (auto simp: timeline_ok_def timeline_sorted_def timeline_sort_def sort_ranges_def sort_events_def
      sort_ranges_key sort_events_key tdr_reg.unique_names_def te_reg.unique_names_def o_def)

lemma read_data_ok:
  "timelines_ok (snd (read_data ls)) \<and> (\<forall>t \<in> set (snd (read_data ls)). timeline_sorted t)"
proof -
  obtain cs ts where r: "foldl read_line (initial_colors, []) ls = (cs, ts)" by fastforce
  have "timelines_ok ts"
    using read_lines_ok [of "(initial_colors, [])" ls] r
    by (simp add: timelines_ok_def tl_reg.unique_names_def)
  then show ?thesis
    using r by (auto simp: read_data_def timelines_sort_def timelines_ok_def tl_reg.unique_names_def
        timeline_sort_ok o_def)
qed

section \<open>Properties\<close>

text \<open>C17. After \<open>read_data\<close>, whatever the trace contains, timeline names are unique, the
  names of the ranges and of the events of a timeline are unique, and every
  range list and event list is sorted by time.\<close>

theorem read_data_sorted_unique:
  "timelines_ok (snd (read_data trace_lines)) \<and> list_all timeline_sorted (snd (read_data trace_lines))"
  using read_data_ok by (simp add: list_all_iff)

text \<open>On sorted disjoint ranges a query whose two end points each lie in a range returns
  exactly the ranges that overlap the queried interval.\<close>

theorem get_ranges_exact:
  assumes "disjoint_ranges (ranges t)" "list_ex (\<lambda>r. covers r start) (ranges t)"
    "list_ex (\<lambda>r. covers r stop) (ranges t)" "start \<le> stop"
  shows "get_ranges t start stop = List.filter (\<lambda>r. overlaps r start stop) (ranges t)"
  using assms get_ranges_exact_at unfolding list_ex_length by blast

definition demo_ranges :: timeline_data_range where
  "demo_ranges = \<lparr>tdr_name = ''r'', ranges =
     [\<lparr>dr_start = 0, dr_end = 4, dr_value = ''a''\<rparr>, \<lparr>dr_start = 6, dr_end = 8, dr_value = ''b''\<rparr>,
      \<lparr>dr_start = 10, dr_end = 14, dr_value = ''c''\<rparr>]\<rparr>"

theorem get_ranges_exact_witness:
  "get_ranges demo_ranges 3 7 = List.filter (\<lambda>r. overlaps r 3 7) (ranges demo_ranges)"
  by (rule get_ranges_exact) code_simp+

text \<open>A query whose two end points both lie outside every range returns nothing, even
  where ranges lie wholly between them.\<close>

theorem get_ranges_misses_between:
  "list_all (\<lambda>r. \<not> covers r start \<and> \<not> covers r stop) (ranges t) \<Longrightarrow> get_ranges t start stop = []"
  by (rule get_ranges_gap) (simp add: list_all_iff)

theorem get_ranges_misses_between_witness:
  "get_ranges demo_ranges 5 9 = [] \<and> overlaps (ranges demo_ranges ! 1) 5 9"
proof
  show "get_ranges demo_ranges 5 9 = []" by (rule get_ranges_misses_between) code_simp
qed code_simp

text \<open>On events at strictly increasing times a query returns all the events of the
  interval in order, followed by at most one event past its end.\<close>

theorem get_events_complete:
  assumes "strict_events (events t)" "start \<le> stop"
  shows "\<exists>extra. get_events t start stop =
       List.filter (\<lambda>e. start \<le> at e \<and> at e \<le> stop) (events t) @ extra \<and>
     length extra \<le> 1 \<and> list_all (\<lambda>e. stop < at e) extra"
  using get_events_within [OF assms] by (simp add: list_all_iff)

theorem get_events_complete_witness:
  "\<exists>extra. get_events \<lparr>te_name = ''e'', events = [\<lparr>at = 1, ev_value = ''x''\<rparr>, \<lparr>at = 5, ev_value = ''y''\<rparr>]\<rparr> 0 3 =
       [\<lparr>at = 1, ev_value = ''x''\<rparr>] @ extra \<and> length extra \<le> 1 \<and> list_all (\<lambda>e. 3 < at e) extra"
  using get_events_complete [of "\<lparr>te_name = ''e'', events =
      [\<lparr>at = 1, ev_value = ''x''\<rparr>, \<lparr>at = 5, ev_value = ''y''\<rparr>]\<rparr>" 0 3]
  by (simp add: strict_events_def)

end
