(* ===== verification/GridView.thy ===== *)
theory GridView
  imports Timeline Complex_Main
begin

text \<open>
  The view of \<open>utils/grid.py\<close>: the layout of the legend, of the names and of
  the bottom scale, the visible range, and the handlers of the mouse that change
  it.  Pixel positions and times are rationals; the extents of a text, which
  cairo measures, are a parameter.  Drawing is not modelled, nor are the heights
  that only drawing uses.
\<close>

section \<open>Layout of the legend and of the names\<close>

record legend_state =
  line_height :: rat
  total_height :: rat
  line_used :: rat

definition legend_step :: "rat \<Rightarrow> rat \<Rightarrow> legend_state \<Rightarrow> rat \<times> rat \<Rightarrow> legend_state" where
  "legend_step padding width st ext =
     (let (t_width, t_height) = ext;
          item_width = padding + padding + t_width + padding;
          item_height = t_height + padding;
          lh = (if item_height > line_height st then item_height else line_height st)
      in if line_used st + item_width > width
         then \<lparr>line_height = lh, total_height = total_height st + lh, line_used = padding + item_width\<rparr>
         else \<lparr>line_height = lh, total_height = total_height st, line_used = line_used st + item_width\<rparr>)"

definition legend_layout :: "(string \<Rightarrow> rat \<times> rat) \<Rightarrow> rat \<Rightarrow> string list \<Rightarrow> rat \<Rightarrow> rat" where
  "legend_layout extents padding legends width =
     (let st = foldl (legend_step padding width)
                 \<lparr>line_height = 0, total_height = padding, line_used = padding\<rparr>
                 (List.map extents legends)
      in total_height st + line_height st)"

record names_layout =
  left_width :: rat
  right_width :: rat
  names_height :: rat

definition names_layout_of :: "(string \<Rightarrow> rat) \<Rightarrow> rat \<Rightarrow> rat \<Rightarrow> timeline list \<Rightarrow> names_layout" where
  "names_layout_of text_width max_text_height padding ts =
     (let lefts = List.map tl_name ts;
          rights = concat (List.map (\<lambda>t. List.map tdr_name (tl_ranges t) @
                     List.map te_name (event_int t) @ List.map te_name (event_str t)) ts);
          left_n_lines = of_nat (length lefts);
          range_n = of_nat (length (concat (List.map tl_ranges ts)));
          event_n = of_nat (length (concat (List.map event_int ts)) + length (concat (List.map event_str ts)));
          left_height = left_n_lines * max_text_height + (left_n_lines - 1) * padding;
          right_n_lines = range_n + event_n;
          right_height = (right_n_lines - 1) * padding + right_n_lines * max_text_height;
          right_data_height = event_n * (max_text_height + 5) + range_n * 10 + (right_n_lines - 1) * padding
      in \<lparr>left_width = foldl (\<lambda>w s. max w (text_width s)) 0 lefts,
          right_width = foldl (\<lambda>w s. max w (text_width s)) 0 rights,
          names_height = max (max left_height right_height) right_data_height + padding\<rparr>)"

definition get_data_x_start :: "rat \<Rightarrow> names_layout \<Rightarrow> rat" where
  "get_data_x_start padding nl = padding / 2 + left_width nl + padding + right_width nl + padding / 2"

section \<open>The scale below the data\<close>

text \<open>
  The bounds of the bottom scale are integers, so every division here is floor
  division, and the step between two marks can come out as 0.
\<close>

function scale_closest :: "int \<Rightarrow> int \<Rightarrow> int" where
  "scale_closest data_delta closest =
     (if 0 < closest \<and> closest * 10 < data_delta then scale_closest data_delta (closest * 10) else closest)"
  by pat_completeness auto
termination
  by (relation "measure (\<lambda>(d, c). nat (d - c))") auto

declare scale_closest.simps [simp del]

definition scale_delta :: "int \<Rightarrow> int \<Rightarrow> int" where
  "scale_delta lo hi =
     (let data_delta = hi - lo; closest = scale_closest data_delta 1
      in if data_delta div closest = 0 then closest
         else if data_delta div closest = 1 then closest div 10
         else closest)"

text \<open>The two bounds computed after the step divide by it.\<close>

definition scale_layout :: "int \<Rightarrow> int \<Rightarrow> int py_result" where
  "scale_layout lo hi =
     (let delta = scale_delta lo hi in if delta = 0 then Inl ZeroDivisionError else Inr delta)"

section \<open>The visible range\<close>

record graphic =
  g_start :: rat
  g_end :: rat
  r_start :: rat
  r_end :: rat
  g_width :: rat
  g_height :: rat
  bot_lo :: rat
  bot_hi :: rat
  bot_width :: rat
  data_x_start :: rat
  legend_height :: rat
  data_height :: rat
  mid_height :: rat
  bot_height :: rat

definition graphic_layout :: "rat \<Rightarrow> rat \<Rightarrow> graphic \<Rightarrow> graphic" where
  "graphic_layout width height g = g\<lparr>g_width := width, g_height := height, bot_width := width\<rparr>"

definition set_range :: "rat \<Rightarrow> rat \<Rightarrow> graphic \<Rightarrow> graphic" where
  "set_range start stop g =
     (let s = min start stop;
          e = max start stop;
          g = g\<lparr>r_start := max (g_start g) s, r_end := min (g_end g) e\<rparr>
      in graphic_layout (g_width g) (g_height g) g)"

definition get_position :: "rat \<Rightarrow> graphic \<Rightarrow> rat py_result" where
  "get_position x g =
     (if bot_hi g - bot_lo g = 0 then Inl ZeroDivisionError
      else Inr ((x - bot_lo g) * bot_width g / (bot_hi g - bot_lo g)))"

definition get_selection_rectangle :: "graphic \<Rightarrow> (rat \<times> rat \<times> rat \<times> rat) py_result" where
  "get_selection_rectangle g =
     (let y_start = legend_height g + data_height g + mid_height g + 20;
          y_height = bot_height g + 20
      in rbind (get_position (r_start g) g) (\<lambda>x_start.
         rbind (get_position (r_end g) g) (\<lambda>x_end.
         Inr (x_start, y_start, x_end - x_start, y_height))))"

definition get_data_rectangle :: "graphic \<Rightarrow> rat \<times> rat \<times> rat \<times> rat" where
  "get_data_rectangle g =
     (data_x_start g, legend_height g, g_width g - data_x_start g, data_height g)"

definition scale_data :: "rat \<Rightarrow> graphic \<Rightarrow> rat py_result" where
  "scale_data x g =
     (if g_width g - data_x_start g = 0 then Inl ZeroDivisionError
      else Inr (x / (g_width g - data_x_start g) * (r_end g - r_start g)))"

definition scale_selection :: "rat \<Rightarrow> graphic \<Rightarrow> rat py_result" where
  "scale_selection x g =
     (if g_width g = 0 then Inl ZeroDivisionError
      else Inr (x / g_width g * (g_end g - g_start g)))"

section \<open>The mouse\<close>

text \<open>
  The state that a handler leaves behind when it raises is not modelled.
  \<open>moving_right\<close> may hold a number instead of a truth value.  An attribute that
  has not been assigned is \<open>None\<close> and raises when it is read.
\<close>

datatype flag = FlagFalse | FlagTrue | FlagNumber rat

fun truthy :: "flag \<Rightarrow> bool" where
  "truthy FlagFalse = False"
| "truthy FlagTrue = True"
| "truthy (FlagNumber k) = (k \<noteq> 0)"

datatype cursor = CursorNone | CursorHDouble | CursorFleur

record view =
  graph :: graphic
  moving_left :: bool
  moving_right :: flag
  moving_both :: bool
  moving_top :: bool
  left_cur :: "rat option"
  right_cur :: "rat option"
  both_start :: "rat option"
  both_cur :: "rat option"
  top_start :: "rat option"
  top_cur :: "rat option"
  view_width :: "rat option"
  force_full_redraw :: bool
  cursor :: cursor

definition attribute :: "'a option \<Rightarrow> 'a py_result" where
  "attribute v = (case v of None \<Rightarrow> Inl AttributeError | Some x \<Rightarrow> Inr x)"

definition set_smaller_zoom :: "view \<Rightarrow> view" where
  "set_smaller_zoom v =
     (let start = r_start (graph v); stop = r_end (graph v)
      in v\<lparr>graph := set_range start (start + (stop - start) * 2) (graph v), force_full_redraw := True\<rparr>)"

definition set_bigger_zoom :: "view \<Rightarrow> view" where
  "set_bigger_zoom v =
     (let start = r_start (graph v); stop = r_end (graph v)
      in v\<lparr>graph := set_range start (start + (stop - start) / 2) (graph v), force_full_redraw := True\<rparr>)"

definition button_press :: "rat \<Rightarrow> rat \<Rightarrow> view \<Rightarrow> (view \<times> bool) py_result" where
  "button_press ex ey v =
     rbind (get_selection_rectangle (graph v)) (\<lambda>(x, y, width, height).
       let (d_x, d_y, d_width, d_height) = get_data_rectangle (graph v);
           in_selection = ey > y \<and> ey < y + height
       in if in_selection \<and> \<bar>ex - x\<bar> < 5 then Inr (v\<lparr>moving_left := True\<rparr>, True)
          else if in_selection \<and> \<bar>ex - (x + width)\<bar> < 5 then Inr (v\<lparr>moving_right := FlagTrue\<rparr>, True)
          else if in_selection \<and> ex > x \<and> ex < x + width
          then Inr (v\<lparr>moving_both := True, both_start := Some ex, both_cur := Some ex\<rparr>, True)
          else if ey > d_y \<and> ey < d_y + d_height \<and> ex > d_x \<and> ex < d_x + d_width
          then Inr (v\<lparr>moving_top := True, top_start := Some ex, top_cur := Some ex\<rparr>, True)
          else Inr (v, False))"

definition change_range :: "rat \<Rightarrow> rat \<Rightarrow> view \<Rightarrow> view" where
  "change_range l r v = v\<lparr>graph := set_range l r (graph v), force_full_redraw := True\<rparr>"

definition button_release :: "view \<Rightarrow> (view \<times> bool) py_result" where
  "button_release v =
     (if moving_left v
      then rbind (attribute (left_cur v)) (\<lambda>c.
           rbind (scale_selection c (graph v)) (\<lambda>left.
           Inr (change_range left (r_end (graph v)) (v\<lparr>moving_left := False\<rparr>), True)))
      else if truthy (moving_right v)
      then rbind (attribute (right_cur v)) (\<lambda>c.
           rbind (scale_selection c (graph v)) (\<lambda>right.
           Inr (change_range (r_start (graph v)) right (v\<lparr>moving_right := FlagFalse\<rparr>), True)))
      else if moving_both v
      then rbind (attribute (both_cur v)) (\<lambda>c.
           rbind (attribute (both_start v)) (\<lambda>s.
           rbind (scale_selection (c - s) (graph v)) (\<lambda>delta.
           Inr (change_range (r_start (graph v) + delta) (r_end (graph v) + delta)
                  (v\<lparr>moving_both := False\<rparr>), True))))
      else Inr (v\<lparr>moving_top := False\<rparr>, False))"

text \<open>At the right edge the handler assigns \<open>moving_right\<close>, not \<open>right_cur\<close>.\<close>

definition move_right :: "rat \<Rightarrow> rat \<Rightarrow> view \<Rightarrow> (view \<times> bool) py_result" where
  "move_right ex x v =
     rbind (attribute (view_width v)) (\<lambda>w.
       if ex \<ge> w then Inr (v\<lparr>moving_right := FlagNumber w\<rparr>, True)
       else if ex < x then Inr (v\<lparr>right_cur := Some x\<rparr>, True)
       else Inr (v\<lparr>right_cur := Some ex\<rparr>, True))"

definition move_both :: "rat \<Rightarrow> rat \<Rightarrow> rat \<Rightarrow> view \<Rightarrow> (view \<times> bool) py_result" where
  "move_both ex x width v =
     rbind (attribute (view_width v)) (\<lambda>w.
     rbind (attribute (both_start v)) (\<lambda>s.
       let cur_e = w - (x + width - s);
           cur_s = s - x
       in Inr (v\<lparr>both_cur := Some (if ex < cur_s then cur_s else if ex > cur_e then cur_e else ex)\<rparr>, True)))"

definition move_top :: "rat \<Rightarrow> view \<Rightarrow> (view \<times> bool) py_result" where
  "move_top ex v =
     rbind (attribute (top_start v)) (\<lambda>s.
     rbind (scale_data (s - ex) (graph v)) (\<lambda>delta.
     Inr (change_range (r_start (graph v) + delta) (r_end (graph v) + delta)
            (v\<lparr>top_cur := Some ex, top_start := Some ex\<rparr>), True)))"

definition hover :: "rat \<Rightarrow> rat \<Rightarrow> rat \<times> rat \<times> rat \<times> rat \<Rightarrow> view \<Rightarrow> view \<times> bool" where
  "hover ex ey sel v =
     (let (x, y, width, height) = sel;
          (d_x, d_y, d_width, d_height) = get_data_rectangle (graph v)
      in if ey > y \<and> ey < y + height \<and> (\<bar>ex - x\<bar> < 5 \<or> \<bar>ex - (x + width)\<bar> < 5)
         then (v\<lparr>cursor := CursorHDouble\<rparr>, True)
         else if ey > y \<and> ey < y + height \<and> ex > x \<and> ex < x + width
         then (v\<lparr>cursor := CursorFleur\<rparr>, True)
         else if ey > d_y \<and> ey < d_y + d_height \<and> ex > d_x \<and> ex < d_x + d_width
         then (v\<lparr>cursor := CursorFleur\<rparr>, True)
         else (v\<lparr>cursor := CursorNone\<rparr>, False))"

text \<open>The redraw requests read the width of the widget too.\<close>

definition motion_notify :: "rat \<Rightarrow> rat \<Rightarrow> view \<Rightarrow> (view \<times> bool) py_result" where
  "motion_notify ex ey v =
     rbind (get_selection_rectangle (graph v)) (\<lambda>(x, y, width, height).
       if moving_left v
       then rbind (attribute (view_width v)) (\<lambda>_.
            Inr (v\<lparr>left_cur := Some (if ex \<le> 0 then 0 else if ex \<ge> x + width then x + width else ex)\<rparr>, True))
       else if truthy (moving_right v) then move_right ex x v
       else if moving_both v then move_both ex x width v
       else if moving_top v then move_top ex v
       else Inr (hover ex ey (x, y, width, height) v))"

definition size_allocate :: "rat \<Rightarrow> rat \<Rightarrow> view \<Rightarrow> view" where
  "size_allocate width height v =
     v\<lparr>view_width := Some width, graph := graphic_layout width height (graph v), force_full_redraw := True\<rparr>"

section \<open>Laws\<close>

lemma set_range_fields [simp]:
  "r_start (set_range s e g) = max (g_start g) (min s e)"
  "r_end (set_range s e g) = min (g_end g) (max s e)"
  "g_start (set_range s e g) = g_start g" "g_end (set_range s e g) = g_end g"
  by (simp_all add: set_range_def graphic_layout_def Let_def)

lemma scale_closest_pos: "0 < c \<Longrightarrow> 0 < scale_closest d c"
  by (induction d c rule: scale_closest.induct) (subst scale_closest.simps, auto)

lemma set_smaller_then_bigger:
  assumes "r_start (graph v) \<le> r_end (graph v)" "g_start (graph v) \<le> r_start (graph v)"
    "r_start (graph v) + (r_end (graph v) - r_start (graph v)) * 2 \<le> g_end (graph v)"
  shows "r_end (graph (set_bigger_zoom (set_smaller_zoom v))) = r_end (graph v)"
proof -
  define a where "a = r_start (graph v)"
  define d where "d = r_end (graph v) - a"
  have d: "r_end (graph v) = a + d" "0 \<le> d" "g_start (graph v) \<le> a" "a + d * 2 \<le> g_end (graph v)"
    using assms by (auto simp: a_def d_def)
  have "r_start (graph (set_smaller_zoom v)) = a" "r_end (graph (set_smaller_zoom v)) = a + d * 2"
    "g_end (graph (set_smaller_zoom v)) = g_end (graph v)"
    using d by (simp_all add: set_smaller_zoom_def Let_def a_def [symmetric] max_def min_def)
  then show ?thesis using d by (simp add: set_bigger_zoom_def Let_def max_def min_def)
qed

section \<open>Properties\<close>

text \<open>\<open>set_range\<close> yields a range that runs forward exactly when the requested interval
  meets the trace, and then it lies inside the trace; a request wholly outside,
  which dragging the data can make, leaves the start after the end.\<close>

theorem set_range_forward_iff:
  assumes "g_start g \<le> g_end g"
  shows "(r_start (set_range s e g) \<le> r_end (set_range s e g)) =
       (min s e \<le> g_end g \<and> g_start g \<le> max s e) \<and>
     g_start g \<le> r_start (set_range s e g) \<and> r_end (set_range s e g) \<le> g_end g"
  using assms by (auto simp: max_def min_def)

definition demo_graphic :: graphic where
  "demo_graphic = \<lparr>g_start = 0, g_end = 100, r_start = 20, r_end = 40, g_width = 200, g_height = 100,
     bot_lo = 0, bot_hi = 100, bot_width = 200, data_x_start = 100, legend_height = 10,
     data_height = 20, mid_height = 20, bot_height = 20\<rparr>"

definition demo_view :: view where
  "demo_view = \<lparr>graph = demo_graphic, moving_left = False, moving_right = FlagFalse,
     moving_both = False, moving_top = False, left_cur = None, right_cur = None, both_start = None,
     both_cur = None, top_start = None, top_cur = None, view_width = Some 200,
     force_full_redraw = True, cursor = CursorNone\<rparr>"

theorem set_range_forward_iff_witness:
  "r_end (set_range 120 150 demo_graphic) < r_start (set_range 120 150 demo_graphic)"
  using set_range_forward_iff [of demo_graphic 120 150] by (simp add: demo_graphic_def)

text \<open>Dragging the right edge of the selection to or past the right border of the widget
  and releasing it raises \<open>AttributeError\<close> when the edge has not been dragged inside
  the widget before, because the handler never records the position.\<close>

theorem drag_right_past_border:
  assumes "button_press ex ey v = Inr (v1, True)" "moving_right v1 = FlagTrue"
    "moving_left v1 = False" "right_cur v = None" "view_width v = Some w" "w \<noteq> 0" "w \<le> ex'"
    "motion_notify ex' ey' v1 = Inr (v2, b)"
  shows "button_release v2 = Inl AttributeError"
proof -
  have v1: "right_cur v1 = None" "view_width v1 = Some w"
  proof -
    obtain x y wd h where sel: "get_selection_rectangle (graph v) = Inr (x, y, wd, h)"
      using assms(1) by (auto simp: button_press_def py_simps)
    obtain dx dy dw dh where dat: "get_data_rectangle (graph v) = (dx, dy, dw, dh)"
      by (metis prod.exhaust)
    show "right_cur v1 = None" "view_width v1 = Some w"
      using assms(1,4,5) by (auto simp: button_press_def sel dat Let_def split: if_splits)
  qed
  have "v2 = v1\<lparr>moving_right := FlagNumber w\<rparr>"
    using assms(2,3,7,8) v1
    by (auto simp: motion_notify_def move_right_def attribute_def py_simps split: prod.splits)
  then show ?thesis using assms(3,6) v1 by (simp add: button_release_def attribute_def)
qed

lemma demo_press: "button_press 81 100 demo_view = Inr (demo_view\<lparr>moving_right := FlagTrue\<rparr>, True)"
  by (simp add: button_press_def demo_view_def demo_graphic_def get_selection_rectangle_def
      get_position_def get_data_rectangle_def)

lemma demo_motion:
  "motion_notify 250 100 (demo_view\<lparr>moving_right := FlagTrue\<rparr>) =
     Inr (demo_view\<lparr>moving_right := FlagNumber 200\<rparr>, True)"
  by (simp add: motion_notify_def move_right_def attribute_def demo_view_def demo_graphic_def
      get_selection_rectangle_def get_position_def)

theorem drag_right_past_border_witness:
  "button_release (demo_view\<lparr>moving_right := FlagNumber 200\<rparr>) = Inl AttributeError"
  by (rule drag_right_past_border [OF demo_press _ _ _ _ _ _ demo_motion, where w = 200])
    (simp_all add: demo_view_def)

text \<open>The bottom scale of a trace whose times span exactly one unit cannot be laid out: the
  step between two marks is zero and the layout divides by it.  Every longer
  span, and an empty one, has a positive step.\<close>

theorem scale_layout_fails_for_unit_span:
  "scale_layout lo (lo + 1) = Inl ZeroDivisionError \<and> scale_layout lo lo = Inr 1 \<and>
   is_ok (scale_layout lo (lo + 2 + int n))"
proof -
  have one: "scale_closest 1 1 = 1" "scale_closest 0 1 = 1"
    by (subst scale_closest.simps, simp)+
  define d where "d = 2 + int n"
  define c where "c = scale_closest d 1"
  have c: "0 < c" by (simp add: c_def scale_closest_pos)
  have ten: "c = 1 \<or> 10 \<le> c"
  proof -
    have "k = 1 \<or> 10 \<le> k \<Longrightarrow> scale_closest d k = 1 \<or> 10 \<le> scale_closest d k" for k
      by (induction d k rule: scale_closest.induct) (subst (1 2) scale_closest.simps, auto)
    then show ?thesis by (simp add: c_def)
  qed
  have "c = 1 \<Longrightarrow> d div c \<noteq> 1" by (simp add: d_def)
  then have "scale_delta lo (lo + d) \<noteq> 0"
    using c ten by (auto simp: scale_delta_def c_def [symmetric] Let_def)
  then have "is_ok (scale_layout lo (lo + d))" by (simp add: scale_layout_def)
  then show ?thesis
    using one by (simp add: scale_layout_def scale_delta_def d_def add.assoc)
qed

end
