(* ===== verification/PyPath.thy ===== *)
theory PyPath
  imports PyString
begin

text \<open>
  The parts of \<open>os.path\<close> on POSIX and of \<open>fnmatch\<close> that the components
  call, with \<open>s.split(c, 1)\<close>.  The current directory, which \<open>abspath\<close> and
  \<open>relpath\<close> read, is an argument.
\<close>

section \<open>Splitting once\<close>

text \<open>\<open>s.split(c, 1)\<close> has one part without the separator and two with it.\<close>

fun split_once :: "char \<Rightarrow> string \<Rightarrow> string \<times> string option" where
  "split_once sep [] = ([], None)"
| "split_once sep (c # cs) =
     (if c = sep then ([], Some cs) else (let (a, b) = split_once sep cs in (c # a, b)))"

lemma split_once_absent: "sep \<notin> set s \<Longrightarrow> split_once sep s = (s, None)"
  by (induction s) auto

lemma split_once_append [simp]: "sep \<notin> set a \<Longrightarrow> split_once sep (a @ sep # b) = (a, Some b)"
  by (induction a) auto

lemma split_once_fst: "sep \<notin> set (fst (split_once sep s))"
  by (induction s) (auto split: prod.splits)

lemma split_once_join:
  "s = (case split_once sep s of (a, None) \<Rightarrow> a | (a, Some b) \<Rightarrow> a @ sep # b)"
proof (induction s)
  case Nil
  then show ?case by simp
next
  case (Cons c s)
  then show ?case by (cases "split_once sep s") (auto split: option.splits)
qed

section \<open>Paths\<close>

definition basename :: "string \<Rightarrow> string" where
  "basename p = last (str_split CHR ''/'' p)"

definition is_abs :: "string \<Rightarrow> bool" where
  "is_abs p = startswith p ''/''"

text \<open>
  The loop of \<open>normpath\<close> over the components, the new components reversed:
  empty components and single dots are dropped, two dots remove the component
  before them.
\<close>

fun norm_comps :: "bool \<Rightarrow> string list \<Rightarrow> string list \<Rightarrow> string list" where
  "norm_comps rooted acc [] = rev acc"
| "norm_comps rooted acc (c # cs) =
     (if c = [] \<or> c = ''.'' then norm_comps rooted acc cs
      else if c \<noteq> ''..'' \<or> (\<not> rooted \<and> acc = []) \<or> (acc \<noteq> [] \<and> hd acc = ''..'')
      then norm_comps rooted (c # acc) cs
      else norm_comps rooted (tl acc) cs)"

definition initial_slashes :: "string \<Rightarrow> nat" where
  "initial_slashes p =
     (if \<not> startswith p ''/'' then 0
      else if startswith p ''//'' \<and> \<not> startswith p ''///'' then 2 else 1)"

definition normpath :: "string \<Rightarrow> string" where
  "normpath p =
     (if p = [] then ''.''
      else (let n = initial_slashes p;
                q = replicate n CHR ''/'' @
                    join ''/'' (norm_comps (0 < n) [] (str_split CHR ''/'' p))
            in if q = [] then ''.'' else q))"

definition abspath :: "string \<Rightarrow> string \<Rightarrow> string" where
  "abspath cwd p = normpath (if is_abs p then p else path_join cwd p)"

fun common_len :: "string list \<Rightarrow> string list \<Rightarrow> nat" where
  "common_len (a # as) (b # bs) = (if a = b then Suc (common_len as bs) else 0)"
| "common_len as bs = 0"

definition path_parts :: "string \<Rightarrow> string list" where
  "path_parts p = List.filter (\<lambda>c. c \<noteq> []) (str_split CHR ''/'' p)"

definition join_all :: "string list \<Rightarrow> string" where
  "join_all ps = (case ps of [] \<Rightarrow> [] | p # qs \<Rightarrow> foldl path_join p qs)"

definition relpath :: "string \<Rightarrow> string \<Rightarrow> string \<Rightarrow> string" where
  "relpath cwd p start =
     (let starts = path_parts (abspath cwd start); paths = path_parts (abspath cwd p);
          i = common_len starts paths;
          rel = replicate (length starts - i) ''..'' @ drop i paths
      in if rel = [] then ''.'' else join_all rel)"

text \<open>\<open>os.path.split\<close> and \<open>splitext\<close>.\<close>

definition dirname :: "string \<Rightarrow> string" where
  "dirname p =
     (let head = rev (dropWhile (\<lambda>c. c \<noteq> CHR ''/'') (rev p));
          bare = rev (dropWhile (\<lambda>c. c = CHR ''/'') (rev head))
      in if bare = [] then head else bare)"

section \<open>Shell patterns\<close>

text \<open>
  \<open>fnmatch\<close>: a star matches any characters, a question mark one, and a bracket
  expression one of a set.  A bracket that is not closed stands for itself.
  The members of a set are characters and ranges.
\<close>

fun in_class :: "string \<Rightarrow> char \<Rightarrow> bool" where
  "in_class (a # m # b # cs) x =
     (if m = CHR ''-'' then (of_char a \<le> (of_char x :: nat) \<and> of_char x \<le> (of_char b :: nat)) \<or> in_class cs x
      else a = x \<or> in_class (m # b # cs) x)"
| "in_class (a # cs) x = (a = x \<or> in_class cs x)"
| "in_class [] x = False"

text \<open>The body of the bracket expression that starts a pattern, and what follows it.\<close>

definition bracket :: "string \<Rightarrow> (bool \<times> string \<times> string) option" where
  "bracket p =
     (let (neg, q) = (case p of [] \<Rightarrow> (False, p) | c # r \<Rightarrow> (if c = CHR ''!'' then (True, r) else (False, p)));
          (first, r) = (case q of [] \<Rightarrow> ([], q) | c # s \<Rightarrow> (if c = CHR '']'' then ([c], s) else ([], q)))
      in case split_once CHR '']'' r of (a, None) \<Rightarrow> None | (a, Some b) \<Rightarrow> Some (neg, first @ a, b))"

lemma split_once_shorter: "split_once c s = (a, Some b) \<Longrightarrow> length b < length s"
proof (induction s arbitrary: a)
  case Nil
  then show ?case by simp
next
  case (Cons x s)
  then show ?case by (cases "split_once c s") (auto split: if_splits)
qed

lemma bracket_shorter: "bracket p = Some (neg, body, rest) \<Longrightarrow> length rest < length p"
  by (auto simp: bracket_def Let_def split: list.splits if_splits option.splits prod.splits
      dest: split_once_shorter)

function fnmatch :: "string \<Rightarrow> string \<Rightarrow> bool" where
  "fnmatch [] s = (s = [])"
| "fnmatch (c # p) [] = (if c = CHR ''*'' then fnmatch p [] else False)"
| "fnmatch (c # p) (x # s) =
     (if c = CHR ''*'' then (if fnmatch p (x # s) then True else fnmatch (c # p) s)
      else if c = CHR ''?'' then fnmatch p s
      else if c = CHR ''['' then
        (case bracket p of
           None \<Rightarrow> (if x = c then fnmatch p s else False)
         | Some (neg, body, rest) \<Rightarrow> (if in_class body x \<noteq> neg then fnmatch rest s else False))
      else (if x = c then fnmatch p s else False))"
  by pat_completeness auto
termination
  by (relation "measure (\<lambda>(p, s). length p + length s)") (auto dest: bracket_shorter)

declare fnmatch.simps(2,3) [simp del]

definition fnmatch_filter :: "string list \<Rightarrow> string \<Rightarrow> string list" where
  "fnmatch_filter names pat = List.filter (fnmatch pat) names"

definition literal_char :: "char \<Rightarrow> bool" where
  "literal_char c \<longleftrightarrow> c \<notin> {CHR ''*'', CHR ''?'', CHR ''[''}"

lemma fnmatch_literal: "list_all literal_char p \<Longrightarrow> fnmatch p s \<longleftrightarrow> s = p"
proof (induction p arbitrary: s)
  case Nil
  then show ?case by simp
next
  case (Cons c p)
  then show ?case
    by (cases s) (auto simp: fnmatch.simps(2,3) literal_char_def)
qed

lemma fnmatch_star [simp]: "fnmatch ''*'' s"
  by (induction s) (simp_all add: fnmatch.simps(2,3))

section \<open>Laws of paths\<close>

lemma norm_comps_keep:
  "(\<And>c. c \<in> set cs \<Longrightarrow> c \<notin> {[], ''.'', ''..''}) \<Longrightarrow> norm_comps ab acc cs = rev acc @ cs"
  by (induction cs arbitrary: acc) auto

lemma common_len_same [simp]: "common_len xs (xs @ ys) = length xs"
  by (induction xs) auto

lemma path_join_rel [simp]:
  "\<not> startswith b ''/'' \<Longrightarrow> a \<noteq> [] \<Longrightarrow> \<not> endswith a ''/'' \<Longrightarrow> path_join a b = a @ ''/'' @ b"
  by (simp add: path_join_def)

lemma path_join_abs: "startswith b ''/'' \<Longrightarrow> path_join a b = b"
  by (simp add: path_join_def)

lemma basename_no_slash: "CHR ''/'' \<notin> set (basename p)"
  unfolding basename_def by (rule str_split_mem_sep) (rule last_in_set, simp)

lemma basename_join: "CHR ''/'' \<notin> set b \<Longrightarrow> a \<noteq> [] \<Longrightarrow> basename (path_join a b) = b"
proof -
  assume b: "CHR ''/'' \<notin> set b" and a: "a \<noteq> []"
  have key: "last (str_split CHR ''/'' (x @ CHR ''/'' # b)) = b" for x
  proof (induction x)
    case Nil
    then show ?case by (simp add: str_split_no_sep [OF b])
  next
    case (Cons c x)
    obtain w ws where w: "str_split CHR ''/'' (x @ CHR ''/'' # b) = w # ws"
      by (meson list.exhaust str_split_ne)
    have "ws \<noteq> []"
    proof
      assume "ws = []"
      then have "x @ CHR ''/'' # b = w" using join_str_split [of "CHR ''/''" "x @ CHR ''/'' # b"] w by simp
      moreover have "CHR ''/'' \<notin> set w" using str_split_mem_sep [of w "CHR ''/''" "x @ CHR ''/'' # b"] w by simp
      ultimately show False by auto
    qed
    then show ?case using Cons w by auto
  qed
  have "\<not> startswith b ''/''" using b by (cases b) (auto simp: startswith_def)
  moreover have "endswith a ''/'' \<Longrightarrow> \<exists>x. a = x @ [CHR ''/'']" by (auto simp: endswith_def suffix_def)
  ultimately show ?thesis
    using key a by (auto simp: basename_def path_join_def)
qed

end
