(* ===== verification/ConfigFile.thy ===== *)
theory ConfigFile
  imports PyPath
begin

text \<open>
  The configuration readers of \<open>utils.py\<close>.  A file system maps the path of
  an existing file to its lines, each with its newline.  \<open>eval\<close> of a Python
  expression is a parameter, since the files may hold any expression.
\<close>

type_synonym file_lines = "string \<Rightarrow> string list option"

definition strip_comment :: "string \<Rightarrow> string" where
  "strip_comment line = fst (split_once CHR ''#'' line)"

definition value_part :: "string \<Rightarrow> string py_result" where
  "value_part s = (case split_once CHR ''='' s of (a, None) \<Rightarrow> Inl IndexError | (a, Some b) \<Rightarrow> Inr (strip b))"

section \<open>Lists\<close>

text \<open>
  The loop over the lines carries the text of the list read so far and whether a
  list that spans lines has begun.
\<close>

fun scan_list ::
  "(string \<Rightarrow> 'v list py_result) \<Rightarrow> string \<Rightarrow> string \<Rightarrow> bool \<Rightarrow> string list \<Rightarrow> 'v list py_result" where
  "scan_list eval list_name list_string multi [] = Inr []"
| "scan_list eval list_name list_string multi (line # lines) =
     (let line = strip_comment line
      in if contains line list_name \<or> multi
         then (let list_string = list_string @ line
               in if CHR '']'' \<notin> set list_string
                  then scan_list eval list_name list_string True lines
                  else rbind (value_part list_string) eval)
         else scan_list eval list_name list_string multi lines)"

definition get_list_from_file ::
  "(string \<Rightarrow> 'v list py_result) \<Rightarrow> file_lines \<Rightarrow> string \<Rightarrow> string \<Rightarrow> 'v list py_result" where
  "get_list_from_file eval fs file_path list_name =
     (case fs file_path of None \<Rightarrow> Inr [] | Some lines \<Rightarrow> scan_list eval list_name [] False lines)"

section \<open>Truth values\<close>

fun scan_bool :: "(string \<Rightarrow> 'v py_result) \<Rightarrow> string \<Rightarrow> string list \<Rightarrow> 'v option py_result" where
  "scan_bool eval bool_name [] = Inr None"
| "scan_bool eval bool_name (line # lines) =
     (let line = strip_comment line
      in if contains line bool_name then rbind (rbind (value_part line) eval) (\<lambda>v. Inr (Some v))
         else scan_bool eval bool_name lines)"

text \<open>\<open>bool_found\<close> is bound only where the file exists.\<close>

definition get_bool_from_file ::
  "(string \<Rightarrow> 'v py_result) \<Rightarrow> file_lines \<Rightarrow> string \<Rightarrow> string \<Rightarrow> 'v \<Rightarrow> 'v py_result" where
  "get_bool_from_file eval fs file_path bool_name value_if_missing =
     (case fs file_path of
        None \<Rightarrow> Inl UnboundLocalError
      | Some lines \<Rightarrow> rbind (scan_bool eval bool_name lines) (\<lambda>found.
          Inr (case found of None \<Rightarrow> value_if_missing | Some v \<Rightarrow> v)))"

section \<open>The configuration file\<close>

record ns3rc =
  config_file_exists :: bool
  modules_enabled :: "string list"
  examples_enabled :: bool
  tests_enabled :: bool

definition default_ns3rc :: ns3rc where
  "default_ns3rc = \<lparr>config_file_exists = False, modules_enabled = [''all_modules''],
     examples_enabled = False, tests_enabled = False\<rparr>"

definition find_ns3rc :: "string \<Rightarrow> file_lines \<Rightarrow> string option" where
  "find_ns3rc home fs =
     (if fs ''.ns3rc'' \<noteq> None then Some ''.ns3rc''
      else if fs (home @ ''/.ns3rc'') \<noteq> None then Some (home @ ''/.ns3rc'')
      else None)"

definition read_config_file ::
  "(string \<Rightarrow> string list py_result) \<Rightarrow> (string \<Rightarrow> bool py_result) \<Rightarrow> string \<Rightarrow> file_lines \<Rightarrow>
     ns3rc py_result" where
  "read_config_file eval_list eval_bool home fs =
     (case find_ns3rc home fs of
        None \<Rightarrow> Inr default_ns3rc
      | Some path \<Rightarrow>
          rbind (get_list_from_file eval_list fs path ''modules_enabled'') (\<lambda>ms.
          rbind (get_bool_from_file eval_bool fs path ''examples_enabled'' False) (\<lambda>ex.
          rbind (get_bool_from_file eval_bool fs path ''tests_enabled'' False) (\<lambda>ts.
          Inr \<lparr>config_file_exists = True,
               modules_enabled = (if ms = [] then [''all_modules''] else ms),
               examples_enabled = ex, tests_enabled = ts\<rparr>))))"

section \<open>Laws\<close>

definition mentions :: "string \<Rightarrow> string \<Rightarrow> bool" where
  "mentions name line \<longleftrightarrow> contains (strip_comment line) name"

lemma scan_list_skip:
  "list_all (\<lambda>l. \<not> mentions name l) ls \<Longrightarrow>
     scan_list eval name acc False (ls @ rest) = scan_list eval name acc False rest"
  by (induction ls) (auto simp: mentions_def Let_def)

lemma scan_list_multi:
  "list_all (\<lambda>l. CHR '']'' \<notin> set (strip_comment l)) ls \<Longrightarrow> CHR '']'' \<notin> set acc \<Longrightarrow>
     CHR '']'' \<in> set (strip_comment l) \<Longrightarrow>
     scan_list eval name acc True (ls @ l # rest) =
       rbind (value_part (acc @ concat (List.map strip_comment ls) @ strip_comment l)) eval"
  by (induction ls arbitrary: acc) (auto simp: Let_def)

lemma scan_list_found:
  assumes "mentions name l" "list_all (\<lambda>l. CHR '']'' \<notin> set (strip_comment l)) ls"
    "CHR '']'' \<in> set (strip_comment m)" "CHR '']'' \<notin> set (strip_comment l)"
  shows "scan_list eval name [] False (l # ls @ m # rest) =
     rbind (value_part (concat (List.map strip_comment (l # ls @ [m])))) eval"
  using scan_list_multi [OF assms(2) assms(4) assms(3), of eval name rest] assms(1,4)
  by (simp add: mentions_def Let_def)

lemma scan_list_found_one:
  "mentions name l \<Longrightarrow> CHR '']'' \<in> set (strip_comment l) \<Longrightarrow>
     scan_list eval name [] False (l # rest) = rbind (value_part (strip_comment l)) eval"
  by (simp add: mentions_def Let_def)

lemma scan_bool_skip:
  "list_all (\<lambda>l. \<not> mentions name l) ls \<Longrightarrow> scan_bool eval name (ls @ rest) = scan_bool eval name rest"
  by (induction ls) (auto simp: mentions_def Let_def)

lemma scan_bool_none: "list_all (\<lambda>l. \<not> mentions name l) ls \<Longrightarrow> scan_bool eval name ls = Inr None"
  using scan_bool_skip [of name ls eval "[]"] by simp

lemma contains_prefix_part [simp]: "contains (a @ name @ b) name"
  by (auto simp: contains_def sublist_def)

lemma strip_comment_none: "CHR ''#'' \<notin> set s \<Longrightarrow> strip_comment s = s"
  by (simp add: strip_comment_def split_once_absent)

lemma strip_comment_cut [simp]: "CHR ''#'' \<notin> set s \<Longrightarrow> strip_comment (s @ CHR ''#'' # t) = s"
  by (simp add: strip_comment_def)

lemma value_part_eq [simp]: "CHR ''='' \<notin> set a \<Longrightarrow> value_part (a @ CHR ''='' # b) = Inr (strip b)"
  by (simp add: value_part_def)

lemma get_bool_present:
  "fs p = Some lines \<Longrightarrow> list_all (\<lambda>l. \<not> mentions name l) lines \<Longrightarrow>
     get_bool_from_file eval fs p name d = Inr d"
  by (simp add: get_bool_from_file_def scan_bool_none)

lemma find_ns3rc_exists: "find_ns3rc home fs = Some p \<Longrightarrow> \<exists>lines. fs p = Some lines"
  by (auto simp: find_ns3rc_def split: if_splits)

section \<open>Properties\<close>

text \<open>A list that is written over several lines, with comments on any of them, is read as
  the value of its text without the comments; the lines before it that do not
  mention its name, and all the lines after it, do not matter.\<close>

theorem get_list_reads_multiline:
  assumes "fs path = Some (before @ (name @ '' ='' @ first) # rest @ final # after)"
    "list_all (\<lambda>l. \<not> mentions name l) before"
    "list_all (\<lambda>l. CHR '']'' \<notin> set (strip_comment l)) rest"
    "CHR '']'' \<in> set (strip_comment final)"
    "list_all (\<lambda>c. c \<notin> {CHR ''#'', CHR ''='', CHR '']''}) name" "CHR '']'' \<notin> set (strip_comment first)"
  shows "get_list_from_file eval fs path name =
     eval (strip (concat (List.map strip_comment (first # rest @ [final]))))"
proof -
  have name: "CHR ''#'' \<notin> set name" "CHR ''='' \<notin> set name" "CHR '']'' \<notin> set name"
    using assms(5) by (auto simp: list_all_iff)
  have cut: "strip_comment (name @ '' ='' @ x) = name @ '' ='' @ strip_comment x" for x
  proof -
    have "strip_comment (a @ x) = a @ strip_comment x" if "CHR ''#'' \<notin> set a" for a
      using that by (induction a) (auto simp: strip_comment_def split: prod.splits)
    from this [of "name @ '' =''"] show ?thesis using name by simp
  qed
  have "mentions name (name @ '' ='' @ first)"
    using contains_prefix_part [of "[]" name "'' ='' @ strip_comment first"]
    unfolding mentions_def cut by simp
  then have "scan_list eval name [] False ((name @ '' ='' @ first) # rest @ final # after) =
      rbind (value_part (concat (List.map strip_comment ((name @ '' ='' @ first) # rest @ [final])))) eval"
    using assms(3,4,6) name(3) by (intro scan_list_found) (simp_all add: cut [simplified])
  also have "concat (List.map strip_comment ((name @ '' ='' @ first) # rest @ [final])) =
      (name @ '' '') @ CHR ''='' # concat (List.map strip_comment (first # rest @ [final]))"
    by (simp add: cut [simplified])
  also have "value_part \<dots> = Inr (strip (concat (List.map strip_comment (first # rest @ [final]))))"
    by (rule value_part_eq) (simp add: name)
  finally show ?thesis
    using assms(1,2) by (simp add: get_list_from_file_def scan_list_skip)
qed

definition demo_fs :: file_lines where
  "demo_fs p = (if p = ''f'' then Some [''# a list'', ''xs = [ # open'', '' 1,'', ''2] # x'', ''xs = [3]''] else None)"

theorem get_list_reads_multiline_witness:
  "get_list_from_file (\<lambda>s. Inr [s]) demo_fs ''f'' ''xs'' = Inr [strip ('' [  1,2] '')]"
proof -
  have "get_list_from_file (\<lambda>s. Inr [s]) demo_fs ''f'' ''xs'' =
      Inr [strip (concat (List.map strip_comment ('' [ # open'' # ['' 1,''] @ [''2] # x''])))]"
    by (rule get_list_reads_multiline [where before = "[''# a list'']" and after = "[''xs = [3]'']"])
      code_simp+
  also have "\<dots> = Inr [strip ('' [  1,2] '')]" by code_simp
  finally show ?thesis .
qed

text \<open>The reader of a truth value returns the given default when the file does not mention
  the name, but raises \<open>UnboundLocalError\<close> when there is no file, where its comment
  promises the default; \<open>read_config_file\<close>, which looks for the file first,
  never gets there and returns the defaults.\<close>

theorem missing_bool_file:
  assumes "list_all (\<lambda>l. \<not> mentions name l) lines"
  shows "get_bool_from_file eval (\<lambda>p. if p = path then Some lines else None) path name d = Inr d \<and>
    get_bool_from_file eval (\<lambda>p. None) path name d = Inl UnboundLocalError \<and>
    read_config_file eval_list eval_bool home (\<lambda>p. None) = Inr default_ns3rc"
  using assms get_bool_present [of "\<lambda>p. if p = path then Some lines else None" path lines]
  by (simp add: get_bool_from_file_def read_config_file_def find_ns3rc_def)

theorem missing_bool_file_witness:
  "get_bool_from_file (\<lambda>s. Inr True) (\<lambda>p. None) ''f'' ''b'' False = Inl UnboundLocalError"
proof -
  have "list_all (\<lambda>l. \<not> mentions ''b'' l) [''a = 1'']" by code_simp
  from missing_bool_file [OF this, of "\<lambda>s. Inr True" _ False] show ?thesis by blast
qed

end
