(* ===== verification/TestConfig.thy ===== *)
theory TestConfig
  imports ConfigFile
begin

text \<open>
  The front half of \<open>test.py\<close>: the configuration, the search paths, the
  examples to run, the choice of the test suites and the jobs that are
  dispatched.  Parameters: which paths exist, the lines of a file, the standard
  output of the test runner, and \<open>eval\<close> of a condition of an example.
  \<open>cfg_python\<close> is the first item of the list \<open>PYTHON\<close>.
\<close>

section \<open>Configuration and options\<close>

record config =
  cfg_appname :: string
  cfg_version :: string
  cfg_build_profile :: string
  cfg_basedir :: string
  cfg_builddir :: string
  cfg_module_path :: "string list"
  cfg_modules :: "string list"
  cfg_contrib :: "string list"
  cfg_example_dirs :: "string list"
  cfg_nsc :: bool
  cfg_examples :: bool
  cfg_tests :: bool
  cfg_bindings :: bool
  cfg_python :: string
  cfg_valgrind_found :: bool

record options =
  opt_buildpath :: string
  opt_constrain :: string
  opt_duration :: bool
  opt_example :: string
  opt_update_data :: bool
  opt_fullness :: string
  opt_valgrind :: bool
  opt_kinds :: bool
  opt_list :: bool
  opt_multiple :: bool
  opt_pyexample :: string
  opt_suite :: string
  opt_process_limit :: int

definition core_kinds :: "string list" where
  "core_kinds = [''core'', ''performance'', ''system'', ''unit'']"

definition core_nsc_missing_skip_tests :: "string list" where
  "core_nsc_missing_skip_tests = [''ns3-tcp-cwnd'', ''nsc-tcp-loss'', ''ns3-tcp-interoperability'']"

definition core_valgrind_skip_tests :: "string list" where
  "core_valgrind_skip_tests =
     [''ns3-tcp-cwnd'', ''nsc-tcp-loss'', ''ns3-tcp-interoperability'', ''routing-click'',
      ''lte-rr-ff-mac-scheduler'', ''lte-tdmt-ff-mac-scheduler'', ''lte-fdmt-ff-mac-scheduler'',
      ''lte-pf-ff-mac-scheduler'', ''lte-tta-ff-mac-scheduler'', ''lte-fdbet-ff-mac-scheduler'',
      ''lte-ttbet-ff-mac-scheduler'', ''lte-fdtbfq-ff-mac-scheduler'', ''lte-tdtbfq-ff-mac-scheduler'',
      ''lte-pss-ff-mac-scheduler'']"

definition profile_suffix :: "config \<Rightarrow> string" where
  "profile_suffix cfg = (if cfg_build_profile cfg = ''release'' then [] else ''-'' @ cfg_build_profile cfg)"

definition program_name :: "config \<Rightarrow> string \<Rightarrow> string" where
  "program_name cfg name = cfg_appname cfg @ cfg_version cfg @ ''-'' @ name @ profile_suffix cfg"

definition test_runner_name :: "config \<Rightarrow> string" where
  "test_runner_name cfg = program_name cfg ''test-runner''"

definition waf_cmd :: "options \<Rightarrow> string" where
  "waf_cmd opts =
     (if opt_kinds opts \<or> opt_list opts \<or> (opt_constrain opts \<noteq> [] \<and> opt_constrain opts \<in> set core_kinds)
      then ''./waf --target=test-runner''
      else if opt_example opts \<noteq> [] then ''./waf --target='' @ basename (opt_example opts)
      else ''./waf'')"

section \<open>Search paths\<close>

text \<open>
  \<open>make_paths\<close> updates the environment.  The first assignment to
  \<open>PYTHONPATH\<close> comes before the test of whether it was set.
\<close>

type_synonym environ = "(string, string) dict"

definition append_paths :: "string \<Rightarrow> string \<Rightarrow> string list \<Rightarrow> environ \<Rightarrow> environ" where
  "append_paths var sep paths env =
     fold (\<lambda>p e. dset var (dget_default e var [] @ sep @ p) e) paths env"

definition set_library_path :: "string \<Rightarrow> string \<Rightarrow> string list \<Rightarrow> environ \<Rightarrow> environ" where
  "set_library_path var sep paths env =
     append_paths var sep paths (if dhas env var then env else dset var [] env)"

definition make_paths :: "config \<Rightarrow> string \<Rightarrow> environ \<Rightarrow> environ" where
  "make_paths cfg platform env =
     (let have = dhas env ''PYTHONPATH'';
          pypath = path_join (path_join (cfg_builddir cfg) ''bindings'') ''python'';
          env = dset ''PYTHONPATH'' pypath env;
          env = (if \<not> have then dset ''PYTHONPATH'' pypath env
                 else dset ''PYTHONPATH'' (dget_default env ''PYTHONPATH'' [] @ '':'' @ pypath) env)
      in if platform = ''darwin'' then set_library_path ''DYLD_LIBRARY_PATH'' '':'' (cfg_module_path cfg) env
         else if platform = ''win32'' then set_library_path ''PATH'' '';'' (cfg_module_path cfg) env
         else if platform = ''cygwin'' then set_library_path ''PATH'' '':'' (cfg_module_path cfg) env
         else set_library_path ''LD_LIBRARY_PATH'' '':'' (cfg_module_path cfg) env)"

section \<open>Running a command\<close>

text \<open>
  A process gives its return code and its two outputs, \<open>None\<close> for an output
  that is not valid text; the second failure to decode overrides like the first.
\<close>

type_synonym process = "int \<times> string option \<times> string option"

definition job_path :: "config \<Rightarrow> string \<Rightarrow> bool \<Rightarrow> string \<Rightarrow> string" where
  "job_path cfg shell_command is_python build_path =
     (if is_python then cfg_python cfg @ '' '' @ path_join (cfg_basedir cfg) shell_command
      else if build_path \<noteq> [] then path_join build_path shell_command
      else path_join (cfg_builddir cfg) shell_command)"

definition job_cmd :: "config \<Rightarrow> string \<Rightarrow> bool \<Rightarrow> bool \<Rightarrow> string \<Rightarrow> string" where
  "job_cmd cfg shell_command valgrind is_python build_path =
     (let path_cmd = job_path cfg shell_command is_python build_path
      in if valgrind
         then ''valgrind --suppressions='' @ path_join (cfg_basedir cfg) ''testpy.supp'' @
              '' --leak-check=full --show-reachable=yes --error-exitcode=2 --errors-for-leak-kinds=all '' @ path_cmd
         else path_cmd)"

definition run_job_synchronously ::
  "config \<Rightarrow> (string \<Rightarrow> string \<Rightarrow> process) \<Rightarrow> string \<Rightarrow> string \<Rightarrow> bool \<Rightarrow> bool \<Rightarrow> string \<Rightarrow> process" where
  "run_job_synchronously cfg popen shell_command directory valgrind is_python build_path =
     (let (retval, out, err) = popen (job_cmd cfg shell_command valgrind is_python build_path) directory;
          retval = (if out = None then 1 else retval);
          retval = (if err = None then 1 else retval)
      in (retval, out, err))"

section \<open>Examples to run\<close>

record example_lists =
  example_tests :: "(string \<times> string \<times> string \<times> string) list"
  example_names_original :: "string list"
  python_tests :: "(string \<times> string) list"

definition with_args :: "string \<Rightarrow> string option \<Rightarrow> string" where
  "with_args path args = (case args of None \<Rightarrow> path | Some a \<Rightarrow> path @ '' '' @ a)"

definition add_cpp_example ::
  "config \<Rightarrow> string \<Rightarrow> (string \<Rightarrow> bool) \<Rightarrow> string \<Rightarrow> example_lists \<Rightarrow> string \<times> string \<times> string \<Rightarrow> example_lists" where
  "add_cpp_example cfg cwd path_exists dir ls ex =
     (let (example_name_original, do_run, do_valgrind_run) = ex;
          (name, args) = split_once CHR '' '' example_name_original;
          example_path = path_join dir (program_name cfg name);
          example_name = path_join (relpath cwd dir (cfg_builddir cfg)) name
      in if path_exists example_path
         then ls\<lparr>example_tests := example_tests ls @
                   [(with_args example_name args, with_args example_path args, do_run, do_valgrind_run)],
                 example_names_original := example_names_original ls @ [example_name_original]\<rparr>
         else ls)"

definition add_python_example ::
  "(string \<Rightarrow> bool) \<Rightarrow> string \<Rightarrow> example_lists \<Rightarrow> string \<times> string \<Rightarrow> example_lists" where
  "add_python_example path_exists dir ls ex =
     (let (example_name, do_run) = ex;
          (name, args) = split_once CHR '' '' example_name;
          example_path = path_join dir name
      in if path_exists example_path
         then ls\<lparr>python_tests := python_tests ls @ [(with_args example_path args, do_run)]\<rparr>
         else ls)"

type_synonym list_evals =
  "(string \<Rightarrow> (string \<times> string \<times> string) list py_result) \<times> (string \<Rightarrow> (string \<times> string) list py_result)"

definition parse_examples_to_run_file ::
  "config \<Rightarrow> string \<Rightarrow> list_evals \<Rightarrow> file_lines \<Rightarrow> (string \<Rightarrow> bool) \<Rightarrow> string \<Rightarrow> string \<Rightarrow> string \<Rightarrow>
     example_lists \<Rightarrow> example_lists py_result" where
  "parse_examples_to_run_file cfg cwd evals fs path_exists examples_to_run_path cpp_dir python_dir ls =
     (if path_exists examples_to_run_path
      then rbind (get_list_from_file (fst evals) fs examples_to_run_path ''cpp_examples'') (\<lambda>cpp.
           let ls = foldl (add_cpp_example cfg cwd path_exists cpp_dir) ls cpp
           in rbind (get_list_from_file (snd evals) fs examples_to_run_path ''python_examples'') (\<lambda>py.
              Inr (foldl (add_python_example path_exists python_dir) ls py)))
      else Inr ls)"

text \<open>The three loops of \<open>run_tests\<close>: example directories, modules, contributed modules.\<close>

definition module_examples :: "string \<Rightarrow> string \<Rightarrow> string \<times> string" where
  "module_examples area module =
     (let dir = path_join area (drop (length ''ns3-'') module)
      in (path_join dir ''examples'', path_join (path_join dir ''test'') ''examples-to-run.py''))"

definition example_sources :: "config \<Rightarrow> (string \<times> string) list" where
  "example_sources cfg =
     List.map (\<lambda>d. let dir = path_join ''examples'' d in (dir, path_join dir ''examples-to-run.py'')) (cfg_example_dirs cfg) @
     List.map (module_examples ''src'') (cfg_modules cfg) @
     List.map (module_examples ''contrib'') (cfg_contrib cfg)"

definition find_examples ::
  "config \<Rightarrow> string \<Rightarrow> list_evals \<Rightarrow> file_lines \<Rightarrow> (string \<Rightarrow> bool) \<Rightarrow> example_lists py_result" where
  "find_examples cfg cwd evals fs path_exists =
     foldM (\<lambda>ls (dir, to_run). parse_examples_to_run_file cfg cwd evals fs path_exists to_run
              (path_join (cfg_builddir cfg) dir) dir ls)
       \<lparr>example_tests = [], example_names_original = [], python_tests = []\<rparr> (example_sources cfg)"

section \<open>The suites to run\<close>

text \<open>
  \<open>runner\<close> gives the standard output of the test runner for its command.
  A pattern that matches exactly one name marks a single suite.
\<close>

definition list_suites_cmd :: "config \<Rightarrow> string \<Rightarrow> string" where
  "list_suites_cmd cfg kind =
     path_join ''utils'' (test_runner_name cfg @ '' --print-test-name-list'' @
       (if kind = [] then [] else '' --test-type='' @ kind))"

definition requested_suites ::
  "config \<Rightarrow> options \<Rightarrow> (string \<Rightarrow> string) \<Rightarrow> (bool \<times> string) py_result" where
  "requested_suites cfg opts runner =
     (if opt_suite opts \<noteq> []
      then (let found = fnmatch_filter (str_split newline (runner (list_suites_cmd cfg []))) (opt_suite opts)
            in if found = [] then Inl (PyException ''SystemExit'')
               else Inr (length found = 1, join [newline] found))
      else if opt_example opts = [] \<and> opt_pyexample opts = []
      then Inr (False, runner (list_suites_cmd cfg (opt_constrain opts)))
      else Inr (False, []))"

text \<open>Each name of a performance test removes its first occurrence.\<close>

definition remove_performance :: "string list \<Rightarrow> string list \<Rightarrow> string list" where
  "remove_performance performance suites = fold remove1 performance suites"

definition suite_list :: "config \<Rightarrow> options \<Rightarrow> (string \<Rightarrow> string) \<Rightarrow> string list py_result" where
  "suite_list cfg opts runner =
     rbind (requested_suites cfg opts runner) (\<lambda>(single_suite, suites).
       let suites = str_split newline suites
       in Inr (if \<not> single_suite \<and> opt_constrain opts \<noteq> ''performance''
               then remove_performance (str_split newline (runner (list_suites_cmd cfg ''performance''))) suites
               else suites))"

section \<open>Jobs\<close>

record job =
  is_break :: bool
  is_skip :: bool
  skip_reason :: string
  is_example :: bool
  is_pyexample :: bool
  shell_command :: string
  display_name :: string
  basedir :: string
  tempdir :: string
  job_cwd :: string
  tmp_file_name :: string
  returncode :: int
  elapsed_time :: int
  build_path :: string

definition new_job :: job where
  "new_job = \<lparr>is_break = False, is_skip = False, skip_reason = [], is_example = False, is_pyexample = False,
     shell_command = [], display_name = [], basedir = [], tempdir = [], job_cwd = [], tmp_file_name = [],
     returncode = 0, elapsed_time = 0, build_path = []\<rparr>"

definition skip_if :: "bool \<Rightarrow> string \<Rightarrow> job \<Rightarrow> job" where
  "skip_if b why j = (if b then j\<lparr>is_skip := True, skip_reason := why\<rparr> else j)"

definition suite_job :: "config \<Rightarrow> options \<Rightarrow> string \<Rightarrow> string \<Rightarrow> string \<Rightarrow> job" where
  "suite_job cfg opts cwd outdir test =
     skip_if (\<not> cfg_nsc cfg \<and> test \<in> set core_nsc_missing_skip_tests) ''requires NSC''
      (skip_if (opt_valgrind opts \<and> test \<in> set core_valgrind_skip_tests) ''crashes valgrind''
        (new_job\<lparr>display_name := test, tmp_file_name := path_join outdir (test @ ''.xml''),
           job_cwd := cwd, basedir := cwd, tempdir := outdir,
           shell_command := path_join ''utils'' (test_runner_name cfg @ '' --test-name='' @ test @
             (if opt_multiple opts then [] else '' --stop-on-failure'') @ '' --fullness='' @
             (if opt_fullness opts \<noteq> [] then List.map to_upper (opt_fullness opts) else ''QUICK''))\<rparr>))"

definition suite_jobs :: "config \<Rightarrow> options \<Rightarrow> string \<Rightarrow> string \<Rightarrow> string list \<Rightarrow> job list" where
  "suite_jobs cfg opts cwd outdir suites =
     List.map (suite_job cfg opts cwd outdir) (List.filter (\<lambda>t. t \<noteq> []) (List.map strip suites))"

definition program_job :: "options \<Rightarrow> string \<Rightarrow> string \<Rightarrow> string \<Rightarrow> string \<Rightarrow> job" where
  "program_job opts cwd outdir name test =
     new_job\<lparr>is_example := True, display_name := name, job_cwd := outdir, basedir := cwd, tempdir := outdir,
       shell_command := test, build_path := opt_buildpath opts\<rparr>"

definition script_job :: "string \<Rightarrow> string \<Rightarrow> string \<Rightarrow> job" where
  "script_job cwd outdir test =
     new_job\<lparr>is_pyexample := True, display_name := test, job_cwd := outdir, basedir := cwd, tempdir := outdir,
       shell_command := test\<rparr>"

text \<open>Comprehensions whose body may queue a job, or raise.\<close>

definition queue_all :: "('a \<Rightarrow> job option py_result) \<Rightarrow> 'a list \<Rightarrow> job list py_result" where
  "queue_all f xs = rbind (map_res f xs) (\<lambda>os. Inr (concat (List.map (\<lambda>oj. case oj of None \<Rightarrow> [] | Some j \<Rightarrow> [j]) os)))"

definition example_job ::
  "options \<Rightarrow> string \<Rightarrow> string \<Rightarrow> (string \<Rightarrow> bool py_result) \<Rightarrow> (string, string) dict \<Rightarrow>
     string \<times> string \<times> string \<times> string \<Rightarrow> job option py_result" where
  "example_job opts cwd outdir eval runnable ex =
     (let (name, test, do_run, do_valgrind_run) = ex
      in if dhas runnable (basename (fst (split_once CHR '' '' test)))
         then rbind (eval do_run) (\<lambda>run.
              if run
              then rbind (if opt_valgrind opts then eval do_valgrind_run else Inr True) (\<lambda>grind.
                   Inr (Some (skip_if (\<not> grind) ''skip in valgrind runs'' (program_job opts cwd outdir name test))))
              else Inr None)
         else Inr None)"

definition pyexample_job ::
  "config \<Rightarrow> options \<Rightarrow> string \<Rightarrow> string \<Rightarrow> (string \<Rightarrow> bool py_result) \<Rightarrow> string list \<Rightarrow>
     string \<times> string \<Rightarrow> job option py_result" where
  "pyexample_job cfg opts cwd outdir eval scripts ex =
     (let (test, do_run) = ex
      in if basename (fst (split_once CHR '' '' test)) \<in> set scripts
         then rbind (eval do_run) (\<lambda>run.
              Inr (if run
                   then Some (skip_if (\<not> cfg_bindings cfg) ''requires Python bindings''
                               (skip_if (opt_valgrind opts) ''skip in valgrind runs'' (script_job cwd outdir test)))
                   else None))
         else Inr None)"

definition no_selection :: "options \<Rightarrow> bool" where
  "no_selection opts \<longleftrightarrow> opt_suite opts = [] \<and> opt_example opts = [] \<and> opt_pyexample opts = []"

definition example_jobs ::
  "config \<Rightarrow> options \<Rightarrow> string \<Rightarrow> string \<Rightarrow> (string \<Rightarrow> bool py_result) \<Rightarrow> (string, string) dict \<Rightarrow>
     example_lists \<Rightarrow> job list py_result" where
  "example_jobs cfg opts cwd outdir eval runnable ls =
     (if no_selection opts
      then (if (opt_constrain opts = [] \<or> opt_constrain opts = ''example'') \<and> cfg_examples cfg
            then queue_all (example_job opts cwd outdir eval runnable) (example_tests ls) else Inr [])
      else if opt_example opts \<noteq> []
      then Inr (List.map (\<lambda>k. let path = abspath cwd (dget_default runnable k []) in program_job opts cwd outdir path path)
                  (fnmatch_filter (dkeys runnable) (program_name cfg (opt_example opts))))
      else Inr [])"

definition pyexample_jobs ::
  "config \<Rightarrow> options \<Rightarrow> string \<Rightarrow> string \<Rightarrow> (string \<Rightarrow> bool py_result) \<Rightarrow> string list \<Rightarrow>
     example_lists \<Rightarrow> job list py_result" where
  "pyexample_jobs cfg opts cwd outdir eval scripts ls =
     (if no_selection opts
      then (if (opt_constrain opts = [] \<or> opt_constrain opts = ''pyexample'') \<and> cfg_examples cfg
            then queue_all (pyexample_job cfg opts cwd outdir eval scripts) (python_tests ls) else Inr [])
      else if opt_pyexample opts \<noteq> []
      then Inr (if basename (opt_pyexample opts) \<in> set scripts then [script_job cwd outdir (opt_pyexample opts)] else [])
      else Inr [])"

definition runnable_programs :: "string list \<Rightarrow> (string, string) dict" where
  "runnable_programs programs = fold (\<lambda>p d. dset (basename p) p d) programs []"

definition dispatch ::
  "config \<Rightarrow> options \<Rightarrow> string \<Rightarrow> string \<Rightarrow> (string \<Rightarrow> string) \<Rightarrow> (string \<Rightarrow> bool py_result) \<Rightarrow>
     string list \<Rightarrow> string list \<Rightarrow> example_lists \<Rightarrow> job list py_result" where
  "dispatch cfg opts cwd outdir runner eval programs scripts ls =
     rbind (suite_list cfg opts runner) (\<lambda>suites.
     rbind (example_jobs cfg opts cwd outdir eval (runnable_programs programs) ls) (\<lambda>ex.
     rbind (pyexample_jobs cfg opts cwd outdir eval scripts ls) (\<lambda>py.
     Inr (suite_jobs cfg opts cwd outdir suites @ ex @ py))))"

text \<open>
  The number of worker threads: the processors of the machine, or a smaller
  nonzero limit.  The loop that starts them runs over \<open>range\<close>, which is empty for
  a negative limit.
\<close>

definition processors :: "int \<Rightarrow> options \<Rightarrow> int" where
  "processors machine opts =
     (if opt_process_limit opts \<noteq> 0 \<and> \<not> machine < opt_process_limit opts then opt_process_limit opts else machine)"

definition workers_started :: "int \<Rightarrow> options \<Rightarrow> nat" where
  "workers_started machine opts = nat (processors machine opts)"


section \<open>Laws\<close>

lemma skip_if_fields [simp]:
  "is_break (skip_if b why j) = is_break j" "display_name (skip_if b why j) = display_name j"
  "is_example (skip_if b why j) = is_example j" "is_pyexample (skip_if b why j) = is_pyexample j"
  "is_skip (skip_if b why j) = (b \<or> is_skip j)"
  "skip_reason (skip_if b why j) = (if b then why else skip_reason j)"
  by (simp_all add: skip_if_def)

lemma new_job_fields [simp]:
  "\<not> is_break new_job" "\<not> is_skip new_job" "\<not> is_example new_job" "\<not> is_pyexample new_job"
  by (simp_all add: new_job_def)

lemma remove_performance_distinct:
  "distinct xs \<Longrightarrow> remove_performance ps xs = List.filter (\<lambda>x. x \<notin> set ps) xs"
proof (induction ps arbitrary: xs)
  case Nil
  then show ?case by (simp add: remove_performance_def)
next
  case (Cons p ps)
  have "remove1 p xs = List.filter (\<lambda>x. x \<noteq> p) xs"
    using Cons.prems by (simp add: distinct_remove1_removeAll removeAll_filter_not_eq)
      (rule filter_cong, auto)
  then show ?case
    using Cons.IH [of "remove1 p xs"] Cons.prems
    by (simp add: remove_performance_def conj_commute)
qed

text \<open>The output of the test runner: one name on a line, each line ended.\<close>

definition runner_output :: "string list \<Rightarrow> string" where
  "runner_output names = concat (List.map (\<lambda>n. n @ [newline]) names)"

definition suite_name :: "string \<Rightarrow> bool" where
  "suite_name n \<longleftrightarrow> n \<noteq> [] \<and> strip n = n \<and> newline \<notin> set n"

lemma split_runner_output:
  "list_all suite_name names \<Longrightarrow> str_split newline (runner_output names) = names @ [[]]"
  by (induction names) (auto simp: runner_output_def suite_name_def str_split_word)

lemma display_suite_jobs:
  "list_all suite_name suites \<Longrightarrow>
     List.map display_name (suite_jobs cfg opts cwd out suites) = suites"
  by (induction suites) (auto simp: suite_jobs_def suite_job_def suite_name_def)

lemma queue_all_mem:
  "queue_all f xs = Inr js \<Longrightarrow> j \<in> set js \<Longrightarrow> \<exists>x \<in> set xs. f x = Inr (Some j)"
proof (induction xs arbitrary: js)
  case Nil
  then show ?case by (simp add: queue_all_def)
next
  case (Cons x xs)
  then obtain oj os where o: "f x = Inr oj" "map_res f xs = Inr os"
    "js = concat (List.map (\<lambda>oj. case oj of None \<Rightarrow> [] | Some j \<Rightarrow> [j]) (oj # os))"
    by (auto simp: queue_all_def py_simps)
  show ?case
  proof (cases "oj = Some j")
    case True
    then show ?thesis using o by auto
  next
    case False
    then have "j \<in> set (concat (List.map (\<lambda>oj. case oj of None \<Rightarrow> [] | Some j \<Rightarrow> [j]) os))"
      using Cons.prems(2) o(3) by (cases oj) auto
    then show ?thesis using Cons.IH o(2) by (auto simp: queue_all_def)
  qed
qed

lemma example_job_Some:
  assumes "example_job opts cwd out eval runnable ex = Inr (Some j)"
  shows "\<not> is_break j \<and> is_example j \<and> \<not> is_pyexample j \<and> (is_skip j \<longrightarrow> opt_valgrind opts \<and> skip_reason j \<noteq> [])"
  using assms
  by (auto simp: example_job_def program_job_def py_simps split: prod.splits if_splits)

lemma pyexample_job_Some:
  assumes "pyexample_job cfg opts cwd out eval scripts ex = Inr (Some j)"
  shows "\<not> is_break j \<and> is_pyexample j \<and> \<not> is_example j \<and> (is_skip j \<longleftrightarrow> opt_valgrind opts \<or> \<not> cfg_bindings cfg) \<and>
    (is_skip j \<longrightarrow> skip_reason j \<noteq> [])"
  using assms
  by (auto simp: pyexample_job_def script_job_def py_simps split: prod.splits if_splits)

lemma example_jobs_mem:
  assumes "example_jobs cfg opts cwd out eval runnable ls = Inr js" "j \<in> set js"
  shows "\<not> is_break j \<and> is_example j \<and> \<not> is_pyexample j \<and> (is_skip j \<longrightarrow> opt_valgrind opts \<and> skip_reason j \<noteq> [])"
  using assms queue_all_mem [of "example_job opts cwd out eval runnable" "example_tests ls" js j]
  by (auto simp: example_jobs_def program_job_def Let_def dest: example_job_Some split: if_splits)

lemma pyexample_jobs_mem:
  assumes "pyexample_jobs cfg opts cwd out eval scripts ls = Inr js" "j \<in> set js"
  shows "\<not> is_break j \<and> is_pyexample j \<and> \<not> is_example j \<and>
    (is_skip j \<longleftrightarrow> no_selection opts \<and> (opt_valgrind opts \<or> \<not> cfg_bindings cfg)) \<and> (is_skip j \<longrightarrow> skip_reason j \<noteq> [])"
  using assms queue_all_mem [of "pyexample_job cfg opts cwd out eval scripts" "python_tests ls" js j]
  by (auto simp: pyexample_jobs_def script_job_def dest: pyexample_job_Some split: if_splits)

lemma suite_jobs_mem:
  assumes "j \<in> set (suite_jobs cfg opts cwd out suites)"
  shows "\<not> is_break j \<and> \<not> is_example j \<and> \<not> is_pyexample j \<and> (is_skip j \<longrightarrow> skip_reason j \<noteq> []) \<and>
    (is_skip j \<longrightarrow> opt_valgrind opts \<or> \<not> cfg_nsc cfg)"
proof -
  have "\<not> is_break (suite_job cfg opts cwd out t) \<and> \<not> is_example (suite_job cfg opts cwd out t) \<and>
    \<not> is_pyexample (suite_job cfg opts cwd out t) \<and>
    (is_skip (suite_job cfg opts cwd out t) \<longrightarrow> skip_reason (suite_job cfg opts cwd out t) \<noteq> []) \<and>
    (is_skip (suite_job cfg opts cwd out t) \<longrightarrow> opt_valgrind opts \<or> \<not> cfg_nsc cfg)" for t
    unfolding suite_job_def skip_if_fields by (simp split: if_split)
  then show ?thesis using assms by (auto simp: suite_jobs_def)
qed

lemma dispatch_no_break:
  assumes "dispatch cfg opts cwd out runner eval programs scripts ls = Inr js" "j \<in> set js"
  shows "\<not> is_break j"
  using assms
  by (auto simp: dispatch_def py_simps dest: suite_jobs_mem example_jobs_mem pyexample_jobs_mem)

lemma dget_append_paths:
  "dget (append_paths var sep ps env) v =
     (if v = var then (if ps = [] then dget env var
        else Some (dget_default env var [] @ concat (List.map (\<lambda>p. sep @ p) ps))) else dget env v)"
proof (induction ps arbitrary: env)
  case Nil
  then show ?case by (simp add: append_paths_def)
next
  case (Cons p ps)
  then show ?case by (simp add: append_paths_def dict_simps dget_default_def)
qed

lemma dget_set_library_path:
  "dget (set_library_path var sep ps env) v =
     (if v = var then Some (dget_default env var [] @ concat (List.map (\<lambda>p. sep @ p) ps)) else dget env v)"
  by (auto simp: set_library_path_def dget_append_paths dict_simps dget_default_def split: option.splits)


section \<open>Properties\<close>

text \<open>When a pattern is given for the suites, the suites dispatched are those that match
  it when exactly one does or when performance tests are asked for; otherwise
  the performance tests among the matches are left out.\<close>

theorem requested_suites_dispatched:
  assumes "list_all suite_name names" "distinct names" "list_all suite_name performance"
    "runner (list_suites_cmd cfg []) = runner_output names"
    "runner (list_suites_cmd cfg ''performance'') = runner_output performance"
    "opt_suite opts \<noteq> []" "\<not> fnmatch (opt_suite opts) []" "found = List.filter (fnmatch (opt_suite opts)) names"
    "found \<noteq> []"
  shows "\<exists>suites. suite_list cfg opts runner = Inr suites \<and>
     List.map display_name (suite_jobs cfg opts cwd out suites) =
       (if length found = 1 \<or> opt_constrain opts = ''performance'' then found
        else List.filter (\<lambda>t. t \<notin> set performance) found)"
proof -
  have found: "list_all suite_name found" "distinct found" "\<And>t. t \<in> set found \<Longrightarrow> newline \<notin> set t" "[] \<notin> set found"
    using assms(1,2,8) by (auto simp: list_all_iff suite_name_def)
  have req: "requested_suites cfg opts runner = Inr (length found = 1, join [newline] found)"
    using assms by (simp add: requested_suites_def split_runner_output fnmatch_filter_def Let_def)
  have split: "str_split newline (join [newline] found) = found"
    using found(3) assms(9) by (rule str_split_join [OF _ _, rotated])
  have "List.filter (\<lambda>t. t \<notin> set (performance @ [[]])) found = List.filter (\<lambda>t. t \<notin> set performance) found"
    using found(4) by (intro filter_cong) auto
  then have perf: "remove_performance (str_split newline (runner (list_suites_cmd cfg ''performance''))) found =
      List.filter (\<lambda>t. t \<notin> set performance) found"
    using assms(3,5) by (simp only: split_runner_output remove_performance_distinct [OF found(2)])
  have "list_all suite_name (List.filter (\<lambda>t. t \<notin> set performance) found)"
    using found(1) by (simp add: list_all_iff)
  then show ?thesis
    using found(1) by (simp add: suite_list_def req split perf display_suite_jobs)
qed

definition demo_runner :: "string \<Rightarrow> string" where
  "demo_runner cmd = (if endswith cmd ''performance'' then runner_output [''a-perf'', ''b-perf'']
     else runner_output [''a'', ''a-perf'', ''b-perf''])"

definition demo_cfg :: config where
  "demo_cfg = \<lparr>cfg_appname = ''ns'', cfg_version = ''3'', cfg_build_profile = ''debug'', cfg_basedir = ''/b'',
     cfg_builddir = ''/b/build'', cfg_module_path = [''/lib''], cfg_modules = [], cfg_contrib = [],
     cfg_example_dirs = [], cfg_nsc = True, cfg_examples = True, cfg_tests = True, cfg_bindings = False,
     cfg_python = ''python3'', cfg_valgrind_found = True\<rparr>"

definition demo_opts :: "string \<Rightarrow> options" where
  "demo_opts suite = \<lparr>opt_buildpath = [], opt_constrain = [], opt_duration = False, opt_example = [],
     opt_update_data = False, opt_fullness = ''QUICK'', opt_valgrind = False, opt_kinds = False,
     opt_list = False, opt_multiple = False, opt_pyexample = [], opt_suite = suite, opt_process_limit = 0\<rparr>"

theorem requested_suites_dispatched_witness:
  "\<exists>suites. suite_list demo_cfg (demo_opts ''*-perf'') demo_runner = Inr suites \<and>
     List.map display_name (suite_jobs demo_cfg (demo_opts ''*-perf'') ''/b'' ''out'' suites) = []"
proof -
  have "\<exists>suites. suite_list demo_cfg (demo_opts ''*-perf'') demo_runner = Inr suites \<and>
     List.map display_name (suite_jobs demo_cfg (demo_opts ''*-perf'') ''/b'' ''out'' suites) =
       (if length [''a-perf'', ''b-perf''] = 1 \<or> opt_constrain (demo_opts ''*-perf'') = ''performance''
        then [''a-perf'', ''b-perf'']
        else List.filter (\<lambda>t. t \<notin> set [''a-perf'', ''b-perf'']) [''a-perf'', ''b-perf''])"
    by (rule requested_suites_dispatched [where names = "[''a'', ''a-perf'', ''b-perf'']"]) code_simp+
  then show ?thesis by (simp add: demo_opts_def)
qed

text \<open>\<open>make_paths\<close> appends the module paths to the library path of the platform and leaves
  the other variables alone, but it overwrites the \<open>PYTHONPATH\<close> of the user: where
  one was set, the new value is the path of the bindings, twice.\<close>

theorem make_paths_environment:
  "dget (make_paths cfg ''linux'' env) v =
     (let pypath = path_join (path_join (cfg_builddir cfg) ''bindings'') ''python''
      in if v = ''PYTHONPATH''
         then Some (case dget env ''PYTHONPATH'' of None \<Rightarrow> pypath | Some old \<Rightarrow> pypath @ '':'' @ pypath)
         else if v = ''LD_LIBRARY_PATH''
         then Some ((case dget env v of None \<Rightarrow> [] | Some old \<Rightarrow> old) @
                    concat (List.map (\<lambda>p. CHR '':'' # p) (cfg_module_path cfg)))
         else dget env v)"
proof -
  have "(@) '':'' = (#) CHR '':''" by auto
  then show ?thesis
    by (auto simp: make_paths_def Let_def dget_set_library_path dict_simps dget_default_def split: option.splits)
qed

text \<open>No job that is dispatched is a sentinel; a skipped job carries its reason; a test
  suite is skipped only under valgrind or without NSC, a program only under
  valgrind, and a Python example always under valgrind or without bindings,
  unless it was asked for by name.\<close>

theorem dispatched_jobs_well_formed:
  assumes "dispatch cfg opts cwd out runner eval programs scripts ls = Inr js" "j \<in> set js"
  shows "\<not> is_break j \<and> \<not> (is_example j \<and> is_pyexample j) \<and> (is_skip j \<longrightarrow> skip_reason j \<noteq> []) \<and>
    (is_skip j \<longrightarrow> opt_valgrind opts \<or> \<not> cfg_nsc cfg \<or> is_pyexample j) \<and>
    (is_example j \<and> is_skip j \<longrightarrow> opt_valgrind opts) \<and>
    (is_pyexample j \<longrightarrow> (is_skip j \<longleftrightarrow> no_selection opts \<and> (opt_valgrind opts \<or> \<not> cfg_bindings cfg)))"
  using assms
  by (auto simp: dispatch_def py_simps dest: suite_jobs_mem example_jobs_mem pyexample_jobs_mem)

definition demo_dispatch :: "job list py_result" where
  "demo_dispatch = dispatch demo_cfg (demo_opts []) ''/b'' ''out'' demo_runner (\<lambda>s. Inr True) [] [''x.py'']
     \<lparr>example_tests = [], example_names_original = [], python_tests = [(''e/x.py'', ''True'')]\<rparr>"

theorem dispatched_jobs_well_formed_witness:
  "is_skip (skip_if True ''requires Python bindings'' (script_job ''/b'' ''out'' ''e/x.py''))"
proof -
  let ?j = "skip_if True ''requires Python bindings'' (script_job ''/b'' ''out'' ''e/x.py'')"
  have d: "demo_dispatch = Inr [suite_job demo_cfg (demo_opts []) ''/b'' ''out'' ''a'', ?j]" by code_simp
  have "is_pyexample ?j" "no_selection (demo_opts [])" "\<not> cfg_bindings demo_cfg"
    by code_simp+
  then show ?thesis
    using dispatched_jobs_well_formed [OF d [unfolded demo_dispatch_def], of ?j] by (simp del: skip_if_fields)
qed

end
