(* ===== verification/TestQueue.thy ===== *)
theory TestQueue
  imports TestConfig
begin

text \<open>
  The worker threads of \<open>test.py\<close>: the main thread puts the jobs and one sentinel
  for each worker into the input queue, the workers take jobs and put results
  into the output queue, the main thread collects as many results as it put
  jobs and then joins the workers.  A step of the pool is an event of one
  thread, so a run is any interleaving.  The signal handler may set the exit flag
  between any two events.
\<close>

section \<open>Queues\<close>

definition q_put :: "'a \<Rightarrow> 'a list \<Rightarrow> 'a list" where
  "q_put x q = q @ [x]"

definition q_get :: "'a list \<Rightarrow> ('a \<times> 'a list) option" where
  "q_get q = (case q of [] \<Rightarrow> None | x # r \<Rightarrow> Some (x, r))"

locale fifo =
  fixes items :: "'q \<Rightarrow> 'a list" and put :: "'a \<Rightarrow> 'q \<Rightarrow> 'q" and get :: "'q \<Rightarrow> ('a \<times> 'q) option"
  assumes items_put: "items (put x q) = items q @ [x]"
    and get_none: "get q = None \<longleftrightarrow> items q = []"
    and get_some: "get q = Some (x, r) \<Longrightarrow> items q = x # items r"
begin

lemma size_put: "length (items (put x q)) = Suc (length (items q))"
  by (simp add: items_put)

lemma mset_put: "mset (items (put x q)) = add_mset x (mset (items q))"
  by (simp add: items_put)

lemma get_keeps: "get q = Some (x, r) \<Longrightarrow> mset (items q) = add_mset x (mset (items r))"
  by (simp add: get_some)

lemma get_cases: "items q \<noteq> [] \<Longrightarrow> \<exists>x r. get q = Some (x, r)"
  using get_none [of q] by (cases "get q") auto

end

interpretation py_queue: fifo "\<lambda>q. q" q_put q_get
  by unfold_locales (auto simp: q_put_def q_get_def split: list.splits)

section \<open>The pool\<close>

datatype worker = Ready | Holding job | Running job | Stopped

record pool =
  pending :: "job list"
  inq :: "job list"
  workers :: "worker list"
  outq :: "job list"
  interrupted :: bool
  remaining :: nat
  collected :: "job list"

datatype event = Put | Get nat | Check nat | Finish nat | Collect | Interrupt

definition sentinel :: job where
  "sentinel = new_job\<lparr>is_break := True\<rparr>"

definition start_pool :: "nat \<Rightarrow> job list \<Rightarrow> pool" where
  "start_pool n js = \<lparr>pending = js @ replicate n sentinel, inq = [], workers = replicate n Ready,
     outq = [], interrupted = False, remaining = length js, collected = []\<rparr>"

text \<open>A worker runs the command of its job; a test suite is told where to write its results.\<close>

definition worker_command :: "options \<Rightarrow> job \<Rightarrow> string" where
  "worker_command opts j =
     (if is_example j \<or> is_pyexample j then shell_command j
      else shell_command j @ '' --xml --tempdir='' @ tempdir j @ '' --out='' @ tmp_file_name j @ '' '' @
           (if opt_update_data opts then ''--update-data'' else []))"

definition run_job ::
  "config \<Rightarrow> options \<Rightarrow> (string \<Rightarrow> string \<Rightarrow> process) \<Rightarrow> (string \<Rightarrow> int) \<Rightarrow> job \<Rightarrow> job" where
  "run_job cfg opts popen clock j =
     (let ex = is_example j \<or> is_pyexample j;
          (retval, out, err) = run_job_synchronously cfg popen (worker_command opts j) (job_cwd j) (opt_valgrind opts)
             (if ex then is_pyexample j else False) (if ex then build_path j else [])
      in j\<lparr>returncode := retval, elapsed_time := clock (worker_command opts j)\<rparr>)"

definition worker_event :: "(job \<Rightarrow> job) \<Rightarrow> pool \<Rightarrow> nat \<Rightarrow> worker \<Rightarrow> pool option" where
  "worker_event exec s i w =
     (case w of
        Holding j \<Rightarrow>
          (if interrupted s
           then Some (s\<lparr>workers := (workers s)[i := Ready], outq := q_put (j\<lparr>is_break := True\<rparr>) (outq s)\<rparr>)
           else if is_skip j then Some (s\<lparr>workers := (workers s)[i := Ready], outq := q_put j (outq s)\<rparr>)
           else Some (s\<lparr>workers := (workers s)[i := Running j]\<rparr>))
      | _ \<Rightarrow> None)"

fun pool_event :: "(job \<Rightarrow> job) \<Rightarrow> event \<Rightarrow> pool \<Rightarrow> pool option" where
  "pool_event exec Put s =
     (case pending s of [] \<Rightarrow> None | j # js \<Rightarrow> Some (s\<lparr>pending := js, inq := q_put j (inq s)\<rparr>))"
| "pool_event exec (Get i) s =
     (if i < length (workers s) \<and> workers s ! i = Ready
      then (case q_get (inq s) of
              None \<Rightarrow> None
            | Some (j, q) \<Rightarrow>
                Some (s\<lparr>inq := q, workers := (workers s)[i := if is_break j then Stopped else Holding j]\<rparr>))
      else None)"
| "pool_event exec (Check i) s = (if i < length (workers s) then worker_event exec s i (workers s ! i) else None)"
| "pool_event exec (Finish i) s =
     (if i < length (workers s)
      then (case workers s ! i of
              Running j \<Rightarrow> Some (s\<lparr>workers := (workers s)[i := Ready], outq := q_put (exec j) (outq s)\<rparr>)
            | _ \<Rightarrow> None)
      else None)"
| "pool_event exec Collect s =
     (if pending s = []
      then (case remaining s of
              0 \<Rightarrow> None
            | Suc n \<Rightarrow>
                (case q_get (outq s) of
                   None \<Rightarrow> None
                 | Some (j, q) \<Rightarrow> Some (s\<lparr>outq := q, remaining := n, collected := collected s @ [j]\<rparr>)))
      else None)"
| "pool_event exec Interrupt s = Some (s\<lparr>interrupted := True\<rparr>)"

inductive reachable :: "(job \<Rightarrow> job) \<Rightarrow> nat \<Rightarrow> job list \<Rightarrow> pool \<Rightarrow> bool"
  for exec n js where
  start: "reachable exec n js (start_pool n js)"
| step: "reachable exec n js s \<Longrightarrow> pool_event exec e s = Some s' \<Longrightarrow> reachable exec n js s'"

fun run_events :: "(job \<Rightarrow> job) \<Rightarrow> event list \<Rightarrow> pool \<Rightarrow> pool option" where
  "run_events exec [] s = Some s"
| "run_events exec (e # es) s = (case pool_event exec e s of None \<Rightarrow> None | Some s' \<Rightarrow> run_events exec es s')"

text \<open>The main thread has collected all results and can join every worker.\<close>

definition finished :: "pool \<Rightarrow> bool" where
  "finished s \<longleftrightarrow> pending s = [] \<and> remaining s = 0 \<and> list_all (\<lambda>w. w = Stopped) (workers s)"

section \<open>The invariant\<close>

fun held :: "worker \<Rightarrow> job list" where
  "held (Holding j) = [j]"
| "held (Running j) = [j]"
| "held w = []"

definition held_all :: "worker list \<Rightarrow> job list" where
  "held_all ws = concat (List.map held ws)"

definition live :: "worker list \<Rightarrow> nat" where
  "live ws = length (List.filter (\<lambda>w. w \<noteq> Stopped) ws)"

text \<open>A job without what a run of it, or an interrupt, writes into it.\<close>

definition core :: "job \<Rightarrow> job" where
  "core j = j\<lparr>is_break := False, returncode := 0, elapsed_time := 0\<rparr>"

definition result_of :: "(job \<Rightarrow> job) \<Rightarrow> job \<Rightarrow> job" where
  "result_of exec j = (if is_skip j then j else exec j)"

definition worker_ok :: "worker \<Rightarrow> bool" where
  "worker_ok w = (case w of Holding j \<Rightarrow> \<not> is_break j | Running j \<Rightarrow> \<not> is_break j \<and> \<not> is_skip j | _ \<Rightarrow> True)"

definition result_ok :: "(job \<Rightarrow> job) \<Rightarrow> job list \<Rightarrow> bool \<Rightarrow> job \<Rightarrow> bool" where
  "result_ok exec js intr r \<longleftrightarrow>
     (if is_break r then intr else r \<in> result_of exec ` set js)"

definition pool_inv :: "(job \<Rightarrow> job) \<Rightarrow> nat \<Rightarrow> job list \<Rightarrow> job list \<Rightarrow> pool \<Rightarrow> bool" where
  "pool_inv exec n js body s \<longleftrightarrow>
     inq s @ pending s = body @ replicate (live (workers s)) sentinel \<and>
     list_all (\<lambda>j. \<not> is_break j) body \<and> set body \<subseteq> set js \<and> set (held_all (workers s)) \<subseteq> set js \<and>
     length (workers s) = n \<and> list_all worker_ok (workers s) \<and>
     (Stopped \<in> set (workers s) \<longrightarrow> body = []) \<and>
     remaining s + length (collected s) = length js \<and>
     list_all (result_ok exec js (interrupted s)) (outq s @ collected s) \<and>
     mset (List.map core (body @ held_all (workers s) @ outq s @ collected s)) = mset (List.map core js) \<and>
     (\<not> interrupted s \<longrightarrow>
        mset (List.map (result_of exec) (body @ held_all (workers s))) + mset (outq s @ collected s) =
        mset (List.map (result_of exec) js))"

lemma worker_split: "i < length ws \<Longrightarrow> ws = take i ws @ ws ! i # drop (Suc i) ws"
  by (rule id_take_nth_drop)

lemma mset_held_update:
  assumes "i < length ws"
  shows "mset (List.map f (held_all (ws[i := w]))) + mset (List.map f (held (ws ! i))) =
    mset (List.map f (held_all ws)) + mset (List.map f (held w))"
proof -
  have "held_all ws = held_all (take i ws) @ held (ws ! i) @ held_all (drop (Suc i) ws)"
    by (subst worker_split [OF assms]) (simp add: held_all_def)
  moreover have "held_all (ws[i := w]) = held_all (take i ws) @ held w @ held_all (drop (Suc i) ws)"
    using assms by (simp add: upd_conv_take_nth_drop held_all_def)
  ultimately show ?thesis by simp
qed

lemma held_update_set:
  "i < length ws \<Longrightarrow> set (held_all (ws[i := w])) \<subseteq> set (held_all ws) \<union> set (held w)"
  by (auto simp: held_all_def dest!: set_update_subset_insert [THEN subsetD])

lemma held_mem: "i < length ws \<Longrightarrow> set (held (ws ! i)) \<subseteq> set (held_all ws)"
  using nth_mem [of i ws] by (fastforce simp: held_all_def)

lemma live_update:
  assumes "i < length ws"
  shows "live (ws[i := w]) + (if ws ! i = Stopped then 0 else 1) = live ws + (if w = Stopped then 0 else 1)"
proof -
  have "live ws = live (take i ws @ ws ! i # drop (Suc i) ws)"
    using worker_split [OF assms] by simp
  moreover have "live (ws[i := w]) = live (take i ws @ w # drop (Suc i) ws)"
    using assms by (simp add: upd_conv_take_nth_drop)
  ultimately show ?thesis by (simp add: live_def)
qed

lemma all_update: "list_all P ws \<Longrightarrow> P w \<Longrightarrow> list_all P (ws[i := w])"
  by (auto simp: list_all_iff dest!: set_update_subset_insert [THEN subsetD])

lemma sentinel_break [simp]: "is_break sentinel"
  by (simp add: sentinel_def)

lemma queue_head:
  assumes "j # q = body @ replicate k sentinel"
  shows "is_break j \<and> list_all (\<lambda>j. \<not> is_break j) body \<longrightarrow> body = [] \<and> 0 < k \<and> q = replicate (k - 1) sentinel"
    and "\<not> is_break j \<longrightarrow> (\<exists>b. body = j # b \<and> q = b @ replicate k sentinel)"
  using assms by (cases body; cases k; auto)+


lemma held_replace:
  "i < length ws \<Longrightarrow> held (ws ! i) = [] \<Longrightarrow> held w = [j] \<Longrightarrow>
     image_mset f (mset (held_all (ws[i := w]))) = add_mset (f j) (image_mset f (mset (held_all ws)))"
  "i < length ws \<Longrightarrow> held (ws ! i) = [j] \<Longrightarrow> held w = [] \<Longrightarrow>
     image_mset f (mset (held_all ws)) = add_mset (f j) (image_mset f (mset (held_all (ws[i := w]))))"
  "i < length ws \<Longrightarrow> held (ws ! i) = held w \<Longrightarrow>
     image_mset f (mset (held_all (ws[i := w]))) = image_mset f (mset (held_all ws))"
  using mset_held_update [of i ws f w] by simp_all

text \<open>Every event but an interrupt brings a job nearer to the end of its way.\<close>

fun weight :: "worker \<Rightarrow> nat" where
  "weight (Holding j) = 3"
| "weight (Running j) = 2"
| "weight w = 0"

definition work :: "pool \<Rightarrow> nat" where
  "work s = 5 * length (pending s) + 4 * length (inq s) + sum_list (List.map weight (workers s)) + length (outq s)"

lemma weight_update:
  assumes "i < length ws"
  shows "sum_list (List.map weight (ws[i := w])) + weight (ws ! i) = sum_list (List.map weight ws) + weight w"
proof -
  have "List.map weight ws = List.map weight (take i ws @ ws ! i # drop (Suc i) ws)"
    using worker_split [OF assms] by simp
  moreover have "List.map weight (ws[i := w]) = List.map weight (take i ws @ w # drop (Suc i) ws)"
    using assms by (simp add: upd_conv_take_nth_drop)
  ultimately show ?thesis by simp
qed

locale executor =
  fixes exec :: "job \<Rightarrow> job"
  assumes exec_break: "is_break (exec j) = is_break j" and exec_core: "core (exec j) = core j"
begin

lemma inv_start:
  assumes "list_all (\<lambda>j. \<not> is_break j) js"
  shows "pool_inv exec n js js (start_pool n js)"
  using assms by (simp add: pool_inv_def start_pool_def held_all_def live_def worker_ok_def list_all_iff)

lemma inv_put:
  assumes "pool_inv exec n js body s" "pool_event exec Put s = Some s'"
  shows "pool_inv exec n js body s'"
  using assms by (auto simp: pool_inv_def q_put_def split: list.splits)

lemma inv_interrupt:
  assumes "pool_inv exec n js body s" "pool_event exec Interrupt s = Some s'"
  shows "pool_inv exec n js body s'"
  using assms by (auto simp: pool_inv_def result_ok_def list_all_iff)

lemma inv_collect:
  assumes "pool_inv exec n js body s" "pool_event exec Collect s = Some s'"
  shows "pool_inv exec n js body s'"
  using assms by (auto simp: pool_inv_def q_get_def split: nat.splits list.splits if_splits)

lemma inv_get:
  assumes inv: "pool_inv exec n js body s" and ev: "pool_event exec (Get i) s = Some s'"
  shows "\<exists>b. pool_inv exec n js b s'"
proof -
  obtain j q where i: "i < length (workers s)" "workers s ! i = Ready" and q: "inq s = j # q"
    and s': "s' = s\<lparr>inq := q, workers := (workers s)[i := if is_break j then Stopped else Holding j]\<rparr>"
    using ev by (auto simp: q_get_def split: if_splits list.splits)
  have qeq: "j # (q @ pending s) = body @ replicate (live (workers s)) sentinel"
    using inv q by (simp add: pool_inv_def)
  have nb: "list_all (\<lambda>j. \<not> is_break j) body" using inv by (simp add: pool_inv_def)
  show ?thesis
  proof (cases "is_break j")
    case True
    then have b: "body = []" and live: "0 < live (workers s)"
      and q': "q @ pending s = replicate (live (workers s) - 1) sentinel"
      using queue_head(1) [OF qeq] nb by auto
    have "live ((workers s)[i := Stopped]) = live (workers s) - 1"
      using live_update [OF i(1), of Stopped] i(2) by simp
    then have "pool_inv exec n js [] s'"
      using inv True b q' i held_replace(3) [OF i(1), of Stopped core] held_replace(3) [OF i(1), of Stopped "result_of exec"]
        held_update_set [OF i(1), of Stopped]
      unfolding pool_inv_def s' by (auto simp: worker_ok_def intro!: all_update)
    then show ?thesis ..
  next
    case False
    then obtain b where b: "body = j # b" "q @ pending s = b @ replicate (live (workers s)) sentinel"
      using queue_head(2) [OF qeq] by auto
    have l: "live ((workers s)[i := Holding j]) = live (workers s)"
      using live_update [OF i(1), of "Holding j"] i(2) by simp
    have st: "Stopped \<notin> set ((workers s)[i := Holding j])"
      using inv b(1) by (auto simp: pool_inv_def dest!: set_update_subset_insert [THEN subsetD])
    have "pool_inv exec n js b s'"
      using inv False b l st i held_replace(1) [OF i(1), of "Holding j" j core]
        held_replace(1) [OF i(1), of "Holding j" j "result_of exec"] held_update_set [OF i(1), of "Holding j"]
      unfolding pool_inv_def s' by (auto simp: worker_ok_def intro!: all_update)
    then show ?thesis ..
  qed
qed

lemma inv_check:
  assumes inv: "pool_inv exec n js body s" and ev: "pool_event exec (Check i) s = Some s'"
  shows "pool_inv exec n js body s'"
proof -
  obtain j where i: "i < length (workers s)" "workers s ! i = Holding j"
    using ev by (auto simp: worker_event_def split: if_splits worker.splits)
  have jb: "\<not> is_break j" and js: "j \<in> set js"
    using inv i nth_mem [OF i(1)] held_mem [OF i(1)] by (auto simp: pool_inv_def list_all_iff worker_ok_def)
  have l: "live ((workers s)[i := Ready]) = live (workers s)" "live ((workers s)[i := Running j]) = live (workers s)"
    using live_update [OF i(1), of Ready] live_update [OF i(1), of "Running j"] i(2) by simp_all
  have st: "Stopped \<in> set ((workers s)[i := w]) \<Longrightarrow> w \<noteq> Stopped \<Longrightarrow> body = []" for w
    using inv by (auto simp: pool_inv_def dest!: set_update_subset_insert [THEN subsetD])
  note h = held_replace(2) [OF i(1), of j Ready core] held_replace(2) [OF i(1), of j Ready "result_of exec"]
    held_update_set [OF i(1), of Ready]
  note hr = held_replace(3) [OF i(1), of "Running j" core] held_replace(3) [OF i(1), of "Running j" "result_of exec"]
    held_update_set [OF i(1), of "Running j"]
  consider (interrupt) "interrupted s" | (skip) "\<not> interrupted s" "is_skip j" | (launch) "\<not> interrupted s" "\<not> is_skip j"
    by blast
  then show ?thesis
  proof cases
    case interrupt
    then have s': "s' = s\<lparr>workers := (workers s)[i := Ready], outq := q_put (j\<lparr>is_break := True\<rparr>) (outq s)\<rparr>"
      using ev i by (simp add: worker_event_def)
    have "core (j\<lparr>is_break := True\<rparr>) = core j" by (simp add: core_def)
    then show ?thesis
      using inv i l(1) st [of Ready] h interrupt
      unfolding pool_inv_def s' by (auto simp: q_put_def worker_ok_def result_ok_def intro!: all_update)
  next
    case skip
    then have s': "s' = s\<lparr>workers := (workers s)[i := Ready], outq := q_put j (outq s)\<rparr>"
      using ev i by (simp add: worker_event_def)
    have r: "result_of exec j = j" "result_ok exec js (interrupted s) j"
      using skip jb js by (auto simp: result_of_def result_ok_def image_iff)
    show ?thesis
      using inv i l(1) st [of Ready] h skip r
      unfolding pool_inv_def s' by (auto simp: q_put_def worker_ok_def intro!: all_update)
  next
    case launch
    then have s': "s' = s\<lparr>workers := (workers s)[i := Running j]\<rparr>"
      using ev i by (simp add: worker_event_def)
    show ?thesis
      using inv i l(2) st [of "Running j"] hr launch jb held_mem [OF i(1)]
      unfolding pool_inv_def s' by (auto simp: worker_ok_def intro!: all_update)
  qed
qed

lemma inv_finish:
  assumes inv: "pool_inv exec n js body s" and ev: "pool_event exec (Finish i) s = Some s'"
  shows "pool_inv exec n js body s'"
proof -
  obtain j where i: "i < length (workers s)" "workers s ! i = Running j"
    and s': "s' = s\<lparr>workers := (workers s)[i := Ready], outq := q_put (exec j) (outq s)\<rparr>"
    using ev by (auto split: if_splits worker.splits)
  have j: "\<not> is_break j" "\<not> is_skip j" "j \<in> set js"
    using inv i nth_mem [OF i(1)] held_mem [OF i(1)] by (auto simp: pool_inv_def list_all_iff worker_ok_def)
  have r: "result_of exec j = exec j" "result_ok exec js (interrupted s) (exec j)"
    using j exec_break by (auto simp: result_of_def result_ok_def image_iff)
  have l: "live ((workers s)[i := Ready]) = live (workers s)"
    using live_update [OF i(1), of Ready] i(2) by simp
  have st: "Stopped \<in> set ((workers s)[i := Ready]) \<Longrightarrow> body = []"
    using inv by (auto simp: pool_inv_def dest!: set_update_subset_insert [THEN subsetD])
  show ?thesis
    using inv i l st r exec_core [of j] held_replace(2) [OF i(1), of j Ready core]
      held_replace(2) [OF i(1), of j Ready "result_of exec"] held_update_set [OF i(1), of Ready]
    unfolding pool_inv_def s' by (auto simp: q_put_def worker_ok_def intro!: all_update)
qed

lemma inv_event:
  assumes "pool_inv exec n js body s" "pool_event exec e s = Some s'"
  shows "\<exists>b. pool_inv exec n js b s'"
proof (cases e)
  case Put
  then show ?thesis using assms by (intro exI) (rule inv_put, simp_all)
next
  case (Get i)
  then show ?thesis using assms inv_get by simp
next
  case (Check i)
  then show ?thesis using assms by (intro exI) (rule inv_check, assumption, simp only:)
next
  case (Finish i)
  then show ?thesis using assms by (intro exI) (rule inv_finish, assumption, simp only:)
next
  case Collect
  then show ?thesis using assms by (intro exI) (rule inv_collect, simp_all)
next
  case Interrupt
  then show ?thesis using assms by (intro exI) (rule inv_interrupt, assumption, simp only:)
qed

lemma reachable_inv:
  "reachable exec n js s \<Longrightarrow> list_all (\<lambda>j. \<not> is_break j) js \<Longrightarrow> \<exists>b. pool_inv exec n js b s"
proof (induction rule: reachable.induct)
  case start
  then show ?case using inv_start by blast
next
  case (step s e s')
  then obtain b where "pool_inv exec n js b s" by blast
  then show ?case using step.hyps(2) by (rule inv_event)
qed

lemma work_decreases:
  assumes "pool_event exec e s = Some s'" "e \<noteq> Interrupt"
  shows "work s' < work s"
proof (cases e)
  case (Get i)
  then show ?thesis
    using assms weight_update [of i "workers s"]
    by (auto simp: work_def q_get_def split: if_splits list.splits)
next
  case (Check i)
  then obtain j where i: "i < length (workers s)" "workers s ! i = Holding j"
    using assms by (auto simp: worker_event_def split: if_splits worker.splits)
  then show ?thesis
    using Check assms weight_update [OF i(1), of Ready] weight_update [OF i(1), of "Running j"]
    by (auto simp: work_def q_put_def worker_event_def split: if_splits)
next
  case (Finish i)
  then show ?thesis
    using assms weight_update [of i "workers s" Ready]
    by (auto simp: work_def q_put_def split: if_splits worker.splits)
qed (use assms in \<open>auto simp: work_def q_put_def q_get_def split: list.splits if_splits nat.splits\<close>)

lemma live_zero: "live ws = 0 \<longleftrightarrow> list_all (\<lambda>w. w = Stopped) ws"
  by (auto simp: live_def list_all_iff filter_empty_conv)

lemma progress:
  assumes inv: "pool_inv exec n js body s" and n: "0 < n" and nf: "\<not> finished s"
  shows "\<exists>e s'. e \<noteq> Interrupt \<and> pool_event exec e s = Some s'"
proof (cases "pending s")
  case (Cons j ps)
  then have "pool_event exec Put s = Some (s\<lparr>pending := ps, inq := q_put j (inq s)\<rparr>)" by simp
  then show ?thesis by blast
next
  case Nil
  have queue: "inq s = body @ replicate (live (workers s)) sentinel" and len: "length (workers s) = n"
    using inv Nil by (simp_all add: pool_inv_def)
  show ?thesis
  proof (cases "live (workers s) = 0")
    case True
    then have stop: "list_all (\<lambda>w. w = Stopped) (workers s)" using live_zero by blast
    then have "Stopped \<in> set (workers s)" and h: "held_all (workers s) = []"
      using n len by (cases "workers s"; auto simp: held_all_def list_all_iff)+
    then have "body = []" using inv by (simp add: pool_inv_def)
    then have "mset (List.map core (outq s @ collected s)) = mset (List.map core js)"
      using inv h by (simp add: pool_inv_def)
    then have "length (outq s @ collected s) = length js"
      by (metis length_map mset_eq_length)
    moreover have "remaining s \<noteq> 0" using nf Nil stop by (simp add: finished_def)
    moreover have "remaining s + length (collected s) = length js" using inv by (simp add: pool_inv_def)
    ultimately obtain m j q where "remaining s = Suc m" "outq s = j # q"
      by (cases "remaining s"; cases "outq s") auto
    then have "pool_event exec Collect s =
        Some (s\<lparr>outq := q, remaining := m, collected := collected s @ [j]\<rparr>)"
      using Nil by (simp add: q_get_def)
    then show ?thesis by blast
  next
    case False
    then obtain w where "w \<in> set (workers s)" "w \<noteq> Stopped"
      by (auto simp: live_zero list_all_iff)
    then obtain i where i: "i < length (workers s)" "workers s ! i \<noteq> Stopped"
      by (auto simp: in_set_conv_nth)
    show ?thesis
    proof (cases "workers s ! i")
      case Ready
      have "inq s \<noteq> []" using queue False by simp
      then obtain j q where "inq s = j # q" by (cases "inq s") auto
      then have "pool_event exec (Get i) s \<noteq> None" using i Ready by (simp add: q_get_def)
      then show ?thesis by (intro exI [of _ "Get i"]) auto
    next
      case (Holding j)
      then have "pool_event exec (Check i) s \<noteq> None" using i by (simp add: worker_event_def)
      then show ?thesis by (intro exI [of _ "Check i"]) auto
    next
      case (Running j)
      then have "pool_event exec (Finish i) s \<noteq> None" using i by simp
      then show ?thesis by (intro exI [of _ "Finish i"]) auto
    next
      case Stopped
      then show ?thesis using i by simp
    qed
  qed
qed

lemma work_bound:
  "run_events exec es s = Some s' \<Longrightarrow> length (List.filter (\<lambda>e. e \<noteq> Interrupt) es) + work s' \<le> work s"
proof (induction es arbitrary: s)
  case Nil
  then show ?case by simp
next
  case (Cons e es)
  then obtain t where t: "pool_event exec e s = Some t" "run_events exec es t = Some s'"
    by (auto split: option.splits)
  show ?case
  proof (cases "e = Interrupt")
    case True
    then have "work t = work s" using t(1) by (auto simp: work_def)
    then show ?thesis using Cons.IH [OF t(2)] True by simp
  next
    case False
    then show ?thesis using Cons.IH [OF t(2)] work_decreases [OF t(1) False] by simp
  qed
qed

lemma run_reachable:
  "run_events exec es s = Some s' \<Longrightarrow> reachable exec n js s \<Longrightarrow> reachable exec n js s'"
  by (induction es arbitrary: s) (auto split: option.splits intro: reachable.step)

lemma finished_collected:
  assumes inv: "pool_inv exec n js body s" and f: "finished s"
  shows "mset (List.map core (collected s)) = mset (List.map core js) \<and>
    list_all (result_ok exec js (interrupted s)) (collected s) \<and>
    (\<not> interrupted s \<longrightarrow> mset (collected s) = mset (List.map (result_of exec) js))"
proof -
  have "length (collected s) = length js" using inv f by (simp add: pool_inv_def finished_def)
  moreover have m: "mset (List.map core (body @ held_all (workers s) @ outq s @ collected s)) = mset (List.map core js)"
    using inv by (simp add: pool_inv_def)
  then have "length (body @ held_all (workers s) @ outq s @ collected s) = length js"
    by (metis length_map mset_eq_length)
  ultimately have "body = []" "held_all (workers s) = []" "outq s = []" by simp_all
  then show ?thesis using inv by (simp add: pool_inv_def)
qed

end

interpretation worker_run: executor "run_job cfg opts popen clock"
proof unfold_locales
  show "is_break (run_job cfg opts popen clock j) = is_break j"
    "core (run_job cfg opts popen clock j) = core j" for j
    by (simp_all add: run_job_def core_def Let_def split: prod.splits)
qed

lemma no_workers:
  "reachable exec 0 js s \<Longrightarrow> workers s = [] \<and> outq s = [] \<and> collected s = [] \<and> remaining s = length js"
proof (induction rule: reachable.induct)
  case start
  then show ?case by (simp add: start_pool_def)
next
  case (step s e s')
  then show ?case by (cases e) (auto simp: q_get_def split: list.splits nat.splits if_splits)
qed

section \<open>Properties\<close>

text \<open>C4. Whatever the interleaving of the threads and of interrupts, a run of the pool over the
  dispatched jobs with at least one worker has at most five events for each job
  and each worker besides interrupts, some thread can always go on until the
  pool is finished, and when it is finished every job has come back exactly once.\<close>

theorem pool_finishes:
  assumes "list_all (\<lambda>j. \<not> is_break j) js" "0 < n"
    "run_events (run_job cfg opts popen clock) es (start_pool n js) = Some s"
  shows "length (List.filter (\<lambda>e. e \<noteq> Interrupt) es) \<le> 5 * (length js + n) \<and>
    (finished s \<or> (\<exists>e s'. e \<noteq> Interrupt \<and> pool_event (run_job cfg opts popen clock) e s = Some s')) \<and>
    (finished s \<longrightarrow> mset (List.map core (collected s)) = mset (List.map core js))"
proof -
  obtain b where inv: "pool_inv (run_job cfg opts popen clock) n js b s"
    using worker_run.reachable_inv worker_run.run_reachable [OF assms(3) reachable.start] assms(1) by blast
  have "work (start_pool n js) = 5 * (length js + n)"
    by (simp add: work_def start_pool_def)
  then have "length (List.filter (\<lambda>e. e \<noteq> Interrupt) es) \<le> 5 * (length js + n)"
    using worker_run.work_bound [OF assms(3)] by simp
  then show ?thesis
    using worker_run.progress [OF inv assms(2)] worker_run.finished_collected [OF inv] by blast
qed

definition demo_popen :: "string \<Rightarrow> string \<Rightarrow> process" where
  "demo_popen cmd dir = (if endswith cmd ''bad'' then 1 else 0, Some [], Some [])"

definition demo_jobs :: "job list" where
  "demo_jobs = [program_job (demo_opts []) ''/b'' ''out'' ''good'' ''good'',
     skip_if True ''requires Python bindings'' (script_job ''/b'' ''out'' ''x.py'')]"

definition demo_events :: "event list" where
  "demo_events = [Put, Get 0, Put, Put, Check 0, Put, Get 1, Check 1, Finish 0, Collect, Get 0, Collect, Get 1]"

definition demo_pool :: "event list \<Rightarrow> pool option" where
  "demo_pool es = run_events (run_job demo_cfg (demo_opts []) demo_popen (\<lambda>c. 0)) es (start_pool 2 demo_jobs)"

definition demo_end :: pool where
  "demo_end = (case demo_pool demo_events of Some s \<Rightarrow> s | None \<Rightarrow> start_pool 0 [])"

lemma demo_pool_run: "demo_pool demo_events = Some demo_end"
  by code_simp

theorem pool_finishes_witness:
  "finished demo_end \<and> mset (List.map core (collected demo_end)) = mset (List.map core demo_jobs)"
proof -
  have f: "finished demo_end" and j: "list_all (\<lambda>j. \<not> is_break j) demo_jobs" by code_simp+
  then show ?thesis
    using pool_finishes [OF j _ demo_pool_run [unfolded demo_pool_def]] by simp
qed

text \<open>Without an interrupt the collected results are, in some order, those of the jobs
  themselves: a skipped job unchanged, any other with the return code of its command.\<close>

theorem pool_results:
  assumes "list_all (\<lambda>j. \<not> is_break j) js" "reachable (run_job cfg opts popen clock) n js s"
    "finished s" "\<not> interrupted s"
  shows "mset (collected s) = mset (List.map (\<lambda>j. if is_skip j then j else run_job cfg opts popen clock j) js)"
proof -
  obtain b where inv: "pool_inv (run_job cfg opts popen clock) n js b s"
    using worker_run.reachable_inv assms(1,2) by blast
  have "result_of (run_job cfg opts popen clock) = (\<lambda>j. if is_skip j then j else run_job cfg opts popen clock j)"
    by (simp add: fun_eq_iff result_of_def)
  then show ?thesis using worker_run.finished_collected [OF inv assms(3)] assms(4) by simp
qed

theorem pool_results_witness:
  "mset (collected demo_end) = mset (List.map (\<lambda>j. if is_skip j then j
     else run_job demo_cfg (demo_opts []) demo_popen (\<lambda>c. 0) j) demo_jobs)"
proof (rule pool_results)
  show "reachable (run_job demo_cfg (demo_opts []) demo_popen (\<lambda>c. 0)) 2 demo_jobs demo_end"
    by (rule worker_run.run_reachable [OF demo_pool_run [unfolded demo_pool_def] reachable.start])
qed code_simp+

text \<open>A negative limit on the number of jobs starts no worker, and then nothing is ever
  collected: with a job to run the main thread waits for ever.\<close>

theorem negative_limit_never_finishes:
  assumes "opt_process_limit opts < 0" "0 \<le> machine" "js \<noteq> []"
    "reachable exec (workers_started machine opts) js s"
  shows "\<not> finished s \<and> collected s = []"
proof -
  have "workers_started machine opts = 0"
    using assms(1,2) by (simp add: workers_started_def processors_def)
  then show ?thesis using no_workers [of exec js s] assms(3,4) by (simp add: finished_def)
qed

theorem negative_limit_never_finishes_witness:
  "\<not> finished (start_pool 0 demo_jobs)"
proof -
  let ?o = "demo_opts []\<lparr>opt_process_limit := -1\<rparr>"
  have w: "workers_started 4 ?o = 0" by code_simp
  have "reachable (\<lambda>j. j) (workers_started 4 ?o) demo_jobs (start_pool 0 demo_jobs)"
    unfolding w by (rule reachable.start)
  then show ?thesis
    using negative_limit_never_finishes [of ?o 4 demo_jobs "\<lambda>j. j" "start_pool 0 demo_jobs"]
    by (simp add: demo_opts_def demo_jobs_def)
qed

end
