(* ===== verification/TestCollect.thy ===== *)
theory TestCollect
  imports TestQueue "HOL-Library.Char_ord" "HOL-Library.List_Lexorder"
begin

text \<open>
  The collection of the results in \<open>run_tests\<close> of \<open>test.py\<close>: the status of a
  job, the counters, the progress lines, the results file, the summary and the
  exit status.  \<open>tmp\<close> gives the contents of the results file of a test suite if
  the suite wrote one, \<open>fmt\<close> the text of a time to three decimals.
\<close>

section \<open>Colors\<close>

abbreviation esc :: char where "esc \<equiv> CHR 0x1B"

definition colors_lst :: "(string, string) dict" where
  "colors_lst =
     [(''BOLD'', esc # ''[01;1m''), (''RED'', esc # ''[01;31m''), (''GREEN'', esc # ''[32m''),
      (''YELLOW'', esc # ''[33m''), (''PINK'', esc # ''[35m''), (''BLUE'', esc # ''[01;34m''),
      (''CYAN'', esc # ''[36m''), (''GREY'', esc # ''[37m''), (''NORMAL'', esc # ''[0m''),
      (''cursor_on'', esc # ''[?25h''), (''cursor_off'', esc # ''[?25l'')]"

definition get_color :: "bool \<Rightarrow> string \<Rightarrow> string" where
  "get_color use cl = (if use then dget_default colors_lst cl [] else [])"

section \<open>Collecting one result\<close>

record tally =
  passed_tests :: nat
  failed_testnames :: "string list"
  failed_tests :: nat
  skipped_tests :: nat
  skipped_testnames :: "string list"
  crashed_tests :: nat
  crashed_testnames :: "string list"
  valgrind_errors :: nat
  valgrind_testnames :: "string list"
  progress :: "string list"
  results_file :: string

datatype status = PASS | FAIL | CRASH | SKIP | VALGR

fun status_text :: "status \<Rightarrow> string" where
  "status_text PASS = ''PASS''"
| "status_text FAIL = ''FAIL''"
| "status_text CRASH = ''CRASH''"
| "status_text SKIP = ''SKIP''"
| "status_text VALGR = ''VALGR''"

fun status_color :: "status \<Rightarrow> string" where
  "status_color PASS = ''GREEN''"
| "status_color FAIL = ''RED''"
| "status_color CRASH = ''PINK''"
| "status_color SKIP = ''GREY''"
| "status_color VALGR = ''CYAN''"

definition job_status :: "job \<Rightarrow> status" where
  "job_status j =
     (if is_skip j then SKIP
      else if returncode j = 0 then PASS
      else if returncode j = 1 then FAIL
      else if returncode j = 2 then VALGR
      else CRASH)"

definition count_result :: "job \<Rightarrow> tally \<Rightarrow> tally" where
  "count_result j t =
     (case job_status j of
        SKIP \<Rightarrow> t\<lparr>skipped_tests := skipped_tests t + 1,
                  skipped_testnames := skipped_testnames t @ [display_name j @ '' ('' @ skip_reason j @ '')'']\<rparr>
      | PASS \<Rightarrow> t\<lparr>passed_tests := passed_tests t + 1\<rparr>
      | FAIL \<Rightarrow> t\<lparr>failed_tests := failed_tests t + 1, failed_testnames := failed_testnames t @ [display_name j]\<rparr>
      | VALGR \<Rightarrow> t\<lparr>valgrind_errors := valgrind_errors t + 1, valgrind_testnames := valgrind_testnames t @ [display_name j]\<rparr>
      | CRASH \<Rightarrow> t\<lparr>crashed_tests := crashed_tests t + 1, crashed_testnames := crashed_testnames t @ [display_name j]\<rparr>)"

definition progress_count :: "tally \<Rightarrow> nat" where
  "progress_count t = passed_tests t + failed_tests t + skipped_tests t + crashed_tests t"

definition progress_line :: "(int \<Rightarrow> string) \<Rightarrow> bool \<Rightarrow> options \<Rightarrow> nat \<Rightarrow> job \<Rightarrow> tally \<Rightarrow> string" where
  "progress_line fmt use opts total_tests j t =
     (let kind = (if is_example j \<or> is_pyexample j then ''Example'' else ''TestSuite'');
          st = get_color use (status_color (job_status j)) @ status_text (job_status j) @ get_color use ''NORMAL''
      in ''['' @ str_nat (progress_count t) @ ''/'' @ str_nat total_tests @ ''] '' @ st @
         (if opt_duration opts \<or> opt_constrain opts = ''performance'' then '' ('' @ fmt (elapsed_time j) @ '')'' else []) @
         '': '' @ kind @ '' '' @ display_name j)"

definition line :: "string \<Rightarrow> string" where
  "line s = s @ [newline]"

definition example_entry :: "(int \<Rightarrow> string) \<Rightarrow> job \<Rightarrow> string" where
  "example_entry fmt j =
     line ''<Example>'' @ line (''  <Name>'' @ display_name j @ ''</Name>'') @
     line (''  <Result>'' @ status_text (job_status j) @ ''</Result>'') @
     line (''  <Time real='' @ [CHR 0x22] @ fmt (elapsed_time j) @ [CHR 0x22] @ ''/>'') @ line ''</Example>''"

definition suite_entry :: "(string \<Rightarrow> string option) \<Rightarrow> job \<Rightarrow> string py_result" where
  "suite_entry tmp j =
     (if is_skip j
      then Inr (line ''<Test>'' @ line (''  <Name>'' @ display_name j @ ''</Name>'') @
                line ''  <Result>SKIP</Result>'' @ line (''  <Reason>'' @ skip_reason j @ ''</Reason>'') @ line ''</Test>'')
      else if returncode j = 0 \<or> returncode j = 1 \<or> returncode j = 2
      then (case tmp (tmp_file_name j) of None \<Rightarrow> Inl OSError | Some s \<Rightarrow> Inr s)
      else Inr (line ''<Test>'' @ line (''  <Name>'' @ display_name j @ ''</Name>'') @
                line ''  <Result>CRASH</Result>'' @ line ''</Test>''))"

definition collect_job ::
  "(string \<Rightarrow> string option) \<Rightarrow> (int \<Rightarrow> string) \<Rightarrow> bool \<Rightarrow> options \<Rightarrow> nat \<Rightarrow> tally \<Rightarrow> job \<Rightarrow> tally py_result" where
  "collect_job tmp fmt use opts total_tests t j =
     (if is_break j then Inr t
      else (let t = count_result j t;
                t = t\<lparr>progress := progress t @ [progress_line fmt use opts total_tests j t]\<rparr>
            in rbind (if is_example j \<or> is_pyexample j then Inr (example_entry fmt j) else suite_entry tmp j) (\<lambda>e.
               Inr (t\<lparr>results_file := results_file t @ e\<rparr>))))"

section \<open>The whole collection\<close>

definition start_tally :: tally where
  "start_tally = \<lparr>passed_tests = 0, failed_testnames = [], failed_tests = 0, skipped_tests = 0,
     skipped_testnames = [], crashed_tests = 0, crashed_testnames = [], valgrind_errors = 0,
     valgrind_testnames = [], progress = [],
     results_file = line (''<?xml version='' @ [CHR 0x22] @ ''1.0'' @ [CHR 0x22] @ ''?>'') @ line ''<Results>''\<rparr>"

definition collect_results ::
  "(string \<Rightarrow> string option) \<Rightarrow> (int \<Rightarrow> string) \<Rightarrow> bool \<Rightarrow> options \<Rightarrow> nat \<Rightarrow> job list \<Rightarrow> tally py_result" where
  "collect_results tmp fmt use opts total_tests rs =
     rbind (foldM (collect_job tmp fmt use opts total_tests) start_tally rs) (\<lambda>t.
     Inr (t\<lparr>results_file := results_file t @ line ''</Results>''\<rparr>))"

definition summary_line :: "nat \<Rightarrow> tally \<Rightarrow> string" where
  "summary_line total_tests t =
     str_nat (passed_tests t) @ '' of '' @ str_nat total_tests @ '' tests passed ('' @ str_nat (passed_tests t) @
     '' passed, '' @ str_nat (skipped_tests t) @ '' skipped, '' @ str_nat (failed_tests t) @ '' failed, '' @
     str_nat (crashed_tests t) @ '' crashed, '' @ str_nat (valgrind_errors t) @ '' valgrind errors)''"

definition name_list :: "string \<Rightarrow> string list \<Rightarrow> string list" where
  "name_list title names =
     (if names = [] then [] else [title @ newline # ''    '' @ join (newline # ''    '') (sort names)])"

definition summary :: "nat \<Rightarrow> tally \<Rightarrow> string list" where
  "summary total_tests t =
     [summary_line total_tests t] @
     name_list ''List of SKIPped tests:'' (skipped_testnames t) @
     name_list ''List of FAILed tests:'' (failed_testnames t) @
     name_list ''List of CRASHed tests:'' (crashed_testnames t) @
     name_list ''List of VALGR failures:'' (valgrind_testnames t)"

definition exit_code :: "nat \<Rightarrow> tally \<Rightarrow> int" where
  "exit_code total_tests t = (if passed_tests t + skipped_tests t = total_tests then 0 else 1)"

section \<open>Laws\<close>

definition count_status :: "status \<Rightarrow> job list \<Rightarrow> nat" where
  "count_status st rs = length (List.filter (\<lambda>j. \<not> is_break j \<and> job_status j = st) rs)"

lemma count_result_fields:
  "passed_tests (count_result j t) = passed_tests t + (if job_status j = PASS then 1 else 0)"
  "failed_tests (count_result j t) = failed_tests t + (if job_status j = FAIL then 1 else 0)"
  "skipped_tests (count_result j t) = skipped_tests t + (if job_status j = SKIP then 1 else 0)"
  "crashed_tests (count_result j t) = crashed_tests t + (if job_status j = CRASH then 1 else 0)"
  "valgrind_errors (count_result j t) = valgrind_errors t + (if job_status j = VALGR then 1 else 0)"
  "length (skipped_testnames (count_result j t)) = length (skipped_testnames t) + (if job_status j = SKIP then 1 else 0)"
  "length (failed_testnames (count_result j t)) = length (failed_testnames t) + (if job_status j = FAIL then 1 else 0)"
  "length (progress (count_result j t)) = length (progress t)"
  by (simp_all add: count_result_def split: status.splits)

lemma collect_counts:
  assumes "foldM (collect_job tmp fmt use opts total_tests) t rs = Inr t'"
  shows "passed_tests t' = passed_tests t + count_status PASS rs \<and>
    failed_tests t' = failed_tests t + count_status FAIL rs \<and>
    skipped_tests t' = skipped_tests t + count_status SKIP rs \<and>
    crashed_tests t' = crashed_tests t + count_status CRASH rs \<and>
    valgrind_errors t' = valgrind_errors t + count_status VALGR rs \<and>
    length (progress t') = length (progress t) + length (List.filter (\<lambda>j. \<not> is_break j) rs)"
  using assms
proof (induction rs arbitrary: t)
  case Nil
  then show ?case by (simp add: count_status_def)
next
  case (Cons r rs)
  then obtain u where u: "collect_job tmp fmt use opts total_tests t r = Inr u"
    "foldM (collect_job tmp fmt use opts total_tests) u rs = Inr t'"
    by (auto simp: py_simps)
  show ?case
  proof (cases "is_break r")
    case True
    then show ?thesis using u Cons.IH [OF u(2)] by (simp add: collect_job_def count_status_def)
  next
    case False
    then have f: "passed_tests u = passed_tests (count_result r t)" "failed_tests u = failed_tests (count_result r t)"
      "skipped_tests u = skipped_tests (count_result r t)" "crashed_tests u = crashed_tests (count_result r t)"
      "valgrind_errors u = valgrind_errors (count_result r t)" "length (progress u) = Suc (length (progress t))"
      using u(1) by (auto simp: collect_job_def Let_def py_simps count_result_fields)
    show ?thesis
      using Cons.IH [OF u(2)] False unfolding f count_result_fields by (cases "job_status r") (simp_all add: count_status_def)
  qed
qed

lemma count_statuses:
  "count_status PASS rs + count_status FAIL rs + count_status SKIP rs + count_status CRASH rs + count_status VALGR rs =
     length (List.filter (\<lambda>j. \<not> is_break j) rs)"
proof (induction rs)
  case Nil
  then show ?case by (simp add: count_status_def)
next
  case (Cons r rs)
  then show ?case by (cases "job_status r") (auto simp: count_status_def)
qed

lemma count_status_mset: "mset rs = mset rs' \<Longrightarrow> count_status st rs = count_status st rs'"
  unfolding count_status_def by (metis mset_filter size_mset)

lemma length_filter_all: "length (List.filter P xs) = length xs \<longleftrightarrow> list_all P xs"
proof (induction xs)
  case Nil
  then show ?case by simp
next
  case (Cons x xs)
  moreover have "length (List.filter P xs) \<noteq> Suc (length xs)"
    using length_filter_le [of P xs] by linarith
  ultimately show ?case by simp
qed

lemma good_all:
  "count_status PASS rs + count_status SKIP rs = length rs \<longleftrightarrow>
     list_all (\<lambda>j. \<not> is_break j \<and> (is_skip j \<or> returncode j = 0)) rs"
proof -
  have st: "job_status j = PASS \<or> job_status j = SKIP \<longleftrightarrow> is_skip j \<or> returncode j = 0" for j
    by (simp add: job_status_def)
  have "count_status PASS rs + count_status SKIP rs =
      length (List.filter (\<lambda>j. \<not> is_break j \<and> (job_status j = PASS \<or> job_status j = SKIP)) rs)"
    by (induction rs) (auto simp: count_status_def)
  then have "count_status PASS rs + count_status SKIP rs =
      length (List.filter (\<lambda>j. \<not> is_break j \<and> (is_skip j \<or> returncode j = 0)) rs)"
    by (simp add: st)
  then show ?thesis by (simp add: length_filter_all)
qed

lemma collect_ok:
  assumes "list_all (\<lambda>j. is_break j \<or> is_example j \<or> is_pyexample j \<or> is_ok (suite_entry tmp j)) rs"
  shows "is_ok (foldM (collect_job tmp fmt use opts total_tests) t rs)"
  using assms
proof (induction rs arbitrary: t)
  case Nil
  then show ?case by simp
next
  case (Cons r rs)
  have "is_ok (collect_job tmp fmt use opts total_tests t r)"
    using Cons.prems by (auto simp: collect_job_def Let_def py_simps)
  then obtain u where "collect_job tmp fmt use opts total_tests t r = Inr u" by (auto simp: is_ok_iff)
  then show ?case using Cons by simp
qed

section \<open>Properties\<close>

text \<open>The counters of the summary add up: each is the number of collected results with its
  status, interrupted jobs count nowhere, and one line of progress is printed
  for every other result.  The number in that line leaves out the valgrind
  errors, so the last one falls short of the total by their number.\<close>

theorem summary_counts:
  assumes "collect_results tmp fmt use opts n rs = Inr t"
  shows "passed_tests t + failed_tests t + skipped_tests t + crashed_tests t + valgrind_errors t =
      length (List.filter (\<lambda>j. \<not> is_break j) rs) \<and>
    passed_tests t = count_status PASS rs \<and> failed_tests t = count_status FAIL rs \<and>
    skipped_tests t = count_status SKIP rs \<and> crashed_tests t = count_status CRASH rs \<and>
    valgrind_errors t = count_status VALGR rs \<and>
    length (progress t) = length (List.filter (\<lambda>j. \<not> is_break j) rs) \<and>
    progress_count t + valgrind_errors t = length (progress t)"
proof -
  obtain u where u: "foldM (collect_job tmp fmt use opts n) start_tally rs = Inr u"
    and t: "t = u\<lparr>results_file := results_file u @ line ''</Results>''\<rparr>"
    using assms by (auto simp: collect_results_def py_simps)
  then show ?thesis
    using collect_counts [OF u] count_statuses [of rs] by (simp add: start_tally_def progress_count_def)
qed

definition demo_results_of :: "job list" where
  "demo_results_of = [program_job (demo_opts []) ''/b'' ''out'' ''p'' ''p'',
     program_job (demo_opts []) ''/b'' ''out'' ''q'' ''q''\<lparr>returncode := 2\<rparr>, sentinel]"

definition demo_tally :: tally where
  "demo_tally = (case collect_results (\<lambda>f. None) (\<lambda>i. ''0.000'') False (demo_opts []) 3 demo_results_of of
     Inr t \<Rightarrow> t | Inl e \<Rightarrow> start_tally)"

theorem summary_counts_witness: "progress_count demo_tally = 1 \<and> length (progress demo_tally) = 2"
proof -
  have "collect_results (\<lambda>f. None) (\<lambda>i. ''0.000'') False (demo_opts []) 3 demo_results_of = Inr demo_tally"
    by code_simp
  moreover have "length (List.filter (\<lambda>j. \<not> is_break j) demo_results_of) = 2" "count_status VALGR demo_results_of = 1"
    by code_simp+
  ultimately show ?thesis using summary_counts by fastforce
qed

text \<open>The exit status of a run that was not interrupted does not depend on how the workers
  were scheduled: it is 0 exactly when every dispatched job is skipped or its
  command returned 0, provided each test suite that returns 0, 1 or 2 has
  written its results; and when an interrupted job comes back it is 1.\<close>

theorem exit_status_of_run:
  assumes "list_all (\<lambda>j. \<not> is_break j) js" "reachable (run_job cfg opts popen clock) n js s" "finished s"
    "list_all (\<lambda>j. is_example j \<or> is_pyexample j \<or> is_ok (suite_entry tmp j)) (collected s)"
  shows "\<exists>t. collect_results tmp fmt use opts (length js) (collected s) = Inr t \<and>
    (\<not> interrupted s \<longrightarrow> (exit_code (length js) t = 0 \<longleftrightarrow>
       list_all (\<lambda>j. is_skip j \<or> returncode (run_job cfg opts popen clock j) = 0) js)) \<and>
    (list_ex is_break (collected s) \<longrightarrow> exit_code (length js) t = 1)"
proof -
  let ?run = "run_job cfg opts popen clock"
  obtain b where inv: "pool_inv ?run n js b s"
    using worker_run.reachable_inv assms(1,2) by blast
  note fin = worker_run.finished_collected [OF inv assms(3)]
  have len: "length (collected s) = length js"
    using fin by (metis length_map mset_eq_length)
  have "is_ok (foldM (collect_job tmp fmt use opts (length js)) start_tally (collected s))"
    by (rule collect_ok) (use assms(4) in \<open>auto simp: list_all_iff\<close>)
  then obtain u where u: "foldM (collect_job tmp fmt use opts (length js)) start_tally (collected s) = Inr u"
    by (auto simp: is_ok_iff)
  define t where "t = u\<lparr>results_file := results_file u @ line ''</Results>''\<rparr>"
  have code: "exit_code (length js) t = 0 \<longleftrightarrow>
      list_all (\<lambda>j. \<not> is_break j \<and> (is_skip j \<or> returncode j = 0)) (collected s)"
    using collect_counts [OF u] good_all [of "collected s"] len
    by (simp add: exit_code_def t_def start_tally_def)
  have skip: "is_skip (?run j) = is_skip j" for j
    by (simp add: run_job_def Let_def split: prod.splits)
  have one: "\<not> is_break (result_of ?run j) \<and> (is_skip (result_of ?run j) \<or> returncode (result_of ?run j) = 0) \<longleftrightarrow>
      is_skip j \<or> returncode (?run j) = 0" if "j \<in> set js" for j
    using that assms(1) worker_run.exec_break skip by (auto simp: result_of_def list_all_iff)
  have "exit_code (length js) t = 0 \<longleftrightarrow> list_all (\<lambda>j. is_skip j \<or> returncode (?run j) = 0) js" if ni: "\<not> interrupted s"
  proof -
    have "mset (collected s) = mset (List.map (result_of ?run) js)" using fin ni by blast
    then have "set (collected s) = set (List.map (result_of ?run) js)" by (rule mset_eq_setD)
    then have "exit_code (length js) t = 0 \<longleftrightarrow> (\<forall>j \<in> set js. \<not> is_break (result_of ?run j) \<and>
        (is_skip (result_of ?run j) \<or> returncode (result_of ?run j) = 0))"
      unfolding code list_all_iff by simp
    then show ?thesis by (simp add: one list_all_iff)
  qed
  moreover have "list_ex is_break (collected s) \<longrightarrow> exit_code (length js) t = 1"
    using code by (auto simp: list_ex_iff list_all_iff exit_code_def)
  moreover have "collect_results tmp fmt use opts (length js) (collected s) = Inr t"
    using u by (simp add: collect_results_def t_def)
  ultimately show ?thesis by blast
qed

theorem exit_status_of_run_witness:
  "\<exists>t. collect_results (\<lambda>f. None) (\<lambda>i. ''0.000'') False (demo_opts []) (length demo_jobs) (collected demo_end) = Inr t \<and>
    exit_code (length demo_jobs) t = 0"
proof -
  have r: "reachable (run_job demo_cfg (demo_opts []) demo_popen (\<lambda>c. 0)) 2 demo_jobs demo_end"
    by (rule worker_run.run_reachable [OF demo_pool_run [unfolded demo_pool_def] reachable.start])
  have h: "list_all (\<lambda>j. \<not> is_break j) demo_jobs" "finished demo_end" "\<not> interrupted demo_end"
    "list_all (\<lambda>j. is_example j \<or> is_pyexample j \<or> is_ok (suite_entry (\<lambda>f. None) j)) (collected demo_end)"
    "list_all (\<lambda>j. is_skip j \<or> returncode (run_job demo_cfg (demo_opts []) demo_popen (\<lambda>c. 0) j) = 0) demo_jobs"
    by code_simp+
  show ?thesis
    using exit_status_of_run [OF h(1) r h(2) h(4), of "\<lambda>i. ''0.000''" False] h(3,5) by blast
qed

text \<open>A test suite that crashes without results is entered as CRASH, unless its output is not
  valid text: then its return code is replaced by 1, it is taken for a failure,
  and the missing results file stops the collection with an exception.\<close>

theorem crash_with_undecodable_output:
  assumes "popen (job_cmd cfg (worker_command opts j) (opt_valgrind opts) False []) (job_cwd j) = (rc, out, Some err)"
    "rc \<notin> {0, 1, 2}" "\<not> is_skip j" "\<not> is_break j" "\<not> is_example j" "\<not> is_pyexample j" "tmp (tmp_file_name j) = None"
  shows "if out = None
    then collect_job tmp fmt use opts n t (run_job cfg opts popen clock j) = Inl OSError
    else job_status (run_job cfg opts popen clock j) = CRASH \<and>
         is_ok (collect_job tmp fmt use opts n t (run_job cfg opts popen clock j))"
  using assms
  by (auto simp: run_job_def run_job_synchronously_def Let_def collect_job_def suite_entry_def job_status_def)

theorem crash_with_undecodable_output_witness:
  "collect_job (\<lambda>f. None) (\<lambda>i. []) False (demo_opts []) 1 start_tally
     (run_job demo_cfg (demo_opts []) (\<lambda>c d. (139, None, Some [])) (\<lambda>c. 0) new_job) = Inl OSError"
  using crash_with_undecodable_output [of "\<lambda>c d. (139, None, Some [])" demo_cfg "demo_opts []" new_job 139 None "[]"
      "\<lambda>f. None" "\<lambda>i. []" False 1 start_tally "\<lambda>c. 0"] by simp

end
