(* ===== verification/XmlTree.thy ===== *)
theory XmlTree
  imports PyString
begin

text \<open>
  Documents as the parser of the standard library gives them: elements with their attributes, their
  text and their children, the searches for children by name, and the events of
  an incremental parse.  The report of the tests and that of the flows read them.
\<close>

section \<open>The XML tree\<close>

datatype xml = Elem string "(string, string) dict" "string option" "xml list"

fun tag :: "xml \<Rightarrow> string" where "tag (Elem t a x ks) = t"
fun attrs :: "xml \<Rightarrow> (string, string) dict" where "attrs (Elem t a x ks) = a"
fun xml_text :: "xml \<Rightarrow> string option" where "xml_text (Elem t a x ks) = x"
fun children :: "xml \<Rightarrow> xml list" where "children (Elem t a x ks) = ks"

definition findall :: "string \<Rightarrow> xml \<Rightarrow> xml list" where
  "findall t e = List.filter (\<lambda>k. tag k = t) (children e)"

definition find_elem :: "string \<Rightarrow> xml \<Rightarrow> xml option" where
  "find_elem t e = List.find (\<lambda>k. tag k = t) (children e)"

lemma findall_size [termination_simp]: "k \<in> set (findall t e) \<Longrightarrow> size k < size e"
proof (cases e)
  case (Elem t' a x ks)
  assume "k \<in> set (findall t e)"
  then have "k \<in> set ks" using Elem by (simp add: findall_def)
  then have "size k < Suc (size_list size ks)" by (induction ks) auto
  then show ?thesis using Elem by simp
qed

text \<open>The events of \<open>iterparse\<close>: the end of an element comes with the element.\<close>

datatype xml_event = StartEvent | EndEvent xml

fun xml_events :: "xml \<Rightarrow> xml_event list" where
  "xml_events (Elem t a x ks) = StartEvent # concat (List.map xml_events ks) @ [EndEvent (Elem t a x ks)]"

end
