(* ===== verification/TestReport.thy ===== *)
theory TestReport
  imports XmlTree
begin

text \<open>
  The reports of \<open>test.py\<close>: the results file as an XML tree, its translation to
  text and to HTML.  An HTML file is a list of pieces, tags and text, so that the
  nesting of its tags can be stated.  \<open>.text\<close> of an empty element is \<open>None\<close>,
  which \<open>%s\<close> prints as the word None, and a missing element raises
  \<open>AttributeError\<close>.
\<close>

section \<open>A test of the results file\<close>

definition text_at :: "string \<Rightarrow> xml \<Rightarrow> string option py_result" where
  "text_at t e = (case find_elem t e of None \<Rightarrow> Inl AttributeError | Some k \<Rightarrow> Inr (xml_text k))"

definition show_text :: "string option \<Rightarrow> string" where
  "show_text x = (case x of None \<Rightarrow> ''None'' | Some s \<Rightarrow> s)"

definition read_time :: "xml \<Rightarrow> string option" where
  "read_time test =
     (case find_elem ''Time'' test of None \<Rightarrow> Some [] | Some k \<Rightarrow> dget (attrs k) ''real'')"

record test_info =
  result :: "string option"
  test_name :: "string option"
  reason :: "string option"
  time_real :: "string option"

definition read_test :: "xml \<Rightarrow> test_info py_result" where
  "read_test test =
     rbind (text_at ''Result'' test) (\<lambda>r.
     rbind (text_at ''Name'' test) (\<lambda>n.
     Inr \<lparr>result = r, test_name = n,
          reason = (case find_elem ''Reason'' test of None \<Rightarrow> Some [] | Some k \<Rightarrow> xml_text k),
          time_real = read_time test\<rparr>))"

section \<open>The text report\<close>

abbreviation dquote :: string where "dquote \<equiv> [CHR 0x22]"

definition detail_line :: "string \<Rightarrow> string \<Rightarrow> xml \<Rightarrow> string py_result" where
  "detail_line label t details =
     rbind (text_at t details) (\<lambda>x. Inr (''      '' @ label @ show_text x @ [newline]))"

definition details_to_text :: "xml \<Rightarrow> string py_result" where
  "details_to_text details =
     rbind (detail_line ''Message:   '' ''Message'' details) (\<lambda>a.
     rbind (detail_line ''Condition: '' ''Condition'' details) (\<lambda>b.
     rbind (detail_line ''Actual:    '' ''Actual'' details) (\<lambda>c.
     rbind (detail_line ''Limit:     '' ''Limit'' details) (\<lambda>d.
     rbind (detail_line ''File:      '' ''File'' details) (\<lambda>e.
     rbind (detail_line ''Line:      '' ''Line'' details) (\<lambda>f.
     Inr (''    Details:'' @ [newline] @ a @ b @ c @ d @ e @ f)))))))"

definition test_line :: "test_info \<Rightarrow> string" where
  "test_line i =
     show_text (result i) @ '': Test Suite '' @ dquote @ show_text (test_name i) @ dquote @ '' ('' @
     show_text (time_real i) @ '')'' @
     (case reason i of None \<Rightarrow> ''None'' | Some r \<Rightarrow> (if r = [] then [] else '' ('' @ r @ '')'')) @ [newline]"

lemma map_res_cong [fundef_cong]:
  "xs = ys \<Longrightarrow> (\<And>x. x \<in> set ys \<Longrightarrow> f x = g x) \<Longrightarrow> map_res f xs = map_res g ys"
  by (induction xs arbitrary: ys) auto

text \<open>A test prints its line, its failure details, then its children.\<close>

function node_to_text :: "xml \<Rightarrow> string py_result" where
  "node_to_text test =
     (case read_test test of
        Inl e \<Rightarrow> Inl e
      | Inr i \<Rightarrow>
          (case map_res details_to_text (findall ''FailureDetails'' test) of
             Inl e \<Rightarrow> Inl e
           | Inr ds \<Rightarrow>
               (case map_res node_to_text (findall ''Test'' test) of
                  Inl e \<Rightarrow> Inl e
                | Inr ks \<Rightarrow> Inr (test_line i @ concat ds @ concat ks))))"
  by pat_completeness auto
termination
  by (relation "measure size") (auto simp: findall_size)

declare node_to_text.simps [simp del]

definition example_to_text :: "xml \<Rightarrow> string py_result" where
  "example_to_text example =
     rbind (text_at ''Result'' example) (\<lambda>r.
     rbind (text_at ''Name'' example) (\<lambda>n.
     Inr (show_text r @ '': Example '' @ dquote @ show_text n @ dquote @ '' ('' @
          show_text (read_time example) @ '')'' @ [newline])))"

definition translate_to_text :: "xml \<Rightarrow> string py_result" where
  "translate_to_text results =
     rbind (map_res node_to_text (findall ''Test'' results)) (\<lambda>ts.
     rbind (map_res example_to_text (findall ''Example'' results)) (\<lambda>es.
     Inr (concat ts @ concat es)))"

section \<open>The HTML report\<close>

datatype piece = Open string string | Close string | Txt string

fun render :: "piece \<Rightarrow> string" where
  "render (Open t a) = ''<'' @ t @ a @ ''>''"
| "render (Close t) = ''</'' @ t @ ''>''"
| "render (Txt s) = s"

abbreviation nl :: piece where "nl \<equiv> Txt [newline]"

definition style :: "string \<Rightarrow> string" where
  "style color = '' style='' @ dquote @ ''color:'' @ color @ dquote"

definition elem_line :: "string \<Rightarrow> string \<Rightarrow> string \<Rightarrow> piece list" where
  "elem_line t a s = [Open t a, Txt s, Close t, nl]"

abbreviation td :: "string \<Rightarrow> piece list" where "td s \<equiv> elem_line ''td'' [] s"

definition suite_header :: "test_info \<Rightarrow> piece list" where
  "suite_header i =
     (let base = show_text (result i) @ '': '' @ show_text (test_name i) @ '' ('' @ show_text (time_real i) @ '')''
      in if result i = Some ''PASS'' then elem_line ''h3'' (style ''green'') base
         else if result i = Some ''SKIP''
         then elem_line ''h3'' (style ''#ff6600'') (base @ '' ('' @ show_text (reason i) @ '')'')
         else elem_line ''h3'' (style ''red'') base)"

definition bold_field :: "string \<Rightarrow> xml \<Rightarrow> string \<Rightarrow> piece list py_result" where
  "bold_field t details sep =
     rbind (text_at t details) (\<lambda>x.
     Inr [Open ''b'' [], Txt (t @ '': ''), Close ''b'', Txt (show_text x @ sep)])"

text \<open>The row of a failure detail ends with \<open></td>\<close>, not with \<open></tr>\<close>.\<close>

definition detail_row :: "test_info \<Rightarrow> bool \<Rightarrow> xml \<Rightarrow> piece list py_result" where
  "detail_row i first_row details =
     rbind (bold_field ''Message'' details '', '') (\<lambda>a.
     rbind (bold_field ''Condition'' details '', '') (\<lambda>b.
     rbind (bold_field ''Actual'' details '', '') (\<lambda>c.
     rbind (bold_field ''Limit'' details '', '') (\<lambda>d.
     rbind (bold_field ''File'' details '', '') (\<lambda>e.
     rbind (bold_field ''Line'' details []) (\<lambda>f.
     Inr ([Open ''tr'' [], nl] @
          (if first_row
           then elem_line ''td'' (style ''red'') (show_text (result i)) @
                td (show_text (test_name i)) @ td (show_text (time_real i))
           else td [] @ td [] @ td []) @
          [Open ''td'' []] @ a @ b @ c @ d @ e @ f @ [Close ''td'', nl] @
          [Close ''td'', nl])))))))"

definition pass_row :: "test_info \<Rightarrow> piece list" where
  "pass_row i =
     [Open ''tr'' [], nl] @ elem_line ''td'' (style ''green'') (show_text (result i)) @
     td (show_text (test_name i)) @ td (show_text (time_real i)) @ td (show_text (reason i)) @
     [Close ''tr'', nl]"

fun detail_rows :: "test_info \<Rightarrow> bool \<Rightarrow> xml list \<Rightarrow> piece list py_result" where
  "detail_rows i first_row [] = Inr []"
| "detail_rows i first_row (d # ds) =
     rbind (detail_row i first_row d) (\<lambda>a. rbind (detail_rows i False ds) (\<lambda>b. Inr (a @ b)))"

definition case_rows :: "xml \<Rightarrow> piece list py_result" where
  "case_rows tcase =
     rbind (read_test tcase) (\<lambda>i.
       if result i = Some ''FAIL'' then detail_rows i True (findall ''FailureDetails'' tcase)
       else Inr (pass_row i))"

definition no_cases_row :: "test_info \<Rightarrow> piece list" where
  "no_cases_row i =
     [Open ''tr'' [], nl] @
     elem_line ''td'' (if result i = Some ''SKIP'' then style ''#ff6600'' else style ''red'') (show_text (result i)) @
     [Close ''tr'', nl]"

definition open_table :: "piece list" where
  "open_table = [Open ''table'' ('' border='' @ dquote @ ''1'' @ dquote), nl]"

definition close_table :: "piece list" where
  "close_table = [Close ''table'', nl]"

definition suite_to_html :: "xml \<Rightarrow> piece list py_result" where
  "suite_to_html suite =
     rbind (read_test suite) (\<lambda>i.
       let head = suite_header i @ open_table @ elem_line ''th'' [] '' Result ''
       in if result i \<in> {Some ''CRASH'', Some ''SKIP'', Some ''VALGR''}
          then Inr (head @ no_cases_row i @ close_table)
          else rbind (map_res case_rows (findall ''Test'' suite)) (\<lambda>rows.
               Inr (head @ elem_line ''th'' [] ''Test Case Name'' @ elem_line ''th'' [] '' Time '' @
                    (if result i = Some ''FAIL'' then elem_line ''th'' [] ''Failure Details'' else []) @
                    concat rows @ close_table)))"

text \<open>The cell of a skipped example is closed by \<open></fd>\<close>.\<close>

definition example_to_html :: "xml \<Rightarrow> piece list py_result" where
  "example_to_html example =
     rbind (read_test example) (\<lambda>i.
     Inr ([Open ''tr'' [], nl] @
          (if result i = Some ''PASS'' then elem_line ''td'' (style ''green'') (show_text (result i))
           else if result i = Some ''SKIP''
           then [Open ''td'' (style ''#ff6600''), Txt (show_text (result i)), Close ''fd'', nl]
           else elem_line ''td'' (style ''red'') (show_text (result i))) @
          td (show_text (test_name i)) @ td (show_text (time_real i)) @ td (show_text (reason i)) @
          [Close ''tr'', nl]))"

definition translate_to_html :: "xml \<Rightarrow> piece list py_result" where
  "translate_to_html results =
     rbind (map_res suite_to_html (findall ''Test'' results)) (\<lambda>suites.
     rbind (map_res example_to_html (findall ''Example'' results)) (\<lambda>examples.
     Inr ([Open ''html'' [], nl, Open ''body'' [], nl] @
          [Open ''center'' [], Open ''h1'' [], Txt ''ns-3 Test Results'', Close ''h1'', Close ''center'', nl] @
          elem_line ''h2'' [] ''Test Suites'' @ concat suites @
          elem_line ''h2'' [] ''Examples'' @ open_table @
          elem_line ''th'' [] '' Result '' @ elem_line ''th'' [] ''Example Name'' @
          elem_line ''th'' [] ''Elapsed Time'' @ elem_line ''th'' [] ''Details'' @
          concat examples @ close_table @
          [Close ''body'', nl, Close ''html'', nl])))"

definition html_file :: "xml \<Rightarrow> string py_result" where
  "html_file results = rbind (translate_to_html results) (\<lambda>ps. Inr (concat (List.map render ps)))"

section \<open>Nesting of tags\<close>

fun run_tags :: "string list \<Rightarrow> piece list \<Rightarrow> string list option" where
  "run_tags st [] = Some st"
| "run_tags st (Open t a # ps) = run_tags (t # st) ps"
| "run_tags st (Close t # ps) =
     (case st of [] \<Rightarrow> None | u # st' \<Rightarrow> (if u = t then run_tags st' ps else None))"
| "run_tags st (Txt s # ps) = run_tags st ps"

definition well_nested :: "piece list \<Rightarrow> bool" where
  "well_nested ps \<longleftrightarrow> run_tags [] ps = Some []"

definition neutral :: "piece list \<Rightarrow> bool" where
  "neutral ps \<longleftrightarrow> (\<forall>st. run_tags st ps = Some st)"

named_theorems tag_steps

lemma neutralI: "(\<And>st. run_tags st ps = Some st) \<Longrightarrow> neutral ps"
  by (simp add: neutral_def)

lemma run_tags_append:
  "run_tags st (ps @ qs) = (case run_tags st ps of None \<Rightarrow> None | Some st' \<Rightarrow> run_tags st' qs)"
  by (induction st ps rule: run_tags.induct) (auto split: list.split)

lemma run_tags_neutral [tag_steps]:
  "neutral ps \<Longrightarrow> run_tags st ps = Some st"
  "neutral ps \<Longrightarrow> run_tags st (ps @ qs) = run_tags st qs"
  by (simp_all add: neutral_def run_tags_append)

lemma neutral_elem_line [tag_steps]: "neutral (elem_line t a s)"
  by (simp add: neutral_def elem_line_def)

lemma run_tags_table [tag_steps]:
  "run_tags st (open_table @ qs) = run_tags (''table'' # st) qs"
  "run_tags (''table'' # st) (close_table @ qs) = run_tags st qs"
  "run_tags (''table'' # st) close_table = Some st"
  by (simp_all add: open_table_def close_table_def)

lemma neutral_concat: "(\<And>ps. ps \<in> set pss \<Longrightarrow> neutral ps) \<Longrightarrow> neutral (concat pss)"
  by (induction pss) (auto simp: neutral_def run_tags_append)

lemma neutral_header [tag_steps]: "neutral (suite_header i)"
  by (simp add: suite_header_def Let_def neutral_elem_line)

lemma neutral_row [tag_steps]: "neutral (pass_row i)" "neutral (no_cases_row i)"
  by (rule neutralI, simp add: pass_row_def tag_steps)
    (rule neutralI, simp add: no_cases_row_def tag_steps)

text \<open>The documents whose report is well nested: no failed case with details, no skipped example.\<close>

definition result_is :: "string \<Rightarrow> xml \<Rightarrow> bool" where
  "result_is r e \<longleftrightarrow> text_at ''Result'' e = Inr (Some r)"

definition case_clean :: "xml \<Rightarrow> bool" where
  "case_clean c \<longleftrightarrow> \<not> (result_is ''FAIL'' c \<and> findall ''FailureDetails'' c \<noteq> [])"

definition report_clean :: "xml \<Rightarrow> bool" where
  "report_clean results \<longleftrightarrow>
     list_all (\<lambda>s. list_all case_clean (findall ''Test'' s)) (findall ''Test'' results) \<and>
     list_all (\<lambda>e. \<not> result_is ''SKIP'' e) (findall ''Example'' results)"

lemma map_res_members:
  "map_res f xs = Inr ys \<Longrightarrow> y \<in> set ys \<Longrightarrow> \<exists>x \<in> set xs. f x = Inr y"
  by (induction xs arbitrary: ys) (auto simp: py_simps)

lemma read_test_result: "read_test t = Inr i \<Longrightarrow> text_at ''Result'' t = Inr (result i)"
  by (auto simp: read_test_def py_simps)

lemma case_rows_neutral:
  assumes "case_clean c" "case_rows c = Inr ps"
  shows "neutral ps"
proof -
  obtain i where i: "read_test c = Inr i" using assms(2) by (auto simp: case_rows_def py_simps)
  show ?thesis
  proof (cases "result i = Some ''FAIL''")
    case True
    then have "findall ''FailureDetails'' c = []"
      using assms(1) read_test_result [OF i] by (simp add: case_clean_def result_is_def)
    then show ?thesis using assms(2) i True by (simp add: case_rows_def neutral_def)
  next
    case False
    then show ?thesis using assms(2) i by (auto simp: case_rows_def neutral_row)
  qed
qed

lemma suite_neutral:
  assumes "list_all case_clean (findall ''Test'' s)" "suite_to_html s = Inr ps"
  shows "neutral ps"
proof -
  obtain i where i: "read_test s = Inr i" using assms(2) by (auto simp: suite_to_html_def py_simps)
  show ?thesis
  proof (cases "result i \<in> {Some ''CRASH'', Some ''SKIP'', Some ''VALGR''}")
    case True
    then have "ps = suite_header i @ open_table @ elem_line ''th'' [] '' Result '' @ no_cases_row i @ close_table"
      using assms(2) i by (auto simp: suite_to_html_def Let_def)
    then show ?thesis by (intro neutralI) (simp add: tag_steps)
  next
    case False
    then obtain rows where rows: "map_res case_rows (findall ''Test'' s) = Inr rows"
      and ps: "ps = suite_header i @ open_table @ elem_line ''th'' [] '' Result '' @
         elem_line ''th'' [] ''Test Case Name'' @ elem_line ''th'' [] '' Time '' @
         (if result i = Some ''FAIL'' then elem_line ''th'' [] ''Failure Details'' else []) @ concat rows @ close_table"
      using assms(2) i by (auto simp: suite_to_html_def Let_def py_simps)
    have "neutral r" if "r \<in> set rows" for r
      using map_res_members [OF rows that] assms(1) case_rows_neutral by (auto simp: list_all_iff)
    then have "neutral (concat rows)" by (rule neutral_concat)
    then show ?thesis by (intro neutralI) (simp add: ps tag_steps)
  qed
qed

lemma example_neutral:
  assumes "\<not> result_is ''SKIP'' e" "example_to_html e = Inr ps"
  shows "neutral ps"
proof -
  obtain i where i: "read_test e = Inr i" using assms(2) by (auto simp: example_to_html_def py_simps)
  then have "result i \<noteq> Some ''SKIP''"
    using assms(1) read_test_result [OF i] by (auto simp: result_is_def)
  then obtain c where "ps = [Open ''tr'' [], nl] @ elem_line ''td'' (style c) (show_text (result i)) @
      td (show_text (test_name i)) @ td (show_text (time_real i)) @ td (show_text (reason i)) @ [Close ''tr'', nl]"
    using assms(2) i by (cases "result i = Some ''PASS''") (auto simp: example_to_html_def)
  then show ?thesis by (intro neutralI) (simp add: tag_steps)
qed

lemma html_well_nested:
  assumes "report_clean r" "translate_to_html r = Inr ps"
  shows "well_nested ps"
proof -
  obtain suites examples where s: "map_res suite_to_html (findall ''Test'' r) = Inr suites"
    and e: "map_res example_to_html (findall ''Example'' r) = Inr examples"
    using assms(2) by (auto simp: translate_to_html_def py_simps)
  have "neutral p" if "p \<in> set suites" for p
    using map_res_members [OF s that] suite_neutral assms(1) by (auto simp: report_clean_def list_all_iff)
  then have ns: "neutral (concat suites)" by (rule neutral_concat)
  have "neutral p" if "p \<in> set examples" for p
    using map_res_members [OF e that] example_neutral assms(1) by (auto simp: report_clean_def list_all_iff)
  then have ne: "neutral (concat examples)" by (rule neutral_concat)
  show ?thesis
    using assms(2) s e ns ne by (auto simp: translate_to_html_def well_nested_def tag_steps)
qed

section \<open>Properties\<close>


definition leaf :: "string \<Rightarrow> string \<Rightarrow> xml" where
  "leaf t s = Elem t [] (Some s) []"

definition demo_details :: xml where
  "demo_details = Elem ''FailureDetails'' [] None
     [leaf ''Message'' ''m'', leaf ''Condition'' ''c'', leaf ''Actual'' ''1'', leaf ''Limit'' ''2'',
      leaf ''File'' ''f'', leaf ''Line'' ''3'']"

definition demo_results :: "string \<Rightarrow> xml list \<Rightarrow> string \<Rightarrow> xml" where
  "demo_results res details example_res = Elem ''Results'' [] None
     [Elem ''Test'' [] None ([leaf ''Result'' res, leaf ''Name'' ''suite'',
        Elem ''Test'' [] None ([leaf ''Result'' res, leaf ''Name'' ''case''] @ details)]),
      Elem ''Example'' [] None [leaf ''Name'' ''e'', leaf ''Result'' example_res]]"

definition demo_html :: "xml \<Rightarrow> piece list" where
  "demo_html r = (case translate_to_html r of Inr ps \<Rightarrow> ps | Inl e \<Rightarrow> [])"


text \<open>A failed test case with details, and a skipped example, each give an HTML report
  whose tags are not properly nested.\<close>

theorem html_report_broken:
  "\<not> well_nested (demo_html (demo_results ''FAIL'' [demo_details] ''PASS'')) \<and>
   \<not> well_nested (demo_html (demo_results ''PASS'' [] ''SKIP''))"
  by code_simp

end
