(* ===== verification/TestDriver.thy ===== *)
theory TestDriver
  imports TestCollect TestReport
begin

text \<open>
  The whole run of \<open>test.py\<close>: the configuration that the build tool left, the build, the lists of what can
  be run, the answers to \<open>--kinds\<close> and \<open>--list\<close>, the dispatch, the collected results and the reports,
  up to the status of the process.  It composes the theories of its parts.  The file system,
  \<open>eval\<close> and \<open>exec\<close>, the processes and the order in which results come back are arguments.
\<close>

section \<open>How a run ends\<close>

text \<open>
  \<open>Stuck\<close> is an exception in the main thread while the worker threads wait for jobs: they are no
  daemons, so the process does not end.
\<close>

datatype finish = Return "int option" | Exit int | Raise py_error | Stuck py_error

definition process_status :: "finish \<Rightarrow> int option" where
  "process_status f =
     (case f of
        Return None \<Rightarrow> Some 0
      | Return (Some n) \<Rightarrow> Some (n mod 256)
      | Exit n \<Rightarrow> Some (n mod 256)
      | Raise e \<Rightarrow> Some 1
      | Stuck e \<Rightarrow> None)"

record report_options =
  opt_html :: string
  opt_text :: string
  opt_xml :: string
  opt_retain :: bool
  opt_nowaf :: bool
  opt_nocolor :: bool

record machine =
  m_platform :: string
  m_cwd :: string
  m_environ :: environ
  m_files :: file_lines
  m_exists :: "string \<Rightarrow> bool"
  m_eval_dir :: "string \<Rightarrow> string py_result"
  m_eval_list :: "string \<Rightarrow> string list py_result"
  m_eval_examples :: list_evals
  m_eval_bool :: "string \<Rightarrow> bool py_result"
  m_exec :: "string \<Rightarrow> config \<Rightarrow> config py_result"
  m_waf :: "string \<Rightarrow> int"
  m_popen :: "environ \<Rightarrow> string \<Rightarrow> string \<Rightarrow> process"
  m_outdir :: string
  m_results :: "string \<Rightarrow> string option"
  m_bytes :: "string \<Rightarrow> string"
  m_format :: "int \<Rightarrow> string"
  m_processors :: int
  m_parse :: "string \<Rightarrow> xml py_result"

section \<open>The configuration of the build\<close>

definition interesting_config_items :: "string list" where
  "interesting_config_items =
     [''NS3_ENABLED_MODULES'', ''NS3_ENABLED_CONTRIBUTED_MODULES'', ''NS3_MODULE_PATH'', ''NSC_ENABLED'', ''ENABLE_REAL_TIME'',
      ''ENABLE_THREADING'', ''ENABLE_EXAMPLES'', ''ENABLE_TESTS'', ''EXAMPLE_DIRECTORIES'', ''ENABLE_PYTHON_BINDINGS'', ''NSCLICK'',
      ''ENABLE_BRITE'', ''ENABLE_OPENFLOW'', ''APPNAME'', ''BUILD_PROFILE'', ''VERSION'', ''PYTHON'', ''VALGRIND_FOUND'']"

text \<open>A line of the lock file that names a directory; \<open>split\<close> has to give two parts.\<close>

definition lock_value :: "machine \<Rightarrow> string \<Rightarrow> string \<Rightarrow> string option \<Rightarrow> string option py_result" where
  "lock_value m start l old =
     (if startswith l start
      then (case str_split CHR ''='' l of
              [key, val] \<Rightarrow> rbind (m_eval_dir m (strip val)) (\<lambda>d. Inr (Some d))
            | _ \<Rightarrow> Inl ValueError)
      else Inr old)"

definition lock_dirs :: "machine \<Rightarrow> string list \<Rightarrow> (string option \<times> string option) py_result" where
  "lock_dirs m lines =
     foldM (\<lambda>(top, out) l.
       rbind (lock_value m ''top_dir ='' l top) (\<lambda>top.
       rbind (lock_value m ''out_dir ='' l out) (\<lambda>out. Inr (top, out)))) (None, None) lines"

text \<open>A line that starts with several of the names is executed for each of them.\<close>

definition exec_line :: "machine \<Rightarrow> config \<Rightarrow> string \<Rightarrow> config py_result" where
  "exec_line m cfg l =
     foldM (\<lambda>cfg item. if startswith l item then m_exec m l cfg else Inr cfg) cfg interesting_config_items"

text \<open>
  The values that hold before the cache is read.  The modules, their paths and the switch of the
  bindings have none in the code: the cache is taken to set them.
\<close>

definition default_config :: config where
  "default_config =
     \<lparr>cfg_appname = [], cfg_version = [], cfg_build_profile = [], cfg_basedir = [], cfg_builddir = [], cfg_module_path = [],
      cfg_modules = [], cfg_contrib = [], cfg_example_dirs = [], cfg_nsc = False, cfg_examples = True, cfg_tests = True,
      cfg_bindings = False, cfg_python = [], cfg_valgrind_found = True\<rparr>"

definition local_value :: "'a option \<Rightarrow> 'a py_result" where
  "local_value x = (case x of None \<Rightarrow> Inl UnboundLocalError | Some v \<Rightarrow> Inr v)"

definition raises :: "'a py_result \<Rightarrow> finish + 'a" where
  "raises r = (case r of Inl e \<Rightarrow> Inl (Raise e) | Inr x \<Rightarrow> Inr x)"

definition read_waf_config :: "machine \<Rightarrow> finish + config" where
  "read_waf_config m =
     (let lock = (case m_files m (''.lock-waf_'' @ m_platform m @ ''_build'') of
                    None \<Rightarrow> m_files m ''.lock-waf_linux2_build'' | Some ls \<Rightarrow> Some ls)
      in (case lock of
            None \<Rightarrow> Inl (Exit 2)
          | Some lines \<Rightarrow>
              raises (rbind (lock_dirs m lines) (\<lambda>(top, out).
                rbind (local_value top) (\<lambda>top. rbind (local_value out) (\<lambda>out.
                  (case m_files m (out @ ''/c4che/_cache.py'') of
                     None \<Rightarrow> Inl OSError
                   | Some cache \<Rightarrow> foldM (exec_line m) (default_config\<lparr>cfg_basedir := top, cfg_builddir := out\<rparr>) cache)))))))"

section \<open>The actions of a run\<close>

text \<open>
  What a run leaves behind: the lines it prints, the reports it writes, and whether its output
  directory exists.  The lines that only \<open>--verbose\<close> prints and the notes about the reports that
  are being written are left out.
\<close>

record effects =
  printed :: "string list"
  reports :: "(string \<times> string) list"
  has_outdir :: bool

type_synonym 'a test_run = "effects \<Rightarrow> effects \<times> (finish + 'a)"

definition run_bind :: "'a test_run \<Rightarrow> ('a \<Rightarrow> 'b test_run) \<Rightarrow> 'b test_run" where
  "run_bind f g s = (case f s of (t, Inl e) \<Rightarrow> (t, Inl e) | (t, Inr x) \<Rightarrow> g x t)"

definition run_of :: "(finish + 'a) \<Rightarrow> 'a test_run" where
  "run_of r s = (s, r)"

definition say :: "string list \<Rightarrow> unit test_run" where
  "say ls s = (s\<lparr>printed := printed s @ ls\<rparr>, Inr ())"

definition set_outdir :: "bool \<Rightarrow> unit test_run" where
  "set_outdir b s = (s\<lparr>has_outdir := b\<rparr>, Inr ())"

definition build_step :: "machine \<Rightarrow> options \<Rightarrow> report_options \<Rightarrow> unit test_run" where
  "build_step m opts ro =
     (if opt_nowaf ro \<or> m_waf m (waf_cmd opts) = 0 then run_of (Inr ())
      else run_of (Inl (Return (Some (m_waf m (waf_cmd opts))))))"

text \<open>What the build says it can run, and the examples that the modules list.\<close>

definition read_status :: "machine \<Rightarrow> config \<Rightarrow> (string list \<times> string list) test_run" where
  "read_status m cfg =
     (let status = path_join (cfg_builddir cfg) ''build-status.py'';
          names = get_list_from_file (m_eval_list m) (m_files m) status
      in run_of (if m_files m status = None then Inl (Exit 2)
                 else raises (rbind (names ''ns3_runnable_programs'') (\<lambda>programs.
                   rbind (names ''ns3_runnable_scripts'') (\<lambda>scripts. Inr (programs, scripts))))))"

text \<open>The outputs of the test runner: \<open>None\<close> is output that is no text.\<close>

definition runner_process :: "machine \<Rightarrow> config \<Rightarrow> environ \<Rightarrow> string \<Rightarrow> process" where
  "runner_process m cfg env cmd = run_job_synchronously cfg (m_popen m env) cmd (m_cwd m) False False []"

definition runner_output_of :: "machine \<Rightarrow> config \<Rightarrow> environ \<Rightarrow> string \<Rightarrow> string option" where
  "runner_output_of m cfg env cmd = fst (snd (runner_process m cfg env cmd))"

definition kinds_cmd :: "config \<Rightarrow> string" where
  "kinds_cmd cfg = path_join ''utils'' (test_runner_name cfg @ '' --print-test-type-list'')"

text \<open>Bytes are printed as Python writes them, which \<open>m_bytes\<close> stands for.\<close>

definition kinds_step :: "machine \<Rightarrow> options \<Rightarrow> config \<Rightarrow> environ \<Rightarrow> unit test_run" where
  "kinds_step m opts cfg env =
     (if opt_kinds opts
      then say [case runner_output_of m cfg env (kinds_cmd cfg) of None \<Rightarrow> m_bytes m (kinds_cmd cfg) | Some s \<Rightarrow> s]
      else run_of (Inr ()))"

definition list_cmd :: "config \<Rightarrow> options \<Rightarrow> string" where
  "list_cmd cfg opts =
     path_join ''utils'' (test_runner_name cfg @ '' --print-test-name-list --print-test-types'' @
       (if opt_constrain opts = [] then [] else '' --test-type='' @ opt_constrain opts))"

definition list_lines :: "string \<Rightarrow> example_lists \<Rightarrow> string list" where
  "list_lines out ls =
     [''Test Type    Test Name'', ''---------    ---------''] @
     List.filter (\<lambda>l. strip l \<noteq> []) (sort (str_split newline out)) @
     List.map (\<lambda>e. ''example      '' @ e) (sort (example_names_original ls)) @ [[]]"

text \<open>A failure of the test runner is printed, and the run returns nothing; output that is no text is a failure.\<close>

definition list_step :: "machine \<Rightarrow> options \<Rightarrow> config \<Rightarrow> environ \<Rightarrow> example_lists \<Rightarrow> unit test_run" where
  "list_step m opts cfg env ls =
     (if \<not> opt_list opts then run_of (Inr ())
      else (case runner_process m cfg env (list_cmd cfg opts) of
              (rc, out, err) \<Rightarrow>
                (if rc \<noteq> 0 \<or> out = None
                 then run_bind (say [''test.py error:  test-runner return code returned '' @ str_int rc,
                        ''To debug, try running '' @ [CHR 0x27] @ ''./waf --run '' @ [CHR 0x22] @
                           ''test-runner --print-test-name-list'' @ [CHR 0x22, CHR 0x27, newline]])
                        (\<lambda>u. run_of (Inl (Return None)))
                 else say (list_lines (the out) ls))))"

section \<open>The dispatch\<close>

text \<open>The list of the suites is asked for first, the performance tests afterwards.\<close>

definition first_asked :: "config \<Rightarrow> options \<Rightarrow> string list" where
  "first_asked cfg opts =
     (if opt_suite opts \<noteq> [] then [list_suites_cmd cfg []]
      else if opt_example opts = [] \<and> opt_pyexample opts = [] then [list_suites_cmd cfg (opt_constrain opts)]
      else [])"

definition runner_text :: "machine \<Rightarrow> config \<Rightarrow> environ \<Rightarrow> string \<Rightarrow> string" where
  "runner_text m cfg env cmd = (case runner_output_of m cfg env cmd of None \<Rightarrow> [] | Some s \<Rightarrow> s)"

definition find_suites :: "machine \<Rightarrow> options \<Rightarrow> config \<Rightarrow> environ \<Rightarrow> finish + string list" where
  "find_suites m opts cfg env =
     (let bytes = (\<lambda>cmd. runner_output_of m cfg env cmd = None); undecodable = Inl (Raise (PyException ''UnicodeDecodeError''))
      in if list_ex bytes (first_asked cfg opts) then undecodable
         else (case requested_suites cfg opts (runner_text m cfg env) of
                 Inl e \<Rightarrow> Inl (Exit 2)
               | Inr (single, suites) \<Rightarrow>
                   if \<not> single \<and> opt_constrain opts \<noteq> ''performance'' \<and> bytes (list_suites_cmd cfg ''performance'')
                   then undecodable
                   else raises (suite_list cfg opts (runner_text m cfg env))))"

text \<open>The workers run by the time the conditions of the examples are evaluated.\<close>

definition dispatch_step ::
  "machine \<Rightarrow> options \<Rightarrow> config \<Rightarrow> environ \<Rightarrow> string list \<Rightarrow> string list \<Rightarrow> example_lists \<Rightarrow> finish + job list" where
  "dispatch_step m opts cfg env programs scripts ls =
     (case find_suites m opts cfg env of
        Inl f \<Rightarrow> Inl f
      | Inr suites \<Rightarrow>
          (case dispatch cfg opts (m_cwd m) (m_outdir m) (runner_text m cfg env) (m_eval_bool m) programs scripts ls of
             Inl e \<Rightarrow> Inl (if 0 < workers_started (m_processors m) opts then Stuck e else Raise e)
           | Inr js \<Rightarrow> Inr js))"

definition run_environ :: "machine \<Rightarrow> config \<Rightarrow> environ" where
  "run_environ m cfg = dset ''NS_LOG'' [] (make_paths cfg (m_platform m) (m_environ m))"

definition query_step :: "machine \<Rightarrow> options \<Rightarrow> config \<Rightarrow> example_lists \<Rightarrow> unit test_run" where
  "query_step m opts cfg ls =
     run_bind (kinds_step m opts cfg (run_environ m cfg)) (\<lambda>u.
     run_bind (list_step m opts cfg (run_environ m cfg) ls) (\<lambda>u.
     run_of (if opt_kinds opts \<or> opt_list opts then Inl (Return None) else Inr ())))"

definition prepare :: "machine \<Rightarrow> options \<Rightarrow> report_options \<Rightarrow> (config \<times> job list) test_run" where
  "prepare m opts ro =
     run_bind (run_of (read_waf_config m)) (\<lambda>cfg.
     run_bind (build_step m opts ro) (\<lambda>u.
     run_bind (read_status m cfg) (\<lambda>(programs, scripts).
     run_bind (run_of (raises (find_examples cfg (m_cwd m) (m_eval_examples m) (m_files m) (m_exists m)))) (\<lambda>ls.
     run_bind (query_step m opts cfg ls) (\<lambda>u.
     run_bind (set_outdir True) (\<lambda>u.
     run_bind (run_of (dispatch_step m opts cfg (run_environ m cfg) programs scripts ls)) (\<lambda>js.
     run_of (Inr (cfg, js)))))))))"

section \<open>The end of a run\<close>

definition write_report :: "string \<Rightarrow> string py_result \<Rightarrow> unit test_run" where
  "write_report path content s =
     (case content of
        Inl e \<Rightarrow> (s, Inl (Raise e))
      | Inr c \<Rightarrow> (s\<lparr>reports := reports s @ [(path, c)]\<rparr>, Inr ()))"

definition html_step :: "machine \<Rightarrow> report_options \<Rightarrow> string \<Rightarrow> unit test_run" where
  "html_step m ro results =
     (if opt_html ro = [] then run_of (Inr ())
      else write_report (opt_html ro @ ''.html'') (rbind (m_parse m results) html_file))"

definition text_step :: "machine \<Rightarrow> report_options \<Rightarrow> string \<Rightarrow> unit test_run" where
  "text_step m ro results =
     (if opt_text ro = [] then run_of (Inr ())
      else write_report (opt_text ro @ ''.txt'') (rbind (m_parse m results) translate_to_text))"

definition xml_step :: "report_options \<Rightarrow> string \<Rightarrow> unit test_run" where
  "xml_step ro results =
     (if opt_xml ro = [] then run_of (Inr ()) else write_report (opt_xml ro @ ''.xml'') (Inr results))"

definition closing_notes :: "options \<Rightarrow> config \<Rightarrow> string list" where
  "closing_notes opts cfg =
     (if cfg_tests cfg \<and> cfg_examples cfg then [] else [[]]) @
     (if cfg_tests cfg then []
      else [''***  Note: ns-3 tests are currently disabled. Enable them by adding'',
            ''***  '' @ [CHR 0x22] @ ''--enable-tests'' @ [CHR 0x22] @ '' to ./waf configure or modifying your .ns3rc file.'', []]) @
     (if cfg_examples cfg then []
      else [''***  Note: ns-3 examples are currently disabled. Enable them by adding'',
            ''***  '' @ [CHR 0x22] @ ''--enable-examples'' @ [CHR 0x22] @ '' to ./waf configure or modifying your .ns3rc file.'', []]) @
     (if opt_valgrind opts \<and> \<not> cfg_valgrind_found cfg
      then [[], ''***  Note: you are trying to use valgrind, but valgrind could not be found'',
            ''***  on your machine.  All tests and examples will crash or be skipped.'', []]
      else [])"

text \<open>The colours are switched off by an option or by the environment.\<close>

definition use_colors :: "machine \<Rightarrow> report_options \<Rightarrow> bool" where
  "use_colors m ro \<longleftrightarrow> \<not> (opt_nocolor ro \<or> dget_default (m_environ m) ''NOCOLOR'' [] \<noteq> [])"

text \<open>The progress lines are printed as the results come back; an exception there or in a report leaves the directory.\<close>

definition conclude :: "machine \<Rightarrow> options \<Rightarrow> report_options \<Rightarrow> config \<Rightarrow> nat \<Rightarrow> job list \<Rightarrow> int test_run" where
  "conclude m opts ro cfg n rs =
     run_bind (run_of (raises (collect_results (m_results m) (m_format m) (use_colors m ro) opts n rs))) (\<lambda>t.
     run_bind (say (progress t @ summary n t)) (\<lambda>u.
     run_bind (say (if opt_html ro = [] \<and> opt_text ro = [] \<and> opt_xml ro = [] then [] else [[]])) (\<lambda>u.
     run_bind (html_step m ro (results_file t)) (\<lambda>u.
     run_bind (text_step m ro (results_file t)) (\<lambda>u.
     run_bind (xml_step ro (results_file t)) (\<lambda>u.
     run_bind (say (closing_notes opts cfg)) (\<lambda>u.
     run_bind (if opt_retain ro then run_of (Inr ()) else set_outdir False) (\<lambda>u.
     run_of (Inr (exit_code n t))))))))))"

text \<open>\<open>rs\<close> are the results in the order in which they come back from the workers.\<close>

definition run_tests :: "machine \<Rightarrow> options \<Rightarrow> report_options \<Rightarrow> job list \<Rightarrow> int test_run" where
  "run_tests m opts ro rs =
     run_bind (prepare m opts ro) (\<lambda>(cfg, js). conclude m opts ro cfg (length js) rs)"

definition start_effects :: effects where
  "start_effects = \<lparr>printed = [], reports = [], has_outdir = False\<rparr>"

definition run_status :: "machine \<Rightarrow> options \<Rightarrow> report_options \<Rightarrow> job list \<Rightarrow> int option" where
  "run_status m opts ro rs =
     (case snd (run_tests m opts ro rs start_effects) of
        Inl f \<Rightarrow> process_status f
      | Inr n \<Rightarrow> process_status (Return (Some n)))"


section \<open>Laws\<close>

named_theorems run_simps

lemma run_bind_Inr [run_simps]: "f s = (t, Inr x) \<Longrightarrow> run_bind f g s = g x t"
  by (simp add: run_bind_def)

lemma run_bind_Inl [run_simps]: "f s = (t, Inl e) \<Longrightarrow> run_bind f g s = (t, Inl e)"
  by (simp add: run_bind_def)

lemma run_bind_of [run_simps]:
  "run_bind (run_of (Inr x)) g = g x"
  "run_bind (run_of (Inl e)) g = run_of (Inl e)"
  by (simp_all add: fun_eq_iff run_bind_def run_of_def)

lemma run_bind_say [run_simps]: "run_bind (say ls) g s = g () (s\<lparr>printed := printed s @ ls\<rparr>)"
  by (simp add: run_bind_def say_def)

lemma run_bind_outdir [run_simps]: "run_bind (set_outdir b) g s = g () (s\<lparr>has_outdir := b\<rparr>)"
  by (simp add: run_bind_def set_outdir_def)

lemma run_of_apply [run_simps]: "run_of r s = (s, r)"
  by (simp add: run_of_def)

text \<open>A step that does not touch the output directory and writes nothing to the files.\<close>

definition quiet :: "'a test_run \<Rightarrow> bool" where
  "quiet f \<longleftrightarrow> (\<forall>s. has_outdir (fst (f s)) = has_outdir s \<and> reports (fst (f s)) = reports s)"

lemma quiet_basic [intro]: "quiet (run_of r)" "quiet (say ls)"
  by (simp_all add: quiet_def run_of_def say_def)

lemma quiet_bind [intro]:
  assumes "quiet f" "\<And>x. quiet (g x)"
  shows "quiet (run_bind f g)"
  unfolding quiet_def
proof
  fix s
  obtain t r where f: "f s = (t, r)" by fastforce
  have t: "has_outdir t = has_outdir s \<and> reports t = reports s"
    using assms(1) f unfolding quiet_def by (metis fst_conv)
  show "has_outdir (fst (run_bind f g s)) = has_outdir s \<and> reports (fst (run_bind f g s)) = reports s"
    using t assms(2) unfolding run_bind_def f quiet_def by (cases r) simp_all
qed

lemma quiet_query: "quiet (query_step m opts cfg ls)"
proof -
  have "quiet (list_step m opts cfg env ls)" for env
  proof -
    obtain rc out err where "runner_process m cfg env (list_cmd cfg opts) = (rc, out, err)"
      by (rule prod_cases3)
    then show ?thesis unfolding list_step_def by (simp add: quiet_basic quiet_bind)
  qed
  moreover have "quiet (kinds_step m opts cfg env)" for env
    by (simp add: kinds_step_def quiet_basic)
  ultimately show ?thesis
    unfolding query_step_def by (intro quiet_bind quiet_basic)
qed

lemma quiet_outdir:
  assumes "quiet f" "f s = (t, r)"
  shows "has_outdir t = has_outdir s" "reports t = reports s"
proof -
  have "has_outdir (fst (f s)) = has_outdir s" "reports (fst (f s)) = reports s"
    using assms(1) unfolding quiet_def by blast+
  then show "has_outdir t = has_outdir s" "reports t = reports s"
    unfolding assms(2) by simp_all
qed

text \<open>A report that can be written only adds to the reports.\<close>

definition adds_reports :: "unit test_run \<Rightarrow> bool" where
  "adds_reports f \<longleftrightarrow> (\<forall>s. \<exists>rs. f s = (s\<lparr>reports := rs\<rparr>, Inr ()))"

lemma adds_reports_skip: "adds_reports (run_of (Inr ()))"
proof -
  have "s = s\<lparr>reports := reports s\<rparr>" for s :: effects by simp
  then show ?thesis unfolding adds_reports_def run_of_def by metis
qed

lemma adds_reports_write: "is_ok r \<Longrightarrow> adds_reports (write_report path r)"
  by (auto simp: adds_reports_def write_report_def is_ok_iff)

lemma adds_reports_steps:
  "opt_html ro = [] \<or> is_ok (rbind (m_parse m c) html_file) \<Longrightarrow> adds_reports (html_step m ro c)"
  "opt_text ro = [] \<or> is_ok (rbind (m_parse m c) translate_to_text) \<Longrightarrow> adds_reports (text_step m ro c)"
  "adds_reports (xml_step ro c)"
  by (auto simp: html_step_def text_step_def xml_step_def adds_reports_skip adds_reports_write)

lemma adds_reports_bind:
  assumes "adds_reports f"
  obtains rs where "run_bind f g s = g () (s\<lparr>reports := rs\<rparr>)"
proof -
  obtain rs where "f s = (s\<lparr>reports := rs\<rparr>, Inr ())"
    using assms unfolding adds_reports_def by blast
  then show ?thesis using that by (simp add: run_bind_Inr)
qed

definition reports_ok :: "machine \<Rightarrow> report_options \<Rightarrow> string \<Rightarrow> bool" where
  "reports_ok m ro c \<longleftrightarrow>
     (opt_html ro = [] \<or> is_ok (rbind (m_parse m c) html_file)) \<and>
     (opt_text ro = [] \<or> is_ok (rbind (m_parse m c) translate_to_text))"

lemma conclude_ok:
  assumes "collect_results (m_results m) (m_format m) (use_colors m ro) opts n rs = Inr t" "reports_ok m ro (results_file t)"
    "has_outdir s"
  shows "\<exists>e. conclude m opts ro cfg n rs s = (e, Inr (exit_code n t)) \<and> has_outdir e = opt_retain ro"
proof -
  let ?c = "results_file t"
  note steps = adds_reports_steps [where ro = ro and c = ?c]
  have h: "adds_reports (html_step m ro ?c)" and x: "adds_reports (text_step m ro ?c)"
    using assms(2) steps(1,2) [of m] unfolding reports_ok_def by blast+
  define k where "k = (\<lambda>u::unit. run_bind (say (closing_notes opts cfg)) (\<lambda>u.
     run_bind (if opt_retain ro then run_of (Inr ()) else set_outdir False) (\<lambda>u. run_of (Inr (exit_code n t)))))"
  have k: "\<exists>e. k u z = (e, Inr (exit_code n t)) \<and> has_outdir e = opt_retain ro" if "has_outdir z" for u z
    using that by (simp add: k_def run_simps)
  define s1 where "s1 = s\<lparr>printed := (printed s @ progress t @ summary n t) @
     (if opt_html ro = [] \<and> opt_text ro = [] \<and> opt_xml ro = [] then [] else [[]])\<rparr>"
  have "conclude m opts ro cfg n rs s =
      run_bind (html_step m ro ?c) (\<lambda>u. run_bind (text_step m ro ?c) (\<lambda>u. run_bind (xml_step ro ?c) k)) s1"
    unfolding conclude_def assms(1) raises_def k_def s1_def by (simp add: run_simps)
  moreover obtain a where "run_bind (html_step m ro ?c) (\<lambda>u. run_bind (text_step m ro ?c) (\<lambda>u. run_bind (xml_step ro ?c) k)) s1 =
      run_bind (text_step m ro ?c) (\<lambda>u. run_bind (xml_step ro ?c) k) (s1\<lparr>reports := a\<rparr>)"
    by (rule adds_reports_bind [OF h])
  moreover obtain b where "run_bind (text_step m ro ?c) (\<lambda>u. run_bind (xml_step ro ?c) k) (s1\<lparr>reports := a\<rparr>) =
      run_bind (xml_step ro ?c) k (s1\<lparr>reports := a\<rparr>\<lparr>reports := b\<rparr>)"
    by (rule adds_reports_bind [OF x])
  moreover obtain d where "run_bind (xml_step ro ?c) k (s1\<lparr>reports := a\<rparr>\<lparr>reports := b\<rparr>) =
      k () (s1\<lparr>reports := a\<rparr>\<lparr>reports := b\<rparr>\<lparr>reports := d\<rparr>)"
    by (rule adds_reports_bind [OF steps(3)])
  moreover have "has_outdir (s1\<lparr>reports := a\<rparr>\<lparr>reports := b\<rparr>\<lparr>reports := d\<rparr>)"
    using assms(3) by (simp add: s1_def)
  ultimately show ?thesis using k by metis
qed


lemma run_bind_InrE:
  assumes "run_bind f g s = (t, Inr y)"
  obtains u x where "f s = (u, Inr x)" "g x u = (t, Inr y)"
  using assms by (cases "f s"; cases "snd (f s)") (auto simp: run_bind_def)

lemma run_of_InrE:
  assumes "run_bind (run_of r) g s = (t, Inr y)"
  obtains x where "r = Inr x" "g x s = (t, Inr y)"
  using assms by (cases r) (auto simp: run_bind_def run_of_def)

lemma dispatch_step_dispatch:
  assumes "dispatch_step m opts cfg env programs scripts ls = Inr js"
  shows "dispatch cfg opts (m_cwd m) (m_outdir m) (runner_text m cfg env) (m_eval_bool m) programs scripts ls = Inr js"
  using assms by (simp add: dispatch_step_def split: sum.splits)

text \<open>A run that gets to its tests has dispatched them, and its directory exists.\<close>

lemma prepare_InrE:
  assumes "prepare m opts ro s = (e, Inr (cfg, js))"
  obtains programs scripts ls where
    "dispatch cfg opts (m_cwd m) (m_outdir m) (runner_text m cfg (run_environ m cfg)) (m_eval_bool m) programs scripts ls = Inr js"
    "has_outdir e" "\<not> opt_kinds opts" "\<not> opt_list opts"
proof -
  obtain c s1 p ls s2 u s3 d s4 js' where q: "query_step m opts c ls s2 = (s3, Inr u)"
    and o: "set_outdir True s3 = (s4, Inr d)"
    and st: "dispatch_step m opts c (run_environ m c) (fst p) (snd p) ls = Inr js'"
    and r: "run_of (Inr (c, js')) s4 = (e, Inr (cfg, js))"
    using assms unfolding prepare_def case_prod_beta by (elim run_of_InrE run_bind_InrE) (rule that)
  have "\<not> (opt_kinds opts \<or> opt_list opts)"
    using q unfolding query_step_def by (elim run_bind_InrE) (simp add: run_of_def split: if_splits)
  moreover have "c = cfg" "js' = js" "s4 = e"
    using r by (simp_all add: run_of_def)
  moreover have "has_outdir s4"
    using o by (auto simp: set_outdir_def)
  ultimately show ?thesis
    using that dispatch_step_dispatch [OF st] by metis
qed

text \<open>What is left of the preparation once the configuration, the build and the lists are there.\<close>

lemma prepare_ready:
  assumes "read_waf_config m = Inr cfg" "opt_nowaf ro \<or> m_waf m (waf_cmd opts) = 0"
    "read_status m cfg s = (s, Inr (programs, scripts))"
    "find_examples cfg (m_cwd m) (m_eval_examples m) (m_files m) (m_exists m) = Inr ls"
  shows "prepare m opts ro s =
     run_bind (query_step m opts cfg ls) (\<lambda>u. run_bind (set_outdir True) (\<lambda>u.
     run_bind (run_of (dispatch_step m opts cfg (run_environ m cfg) programs scripts ls)) (\<lambda>js.
     run_of (Inr (cfg, js))))) s"
proof -
  have "build_step m opts ro = run_of (Inr ())"
    using assms(2) by (auto simp: build_step_def)
  moreover have "raises (find_examples cfg (m_cwd m) (m_eval_examples m) (m_files m) (m_exists m)) = Inr ls"
    by (simp add: raises_def assms(4))
  ultimately show ?thesis
    unfolding prepare_def assms(1)
    by (simp add: run_simps run_bind_Inr [where f = "read_status m cfg", OF assms(3)])
qed

lemma query_skipped:
  assumes "\<not> opt_kinds opts" "\<not> opt_list opts"
  shows "query_step m opts cfg ls = run_of (Inr ())"
  using assms by (simp add: query_step_def kinds_step_def list_step_def run_bind_of)

lemma query_returns:
  assumes "opt_kinds opts \<or> opt_list opts"
  obtains e where "query_step m opts cfg ls s = (e, Inl (Return None))"
proof -
  obtain rc out err where p: "runner_process m cfg (run_environ m cfg) (list_cmd cfg opts) = (rc, out, err)"
    by (rule prod_cases3)
  have "\<exists>s1. kinds_step m opts cfg (run_environ m cfg) s = (s1, Inr ())"
    by (cases "opt_kinds opts") (simp_all add: kinds_step_def run_of_def say_def)
  then obtain s1 where k: "kinds_step m opts cfg (run_environ m cfg) s = (s1, Inr ())" by blast
  have "\<exists>t. run_bind (list_step m opts cfg (run_environ m cfg) ls) (\<lambda>u. run_of (Inl (Return None))) s1 =
      (t, Inl (Return None) :: finish + unit)"
    unfolding list_step_def p by (simp add: run_bind_def run_of_def say_def)
  then show ?thesis
    using that assms unfolding query_step_def
    by (auto simp: run_bind_Inr [where f = "kinds_step m opts cfg (run_environ m cfg)", OF k])
qed

section \<open>An example\<close>

definition demo_machine :: machine where
  "demo_machine = \<lparr>m_platform = ''linux'', m_cwd = ''/b'', m_environ = [],
     m_files = (\<lambda>f. if f = ''.lock-waf_linux_build'' then Some [''top_dir = 1'', ''out_dir = 2'']
                   else if f = ''/b/build/c4che/_cache.py'' then Some [''ENABLE_TESTS = True'']
                   else if f = ''/b/build/build-status.py'' then Some [''ns3_runnable_programs = []'', ''ns3_runnable_scripts = [1]'']
                   else None),
     m_exists = (\<lambda>f. False), m_eval_dir = (\<lambda>v. Inr (if v = ''1'' then ''/b'' else ''/b/build'')),
     m_eval_list = (\<lambda>v. Inr (if v = ''[]'' then [] else [''x.py''])),
     m_eval_examples = (\<lambda>v. Inr [], \<lambda>v. Inr []), m_eval_bool = (\<lambda>c. Inl NameError),
     m_exec = (\<lambda>l cfg. Inr (cfg\<lparr>cfg_tests := True\<rparr>)), m_waf = (\<lambda>c. 0), m_popen = (\<lambda>env. demo_popen),
     m_outdir = ''out'', m_results = (\<lambda>f. None), m_bytes = (\<lambda>c. []), m_format = (\<lambda>i. ''0.000''),
     m_processors = 1, m_parse = (\<lambda>c. Inl (PyException ''ParseError''))\<rparr>"

definition demo_options :: options where
  "demo_options = demo_opts []\<lparr>opt_pyexample := ''x.py''\<rparr>"

definition demo_reports :: report_options where
  "demo_reports = \<lparr>opt_html = [], opt_text = [], opt_xml = ''r'', opt_retain = False, opt_nowaf = False, opt_nocolor = False\<rparr>"

definition demo_config :: config where
  "demo_config = default_config\<lparr>cfg_basedir := ''/b'', cfg_builddir := ''/b/build''\<rparr>"

definition demo_run_jobs :: "job list" where
  "demo_run_jobs = [script_job ''/b'' ''out'' ''x.py'']"

definition demo_run :: "event list \<Rightarrow> pool option" where
  "demo_run es = run_events (run_job demo_config demo_options (m_popen demo_machine (run_environ demo_machine demo_config)) (\<lambda>c. 0))
     es (start_pool (workers_started (m_processors demo_machine) demo_options) demo_run_jobs)"

definition demo_run_end :: pool where
  "demo_run_end = (case demo_run [Put, Get 0, Check 0, Finish 0, Put, Collect, Get 0] of
     Some s \<Rightarrow> s | None \<Rightarrow> start_pool 0 [])"

section \<open>Properties\<close>




text \<open>A run that cannot be set up ends before anything is written: without a lock file or a build
  status with 2, and after a failed build with the status of the build.\<close>

theorem setup_failures:
  assumes "case read_waf_config m of
      Inl f \<Rightarrow> status = process_status f
    | Inr cfg \<Rightarrow>
        if \<not> opt_nowaf ro \<and> m_waf m (waf_cmd opts) \<noteq> 0 then status = Some (m_waf m (waf_cmd opts) mod 256)
        else m_files m (path_join (cfg_builddir cfg) ''build-status.py'') = None \<and> status = Some 2"
  shows "fst (run_tests m opts ro rs start_effects) = start_effects \<and> run_status m opts ro rs = status \<and>
    (m_files m (''.lock-waf_'' @ m_platform m @ ''_build'') = None \<and> m_files m ''.lock-waf_linux2_build'' = None \<longrightarrow>
       status = Some 2)"
proof -
  have no_lock: "read_waf_config m = Inl (Exit 2)"
    if "m_files m (''.lock-waf_'' @ m_platform m @ ''_build'') = None" "m_files m ''.lock-waf_linux2_build'' = None"
    unfolding read_waf_config_def that by simp
  have early: "run_status m opts ro rs = process_status f"
    if "prepare m opts ro start_effects = (start_effects, Inl f)" for f
    unfolding run_status_def run_tests_def run_bind_Inl [where f = "prepare m opts ro", OF that] by simp
  obtain f where "prepare m opts ro start_effects = (start_effects, Inl f)" "status = process_status f"
  proof (cases "read_waf_config m")
    case (Inl f)
    show ?thesis
      by (rule that [of f]) (use assms Inl in \<open>simp_all add: prepare_def run_simps\<close>)
  next
    case (Inr cfg)
    show ?thesis
    proof (cases "\<not> opt_nowaf ro \<and> m_waf m (waf_cmd opts) \<noteq> 0")
      case True
      show ?thesis
        by (rule that [of "Return (Some (m_waf m (waf_cmd opts)))"])
          (use assms Inr True in \<open>simp_all add: prepare_def build_step_def run_simps process_status_def\<close>)
    next
      case False
      have "read_status m cfg = run_of (Inl (Exit 2))"
        using assms Inr False unfolding read_status_def Let_def by simp
      then show ?thesis
        by (intro that [of "Exit 2"])
          (use assms Inr False in \<open>simp_all add: prepare_def build_step_def run_simps process_status_def\<close>)
    qed
  qed
  moreover from this(1) have "fst (run_tests m opts ro rs start_effects) = start_effects"
    unfolding run_tests_def by (simp add: run_bind_Inl [where f = "prepare m opts ro"])
  ultimately show ?thesis
    using early no_lock assms by (auto simp: process_status_def)
qed

theorem setup_failures_witness:
  "run_status (demo_machine\<lparr>m_waf := \<lambda>c. 2\<rparr>) demo_options demo_reports [] = Some 2"
proof -
  have "case read_waf_config (demo_machine\<lparr>m_waf := \<lambda>c. 2\<rparr>) of
      Inl f \<Rightarrow> Some 2 = process_status f
    | Inr cfg \<Rightarrow>
        if \<not> opt_nowaf demo_reports \<and> m_waf (demo_machine\<lparr>m_waf := \<lambda>c. 2\<rparr>) (waf_cmd demo_options) \<noteq> 0
        then Some 2 = Some (m_waf (demo_machine\<lparr>m_waf := \<lambda>c. 2\<rparr>) (waf_cmd demo_options) mod 256)
        else m_files (demo_machine\<lparr>m_waf := \<lambda>c. 2\<rparr>) (path_join (cfg_builddir cfg) ''build-status.py'') = None \<and> Some 2 = Some (2::int)"
    by code_simp
  then show ?thesis by (rule setup_failures [THEN conjunct2, THEN conjunct1])
qed

text \<open>C29. \<open>--kinds\<close> and \<open>--list\<close> run no test, write no report, leave no directory and end with 0, also
  when the test runner fails: then \<open>--list\<close> alone prints its message instead of the names.\<close>

theorem query_runs_succeed:
  assumes "read_waf_config m = Inr cfg" "opt_nowaf ro \<or> m_waf m (waf_cmd opts) = 0"
    "read_status m cfg start_effects = (start_effects, Inr (programs, scripts))"
    "find_examples cfg (m_cwd m) (m_eval_examples m) (m_files m) (m_exists m) = Inr ls"
    "opt_kinds opts \<or> opt_list opts"
  shows "run_status m opts ro rs = Some 0 \<and> \<not> has_outdir (fst (run_tests m opts ro rs start_effects)) \<and>
    reports (fst (run_tests m opts ro rs start_effects)) = [] \<and>
    (\<not> opt_kinds opts \<and> fst (runner_process m cfg (run_environ m cfg) (list_cmd cfg opts)) \<noteq> 0 \<longrightarrow>
       length (printed (fst (run_tests m opts ro rs start_effects))) = 2)"
proof -
  obtain e where q: "query_step m opts cfg ls start_effects = (e, Inl (Return None))"
    by (rule query_returns [OF assms(5)])
  have "prepare m opts ro start_effects = (e, Inl (Return None))"
    unfolding prepare_ready [OF assms(1-4)] by (rule run_bind_Inl [where f = "query_step m opts cfg ls", OF q])
  then have run: "run_tests m opts ro rs start_effects = (e, Inl (Return None))"
    unfolding run_tests_def by (rule run_bind_Inl)
  have "length (printed e) = 2"
    if "\<not> opt_kinds opts" "fst (runner_process m cfg (run_environ m cfg) (list_cmd cfg opts)) \<noteq> 0"
    using q that assms(5)
    unfolding query_step_def kinds_step_def list_step_def
    by (simp add: run_simps split: prod.splits) (auto simp: start_effects_def)
  moreover note quiet_outdir [OF quiet_query q]
  ultimately show ?thesis
    unfolding run_status_def run by (simp add: process_status_def start_effects_def)
qed

definition failing_machine :: machine where
  "failing_machine = demo_machine\<lparr>m_popen := \<lambda>env cmd dir. (139, Some [], Some [])\<rparr>"

theorem query_runs_succeed_witness:
  "run_status failing_machine (demo_options\<lparr>opt_list := True\<rparr>) demo_reports [] = Some 0"
proof -
  have h: "read_waf_config failing_machine = Inr demo_config"
    "opt_nowaf demo_reports \<or> m_waf failing_machine (waf_cmd (demo_options\<lparr>opt_list := True\<rparr>)) = 0"
    "read_status failing_machine demo_config start_effects = (start_effects, Inr ([], [''x.py'']))"
    "find_examples demo_config (m_cwd failing_machine) (m_eval_examples failing_machine) (m_files failing_machine)
       (m_exists failing_machine) = Inr \<lparr>example_tests = [], example_names_original = [], python_tests = []\<rparr>"
    "opt_kinds (demo_options\<lparr>opt_list := True\<rparr>) \<or> opt_list (demo_options\<lparr>opt_list := True\<rparr>)"
    by code_simp+
  show ?thesis using query_runs_succeed [OF h] by blast
qed


definition broken_machine :: machine where
  "broken_machine = demo_machine\<lparr>m_exists := \<lambda>f. True,
     m_eval_examples := (\<lambda>v. Inr [], \<lambda>v. Inr [(''x.py'', ''MISSING'')]),
     m_exec := \<lambda>l cfg. Inr (cfg\<lparr>cfg_example_dirs := [''d'']\<rparr>),
     m_files := (\<lambda>f. if f = ''examples/d/examples-to-run.py'' then Some [''cpp_examples = []'', ''python_examples = [1]'']
                     else m_files demo_machine f)\<rparr>"


end
