(* ===== verification/CheckStyle.thy ===== *)
theory CheckStyle
  imports PyString
begin

text \<open>
  \<open>utils/check-style.py\<close>: patches, their reader and writer, the loop that takes
  back changes of trailing white space, and the pipeline that indents a list of
  files.  A file is its list of lines, each with its newline; \<open>uncrustify\<close>, the
  patch program and the diff are parameters of the pipeline.
\<close>

section \<open>Patches\<close>

datatype line_type = UNSET | SRC | DST | BOTH

record chunk_line =
  cl_type :: line_type
  cl_text :: string

record chunk =
  ck_lines :: "chunk_line list"
  src_pos :: int
  dst_pos :: int

record patch =
  p_src :: string
  p_dst :: string
  p_chunks :: "chunk list"

definition is_src :: "chunk_line \<Rightarrow> bool" where
  "is_src l \<longleftrightarrow> cl_type l = SRC \<or> cl_type l = BOTH"

definition is_dst :: "chunk_line \<Rightarrow> bool" where
  "is_dst l \<longleftrightarrow> cl_type l = DST \<or> cl_type l = BOTH"

definition write_line :: "chunk_line \<Rightarrow> string py_result" where
  "write_line l =
     (case cl_type l of
        SRC \<Rightarrow> Inr (''-'' @ cl_text l @ [newline])
      | DST \<Rightarrow> Inr (''+'' @ cl_text l @ [newline])
      | BOTH \<Rightarrow> Inr ('' '' @ cl_text l @ [newline])
      | UNSET \<Rightarrow> Inl (PyException ''invalid patch''))"

definition src_len :: "chunk \<Rightarrow> nat" where
  "src_len c = length (List.filter is_src (ck_lines c))"

definition dst_len :: "chunk \<Rightarrow> nat" where
  "dst_len c = length (List.filter is_dst (ck_lines c))"

definition write_chunk :: "chunk \<Rightarrow> string list py_result" where
  "write_chunk c =
     rbind (map_res write_line (ck_lines c)) (\<lambda>ls.
     Inr ((''@@ -'' @ str_int (src_pos c) @ '','' @ str_nat (src_len c) @ '' +'' @
           str_int (dst_pos c) @ '','' @ str_nat (dst_len c) @ '' @@'' @ [newline]) # ls))"

definition write_patch :: "patch \<Rightarrow> string list py_result" where
  "write_patch p =
     rbind (map_res write_chunk (p_chunks p)) (\<lambda>cs.
     Inr ((''--- '' @ p_src p @ [newline]) # (''+++ '' @ p_dst p @ [newline]) # concat cs))"

section \<open>Reading patches\<close>

text \<open>
  \<open>(.*)$\<close> matches up to the end or up to a final newline, and not across a newline
  inside the text.
\<close>

definition rest_of_line :: "string \<Rightarrow> string option" where
  "rest_of_line s =
     (let body = (if s \<noteq> [] \<and> last s = newline then butlast s else s)
      in if newline \<in> set body then None else Some body)"

definition match_rest :: "string \<Rightarrow> string \<Rightarrow> string option" where
  "match_rest p line = (if startswith line p then rest_of_line (drop (length p) line) else None)"

text \<open>A run of digits, which is greedy and not empty.\<close>

definition match_number :: "string \<Rightarrow> (int \<times> string) option" where
  "match_number s =
     (case whole_number (takeWhile is_digit s) of None \<Rightarrow> None | Some n \<Rightarrow> Some (n, dropWhile is_digit s))"

definition match_text :: "string \<Rightarrow> string \<Rightarrow> string option" where
  "match_text p s = (if startswith s p then Some (drop (length p) s) else None)"

definition match_range :: "string \<Rightarrow> (int \<times> string) option" where
  "match_range s =
     Option.bind (match_number s) (\<lambda>(a, s).
     Option.bind (match_text '','' s) (\<lambda>s.
     Option.bind (match_number s) (\<lambda>(b, s). Some (a, s))))"

definition match_chunk :: "string \<Rightarrow> (int \<times> int) option" where
  "match_chunk s =
     Option.bind (match_text ''@@ -'' s) (\<lambda>s.
     Option.bind (match_range s) (\<lambda>(a, s).
     Option.bind (match_text '' +'' s) (\<lambda>s.
     Option.bind (match_range s) (\<lambda>(b, s).
     Option.bind (match_text '' @@'' s) (\<lambda>s. Some (a, b))))))"

text \<open>
  \<open>current_patch\<close> is the last patch read, or none.  \<open>current_chunk\<close> is the last
  chunk of the patch at the given index; a new patch does not reset it, and
  before the first chunk it is not bound.
\<close>

record reader =
  patchset :: "patch list"
  chunk_owner :: "nat option"

definition update_last :: "('a \<Rightarrow> 'a) \<Rightarrow> 'a list \<Rightarrow> 'a list" where
  "update_last f xs = butlast xs @ [f (last xs)]"

definition add_line :: "line_type \<Rightarrow> string \<Rightarrow> reader \<Rightarrow> reader py_result" where
  "add_line t s r =
     (case chunk_owner r of
        None \<Rightarrow> Inl UnboundLocalError
      | Some k \<Rightarrow>
          Inr (r\<lparr>patchset := (patchset r)[k := (patchset r ! k)\<lparr>p_chunks :=
                  update_last (\<lambda>c. c\<lparr>ck_lines := ck_lines c @ [\<lparr>cl_type = t, cl_text = s\<rparr>]\<rparr>)
                    (p_chunks (patchset r ! k))\<rparr>]\<rparr>))"

definition read_patch_line :: "reader \<Rightarrow> string \<Rightarrow> reader py_result" where
  "read_patch_line r line =
     (case match_rest ''--- '' line of
        Some s \<Rightarrow> Inr (r\<lparr>patchset := patchset r @ [\<lparr>p_src = s, p_dst = [], p_chunks = []\<rparr>]\<rparr>)
      | None \<Rightarrow>
     (case match_rest ''+++ '' line of
        Some s \<Rightarrow>
          (if patchset r = [] then Inl AttributeError
           else Inr (r\<lparr>patchset := update_last (\<lambda>p. p\<lparr>p_dst := s\<rparr>) (patchset r)\<rparr>))
      | None \<Rightarrow>
     (case match_chunk line of
        Some (a, b) \<Rightarrow>
          (if patchset r = [] then Inl AttributeError
           else Inr (r\<lparr>patchset := update_last (\<lambda>p. p\<lparr>p_chunks := p_chunks p @
                          [\<lparr>ck_lines = [], src_pos = a, dst_pos = b\<rparr>]\<rparr>) (patchset r),
                       chunk_owner := Some (length (patchset r) - 1)\<rparr>))
      | None \<Rightarrow>
     (case match_rest ''-'' line of
        Some s \<Rightarrow> add_line SRC s r
      | None \<Rightarrow>
     (case match_rest ''+'' line of
        Some s \<Rightarrow> add_line DST s r
      | None \<Rightarrow>
     (case match_rest '' '' line of
        Some s \<Rightarrow> add_line BOTH s r
      | None \<Rightarrow> Inl (PyException [])))))))"

definition parse_patchset :: "string list \<Rightarrow> patch list py_result" where
  "parse_patchset lines =
     rbind (foldM read_patch_line \<lparr>patchset = [], chunk_owner = None\<rparr> lines) (\<lambda>r. Inr (patchset r))"

section \<open>Trailing white space\<close>

text \<open>
  In \<open>^(.*)([ \t]+)$\<close> the first group takes as much as it can, so the second is the
  last character.
\<close>

definition trailing_blank :: "string \<Rightarrow> (string \<times> string) option" where
  "trailing_blank s =
     (if s \<noteq> [] \<and> last s \<in> {CHR '' '', CHR 0x09} then Some (butlast s, [last s]) else None)"

text \<open>
  The loop pairs the source lines and the destination lines of a chunk by index;
  both are positions in the lines of the chunk, so that a line on both sides is
  one object.  A destination list that is too short raises inside the loop.
\<close>

fun restore_loop :: "nat list \<Rightarrow> nat list \<Rightarrow> chunk_line list \<Rightarrow> chunk_line list \<times> bool" where
  "restore_loop [] ds ls = (ls, False)"
| "restore_loop (s # ss) [] ls = (ls, True)"
| "restore_loop (s # ss) (d # ds) ls =
     (case trailing_blank (cl_text (ls ! s)) of
        None \<Rightarrow> restore_loop ss ds ls
      | Some (body, blank) \<Rightarrow>
          (if body = cl_text (ls ! d)
           then restore_loop ss ds (ls[d := (ls ! d)\<lparr>cl_text := cl_text (ls ! d) @ blank\<rparr>])
           else restore_loop ss ds ls))"

definition positions :: "(chunk_line \<Rightarrow> bool) \<Rightarrow> chunk_line list \<Rightarrow> nat list" where
  "positions P ls = List.filter (\<lambda>i. P (ls ! i)) [0..<length ls]"

definition restore_chunk :: "chunk \<Rightarrow> chunk \<times> bool" where
  "restore_chunk c =
     (let (ls, stop) = restore_loop (positions is_src (ck_lines c)) (positions is_dst (ck_lines c)) (ck_lines c)
      in (c\<lparr>ck_lines := ls\<rparr>, stop))"

text \<open>The exception handler returns from the function, so the rest stays as it is.\<close>

fun restore_chunks :: "chunk list \<Rightarrow> chunk list \<times> bool" where
  "restore_chunks [] = ([], False)"
| "restore_chunks (c # cs) =
     (let (c', stop) = restore_chunk c
      in if stop then (c' # cs, True)
         else (let (cs', stop) = restore_chunks cs in (c' # cs', stop)))"

fun restore_patches :: "patch list \<Rightarrow> patch list" where
  "restore_patches [] = []"
| "restore_patches (p # ps) =
     (let (cs, stop) = restore_chunks (p_chunks p)
      in p\<lparr>p_chunks := cs\<rparr> # (if stop then ps else restore_patches ps))"

definition remove_trailing_whitespace_changes :: "string list \<Rightarrow> patch list py_result" where
  "remove_trailing_whitespace_changes lines =
     rbind (parse_patchset lines) (\<lambda>ps. Inr (restore_patches ps))"

section \<open>The configuration of the indenter\<close>

text \<open>The options of each level; the file holds those of the level and of the lower ones.\<close>

definition level0 :: "string list" where
  "level0 =
    [''sp_func_proto_paren=Add'', ''sp_func_def_paren=Add'', ''sp_func_call_paren=Add'',
     ''sp_after_semi_for=Ignore'', ''sp_before_sparen=Ignore'', ''sp_type_func=Ignore'',
     ''sp_after_type=Ignore'', ''nl_class_leave_one_liners=True'', ''nl_enum_leave_one_liners=True'',
     ''nl_func_leave_one_liners=True'', ''nl_assign_leave_one_liners=True'',
     ''nl_collapse_empty_body=True'', ''nl_getset_leave_one_liners=True'',
     ''nl_if_leave_one_liners=True'', ''nl_fdef_brace=Ignore'',
     ''# finally, indentation configuration'', ''indent_with_tabs=0'', ''indent_namespace=false'',
     ''indent_columns=2'', ''indent_brace=2'', ''indent_case_brace=indent_columns'',
     ''indent_class=true'', ''indent_class_colon=True'', ''indent_switch_case=indent_columns'',
     ''# alignment'', ''indent_align_assign=False'', ''align_left_shift=True'',
     ''# comment reformating disabled'', ''cmt_reflow_mode=1 # do not touch comments at all'',
     ''cmt_indent_multi=False # really, do not touch them'',
     ''disable_processing_cmt= '' @ [CHR 0x22] @ '' *NS_CHECK_STYLE_OFF*'' @ [CHR 0x22],
     ''enable_processing_cmt=  '' @ [CHR 0x22] @ '' *NS_CHECK_STYLE_ON*'' @ [CHR 0x22]]"

definition level1 :: "string list" where
  "level1 =
    [''# extra spaces here and there'', ''sp_brace_typedef=Add'', ''sp_enum_assign=Add'',
     ''sp_before_sparen=Add'', ''sp_after_semi_for=Add'', ''sp_arith=Add'', ''sp_assign=Add'',
     ''sp_compare=Add'', ''sp_func_class_paren=Add'', ''sp_after_type=Add'', ''sp_type_func=Add'',
     ''sp_angle_paren=Add'']"

definition level2 :: "string list" where
  "level2 =
    [''nl_if_brace=Add'', ''nl_brace_else=Add'', ''nl_elseif_brace=Add'', ''nl_else_brace=Add'',
     ''nl_while_brace=Add'', ''nl_do_brace=Add'', ''nl_for_brace=Add'', ''nl_brace_while=Add'',
     ''nl_switch_brace=Add'', ''nl_after_case=True'', ''nl_namespace_brace=ignore'',
     ''nl_after_brace_open=True'', ''nl_class_leave_one_liners=False'',
     ''nl_enum_leave_one_liners=False'', ''nl_func_leave_one_liners=False'',
     ''nl_if_leave_one_liners=False'', ''nl_class_colon=Ignore'', ''nl_before_access_spec=2'',
     ''nl_after_access_spec=0'', ''indent_access_spec=-indent_columns'', ''nl_after_semicolon=True'',
     ''pos_class_colon=Lead'', ''pos_class_comma=Trail'', ''indent_constr_colon=true'',
     ''pos_bool=Lead'', ''nl_class_init_args=Add'', ''nl_template_class=Add'',
     ''nl_class_brace=Add'', ''# does not work very well'', ''nl_func_type_name=Ignore'',
     ''nl_func_scope_name=Ignore'', ''nl_func_type_name_class=Ignore'',
     ''nl_func_proto_type_name=Ignore'', ''# function'' @ [CHR 0x5C] @ ''n('',
     ''nl_func_paren=Remove'', ''nl_fdef_brace=Add'', ''nl_struct_brace=Add'', ''nl_enum_brace=Add'',
     ''nl_union_brace=Add'', ''mod_full_brace_do=Add'', ''mod_full_brace_for=Add'',
     ''mod_full_brace_if=Add'', ''mod_full_brace_while=Add'', ''mod_full_brace_for=Add'',
     ''mod_remove_extra_semicolon=True'', ''# max code width'', ''#code_width=128'',
     ''#ls_for_split_full=True'', ''#ls_func_split_full=True'',
     ''nl_cpp_lambda_leave_one_liners=True'']"

definition config_text :: "string list \<Rightarrow> string" where
  "config_text ls = newline # concat (List.map (\<lambda>l. l @ [newline]) ls)"

definition uncrustify_config_file :: "int \<Rightarrow> string" where
  "uncrustify_config_file level =
     config_text level0 @
     (if level \<ge> 1 then config_text level1 else []) @
     (if level \<ge> 2 then config_text level2 else [])"

section \<open>Indenting files\<close>

definition patch_to_apply :: "bool \<Rightarrow> int \<Rightarrow> string list \<Rightarrow> string list py_result" where
  "patch_to_apply debug level diff =
     (let left = (if debug then [] else diff)
      in if level < 3
         then rbind (remove_trailing_whitespace_changes left) (\<lambda>ps.
              case ps of [] \<Rightarrow> Inr [] | p # _ \<Rightarrow> write_patch p)
         else Inr left)"

definition indent ::
  "(string \<Rightarrow> string list \<Rightarrow> string list) \<Rightarrow> (string list \<Rightarrow> string list \<Rightarrow> string list) \<Rightarrow>
   (string list \<Rightarrow> string list \<Rightarrow> string list) \<Rightarrow> bool \<Rightarrow> int \<Rightarrow> string list \<Rightarrow> string list py_result" where
  "indent uncrustify unified_diff apply_patch debug level source =
     rbind (patch_to_apply debug level (unified_diff source (uncrustify (uncrustify_config_file level) source))) (\<lambda>p.
     Inr (apply_patch p source))"

type_synonym files = "(string, string list) dict"

definition indent_files ::
  "(string list \<Rightarrow> string list py_result) \<Rightarrow> bool \<Rightarrow> string list \<Rightarrow> files \<Rightarrow> (files \<times> bool \<times> string list) py_result" where
  "indent_files ind inplace names fs =
     rbind (map_res (\<lambda>f. rbind (dindex fs f) (\<lambda>src. rbind (ind src) (\<lambda>dst. Inr (f, dst)))) names) (\<lambda>pairs.
       if inplace then Inr (fold (\<lambda>(f, dst) fs. dset f dst fs) pairs fs, True, [])
       else (let failed = List.map fst (List.filter (\<lambda>(f, dst). dget fs f \<noteq> Some dst) pairs)
             in Inr (fs, failed = [], failed)))"

definition git_modified_files :: "string \<Rightarrow> string list \<Rightarrow> string list" where
  "git_modified_files root_dir names =
     List.map (\<lambda>f. butlast root_dir @ ''/'' @ strip f)
       (List.filter (\<lambda>f. endswith f ''.h'' \<or> endswith f ''.cc'') (List.map strip names))"

text \<open>The exit status of the program; with no choice of files it fails.\<close>

definition style_exit ::
  "(string list \<Rightarrow> string list py_result) \<Rightarrow> bool \<Rightarrow> bool \<Rightarrow> string list \<Rightarrow> string \<Rightarrow> files \<Rightarrow> files \<times> int" where
  "style_exit ind inplace git changed file fs =
     (if git
      then (case indent_files ind inplace changed fs of
              Inl e \<Rightarrow> (fs, 1) | Inr (fs, ok, failed) \<Rightarrow> (fs, if ok then 0 else 1))
      else if file \<noteq> []
      then (if \<not> dhas fs file then (fs, 1)
            else (case indent_files ind inplace [file] fs of
                    Inl e \<Rightarrow> (fs, 1) | Inr (fs, ok, failed) \<Rightarrow> (fs, if ok then 0 else 1)))
      else (fs, 1))"


section \<open>Laws of the reader and the writer\<close>

named_theorems match_simps

lemma rest_of_line_newline [match_simps]: "newline \<notin> set s \<Longrightarrow> rest_of_line (s @ [newline]) = Some s"
  by (simp add: rest_of_line_def)

lemma match_rest_own [match_simps]: "newline \<notin> set s \<Longrightarrow> match_rest p (p @ s @ [newline]) = Some s"
  by (simp add: match_rest_def match_simps)

lemma match_text_own [match_simps]: "match_text p (p @ s) = Some s"
  by (simp add: match_text_def)

lemma match_number_own [match_simps]:
  "c \<notin> set ''0123456789'' \<Longrightarrow> match_number (str_nat n @ c # s) = Some (int n, c # s)"
proof -
  assume "c \<notin> set ''0123456789''"
  then have c: "\<not> is_digit c" by (simp only: is_digit_def not_False_eq_True)
  have d: "\<forall>x \<in> set (str_nat n). is_digit x" using str_nat_number [of n] by (simp add: list_all_iff)
  have "takeWhile is_digit (str_nat n @ c # s) = str_nat n" "dropWhile is_digit (str_nat n @ c # s) = c # s"
    using c d by (simp_all add: takeWhile_append2 dropWhile_append2)
  then show ?thesis by (simp add: match_number_def)
qed

lemma match_range_own [match_simps]:
  "match_range (str_nat a @ CHR '','' # str_nat b @ CHR '' '' # s) = Some (int a, CHR '' '' # s)"
  using match_text_own [of "'',''" "str_nat b @ CHR '' '' # s"]
  by (simp add: match_range_def match_number_own)

definition chunk_header :: "chunk \<Rightarrow> string" where
  "chunk_header c =
     ''@@ -'' @ str_int (src_pos c) @ '','' @ str_nat (src_len c) @ '' +'' @
     str_int (dst_pos c) @ '','' @ str_nat (dst_len c) @ '' @@'' @ [newline]"

lemma match_chunk_header:
  assumes "0 \<le> src_pos c" "0 \<le> dst_pos c"
  shows "match_chunk (chunk_header c) = Some (src_pos c, dst_pos c)"
proof -
  have h: "chunk_header c = ''@@ -'' @ (str_nat (nat (src_pos c)) @ CHR '','' # str_nat (src_len c) @ CHR '' '' # ''+'' @
      (str_nat (nat (dst_pos c)) @ CHR '','' # str_nat (dst_len c) @ CHR '' '' # ''@@'' @ [newline]))"
    using assms by (simp add: chunk_header_def str_int_def)
  have plus: "match_text '' +'' (CHR '' '' # ''+'' @ t) = Some t"
    and ats: "match_text '' @@'' (CHR '' '' # ''@@'' @ t) = Some t" for t
    using match_text_own [of "'' +''" t] match_text_own [of "'' @@''" t] by simp_all
  show ?thesis
    unfolding match_chunk_def h match_text_own bind.simps match_range_own prod.case plus ats
    using assms by simp
qed

lemma other_headers:
  "match_rest ''--- '' (chunk_header c) = None" "match_rest ''+++ '' (chunk_header c) = None"
  by (simp_all add: match_rest_def chunk_header_def startswith_def)

definition line_ok :: "chunk_line \<Rightarrow> bool" where
  "line_ok l \<longleftrightarrow> cl_type l \<noteq> UNSET \<and> newline \<notin> set (cl_text l)"

text \<open>The lines that the reader takes for the head of a file.\<close>

definition looks_like_header :: "chunk_line \<Rightarrow> bool" where
  "looks_like_header l \<longleftrightarrow>
     (cl_type l = SRC \<and> startswith (cl_text l) ''-- '') \<or> (cl_type l = DST \<and> startswith (cl_text l) ''++ '')"

definition chunk_ok :: "chunk \<Rightarrow> bool" where
  "chunk_ok c \<longleftrightarrow> 0 \<le> src_pos c \<and> 0 \<le> dst_pos c \<and> list_all line_ok (ck_lines c)"

definition patch_ok :: "patch \<Rightarrow> bool" where
  "patch_ok p \<longleftrightarrow> newline \<notin> set (p_src p) \<and> newline \<notin> set (p_dst p) \<and> list_all chunk_ok (p_chunks p)"

definition patch_lines :: "patch \<Rightarrow> chunk_line list" where
  "patch_lines p = concat (List.map ck_lines (p_chunks p))"

definition line_text :: "chunk_line \<Rightarrow> string" where
  "line_text l =
     (case cl_type l of DST \<Rightarrow> ''+'' | BOTH \<Rightarrow> '' '' | _ \<Rightarrow> ''-'') @ cl_text l @ [newline]"

definition chunk_text :: "chunk \<Rightarrow> string list" where
  "chunk_text c = chunk_header c # List.map line_text (ck_lines c)"

definition patch_text :: "patch \<Rightarrow> string list" where
  "patch_text p = (''--- '' @ p_src p @ [newline]) # (''+++ '' @ p_dst p @ [newline]) # concat (List.map chunk_text (p_chunks p))"

lemma write_line_ok: "line_ok l \<Longrightarrow> write_line l = Inr (line_text l)"
  by (cases "cl_type l") (simp_all add: write_line_def line_text_def line_ok_def)

lemma write_chunk_ok: "chunk_ok c \<Longrightarrow> write_chunk c = Inr (chunk_text c)"
  using map_res_Inr [of "ck_lines c" write_line line_text]
  by (simp add: write_chunk_def chunk_ok_def list_all_iff write_line_ok chunk_text_def chunk_header_def)

lemma write_patch_ok: "patch_ok p \<Longrightarrow> write_patch p = Inr (patch_text p)"
  using map_res_Inr [of "p_chunks p" write_chunk chunk_text]
  by (simp add: write_patch_def patch_ok_def list_all_iff write_chunk_ok patch_text_def)

lemma read_body_line:
  assumes "line_ok l" "\<not> looks_like_header l"
  shows "read_patch_line r (line_text l) = add_line (cl_type l) (cl_text l) r"
proof (cases "cl_type l")
  case UNSET
  then show ?thesis using assms(1) by (simp add: line_ok_def)
next
  case SRC
  have t: "line_text l = ''-'' @ cl_text l @ [newline]" by (simp add: line_text_def SRC)
  have "\<not> startswith (''-'' @ cl_text l @ [newline]) ''--- ''"
    using assms(2) SRC
    by (cases "cl_text l" rule: list.exhaust; cases "tl (cl_text l)"; cases "tl (tl (cl_text l))")
      (auto simp: looks_like_header_def startswith_def)
  then show ?thesis
    using assms(1) SRC match_rest_own [of "cl_text l" "''-''"] unfolding t
    by (simp add: read_patch_line_def match_rest_def match_chunk_def match_text_def startswith_def line_ok_def)
next
  case DST
  have t: "line_text l = ''+'' @ cl_text l @ [newline]" by (simp add: line_text_def DST)
  have "\<not> startswith (''+'' @ cl_text l @ [newline]) ''+++ ''"
    using assms(2) DST
    by (cases "cl_text l" rule: list.exhaust; cases "tl (cl_text l)"; cases "tl (tl (cl_text l))")
      (auto simp: looks_like_header_def startswith_def)
  then show ?thesis
    using assms(1) DST match_rest_own [of "cl_text l" "''+''"] unfolding t
    by (simp add: read_patch_line_def match_rest_def match_chunk_def match_text_def startswith_def line_ok_def)
next
  case BOTH
  have t: "line_text l = '' '' @ cl_text l @ [newline]" by (simp add: line_text_def BOTH)
  show ?thesis
    using assms(1) BOTH match_rest_own [of "cl_text l" "'' ''"] unfolding t
    by (simp add: read_patch_line_def match_rest_def match_chunk_def match_text_def startswith_def line_ok_def)
qed

lemma update_last_snoc [simp]: "update_last f (xs @ [x]) = xs @ [f x]"
  by (simp add: update_last_def)

lemma read_lines:
  assumes "list_all line_ok ls" "list_all (\<lambda>l. \<not> looks_like_header l) ls"
  shows "foldM read_patch_line
       \<lparr>patchset = ps @ [p\<lparr>p_chunks := cs @ [c]\<rparr>], chunk_owner = Some (length ps)\<rparr> (List.map line_text ls) =
     Inr \<lparr>patchset = ps @ [p\<lparr>p_chunks := cs @ [c\<lparr>ck_lines := ck_lines c @ ls\<rparr>]\<rparr>], chunk_owner = Some (length ps)\<rparr>"
  using assms
proof (induction ls arbitrary: c)
  case Nil
  then show ?case by simp
next
  case (Cons l ls)
  then show ?case
    by (simp add: read_body_line add_line_def)
qed

lemma read_chunk:
  assumes "chunk_ok c" "list_all (\<lambda>l. \<not> looks_like_header l) (ck_lines c)"
  shows "foldM read_patch_line \<lparr>patchset = ps @ [p\<lparr>p_chunks := cs\<rparr>], chunk_owner = ow\<rparr> (chunk_text c) =
     Inr \<lparr>patchset = ps @ [p\<lparr>p_chunks := cs @ [c]\<rparr>], chunk_owner = Some (length ps)\<rparr>"
proof -
  have "read_patch_line \<lparr>patchset = ps @ [p\<lparr>p_chunks := cs\<rparr>], chunk_owner = ow\<rparr> (chunk_header c) =
      Inr \<lparr>patchset = ps @ [p\<lparr>p_chunks := cs @ [\<lparr>ck_lines = [], src_pos = src_pos c, dst_pos = dst_pos c\<rparr>]\<rparr>],
           chunk_owner = Some (length ps)\<rparr>"
    using assms(1) by (simp add: read_patch_line_def other_headers match_chunk_header chunk_ok_def)
  then show ?thesis
    using assms read_lines [of "ck_lines c", where c = "\<lparr>ck_lines = [], src_pos = src_pos c, dst_pos = dst_pos c\<rparr>"]
    by (simp add: chunk_text_def chunk_ok_def)
qed

lemma read_chunks:
  assumes "list_all chunk_ok cs" "list_all (\<lambda>c. list_all (\<lambda>l. \<not> looks_like_header l) (ck_lines c)) cs"
  shows "\<exists>ow'. foldM read_patch_line \<lparr>patchset = ps @ [p\<lparr>p_chunks := ds\<rparr>], chunk_owner = ow\<rparr> (concat (List.map chunk_text cs)) =
     Inr \<lparr>patchset = ps @ [p\<lparr>p_chunks := ds @ cs\<rparr>], chunk_owner = ow'\<rparr>"
  using assms
proof (induction cs arbitrary: ds ow)
  case Nil
  then show ?case by simp
next
  case (Cons c cs)
  have "\<exists>ow'. foldM read_patch_line \<lparr>patchset = ps @ [p\<lparr>p_chunks := ds @ [c]\<rparr>], chunk_owner = Some (length ps)\<rparr>
      (concat (List.map chunk_text cs)) = Inr \<lparr>patchset = ps @ [p\<lparr>p_chunks := (ds @ [c]) @ cs\<rparr>], chunk_owner = ow'\<rparr>"
    by (rule Cons.IH) (use Cons.prems in simp_all)
  then show ?case
    using Cons.prems read_chunk [of c] by (simp add: foldM_append)
qed

lemma read_patch:
  assumes "patch_ok p" "list_all (\<lambda>l. \<not> looks_like_header l) (patch_lines p)"
  shows "\<exists>ow'. foldM read_patch_line \<lparr>patchset = ps, chunk_owner = ow\<rparr> (patch_text p) =
     Inr \<lparr>patchset = ps @ [p], chunk_owner = ow'\<rparr>"
proof -
  have a: "read_patch_line \<lparr>patchset = ps, chunk_owner = ow\<rparr> (''--- '' @ p_src p @ [newline]) =
      Inr \<lparr>patchset = ps @ [\<lparr>p_src = p_src p, p_dst = [], p_chunks = []\<rparr>], chunk_owner = ow\<rparr>"
    using assms(1) match_rest_own [of "p_src p" "''--- ''"] by (simp add: read_patch_line_def patch_ok_def)
  have "match_rest ''--- '' (''+++ '' @ p_dst p @ [newline]) = None"
    by (simp add: match_rest_def startswith_def)
  then have b: "read_patch_line \<lparr>patchset = ps @ [\<lparr>p_src = p_src p, p_dst = [], p_chunks = []\<rparr>], chunk_owner = ow\<rparr>
      (''+++ '' @ p_dst p @ [newline]) =
      Inr \<lparr>patchset = ps @ [p\<lparr>p_chunks := []\<rparr>], chunk_owner = ow\<rparr>"
    using assms(1) match_rest_own [of "p_dst p" "''+++ ''"]
    by (simp add: read_patch_line_def patch_ok_def)
  have "list_all (\<lambda>c. list_all (\<lambda>l. \<not> looks_like_header l) (ck_lines c)) (p_chunks p)"
    using assms(2) by (auto simp: patch_lines_def list_all_iff)
  then obtain ow' where "foldM read_patch_line \<lparr>patchset = ps @ [p\<lparr>p_chunks := []\<rparr>], chunk_owner = ow\<rparr>
      (concat (List.map chunk_text (p_chunks p))) = Inr \<lparr>patchset = ps @ [p\<lparr>p_chunks := [] @ p_chunks p\<rparr>], chunk_owner = ow'\<rparr>"
    using read_chunks [where cs = "p_chunks p" and ps = ps and p = p and ds = "[]" and ow = ow] assms(1)
    unfolding patch_ok_def by blast
  then show ?thesis
    unfolding patch_text_def foldM.simps a rbind.simps b by simp
qed

lemma read_patches:
  assumes "list_all patch_ok qs" "list_all (\<lambda>p. list_all (\<lambda>l. \<not> looks_like_header l) (patch_lines p)) qs"
  shows "\<exists>ow'. foldM read_patch_line \<lparr>patchset = ps, chunk_owner = ow\<rparr> (concat (List.map patch_text qs)) =
     Inr \<lparr>patchset = ps @ qs, chunk_owner = ow'\<rparr>"
  using assms
proof (induction qs arbitrary: ps ow)
  case Nil
  then show ?case by simp
next
  case (Cons q qs)
  obtain ow1 where one: "foldM read_patch_line \<lparr>patchset = ps, chunk_owner = ow\<rparr> (patch_text q) =
      Inr \<lparr>patchset = ps @ [q], chunk_owner = ow1\<rparr>"
    using read_patch [of q ps ow] Cons.prems by auto
  have "\<exists>ow'. foldM read_patch_line \<lparr>patchset = ps @ [q], chunk_owner = ow1\<rparr> (concat (List.map patch_text qs)) =
      Inr \<lparr>patchset = (ps @ [q]) @ qs, chunk_owner = ow'\<rparr>"
    by (rule Cons.IH) (use Cons.prems in simp_all)
  then show ?case using one by (simp add: foldM_append)
qed


text \<open>Conversely a line that looks like a header is lost: the result has fewer lines.\<close>

definition total_lines :: "patch list \<Rightarrow> nat" where
  "total_lines ps = sum_list (List.map (\<lambda>p. length (patch_lines p)) ps)"

definition reader_ok :: "reader \<Rightarrow> bool" where
  "reader_ok r \<longleftrightarrow>
     (case chunk_owner r of None \<Rightarrow> True
      | Some k \<Rightarrow> k < length (patchset r) \<and> p_chunks (patchset r ! k) \<noteq> [])"

definition body_line :: "string \<Rightarrow> bool" where
  "body_line l \<longleftrightarrow> match_rest ''--- '' l = None \<and> match_rest ''+++ '' l = None \<and> match_chunk l = None"

lemma add_line_total:
  assumes "reader_ok r" "add_line t s r = Inr r'"
  shows "reader_ok r' \<and> total_lines (patchset r') = Suc (total_lines (patchset r))"
proof -
  obtain k where k: "chunk_owner r = Some k" "k < length (patchset r)" "p_chunks (patchset r ! k) \<noteq> []"
    using assms by (auto simp: add_line_def reader_ok_def split: option.splits)
  obtain cs c where cs: "p_chunks (patchset r ! k) = cs @ [c]" using k(3) by (metis rev_exhaust)
  define q where "q = (patchset r ! k)\<lparr>p_chunks := cs @ [c\<lparr>ck_lines := ck_lines c @ [\<lparr>cl_type = t, cl_text = s\<rparr>]\<rparr>]\<rparr>"
  have r': "r' = r\<lparr>patchset := (patchset r)[k := q]\<rparr>"
    using assms(2) k(1) cs by (simp add: add_line_def q_def)
  have q: "length (patch_lines q) = Suc (length (patch_lines (patchset r ! k)))"
    using cs by (simp add: q_def patch_lines_def)
  have "length (patch_lines (patchset r ! k)) \<le> total_lines (patchset r)"
    using k(2) by (auto simp: total_lines_def intro!: member_le_sum_list)
  then show ?thesis
    using k q by (simp add: r' reader_ok_def q_def total_lines_def map_update sum_list_update)
qed


lemma total_lines_append [simp]: "total_lines (ps @ qs) = total_lines ps + total_lines qs"
  by (simp add: total_lines_def)

lemma update_last_total:
  "ps \<noteq> [] \<Longrightarrow> length (patch_lines (f (last ps))) = length (patch_lines (last ps)) \<Longrightarrow>
     total_lines (update_last f ps) = total_lines ps"
  by (cases ps rule: rev_exhaust) (simp_all add: total_lines_def)

lemma update_last_ok:
  assumes "reader_ok r" "patchset r \<noteq> []"
    "p_chunks (last (patchset r)) \<noteq> [] \<Longrightarrow> p_chunks (f (last (patchset r))) \<noteq> []"
  shows "reader_ok (r\<lparr>patchset := update_last f (patchset r)\<rparr>)"
  using assms by (cases "patchset r" rule: rev_exhaust)
    (auto simp: reader_ok_def nth_append less_Suc_eq split: option.splits if_splits)

lemma read_line_total:
  assumes "reader_ok r" "read_patch_line r l = Inr r'"
  shows "reader_ok r' \<and> total_lines (patchset r') = total_lines (patchset r) + (if body_line l then 1 else 0)"
proof (cases "match_rest ''--- '' l")
  case (Some s)
  then show ?thesis
    using assms by (auto simp: read_patch_line_def reader_ok_def body_line_def total_lines_def patch_lines_def nth_append
        split: option.splits)
next
  case n1: None
  show ?thesis
  proof (cases "match_rest ''+++ '' l")
    case (Some s)
    then have ne: "patchset r \<noteq> []" and r': "r' = r\<lparr>patchset := update_last (\<lambda>p. p\<lparr>p_dst := s\<rparr>) (patchset r)\<rparr>"
      using assms(2) n1 by (auto simp: read_patch_line_def split: if_splits)
    show ?thesis
      using update_last_ok [OF assms(1) ne, of "\<lambda>p. p\<lparr>p_dst := s\<rparr>"]
        update_last_total [OF ne, of "\<lambda>p. p\<lparr>p_dst := s\<rparr>"] Some
      by (simp add: r' body_line_def patch_lines_def)
  next
    case n2: None
    show ?thesis
    proof (cases "match_chunk l")
      case (Some ab)
      obtain a b where ab: "ab = (a, b)" by (cases ab)
      obtain qs q where qs: "patchset r = qs @ [q]"
        using assms(2) n1 n2 Some ab by (cases "patchset r" rule: rev_exhaust) (auto simp: read_patch_line_def)
      then have "r' = r\<lparr>patchset := qs @ [q\<lparr>p_chunks := p_chunks q @ [\<lparr>ck_lines = [], src_pos = a, dst_pos = b\<rparr>]\<rparr>],
          chunk_owner := Some (length qs)\<rparr>"
        using assms(2) n1 n2 Some ab by (simp add: read_patch_line_def)
      then show ?thesis
        using Some qs by (simp add: reader_ok_def body_line_def total_lines_def patch_lines_def)
    next
      case None
      then have "\<exists>t s. add_line t s r = Inr r'"
        using assms(2) n1 n2 by (auto simp: read_patch_line_def split: option.splits)
      then show ?thesis using add_line_total assms(1) n1 n2 None by (auto simp: body_line_def)
    qed
  qed
qed

lemma read_total:
  assumes "reader_ok r" "foldM read_patch_line r ls = Inr r'"
  shows "total_lines (patchset r') = total_lines (patchset r) + length (List.filter body_line ls)"
  using assms
proof (induction ls arbitrary: r)
  case Nil
  then show ?case by simp
next
  case (Cons l ls)
  then obtain s where s: "read_patch_line r l = Inr s" "foldM read_patch_line s ls = Inr r'"
    by (auto simp: py_simps)
  show ?case using read_line_total [OF Cons.prems(1) s(1)] Cons.IH [OF _ s(2)] by simp
qed

lemma header_line_lost:
  assumes "looks_like_header l" "line_ok l"
  shows "\<not> body_line (line_text l)"
proof -
  have "match_rest ''--- '' (line_text l) \<noteq> None" if t: "cl_type l = SRC" and h: "startswith (cl_text l) ''-- ''"
  proof -
    obtain u where "cl_text l = ''-- '' @ u" using h by (auto simp: startswith_def prefix_def)
    then have "line_text l = ''--- '' @ u @ [newline]" "newline \<notin> set u"
      using t assms(2) by (simp_all add: line_text_def line_ok_def)
    then show ?thesis using match_rest_own [of u "''--- ''"] by (simp only: option.distinct) simp
  qed
  moreover have "match_rest ''+++ '' (line_text l) \<noteq> None" if t: "cl_type l = DST" and h: "startswith (cl_text l) ''++ ''"
  proof -
    obtain u where "cl_text l = ''++ '' @ u" using h by (auto simp: startswith_def prefix_def)
    then have "line_text l = ''+++ '' @ u @ [newline]" "newline \<notin> set u"
      using t assms(2) by (simp_all add: line_text_def line_ok_def)
    then show ?thesis using match_rest_own [of u "''+++ ''"] by (simp only: option.distinct) simp
  qed
  ultimately show ?thesis using assms(1) by (auto simp: looks_like_header_def body_line_def)
qed

lemma body_lines_patch:
  assumes "patch_ok p"
  shows "length (List.filter body_line (patch_text p)) \<le> length (List.filter (\<lambda>l. \<not> looks_like_header l) (patch_lines p))"
proof -
  have lines: "length (List.filter body_line (List.map line_text ls)) \<le> length (List.filter (\<lambda>l. \<not> looks_like_header l) ls)"
    if "list_all line_ok ls" for ls
    using that by (induction ls) (auto dest: header_line_lost)
  have chunks: "length (List.filter body_line (concat (List.map chunk_text cs))) \<le>
      length (List.filter (\<lambda>l. \<not> looks_like_header l) (concat (List.map ck_lines cs)))" if "list_all chunk_ok cs" for cs
    using that
  proof (induction cs)
    case Nil
    then show ?case by simp
  next
    case (Cons c cs)
    have "\<not> body_line (chunk_header c)"
      using Cons.prems match_chunk_header [of c] by (simp add: body_line_def chunk_ok_def)
    then show ?case
      using Cons lines [of "ck_lines c"] by (simp add: chunk_text_def chunk_ok_def)
  qed
  have "\<not> body_line (''--- '' @ p_src p @ [newline])" "\<not> body_line (''+++ '' @ p_dst p @ [newline])"
    using assms match_rest_own [of "p_src p" "''--- ''"] match_rest_own [of "p_dst p" "''+++ ''"]
    by (simp_all add: body_line_def patch_ok_def)
  then show ?thesis
    using chunks [of "p_chunks p"] assms by (simp add: patch_text_def patch_lines_def patch_ok_def)
qed

lemma total_text:
  assumes "list_all patch_ok ps"
  shows "length (List.filter body_line (concat (List.map patch_text ps))) \<le>
    total_lines ps - length (List.filter looks_like_header (concat (List.map patch_lines ps)))"
proof -
  have "length (List.filter body_line (concat (List.map patch_text ps))) \<le>
      length (List.filter (\<lambda>l. \<not> looks_like_header l) (concat (List.map patch_lines ps)))"
    using assms by (induction ps) (auto dest!: body_lines_patch)
  moreover have "total_lines ps = length (concat (List.map patch_lines ps))"
    by (simp add: total_lines_def length_concat comp_def)
  ultimately show ?thesis
    using sum_length_filter_compl [of looks_like_header "concat (List.map patch_lines ps)"] by simp
qed


section \<open>Laws of the white space loop\<close>

text \<open>The text that the line should get: the source text where one blank was cut off.\<close>

definition restored :: "string \<Rightarrow> string \<Rightarrow> string" where
  "restored s d = (case trailing_blank s of None \<Rightarrow> d | Some (body, blank) \<Rightarrow> (if body = d then s else d))"

lemma trailing_blank_eq:
  assumes "trailing_blank s = Some (body, blank)"
  shows "s = body @ blank"
proof -
  have "s \<noteq> []" "body = butlast s" "blank = [last s]"
    using assms by (simp_all add: trailing_blank_def split: if_splits)
  then show ?thesis by (metis append_butlast_last_id)
qed

lemma restored_iff:
  "restored s d = (if s \<noteq> [] \<and> last s \<in> {CHR '' '', CHR 0x09} \<and> butlast s = d then s else d)"
  by (auto simp: restored_def trailing_blank_def)

lemma restored_same [simp]: "restored s s = s"
  by (simp add: restored_iff)

text \<open>
  A chunk is aligned when the lines paired by index are the same line or a removed
  line and an added one.
\<close>

definition aligned :: "chunk_line list \<Rightarrow> nat list \<Rightarrow> nat list \<Rightarrow> bool" where
  "aligned ls ss ds \<longleftrightarrow> length ss = length ds \<and>
     list_all (\<lambda>(s, d). s < length ls \<and> d < length ls \<and>
       (s = d \<or> (\<not> is_dst (ls ! s) \<and> \<not> is_src (ls ! d)))) (zip ss ds)"

lemma restore_loop_aligned:
  assumes "aligned ls ss ds" "list_all (\<lambda>s. s < length ls \<and> is_src (ls ! s)) ss"
    "list_all (\<lambda>d. d < length ls \<and> is_dst (ls ! d)) ds" "distinct ds"
  shows "\<exists>ls'. restore_loop ss ds ls = (ls', False) \<and> length ls' = length ls \<and>
    (\<forall>k. k \<notin> set ds \<longrightarrow> ls' ! k = ls ! k) \<and>
    (\<forall>i < length ds. ls' ! (ds ! i) = (ls ! (ds ! i))\<lparr>cl_text := restored (cl_text (ls ! (ss ! i))) (cl_text (ls ! (ds ! i)))\<rparr>)"
  using assms
proof (induction ss ds arbitrary: ls rule: list_induct2')
  case (4 s ss d ds)
  define l where "l = (ls ! d)\<lparr>cl_text := restored (cl_text (ls ! s)) (cl_text (ls ! d))\<rparr>"
  define ms where "ms = ls[d := l]"
  have sd: "s < length ls" "d < length ls" "s = d \<or> (\<not> is_dst (ls ! s) \<and> \<not> is_src (ls ! d))" "is_src (ls ! s)" "is_dst (ls ! d)"
    using 4(2-4) by (simp_all add: aligned_def)
  have step: "restore_loop (s # ss) (d # ds) ls = restore_loop ss ds ms"
  proof (cases "trailing_blank (cl_text (ls ! s))")
    case None
    then have "l = ls ! d" by (simp add: l_def restored_def)
    then show ?thesis using None by (simp add: ms_def)
  next
    case (Some bb)
    obtain body blank where bb: "bb = (body, blank)" by (cases bb)
    have "cl_text (ls ! s) = body @ blank" using Some bb trailing_blank_eq by simp
    then have "l = (ls ! d)\<lparr>cl_text := if body = cl_text (ls ! d) then cl_text (ls ! d) @ blank else cl_text (ls ! d)\<rparr>"
      using Some bb by (simp add: l_def restored_def)
    then show ?thesis using Some bb by (cases "body = cl_text (ls ! d)") (simp_all add: ms_def)
  qed
  have types: "is_src (ms ! k) = is_src (ls ! k)" "is_dst (ms ! k) = is_dst (ls ! k)" for k
    using sd(2) by (cases "k = d"; simp add: ms_def l_def is_src_def is_dst_def)+
  have "aligned ms ss ds" "list_all (\<lambda>s. s < length ms \<and> is_src (ms ! s)) ss"
    "list_all (\<lambda>d. d < length ms \<and> is_dst (ms ! d)) ds" "distinct ds"
    using 4(2-5) unfolding aligned_def types by (simp_all add: ms_def)
  from 4(1) [OF this] obtain ls' where ls': "restore_loop ss ds ms = (ls', False)" "length ls' = length ms"
    "\<forall>k. k \<notin> set ds \<longrightarrow> ls' ! k = ms ! k"
    "\<forall>i < length ds. ls' ! (ds ! i) = (ms ! (ds ! i))\<lparr>cl_text := restored (cl_text (ms ! (ss ! i))) (cl_text (ms ! (ds ! i)))\<rparr>"
    by blast
  have d_out: "d \<notin> set ds" using 4(5) by simp
  have "ms ! (ds ! i) = ls ! (ds ! i)" if "i < length ds" for i
    using that d_out by (metis ms_def nth_list_update_neq nth_mem)
  moreover have src: "ms ! (ss ! i) = ls ! (ss ! i)" if i: "i < length ds" for i
  proof (cases "ss ! i = d")
    case True
    have len: "length ss = length ds" using 4(2) by (simp add: aligned_def)
    have "(ss ! i, ds ! i) \<in> set (zip ss ds)" using i len by (auto simp: in_set_zip)
    then have "ss ! i = ds ! i \<or> \<not> is_dst (ls ! (ss ! i))"
      using 4(2) by (auto simp: aligned_def list_all_iff)
    then show ?thesis using True sd(5) i d_out by (metis nth_mem)
  next
    case False
    then show ?thesis by (simp add: ms_def)
  qed
  moreover have "ls' ! d = l" using ls'(3) d_out sd(2) by (simp add: ms_def)
  ultimately have all: "\<forall>i < length (d # ds). ls' ! ((d # ds) ! i) =
      (ls ! ((d # ds) ! i))\<lparr>cl_text := restored (cl_text (ls ! ((s # ss) ! i))) (cl_text (ls ! ((d # ds) ! i)))\<rparr>"
    using ls'(4) by (auto simp: less_Suc_eq_0_disj l_def)
  have "\<forall>k. k \<notin> set (d # ds) \<longrightarrow> ls' ! k = ls ! k" using ls'(3) by (simp add: ms_def)
  then show ?case using step ls'(1,2) all by (intro exI [of _ ls']) (simp add: ms_def)
qed (simp_all add: aligned_def)


lemma positions_set: "k \<in> set (positions P ls) \<longleftrightarrow> k < length ls \<and> P (ls ! k)"
  by (auto simp: positions_def)

lemma positions_distinct [simp]: "distinct (positions P ls)"
  by (simp add: positions_def)

lemma positions_filter: "List.map ((!) ls) (positions P ls) = List.filter P ls"
proof -
  have "List.filter P (List.map ((!) ls) [0..<length ls]) = List.map ((!) ls) (positions P ls)"
    by (simp add: positions_def filter_map comp_def)
  then show ?thesis by (simp only: map_nth)
qed

lemma positions_cong:
  assumes "length ms = length ls" "\<And>k. k < length ls \<Longrightarrow> P (ms ! k) \<longleftrightarrow> P (ls ! k)"
  shows "positions P ms = positions P ls"
  unfolding positions_def assms(1) by (rule filter_cong) (simp_all add: assms(2))

definition src_texts :: "chunk \<Rightarrow> string list" where
  "src_texts c = List.map cl_text (List.filter is_src (ck_lines c))"

definition dst_texts :: "chunk \<Rightarrow> string list" where
  "dst_texts c = List.map cl_text (List.filter is_dst (ck_lines c))"

text \<open>
  A chunk is paired when both sides have as many lines and a line of both sides is
  paired with itself.
\<close>

definition paired :: "chunk \<Rightarrow> bool" where
  "paired c \<longleftrightarrow> aligned (ck_lines c) (positions is_src (ck_lines c)) (positions is_dst (ck_lines c))"

lemma texts_positions:
  "src_texts c = List.map (\<lambda>k. cl_text (ck_lines c ! k)) (positions is_src (ck_lines c))"
  "dst_texts c = List.map (\<lambda>k. cl_text (ck_lines c ! k)) (positions is_dst (ck_lines c))"
  by (simp_all add: src_texts_def dst_texts_def flip: positions_filter)

lemma restore_chunk_paired:
  assumes "paired c"
  shows "\<exists>c'. restore_chunk c = (c', False) \<and> src_texts c' = src_texts c \<and>
    dst_texts c' = map2 restored (src_texts c) (dst_texts c) \<and>
    src_pos c' = src_pos c \<and> dst_pos c' = dst_pos c \<and>
    List.map cl_type (ck_lines c') = List.map cl_type (ck_lines c)"
proof -
  define ls where "ls = ck_lines c"
  define ss where "ss = positions is_src ls"
  define ds where "ds = positions is_dst ls"
  have al: "aligned ls ss ds" using assms by (simp add: paired_def ls_def ss_def ds_def)
  have len: "length ss = length ds" using al by (simp add: aligned_def)
  have "list_all (\<lambda>s. s < length ls \<and> is_src (ls ! s)) ss" "list_all (\<lambda>d. d < length ls \<and> is_dst (ls ! d)) ds" "distinct ds"
    by (simp_all add: list_all_iff ss_def ds_def positions_set)
  from restore_loop_aligned [OF al this] obtain ms where ms: "restore_loop ss ds ls = (ms, False)" "length ms = length ls"
    "\<forall>k. k \<notin> set ds \<longrightarrow> ms ! k = ls ! k"
    "\<forall>i < length ds. ms ! (ds ! i) = (ls ! (ds ! i))\<lparr>cl_text := restored (cl_text (ls ! (ss ! i))) (cl_text (ls ! (ds ! i)))\<rparr>"
    by blast
  have type: "cl_type (ms ! k) = cl_type (ls ! k)" for k
  proof (cases "k \<in> set ds")
    case True
    then obtain i where "i < length ds" "ds ! i = k" by (auto simp: in_set_conv_nth)
    then show ?thesis using ms(4) by auto
  qed (use ms(3) in simp)
  then have pos: "positions is_src ms = ss" "positions is_dst ms = ds"
    unfolding ss_def ds_def using ms(2) by (auto intro!: positions_cong simp: is_src_def is_dst_def)
  have src: "cl_text (ms ! k) = cl_text (ls ! k)" if k: "k \<in> set ss" for k
  proof (cases "k \<in> set ds")
    case True
    then obtain i where i: "i < length ds" "ds ! i = k" by (auto simp: in_set_conv_nth)
    have "(ss ! i, k) \<in> set (zip ss ds)" using i len by (auto simp: in_set_zip)
    moreover have "is_src (ls ! k)" using k by (simp add: ss_def positions_set)
    ultimately have "ss ! i = k" using al by (auto simp: aligned_def list_all_iff)
    then show ?thesis using ms(4) i by auto
  qed (use ms(3) in simp)
  define c' where "c' = c\<lparr>ck_lines := ms\<rparr>"
  have "restore_chunk c = (c', False)"
    using ms(1) by (simp add: restore_chunk_def c'_def ls_def ss_def ds_def)
  moreover have "src_texts c' = src_texts c"
    using src pos(1) by (simp add: texts_positions c'_def flip: ls_def ss_def)
  moreover have "dst_texts c' = map2 restored (src_texts c) (dst_texts c)"
    using ms(4) pos len unfolding texts_positions
    by (intro nth_equalityI) (simp_all add: c'_def flip: ls_def ss_def ds_def)
  moreover have "List.map cl_type (ck_lines c') = List.map cl_type (ck_lines c)"
    using ms(2) type by (intro nth_equalityI) (simp_all add: c'_def flip: ls_def)
  ultimately show ?thesis by (intro exI [of _ c']) (simp add: c'_def)
qed


section \<open>Properties\<close>

text \<open>C11. Writing a list of patches and reading the lines back gives the patches,
  provided that no removed line starts with two dashes and a blank and no added
  line with two plus signs and a blank; otherwise the reader takes such a line
  for the head of a file and the patches do not come back.\<close>

theorem patch_roundtrip:
  assumes "list_all patch_ok ps"
  shows "\<exists>texts. map_res write_patch ps = Inr texts \<and>
    (parse_patchset (concat texts) = Inr ps \<longleftrightarrow>
      \<not> (\<exists>p \<in> set ps. \<exists>l \<in> set (patch_lines p). looks_like_header l))"
proof -
  have texts: "map_res write_patch ps = Inr (List.map patch_text ps)"
    using assms map_res_Inr [of ps write_patch patch_text] by (simp add: list_all_iff write_patch_ok)
  define ls where "ls = concat (List.map patch_text ps)"
  have "parse_patchset ls = Inr ps" if "\<not> (\<exists>p \<in> set ps. \<exists>l \<in> set (patch_lines p). looks_like_header l)"
    using read_patches [OF assms, of "[]" None] that by (auto simp: parse_patchset_def ls_def list_all_iff)
  moreover have False if bad: "\<exists>p \<in> set ps. \<exists>l \<in> set (patch_lines p). looks_like_header l"
      and read: "parse_patchset ls = Inr ps"
  proof -
    have "total_lines ps = length (concat (List.map patch_lines ps))"
      by (simp add: total_lines_def length_concat comp_def)
    then have headers: "length (List.filter looks_like_header (concat (List.map patch_lines ps))) \<le> total_lines ps"
      using length_filter_le [of looks_like_header "concat (List.map patch_lines ps)"] by linarith
    have "List.filter looks_like_header (concat (List.map patch_lines ps)) \<noteq> []"
      using bad by (auto simp: filter_empty_conv)
    then have "0 < length (List.filter looks_like_header (concat (List.map patch_lines ps)))"
      by (rule length_greater_0_conv [THEN iffD2])
    then have "length (List.filter body_line ls) < total_lines ps"
      using total_text [OF assms, folded ls_def] headers by linarith
    moreover obtain r where "foldM read_patch_line \<lparr>patchset = [], chunk_owner = None\<rparr> ls = Inr r" "patchset r = ps"
      using read by (auto simp: parse_patchset_def py_simps)
    then have "total_lines ps = length (List.filter body_line ls)"
      using read_total [of "\<lparr>patchset = [], chunk_owner = None\<rparr>" ls r] by (simp add: reader_ok_def total_lines_def)
    ultimately show False by simp
  qed
  ultimately show ?thesis using texts by (auto simp: ls_def)
qed

lemma patch_roundtrip_witness:
  "\<exists>texts. map_res write_patch [\<lparr>p_src = ''a.cc'', p_dst = ''b.cc'', p_chunks =
      [\<lparr>ck_lines = [\<lparr>cl_type = SRC, cl_text = ''-- i;''\<rparr>], src_pos = 1, dst_pos = 1\<rparr>]\<rparr>] = Inr texts \<and>
     parse_patchset (concat texts) \<noteq> Inr [\<lparr>p_src = ''a.cc'', p_dst = ''b.cc'', p_chunks =
      [\<lparr>ck_lines = [\<lparr>cl_type = SRC, cl_text = ''-- i;''\<rparr>], src_pos = 1, dst_pos = 1\<rparr>]\<rparr>]"
  using patch_roundtrip [of "[\<lparr>p_src = ''a.cc'', p_dst = ''b.cc'', p_chunks =
      [\<lparr>ck_lines = [\<lparr>cl_type = SRC, cl_text = ''-- i;''\<rparr>], src_pos = 1, dst_pos = 1\<rparr>]\<rparr>]"]
  by (simp add: patch_ok_def chunk_ok_def line_ok_def looks_like_header_def patch_lines_def startswith_def)


text \<open>Where the lines of both sides of a chunk are paired one by one, the chunk
  keeps its source side and gets a destination side in which every line from
  which exactly one trailing blank was cut has its source text again; any other
  destination line, one that lost two blanks included, stays as it is.\<close>

theorem trailing_blank_restored:
  assumes "paired c"
  shows "\<exists>c'. restore_chunk c = (c', False) \<and> src_texts c' = src_texts c \<and>
    dst_texts c' = map2 (\<lambda>s d. if \<exists>b \<in> {CHR '' '', CHR 0x09}. s = d @ [b] then s else d)
      (src_texts c) (dst_texts c)"
proof -
  have "restored s d = (if \<exists>b \<in> {CHR '' '', CHR 0x09}. s = d @ [b] then s else d)" for s d
    by (auto simp: restored_iff) (metis append_butlast_last_id)+
  then show ?thesis using restore_chunk_paired [OF assms] by (auto simp: fun_eq_iff)
qed

lemma trailing_blank_restored_witness:
  "\<exists>c'. restore_chunk
      \<lparr>ck_lines = [\<lparr>cl_type = SRC, cl_text = ''a ''\<rparr>, \<lparr>cl_type = SRC, cl_text = ''b  ''\<rparr>,
         \<lparr>cl_type = DST, cl_text = ''a''\<rparr>, \<lparr>cl_type = DST, cl_text = ''b''\<rparr>], src_pos = 1, dst_pos = 1\<rparr> = (c', False) \<and>
     dst_texts c' = [''a '', ''b'']"
  using trailing_blank_restored [of
      "\<lparr>ck_lines = [\<lparr>cl_type = SRC, cl_text = ''a ''\<rparr>, \<lparr>cl_type = SRC, cl_text = ''b  ''\<rparr>,
         \<lparr>cl_type = DST, cl_text = ''a''\<rparr>, \<lparr>cl_type = DST, cl_text = ''b''\<rparr>], src_pos = 1, dst_pos = 1\<rparr>"]
  by (auto simp: paired_def aligned_def positions_def is_src_def is_dst_def src_texts_def dst_texts_def numeral_eq_Suc)

text \<open>With the debug option the difference is used up by the debug file, so the
  patch to apply is empty: whatever the indenter changes, every file keeps its
  text, is reported well indented and is left alone by the in-place option.\<close>

theorem debug_finds_nothing:
  assumes "\<And>source. apply_patch [] source = source" "list_all (dhas fs) names"
  shows "\<exists>fs'. indent_files (indent uncrustify unified_diff apply_patch True level) inplace names fs = Inr (fs', True, []) \<and>
    dget fs' = dget fs"
proof -
  define ind where "ind = indent uncrustify unified_diff apply_patch True level"
  have ind: "ind src = Inr src" for src
    using assms(1) by (simp add: ind_def indent_def patch_to_apply_def remove_trailing_whitespace_changes_def parse_patchset_def)
  define pairs where "pairs = List.map (\<lambda>f. (f, the (dget fs f))) names"
  have old: "list_all (\<lambda>(f, dst). dget fs f = Some dst) pairs"
    using assms(2) by (auto simp: pairs_def list_all_iff)
  have "rbind (dindex fs f) (\<lambda>src. rbind (ind src) (\<lambda>dst. Inr (f, dst))) = Inr (f, the (dget fs f))" if "f \<in> set names" for f
    using that assms(2) by (auto simp: list_all_iff dindex_def ind split: option.splits)
  then have read: "map_res (\<lambda>f. rbind (dindex fs f) (\<lambda>src. rbind (ind src) (\<lambda>dst. Inr (f, dst)))) names = Inr pairs"
    unfolding pairs_def by (rule map_res_Inr)
  have "dget (fold (\<lambda>(f, dst) fs. dset f dst fs) ps gs) = dget gs" if "list_all (\<lambda>(f, dst). dget gs f = Some dst) ps" for ps gs
    using that
  proof (induction ps arbitrary: gs)
    case Nil
    then show ?case by simp
  next
    case (Cons p ps)
    obtain f dst where p: "p = (f, dst)" by fastforce
    have same: "dget (dset f dst gs) = dget gs" using Cons.prems p by (auto simp: fun_eq_iff dict_simps)
    show ?case using Cons.IH [of "dset f dst gs"] Cons.prems p same by (simp add: list_all_iff)
  qed
  from this [OF old] have "dget (fold (\<lambda>(f, dst) fs. dset f dst fs) pairs fs) = dget fs" .
  moreover have "List.filter (\<lambda>(f, dst). dget fs f \<noteq> Some dst) pairs = []"
    using old by (auto simp: list_all_iff filter_empty_conv)
  ultimately show ?thesis
    unfolding ind_def [symmetric] by (simp add: indent_files_def read Let_def)
qed

lemma debug_finds_nothing_witness:
  "\<exists>fs'. indent_files (indent (\<lambda>cfg s. ''int i;'' # s) (\<lambda>s d. d) (\<lambda>p s. if p = [] then s else p) True 0) True
      [''a.cc''] [(''a.cc'', [''int  i;''])] = Inr (fs', True, []) \<and> dget fs' = dget [(''a.cc'', [''int  i;''])]"
  by (rule debug_finds_nothing) simp_all

end
