(* ===== verification/ModuleScan.thy ===== *)
theory ModuleScan
  imports Topsort PyPath "HOL-Library.Char_ord" "HOL-Library.List_Lexorder"
begin

text \<open>
  \<open>bindings/python/ns3modulescan.py\<close> and \<open>ns3modulescan-modular.py\<close>: the path of a
  header below its \<open>ns3\<close> directory, in the old version, which may not end, and in
  the new one.
\<close>

section \<open>Header paths\<close>

text \<open>\<open>os.path.join(*l)\<close> needs an argument.\<close>

definition join_star :: "string list \<Rightarrow> string py_result" where
  "join_star l = (if l = [] then Inl TypeError else Inr (join_all l))"

partial_function (option) walk_up :: "string \<Rightarrow> string list \<Rightarrow> string py_result option" where
  "walk_up head l =
     (if head = [] then Some (Inl AssertionError)
      else if basename head = ''ns3'' then Some (join_star l)
      else walk_up (dirname head) (basename head # l))"

definition get_ns3_relative_path :: "string \<Rightarrow> string py_result option" where
  "get_ns3_relative_path path = walk_up path []"

lemma dirname_prefix: "prefix (dirname p) p"
proof -
  define head where "head = rev (dropWhile (\<lambda>c. c \<noteq> CHR ''/'') (rev p))"
  define bare where "bare = rev (dropWhile (\<lambda>c. c = CHR ''/'') (rev head))"
  have drop: "prefix (rev (dropWhile P (rev s))) s" for P and s :: string
    using suffix_to_prefix [of "dropWhile P (rev s)" "rev s"] suffix_dropWhile [of P "rev s"] by simp
  have "prefix head p" "prefix bare head" unfolding head_def bare_def by (rule drop)+
  moreover have "dirname p = (if bare = [] then head else bare)"
    by (simp only: dirname_def head_def bare_def Let_def)
  ultimately show ?thesis using prefix_order.trans [of bare head p] by (cases "bare = []") simp_all
qed

lemma dirname_shorter: "dirname p \<noteq> p \<Longrightarrow> length (dirname p) < length p"
  using dirname_prefix [of p] by (metis prefix_length_less strict_prefix_def)

text \<open>The new version stops where the path gets no shorter.\<close>

function walk_up_checked :: "string \<Rightarrow> string list \<Rightarrow> string py_result" where
  "walk_up_checked head l =
     (if head = [] then Inl AssertionError
      else if dirname head = head then Inl ValueError
      else if basename head = ''ns3'' then join_star l
      else walk_up_checked (dirname head) (basename head # l))"
  by pat_completeness auto
termination
  by (relation "measure (\<lambda>(head, l). length head)") (auto dest: dirname_shorter)

declare walk_up_checked.simps [simp del]

definition modular_relative_path :: "string \<Rightarrow> string option py_result" where
  "modular_relative_path path =
     (if path = [] then Inr None else rbind (walk_up_checked path []) (\<lambda>h. Inr (Some h)))"


section \<open>Laws of header paths\<close>

lemma str_split_append: "str_split sep (a @ sep # b) = str_split sep a @ str_split sep b"
proof (induction a)
  case Nil
  then show ?case by simp
next
  case (Cons c a)
  then show ?case by (cases "str_split sep a") auto
qed

lemma path_parts_append [simp]: "path_parts (a @ CHR ''/'' # b) = path_parts a @ path_parts b"
  by (simp add: path_parts_def str_split_append)

lemma path_parts_word [simp]: "CHR ''/'' \<notin> set w \<Longrightarrow> path_parts w = (if w = [] then [] else [w])"
  by (simp add: path_parts_def str_split_no_sep)

lemma path_parts_slash [simp]: "path_parts (a @ [CHR ''/'']) = path_parts a"
  using path_parts_append [of a "[]"] by (simp add: path_parts_def)

lemma path_parts_slashes [simp]: "path_parts (a @ replicate n CHR ''/'') = path_parts a"
proof (induction n)
  case 0
  then show ?case by simp
next
  case (Suc n)
  then show ?case
    using path_parts_slash [of "a @ replicate n CHR ''/''"] by (simp add: replicate_append_same [symmetric])
qed

lemma basename_word [simp]: "CHR ''/'' \<notin> set w \<Longrightarrow> basename w = w"
  by (simp add: basename_def str_split_no_sep)

lemma basename_append [simp]: "CHR ''/'' \<notin> set w \<Longrightarrow> basename (a @ CHR ''/'' # w) = w"
  by (simp add: basename_def str_split_append str_split_no_sep)

lemma dirname_word [simp]: "CHR ''/'' \<notin> set w \<Longrightarrow> dirname w = []"
proof -
  assume "CHR ''/'' \<notin> set w"
  then have "dropWhile (\<lambda>c. c \<noteq> CHR ''/'') (rev w) = []" by (auto simp: dropWhile_eq_Nil_conv)
  then show ?thesis by (simp only: dirname_def Let_def) simp
qed

text \<open>A prefix that does not end in a slash.\<close>

definition bare :: "string \<Rightarrow> bool" where
  "bare a \<longleftrightarrow> a = [] \<or> last a \<noteq> CHR ''/''"

lemma strip_slashes:
  "bare a \<Longrightarrow> rev (dropWhile (\<lambda>c. c = CHR ''/'') (rev (a @ replicate n CHR ''/''))) = a"
  by (induction n) (auto simp: bare_def hd_rev dropWhile_eq_self_iff rev_swap replicate_app_Cons_same)

lemma dirname_append:
  assumes "bare a" "CHR ''/'' \<notin> set w"
  shows "dirname (a @ replicate (Suc n) CHR ''/'' @ w) = (if a = [] then replicate (Suc n) CHR ''/'' else a)"
proof -
  have "dropWhile (\<lambda>c. c \<noteq> CHR ''/'') (rev w @ CHR ''/'' # s) = CHR ''/'' # s" for s
    using assms(2) by (subst dropWhile_append2) auto
  then have head: "rev (dropWhile (\<lambda>c. c \<noteq> CHR ''/'') (rev (a @ replicate (Suc n) CHR ''/'' @ w))) = a @ replicate (Suc n) CHR ''/''"
    by (simp add: replicate_append_same)
  show ?thesis unfolding dirname_def head Let_def strip_slashes [OF assms(1)] by simp
qed

text \<open>Every path is a prefix without a final slash, a run of slashes and a word.\<close>

lemma split_slashes: "\<exists>a n. bare a \<and> s = a @ replicate n CHR ''/''"
proof (induction s rule: rev_induct)
  case Nil
  then show ?case by (intro exI [of _ "[]"] exI [of _ 0]) (simp add: bare_def)
next
  case (snoc c s)
  then obtain a n where a: "bare a" "s = a @ replicate n CHR ''/''" by blast
  show ?case
  proof (cases "c = CHR ''/''")
    case True
    then show ?thesis using a by (intro exI [of _ a] exI [of _ "Suc n"]) (simp add: replicate_append_same)
  next
    case False
    then show ?thesis by (intro exI [of _ "s @ [c]"] exI [of _ 0]) (simp add: bare_def)
  qed
qed

lemma path_cases:
  obtains (word) "CHR ''/'' \<notin> set p"
  | (split) a n w where "bare a" "CHR ''/'' \<notin> set w" "p = a @ replicate (Suc n) CHR ''/'' @ w"
proof (cases "CHR ''/'' \<in> set p")
  case True
  then obtain s w where p: "p = s @ CHR ''/'' # w" "CHR ''/'' \<notin> set w" by (meson split_list_last)
  obtain a n where "bare a" "s = a @ replicate n CHR ''/''" using split_slashes by blast
  then show ?thesis using p split [of a w n] by (simp add: replicate_app_Cons_same)
qed (use word in blast)

lemma basename_split [simp]: "CHR ''/'' \<notin> set w \<Longrightarrow> basename (a @ replicate (Suc n) CHR ''/'' @ w) = w"
  using basename_append [of w "a @ replicate n CHR ''/''"] by (simp add: replicate_app_Cons_same)

lemma path_parts_split: "path_parts (a @ replicate (Suc n) CHR ''/'' @ w) = path_parts a @ path_parts w"
  using path_parts_append [of "a @ replicate n CHR ''/''" w] by (simp add: replicate_app_Cons_same)

lemma is_abs_split: "is_abs (a @ replicate (Suc n) CHR ''/'' @ w) \<longleftrightarrow> a = [] \<or> is_abs a"
  by (cases a) (auto simp: is_abs_def startswith_def)

lemma not_bare_slashes: "\<not> bare (a @ replicate (Suc n) CHR ''/'')"
proof -
  have "replicate (Suc n) CHR ''/'' = replicate n CHR ''/'' @ [CHR ''/'']" by (simp add: replicate_append_same)
  then have "a @ replicate (Suc n) CHR ''/'' = (a @ replicate n CHR ''/'') @ [CHR ''/'']" by simp
  then show ?thesis unfolding bare_def by (metis last_snoc snoc_eq_iff_butlast)
qed

lemma bare_split: "bare (a @ replicate (Suc n) CHR ''/'' @ w) \<Longrightarrow> w \<noteq> []"
  using not_bare_slashes [of a n] by (metis append_Nil2)

lemma stuck_basename: "dirname p = p \<Longrightarrow> basename p = []"
proof (cases p rule: path_cases)
  case word
  then show "dirname p = p \<Longrightarrow> basename p = []" by simp
next
  case (split a n w)
  assume "dirname p = p"
  moreover have "dirname p = (if a = [] then replicate (Suc n) CHR ''/'' else a)"
    unfolding split(3) by (rule dirname_append [OF split(1,2)])
  ultimately have "w = []" using split(3) by (cases "a = []") auto
  then show "basename p = []" using basename_split [OF split(2), of a n] split(3) by simp
qed

text \<open>What the walk finds: the parts after the last one that is \<open>ns3\<close>.\<close>

definition after_ns3 :: "string list \<Rightarrow> string list" where
  "after_ns3 ws = rev (takeWhile (\<lambda>w. w \<noteq> ''ns3'') (rev ws))"

lemma walk_slashes [simp]: "0 < n \<Longrightarrow> walk_up_checked (replicate n CHR ''/'') l = Inl ValueError"
  using dirname_append [of "[]" "[]" "n - 1"] by (subst walk_up_checked.simps) (simp add: bare_def)

lemma walk_bare:
  "bare a \<Longrightarrow> walk_up_checked a l =
     (if ''ns3'' \<in> set (path_parts a) then join_star (after_ns3 (path_parts a) @ l)
      else if is_abs a then Inl ValueError else Inl AssertionError)"
proof (induction "length a" arbitrary: a l rule: less_induct)
  case less
  show ?case
  proof (cases a rule: path_cases)
    case word
    have "\<not> is_abs a" using word by (cases a) (auto simp: is_abs_def startswith_def)
    then show ?thesis
      using word by (subst walk_up_checked.simps) (simp add: walk_up_checked.simps [of "[]"] after_ns3_def)
  next
    case (split b n w)
    have w: "w \<noteq> []" using less.prems unfolding split(3) by (rule bare_split)
    define d where "d = (if b = [] then replicate (Suc n) CHR ''/'' else b)"
    have dir: "dirname a = d" using dirname_append [OF split(1,2)] split(3) by (simp add: d_def)
    have base: "basename a = w" unfolding split(3) by (rule basename_split [OF split(2)])
    have parts: "path_parts a = path_parts b @ [w]" unfolding split(3) path_parts_split using split(2) w by simp
    have abs: "is_abs a \<longleftrightarrow> b = [] \<or> is_abs b" unfolding split(3) by (rule is_abs_split)
    have "length d < length a" using split(3) w by (auto simp: d_def)
    then have a: "a \<noteq> []" "d \<noteq> a" by auto
    have step: "walk_up_checked a l = (if w = ''ns3'' then join_star l else walk_up_checked d (w # l))"
      using a by (subst walk_up_checked.simps) (simp add: dir base)
    show ?thesis
    proof (cases "b = []")
      case True
      then show ?thesis using step parts abs by (simp add: d_def after_ns3_def path_parts_def del: replicate_Suc)
    next
      case False
      have "length b < length a" using split(3) by simp
      from less.hyps [OF this split(1), of "w # l"] show ?thesis
        using step parts abs False by (simp add: d_def after_ns3_def)
    qed
  qed
qed

lemma modular_path_eq:
  assumes "path \<noteq> []"
  shows "walk_up_checked path [] =
     (if ''ns3'' \<in> set (path_parts path)
      then join_star (after_ns3 (path_parts path) @ (if last path = CHR ''/'' then [[]] else []))
      else if is_abs path then Inl ValueError else Inl AssertionError)"
proof (cases "bare path")
  case True
  then show ?thesis using walk_bare [OF True, of "[]"] assms by (simp add: bare_def)
next
  case False
  obtain a n where a: "bare a" "path = a @ replicate n CHR ''/''" using split_slashes by blast
  obtain m where n: "n = Suc m" using False a by (cases n) auto
  show ?thesis
  proof (cases "a = []")
    case True
    then show ?thesis
      using a n path_parts_slashes [of "[]" n] by (simp add: path_parts_def is_abs_def startswith_def del: replicate_Suc) simp
  next
    case ne: False
    have dir: "dirname path = a" using dirname_append [OF a(1), of "[]" m] ne a(2) n by simp
    have base: "basename path = []" using basename_split [of "[]" a m] a(2) n by simp
    have "path \<noteq> a" using a(2) n by simp
    then have "walk_up_checked path [] = walk_up_checked a [[]]"
      using assms by (subst walk_up_checked.simps) (simp add: dir base)
    moreover have "is_abs path \<longleftrightarrow> is_abs a" using ne a(2) by (cases a) (auto simp: is_abs_def startswith_def)
    moreover have "path_parts path = path_parts a" using a(2) by simp
    moreover have "last path = CHR ''/''" using False by (simp add: bare_def)
    ultimately show ?thesis using walk_bare [OF a(1), of "[[]]"] by simp
  qed
qed

text \<open>The old walk ends where the new one does not find itself stuck.\<close>

lemma walk_up_stuck:
  assumes "walk_up head l = Some r"
  shows "\<not> (head \<noteq> [] \<and> dirname head = head)"
proof (rule walk_up.raw_induct [OF _ assms])
  fix walk head l y
  assume IH: "\<And>head l y. walk head l = Some y \<Longrightarrow> \<not> (head \<noteq> [] \<and> dirname head = head)"
    and body: "(if head = [] then Some (Inl AssertionError)
      else if basename head = ''ns3'' then Some (join_star l)
      else walk (dirname head) (basename head # l)) = Some y"
  show "\<not> (head \<noteq> [] \<and> dirname head = head)"
  proof
    assume stuck: "head \<noteq> [] \<and> dirname head = head"
    then have "walk head ([] # l) = Some y" using body stuck_basename [of head] by simp
    then show False using IH stuck by blast
  qed
qed

lemma join_star_value: "join_star l \<noteq> Inl ValueError"
  by (simp add: join_star_def)

lemma walk_up_eq:
  "walk_up head l = (if walk_up_checked head l = Inl ValueError then None else Some (walk_up_checked head l))"
proof (induction head l rule: walk_up_checked.induct)
  case (1 head l)
  show ?case
  proof (cases "head \<noteq> [] \<and> dirname head = head")
    case True
    then have "walk_up head l = None" using walk_up_stuck [of head l] by (cases "walk_up head l") auto
    then show ?thesis using True by (simp add: walk_up_checked.simps)
  next
    case False
    then show ?thesis
      using 1 False join_star_value [of l]
      by (cases "head = []") (simp_all add: walk_up.simps [of head l] walk_up_checked.simps [of head l]
        walk_up.simps [of "[]"] walk_up_checked.simps [of "[]"])
  qed
qed


section \<open>Properties\<close>

text \<open>C12. The new version always ends: it returns what follows the last directory called
  \<open>ns3\<close>, raises \<open>TypeError\<close> when nothing does, \<open>ValueError\<close> for an absolute path
  without such a directory and \<open>AssertionError\<close> for a relative one.  The old
  version gives the same, and does not end exactly where the new one raises
  \<open>ValueError\<close>.\<close>

theorem relative_path_ends:
  assumes "path \<noteq> []"
  shows "modular_relative_path path =
      (if ''ns3'' \<in> set (path_parts path)
       then rbind (join_star (after_ns3 (path_parts path) @ (if last path = CHR ''/'' then [[]] else []))) (\<lambda>h. Inr (Some h))
       else if is_abs path then Inl ValueError else Inl AssertionError) \<and>
    get_ns3_relative_path path =
      (case modular_relative_path path of
         Inl ValueError \<Rightarrow> None | Inl e \<Rightarrow> Some (Inl e) | Inr h \<Rightarrow> Some (Inr (the h)))"
proof
  show eq: "modular_relative_path path =
      (if ''ns3'' \<in> set (path_parts path)
       then rbind (join_star (after_ns3 (path_parts path) @ (if last path = CHR ''/'' then [[]] else []))) (\<lambda>h. Inr (Some h))
       else if is_abs path then Inl ValueError else Inl AssertionError)"
    using assms by (simp add: modular_relative_path_def modular_path_eq)
  show "get_ns3_relative_path path =
      (case modular_relative_path path of
         Inl ValueError \<Rightarrow> None | Inl e \<Rightarrow> Some (Inl e) | Inr h \<Rightarrow> Some (Inr (the h)))"
    using assms walk_up_eq [of path "[]"]
    by (cases "walk_up_checked path []")
      (simp_all add: modular_relative_path_def get_ns3_relative_path_def split: py_error.splits)
qed

lemma relative_path_ends_witness:
  "modular_relative_path ''/usr/include/stdio.h'' = Inl ValueError \<and> get_ns3_relative_path ''/usr/include/stdio.h'' = None"
proof -
  have "path_parts ''/usr/include/stdio.h'' = [''usr'', ''include'', ''stdio.h'']" by code_simp
  then show ?thesis
    using relative_path_ends [of "''/usr/include/stdio.h''"] by (simp add: is_abs_def startswith_def)
qed

end
