(* ===== verification/ScanPlan.thy ===== *)
theory ScanPlan
  imports ModuleScan
begin

text \<open>
  \<open>bindings/python/ns3modulescan.py\<close>: the sections of the scan in the order of the
  module graph, the section of each header and the precedence of each section.
  The modules are read as a dictionary from the name to the dependencies and the
  headers; writing the section files is left out.
\<close>

section \<open>Sections\<close>

type_synonym modules = "(string, string list \<times> string list) dict"

definition module_graph :: "modules \<Rightarrow> (string \<times> string) list" where
  "module_graph mods =
     concat (List.map (\<lambda>m. List.map (\<lambda>dep. (dep, m)) (sort (fst (the (dget mods m))))) (sort (dkeys mods)))"

text \<open>A section has a name, a file and a prefix for its local names.\<close>

record scan_plan =
  sections :: "(string \<times> string \<times> string) list"
  headers_map :: "(string, string) dict"
  section_precedences :: "(string, int) dict"

definition section_name :: "string \<Rightarrow> string" where
  "section_name m = ''ns3_module_'' @ List.map (\<lambda>c. if c = CHR ''-'' then CHR ''_'' else c) m"

definition add_section :: "string \<Rightarrow> nat \<Rightarrow> string \<Rightarrow> string list \<Rightarrow> scan_plan \<Rightarrow> scan_plan" where
  "add_section pygen_file_name prec m headers p =
     (let section = section_name m;
          file_name = path_join (dirname pygen_file_name) (section @ ''.py'')
      in p\<lparr>sections := sections p @ [(section, file_name, section @ ''__local'')],
           headers_map := fold (\<lambda>header d. dset header section d) headers (headers_map p),
           section_precedences := dset section (int prec) (section_precedences p)\<rparr>)"

definition plan_step :: "string \<Rightarrow> modules \<Rightarrow> scan_plan \<Rightarrow> nat \<times> string \<Rightarrow> scan_plan py_result" where
  "plan_step pygen_file_name mods p = (\<lambda>(prec, m).
     rbind (dindex mods m) (\<lambda>(deps, headers). Inr (add_section pygen_file_name prec m headers p)))"

definition main_plan :: "string \<Rightarrow> scan_plan" where
  "main_plan pygen_file_name =
     \<lparr>sections = [(''__main__'', pygen_file_name, [])], headers_map = [], section_precedences = []\<rparr>"

definition ns3_module_scan :: "string \<Rightarrow> modules \<Rightarrow> string topsort_error + scan_plan" where
  "ns3_module_scan pygen_file_name mods =
     rbind (topsort (module_graph mods)) (\<lambda>ms.
     case foldM (plan_step pygen_file_name mods) (main_plan pygen_file_name) (enumerate 0 ms) of
       Inl e \<Rightarrow> Inl (PyErr e) | Inr p \<Rightarrow> Inr p)"

definition classify :: "scan_plan \<Rightarrow> string \<Rightarrow> string" where
  "classify p file_name =
     (case dget (headers_map p) (basename file_name) of None \<Rightarrow> ''__main__'' | Some s \<Rightarrow> s)"

definition get_section_precedence :: "scan_plan \<Rightarrow> string \<Rightarrow> int py_result" where
  "get_section_precedence p s = (if s = ''__main__'' then Inr (-1) else dindex (section_precedences p) s)"


section \<open>Laws of the sections\<close>

lemma section_name_not_main [simp]: "section_name m \<noteq> ''__main__''"
  by (simp add: section_name_def)

lemma module_graph_mem: "(dep, m) \<in> set (module_graph mods) \<longleftrightarrow> (\<exists>hs ds. dget mods m = Some (ds, hs) \<and> dep \<in> set ds)"
proof -
  have "(dep, m) \<in> set (module_graph mods) \<longleftrightarrow> m \<in> set (dkeys mods) \<and> dep \<in> set (fst (the (dget mods m)))"
    by (auto simp: module_graph_def)
  then show ?thesis unfolding mem_dkeys by (cases "dget mods m") auto
qed

definition module_headers :: "modules \<Rightarrow> string \<Rightarrow> string list" where
  "module_headers mods m = (case dget mods m of None \<Rightarrow> [] | Some (deps, headers) \<Rightarrow> headers)"

definition add_all :: "string \<Rightarrow> modules \<Rightarrow> string list \<Rightarrow> scan_plan" where
  "add_all out mods ms =
     fold (\<lambda>(k, m). add_section out k m (module_headers mods m)) (enumerate 0 ms) (main_plan out)"

lemma plan_steps:
  "foldM (plan_step out mods) p kms =
     (if \<forall>(k, m) \<in> set kms. dhas mods m
      then Inr (fold (\<lambda>(k, m). add_section out k m (module_headers mods m)) kms p) else Inl KeyError)"
proof (induction kms arbitrary: p)
  case Nil
  then show ?case by simp
next
  case (Cons km kms)
  obtain k m where km: "km = (k, m)" by fastforce
  show ?case
  proof (cases "dget mods m")
    case None
    then show ?thesis by (simp add: km plan_step_def dindex_def)
  next
    case (Some dh)
    then have "plan_step out mods p (k, m) = Inr (add_section out k m (module_headers mods m) p)"
      by (cases dh) (simp add: plan_step_def dindex_def module_headers_def)
    then show ?thesis using Some by (simp add: km Cons.IH)
  qed
qed

lemma add_all_snoc:
  "add_all out mods (ms @ [m]) = add_section out (length ms) m (module_headers mods m) (add_all out mods ms)"
  by (simp add: add_all_def enumerate_append_eq)

lemma dget_headers: "dget (fold (\<lambda>h d. dset h s d) hs d) x = (if x \<in> set hs then Some s else dget d x)"
  by (induction hs arbitrary: d) (auto simp: dict_simps)

text \<open>A header belongs to the last module that lists it.\<close>

lemma headers_add_all:
  "dget (headers_map (add_all out mods ms)) h =
     (case List.filter (\<lambda>m. h \<in> set (module_headers mods m)) (rev ms) of
        [] \<Rightarrow> None | m # _ \<Rightarrow> Some (section_name m))"
proof (induction ms rule: rev_induct)
  case Nil
  then show ?case by (simp add: add_all_def main_plan_def)
next
  case (snoc m ms)
  then show ?case by (simp add: add_all_snoc add_section_def Let_def dget_headers)
qed

lemma precedences_add_all:
  assumes "distinct ms" "inj_on section_name (set ms)" "i < length ms"
  shows "dget (section_precedences (add_all out mods ms)) (section_name (ms ! i)) = Some (int i)"
  using assms
proof (induction ms rule: rev_induct)
  case (snoc m ms)
  show ?case
  proof (cases "i = length ms")
    case True
    then show ?thesis by (simp add: add_all_snoc add_section_def Let_def dict_simps)
  next
    case False
    then have i: "i < length ms" using snoc.prems(3) by simp
    then have "ms ! i \<noteq> m" "ms ! i \<in> set ms" using snoc.prems(1) by auto
    then have "section_name (ms ! i) \<noteq> section_name m" using snoc.prems(2) by (auto simp: inj_on_def)
    then show ?thesis
      using snoc i by (simp add: add_all_snoc add_section_def Let_def dict_simps nth_append)
  qed
qed simp

lemma sections_add_all:
  "List.map fst (sections (add_all out mods ms)) = ''__main__'' # List.map section_name ms"
  by (induction ms rule: rev_induct) (simp_all add: add_all_snoc add_section_def Let_def, simp add: add_all_def main_plan_def)

lemma module_scan_cases:
  obtains (cyclic) e where "ns3_module_scan out mods = Inl e" "\<not> acyclic (set (module_graph mods))"
  | (missing) dep m where "ns3_module_scan out mods = Inl (PyErr KeyError)" "(dep, m) \<in> set (module_graph mods)" "\<not> dhas mods dep"
  | (planned) ms where "ns3_module_scan out mods = Inr (add_all out mods ms)"
      "distinct ms" "set ms = nodes (module_graph mods)" "parents_first (set (module_graph mods)) ms"
      "\<forall>m \<in> set ms. dhas mods m"
proof (cases "topsort (module_graph mods)")
  case (Inl e)
  then have "\<not> acyclic (set (module_graph mods))" using topsort_acyclic [of "module_graph mods"] by simp
  then show ?thesis using Inl cyclic [of e] by (simp add: ns3_module_scan_def)
next
  case (Inr ms)
  then have ms: "distinct ms" "set ms = nodes (module_graph mods)" "parents_first (set (module_graph mods)) ms"
    using topsort_result [of "module_graph mods"] by (simp_all add: sort_result_def)
  show ?thesis
  proof (cases "\<forall>m \<in> set ms. dhas mods m")
    case True
    then have "\<forall>(k, m) \<in> set (enumerate 0 ms). dhas mods m"
      by (auto simp: in_set_enumerate_eq)
    then have "ns3_module_scan out mods = Inr (add_all out mods ms)"
      by (simp add: ns3_module_scan_def Inr plan_steps add_all_def)
    then show ?thesis using ms True planned by blast
  next
    case False
    then obtain d where d: "d \<in> set ms" "\<not> dhas mods d" by blast
    then obtain i where "i < length ms" "ms ! i = d" by (meson in_set_conv_nth)
    then have "(i, d) \<in> set (enumerate 0 ms)" by (simp add: in_set_enumerate_eq)
    then have "\<not> (\<forall>(k, m) \<in> set (enumerate 0 ms). dhas mods m)" using d(2) by fast
    then have scan: "ns3_module_scan out mods = Inl (PyErr KeyError)"
      by (simp only: ns3_module_scan_def Inr plan_steps rbind.simps if_False sum.case)
    have "d \<in> nodes (module_graph mods)" using d(1) ms(2) by simp
    then have "\<exists>m. (d, m) \<in> set (module_graph mods) \<or> (m, d) \<in> set (module_graph mods)"
      by (auto simp: nodes_def)
    then obtain m where "(d, m) \<in> set (module_graph mods) \<or> (m, d) \<in> set (module_graph mods)" by blast
    then have "(d, m) \<in> set (module_graph mods)" using d(2) by (auto simp: module_graph_mem)
    then show ?thesis using missing [OF scan] d(2) by blast
  qed
qed


section \<open>Properties\<close>

text \<open>C13. The scan fails only for a cyclic module graph or a dependency on an unknown
  module.  Otherwise a section is made for exactly the modules with an edge in
  the graph, a dependency before what depends on it, and where no two section
  names coincide a dependency has the smaller precedence.  A header goes to a
  section of a module that lists it, and to the main section when no module
  with an edge lists it, even if a module without edges does.\<close>

theorem sections_follow_dependencies:
  "case ns3_module_scan out mods of
     Inl e \<Rightarrow> \<not> acyclic (set (module_graph mods)) \<or> (\<exists>dep m. (dep, m) \<in> set (module_graph mods) \<and> \<not> dhas mods dep)
   | Inr p \<Rightarrow>
      (\<exists>ms. distinct ms \<and> set ms = nodes (module_graph mods) \<and>
         List.map fst (sections p) = ''__main__'' # List.map section_name ms) \<and>
      (inj_on section_name (nodes (module_graph mods)) \<longrightarrow>
        (\<forall>(dep, m) \<in> set (module_graph mods). \<exists>i j.
          get_section_precedence p (section_name dep) = Inr i \<and>
          get_section_precedence p (section_name m) = Inr j \<and> 0 \<le> i \<and> i < j)) \<and>
      (\<forall>path. if \<exists>m \<in> nodes (module_graph mods). basename path \<in> set (module_headers mods m)
         then \<exists>m \<in> nodes (module_graph mods). basename path \<in> set (module_headers mods m) \<and> classify p path = section_name m
         else classify p path = ''__main__'')"
proof (cases out mods rule: module_scan_cases)
  case (cyclic e)
  then show ?thesis by simp
next
  case (missing dep m)
  then show ?thesis by auto
next
  case (planned ms)
  define p where "p = add_all out mods ms"
  have sec: "List.map fst (sections p) = ''__main__'' # List.map section_name ms"
    by (simp add: p_def sections_add_all)
  have precede: "\<exists>i j. get_section_precedence p (section_name dep) = Inr i \<and>
        get_section_precedence p (section_name m) = Inr j \<and> 0 \<le> i \<and> i < j"
    if inj: "inj_on section_name (nodes (module_graph mods))" and e: "(dep, m) \<in> set (module_graph mods)" for dep m
  proof -
    obtain j where j: "j < length ms" "ms ! j = m"
      using nodes_pair [OF e] planned(3) by (metis in_set_conv_nth)
    have "dep \<in> set (take j ms)" using planned(4) e j by (simp add: parents_first_def)
    then obtain i where "i < length (take j ms)" "take j ms ! i = dep" by (meson in_set_conv_nth)
    then have i: "i < j" "ms ! i = dep" by simp_all
    have "dget (section_precedences p) (section_name (ms ! k)) = Some (int k)" if "k < length ms" for k
      unfolding p_def using precedences_add_all planned(2,3) inj that by simp
    then show ?thesis
      using i j by (intro exI [of _ "int i"] exI [of _ "int j"])
        (auto simp: get_section_precedence_def dindex_def)
  qed
  have sect: "if \<exists>m \<in> set ms. basename path \<in> set (module_headers mods m)
       then \<exists>m \<in> set ms. basename path \<in> set (module_headers mods m) \<and> classify p path = section_name m
       else classify p path = ''__main__''" for path
  proof (cases "List.filter (\<lambda>m. basename path \<in> set (module_headers mods m)) (rev ms)")
    case Nil
    then have "\<not> (\<exists>m \<in> set ms. basename path \<in> set (module_headers mods m))" by (simp add: filter_empty_conv)
    moreover have "classify p path = ''__main__''" using Nil by (simp add: classify_def p_def headers_add_all)
    ultimately show ?thesis by (subst if_not_P)
  next
    case (Cons m rest)
    then have "m \<in> set (List.filter (\<lambda>m. basename path \<in> set (module_headers mods m)) (rev ms))" by simp
    then have "m \<in> set ms" "basename path \<in> set (module_headers mods m)" by simp_all
    moreover have "classify p path = section_name m" using Cons by (simp add: classify_def p_def headers_add_all)
    ultimately have "\<exists>m \<in> set ms. basename path \<in> set (module_headers mods m) \<and> classify p path = section_name m"
      by blast
    then show ?thesis by (subst if_P) blast+
  qed
  show ?thesis
    unfolding planned(1) p_def [symmetric] sum.case planned(3) [symmetric]
  proof (intro conjI impI allI)
    show "\<exists>xs. distinct xs \<and> set xs = set ms \<and> List.map fst (sections p) = ''__main__'' # List.map section_name xs"
      by (rule exI [of _ ms]) (simp only: sec planned(2) simp_thms)
  next
    assume inj: "inj_on section_name (set ms)"
    show "\<forall>(dep, m) \<in> set (module_graph mods). \<exists>i j. get_section_precedence p (section_name dep) = Inr i \<and>
        get_section_precedence p (section_name m) = Inr j \<and> 0 \<le> i \<and> i < j"
      using precede [OF inj [unfolded planned(3)]] by (intro ballI) (simp only: split_paired_all prod.case)
  qed (rule sect)
qed

lemma sections_follow_dependencies_witness:
  "\<exists>p. ns3_module_scan ''gen.py'' [(''b'', [''a''], [''b.h'']), (''a'', [], [''a.h'']), (''c'', [], [''c.h''])] = Inr p \<and>
     classify p ''ns3/c.h'' = ''__main__'' \<and>
     (\<exists>i j. get_section_precedence p (section_name ''a'') = Inr i \<and> get_section_precedence p (section_name ''b'') = Inr j \<and> i < j)"
proof -
  define mods :: modules where "mods = [(''b'', [''a''], [''b.h'']), (''a'', [], [''a.h'']), (''c'', [], [''c.h''])]"
  have graph: "module_graph mods = [(''a'', ''b'')]" unfolding mods_def by code_simp
  have n: "nodes (module_graph mods) = {''a'', ''b''}" by (auto simp: graph nodes_def)
  have "is_ok (topsort (module_graph mods))" unfolding graph by code_simp
  then have "acyclic (set (module_graph mods))" by (simp only: topsort_acyclic)
  moreover have "dhas mods ''a''" by (simp add: mods_def)
  ultimately obtain p where p: "ns3_module_scan ''gen.py'' mods = Inr p"
    using sections_follow_dependencies [where out = "''gen.py''" and mods = mods] by (auto simp: graph split: sum.splits)
  have inj: "inj_on section_name (nodes (module_graph mods))" by (auto simp: n section_name_def)
  note law = sections_follow_dependencies [where out = "''gen.py''" and mods = mods, unfolded p sum.case]
  have "\<exists>i j. get_section_precedence p (section_name ''a'') = Inr i \<and> get_section_precedence p (section_name ''b'') = Inr j \<and> i < j"
    using law inj by (auto simp: graph)
  moreover have "\<not> (\<exists>m \<in> nodes (module_graph mods). basename ''ns3/c.h'' \<in> set (module_headers mods m))"
    unfolding n by (simp add: mods_def module_headers_def basename_def)
  then have "classify p ''ns3/c.h'' = ''__main__''"
    using law [THEN conjunct2, THEN conjunct2, THEN spec, of "''ns3/c.h''"] by (simp only: if_False)
  ultimately show ?thesis using p by (simp only: mods_def) blast
qed

end
