(* ===== verification/PreScanHook.thy ===== *)
theory PreScanHook
  imports ModuleScan
begin

text \<open>
  The hook of \<open>bindings/python/ns3modulescan-modular.py\<close> that decorates every scanned
  declaration, with the table of \<open>ns3modulescan.py\<close> that it reads and changes.  A
  declaration of the C++ parser is a record of what the hook reads of it; the
  template functions of the parser are parameters.
\<close>

section \<open>Annotations\<close>

text \<open>A setting is a text, \<open>None\<close>, \<open>True\<close> or the settings of each parameter.\<close>

datatype setting = Text string | NoSetting | TrueSetting | Params "(string \<times> (string \<times> string) list) list"

type_synonym annotation_table = "(string, (string \<times> setting) list) dict"

definition type_annotations :: annotation_table where
  "type_annotations =
    [(''::ns3::AttributeChecker'',
       [(''automatic_type_narrowing'', Text ''true''), (''allow_subclassing'', Text ''false'')]),
     (''::ns3::AttributeValue'',
       [(''automatic_type_narrowing'', Text ''true''), (''allow_subclassing'', Text ''false'')]),
     (''::ns3::CommandLine'',
       [(''allow_subclassing'', Text ''true'')]),
     (''::ns3::NscTcpL4Protocol'',
       [(''ignore'', Text ''true'')]),
     (''ns3::RandomVariable::RandomVariable(ns3::RandomVariableBase const & variable) [constructor]'',
       [(''ignore'', NoSetting)]),
     (''ns3::RandomVariableBase * ns3::RandomVariable::Peek() const [member function]'',
       [(''ignore'', NoSetting)]),
     (''void ns3::RandomVariable::GetSeed(uint32_t * seed) const [member function]'',
       [(''params'', Params [(''seed'', [(''direction'', ''out''), (''array_length'', ''6'')])])]),
     (''bool ns3::TypeId::LookupAttributeByName(std::string name, ns3::TypeId::AttributeInformation * info) const [member function]'',
       [(''params'', Params [(''info'', [(''transfer_ownership'', ''false'')])])]),
     (''static bool ns3::TypeId::LookupByNameFailSafe(std::string name, ns3::TypeId * tid) [member function]'',
       [(''ignore'', NoSetting)]),
     (''bool ns3::TraceSourceAccessor::ConnectWithoutContext(ns3::ObjectBase * obj, ns3::CallbackBase const & cb) const [member function]'',
       [(''params'', Params [(''obj'', [(''transfer_ownership'', ''false'')])])]),
     (''bool ns3::TraceSourceAccessor::Connect(ns3::ObjectBase * obj, std::string context, ns3::CallbackBase const & cb) const [member function]'',
       [(''params'', Params [(''obj'', [(''transfer_ownership'', ''false'')])])]),
     (''bool ns3::TraceSourceAccessor::DisconnectWithoutContext(ns3::ObjectBase * obj, ns3::CallbackBase const & cb) const [member function]'',
       [(''params'', Params [(''obj'', [(''transfer_ownership'', ''false'')])])]),
     (''bool ns3::TraceSourceAccessor::Disconnect(ns3::ObjectBase * obj, std::string context, ns3::CallbackBase const & cb) const [member function]'',
       [(''params'', Params [(''obj'', [(''transfer_ownership'', ''false'')])])]),
     (''bool ns3::AttributeAccessor::Set(ns3::ObjectBase * object, ns3::AttributeValue const & value) const [member function]'',
       [(''params'', Params [(''object'', [(''transfer_ownership'', ''false'')])])]),
     (''ns3::EmpiricalVariable::EmpiricalVariable(ns3::RandomVariableBase const & variable) [constructor]'',
       [(''ignore'', NoSetting)]),
     (''static ns3::AttributeList * ns3::AttributeList::GetGlobal() [member function]'',
       [(''caller_owns_return'', Text ''false'')]),
     (''void ns3::CommandLine::Parse(int argc, char * * argv) const [member function]'',
       [(''ignore'', NoSetting)]),
     (''extern void ns3::PythonCompleteConstruct(ns3::Ptr<ns3::Object> object, ns3::TypeId typeId, ns3::AttributeList const & attributes) [free function]'',
       [(''ignore'', NoSetting)]),
     (''ns3::Ptr<ns3::Ipv4RoutingProtocol> ns3::Ipv4ListRouting::GetRoutingProtocol(uint32_t index, int16_t & priority) const [member function]'',
       [(''params'', Params [(''priority'', [(''direction'', ''out'')])])]),
     (''ns3::Ipv4RoutingTableEntry * ns3::GlobalRouter::GetInjectedRoute(uint32_t i) [member function]'',
       [(''params'', Params [(''return'', [(''caller_owns_return'', ''false'')])])]),
     (''ns3::Ipv4RoutingTableEntry * ns3::Ipv4GlobalRouting::GetRoute(uint32_t i) const [member function]'',
       [(''params'', Params [(''return'', [(''caller_owns_return'', ''false'')])])]),
     (''::ns3::TestCase'',
       [(''ignore'', Text ''true'')]),
     (''::ns3::TestRunner'',
       [(''ignore'', Text ''true'')]),
     (''::ns3::TestSuite'',
       [(''ignore'', Text ''true'')])]"

datatype decl_kind = Class | Enumeration | FreeFunction | MemberFunction | Constructor | OtherCall | OtherDecl

record cpp_decl =
  kind :: decl_kind
  file_name :: string
  decl_name :: string
  decl_string :: string
  decl_text :: string
  parent_name :: string

record cpp_parser =
  template_args :: "string \<Rightarrow> string list"
  is_instantiation :: "string \<Rightarrow> bool"
  template_parameters :: "string \<Rightarrow> string list"
  location_of :: "string \<Rightarrow> string option"

text \<open>What a call changes: the table, the two dictionaries and the default values.\<close>

record hook_state =
  annotation_table :: annotation_table
  global_annotations :: "(string, setting) dict"
  parameter_annotations :: "(string, (string \<times> string) list) dict"
  argument_defaults :: "string option list"

definition annotate :: "string \<Rightarrow> setting \<Rightarrow> hook_state \<Rightarrow> hook_state" where
  "annotate k v s = s\<lparr>global_annotations := dset k v (global_annotations s)\<rparr>"

definition dict_update :: "('k \<times> 'v) list \<Rightarrow> ('k, 'v) dict \<Rightarrow> ('k, 'v) dict" where
  "dict_update kvs d = fold (\<lambda>(k, v). dset k v) kvs d"

definition annotate_all :: "(string \<times> setting) list \<Rightarrow> hook_state \<Rightarrow> hook_state" where
  "annotate_all kvs s = s\<lparr>global_annotations := dict_update kvs (global_annotations s)\<rparr>"

section \<open>The hook\<close>

definition replace_dashes :: "string \<Rightarrow> string" where
  "replace_dashes m = List.map (\<lambda>c. if c = CHR ''-'' then CHR ''_'' else c) m"

definition is_call :: "decl_kind \<Rightarrow> bool" where
  "is_call k \<longleftrightarrow> k \<in> {FreeFunction, MemberFunction, Constructor, OtherCall}"

definition fix_default :: "string option \<Rightarrow> string option" where
  "fix_default v =
     (if v = Some ''ns3::MilliSeconds( )'' then Some ''ns3::MilliSeconds(0)''
      else if v = Some ''ns3::Seconds( )'' then Some ''ns3::Seconds(0)'' else v)"

text \<open>The steps before the kinds are told apart.\<close>

definition describe :: "cpp_parser \<Rightarrow> string \<Rightarrow> string \<Rightarrow> cpp_decl \<Rightarrow> hook_state \<Rightarrow> hook_state" where
  "describe ps header module d s =
     (let method = (kind d = MemberFunction);
          s = annotate ''pygen_comment''
                (Text (header @ '' (module '' @ CHR 0x27 # module @ CHR 0x27 # ''): '' @ decl_text d)) s;
          s = (if method \<and> parent_name d = ''Object'' \<and> decl_name d = ''GetObject'' \<and>
                  template_args ps (decl_text d) = [''ns3::Object'']
               then annotate ''template_instance_names'' (Text ''ns3::Object=>GetObject'') s else s);
          s = (if method \<and> parent_name d = ''Simulator'' \<and> startswith (decl_name d) ''Schedule''
               then annotate ''ignore'' NoSetting s else s);
          s = (if method \<and> parent_name d = ''Simulator'' \<and> decl_name d = ''Run''
               then annotate ''ignore'' TrueSetting s else s)
      in if is_call (kind d) then s\<lparr>argument_defaults := List.map fix_default (argument_defaults s)\<rparr> else s)"

text \<open>
  The modules of the template parameters: a parameter without a location or with one
  outside ns-3 is skipped.
\<close>

fun parameter_modules :: "cpp_parser \<Rightarrow> (string, string) dict \<Rightarrow> string list \<Rightarrow> string list py_result" where
  "parameter_modules ps headers [] = Inr []"
| "parameter_modules ps headers (t # ts) =
     (case location_of ps t of
        None \<Rightarrow> parameter_modules ps headers ts
      | Some f \<Rightarrow>
          (case modular_relative_path f of
             Inl e \<Rightarrow> (if e = ValueError then parameter_modules ps headers ts else Inl e)
           | Inr None \<Rightarrow> Inl KeyError
           | Inr (Some h) \<Rightarrow>
               rbind (dindex headers h) (\<lambda>m. rbind (parameter_modules ps headers ts) (\<lambda>ms. Inr (m # ms)))))"

definition class_module :: "cpp_parser \<Rightarrow> (string, string) dict \<Rightarrow> string \<Rightarrow> string \<Rightarrow> cpp_decl \<Rightarrow> string py_result" where
  "class_module ps headers module definition_module d =
     (if is_instantiation ps (decl_string d)
      then rbind (parameter_modules ps headers (template_parameters ps (decl_name d))) (\<lambda>ms.
           Inr (if module \<in> set ms then module else definition_module))
      else Inr definition_module)"

definition class_hook :: "cpp_parser \<Rightarrow> (string, string) dict \<Rightarrow> string \<Rightarrow> string \<Rightarrow> cpp_decl \<Rightarrow> hook_state \<Rightarrow> hook_state py_result" where
  "class_hook ps headers module definition_module d s =
     rbind (class_module ps headers module definition_module d) (\<lambda>m.
     let s = (if m \<noteq> module then annotate ''import_from_module'' (Text (''ns.'' @ replace_dashes m)) s else s)
     in Inr
       (if startswith (decl_string d) ''::ns3::SimpleRefCount<''
        then annotate_all [(''incref_method'', Text ''Ref''), (''decref_method'', Text ''Unref''),
               (''peekref_method'', Text ''GetReferenceCount''), (''automatic_type_narrowing'', Text ''true'')] s
        else if startswith (decl_string d) ''::ns3::Callback<'' \<or> startswith (decl_string d) ''::ns3::TracedCallback<'' \<or>
                startswith (decl_string d) ''::ns3::Ptr<''
        then annotate ''ignore'' NoSetting s
        else (case dget (annotation_table s) (decl_string d) of
                None \<Rightarrow> s | Some annotations \<Rightarrow> annotate_all annotations s)))"

definition enum_hook :: "string \<Rightarrow> string \<Rightarrow> hook_state \<Rightarrow> hook_state" where
  "enum_hook module definition_module s =
     (if definition_module \<noteq> module then annotate ''import_from_module'' (Text (''ns.'' @ definition_module)) s else s)"

text \<open>
  The row of a function: the entry \<open>params\<close> goes to the parameters and is deleted from
  the row, which is the one in the table.  Under that name the table has settings
  of parameters only.
\<close>

definition take_params :: "string \<Rightarrow> (string \<times> setting) list \<Rightarrow> hook_state \<Rightarrow> hook_state" where
  "take_params key annotations s =
     (case dget annotations ''params'' of
        None \<Rightarrow> s
      | Some value \<Rightarrow>
          s\<lparr>parameter_annotations :=
               dict_update (case value of Params ps \<Rightarrow> ps | _ \<Rightarrow> []) (parameter_annotations s),
             annotation_table := dset key (ddel ''params'' annotations) (annotation_table s)\<rparr>)"

definition function_hook :: "cpp_decl \<Rightarrow> hook_state \<Rightarrow> hook_state" where
  "function_hook d s =
     (case dget (annotation_table s) (decl_text d) of
        None \<Rightarrow> s
      | Some annotations \<Rightarrow> annotate_all (ddel ''params'' annotations) (take_params (decl_text d) annotations s))"

definition free_function_hook :: "string \<Rightarrow> string \<Rightarrow> cpp_decl \<Rightarrow> hook_state \<Rightarrow> hook_state" where
  "free_function_hook module definition_module d s =
     (if definition_module \<noteq> module \<or> decl_name d = ''PeekPointer'' then annotate ''ignore'' NoSetting s
      else function_hook d s)"

definition pre_scan_hook :: "cpp_parser \<Rightarrow> (string, string) dict \<Rightarrow> string \<Rightarrow> cpp_decl \<Rightarrow> hook_state \<Rightarrow> hook_state py_result" where
  "pre_scan_hook ps headers module d s =
     (case modular_relative_path (file_name d) of
        Inl e \<Rightarrow> (if e = ValueError then Inr s else Inl e)
      | Inr None \<Rightarrow> Inr s
      | Inr (Some header) \<Rightarrow>
          (if header = [] then Inr s
           else rbind (dindex headers header) (\<lambda>definition_module.
             let s = describe ps header definition_module d s
             in case kind d of
                  Class \<Rightarrow> class_hook ps headers module definition_module d s
                | Enumeration \<Rightarrow> Inr (enum_hook module definition_module s)
                | FreeFunction \<Rightarrow> Inr (free_function_hook module definition_module d s)
                | MemberFunction \<Rightarrow> Inr (function_hook d s)
                | Constructor \<Rightarrow> Inr (function_hook d s)
                | OtherCall \<Rightarrow> Inr s
                | OtherDecl \<Rightarrow> Inr s)))"


section \<open>Laws of the hook\<close>

lemma dict_update_absent: "k \<notin> set (dkeys kvs) \<Longrightarrow> dget (dict_update kvs d) k = dget d k"
  by (induction kvs arbitrary: d) (auto simp: dict_update_def dict_simps)

lemma describe_annotation:
  assumes "k \<notin> {''pygen_comment'', ''template_instance_names'', ''ignore''}"
  shows "dget (global_annotations (describe ps header m d s)) k = dget (global_annotations s) k"
  using assms by (simp add: describe_def Let_def annotate_def dict_simps)

lemma describe_rest [simp]:
  "annotation_table (describe ps header m d s) = annotation_table s"
  "parameter_annotations (describe ps header m d s) = parameter_annotations s"
  by (simp_all add: describe_def Let_def annotate_def)

lemma annotate_simps [simp]:
  "annotation_table (annotate k v s) = annotation_table s"
  "parameter_annotations (annotate k v s) = parameter_annotations s"
  "annotation_table (annotate_all kvs s) = annotation_table s"
  "parameter_annotations (annotate_all kvs s) = parameter_annotations s"
  "dget (global_annotations (annotate k v s)) j = (if j = k then Some v else dget (global_annotations s) j)"
  by (simp_all add: annotate_def annotate_all_def dict_simps)

lemma annotate_all_absent [simp]:
  "k \<notin> set (dkeys kvs) \<Longrightarrow> dget (global_annotations (annotate_all kvs s)) k = dget (global_annotations s) k"
  by (simp add: annotate_all_def dict_update_absent)

lemma hook_known:
  assumes "modular_relative_path (file_name d) = Inr (Some h)" "h \<noteq> []" "dget headers h = Some m"
  shows "pre_scan_hook ps headers module d s =
    (let s = describe ps h m d s
     in case kind d of
          Class \<Rightarrow> class_hook ps headers module m d s
        | Enumeration \<Rightarrow> Inr (enum_hook module m s)
        | FreeFunction \<Rightarrow> Inr (free_function_hook module m d s)
        | MemberFunction \<Rightarrow> Inr (function_hook d s)
        | Constructor \<Rightarrow> Inr (function_hook d s)
        | OtherCall \<Rightarrow> Inr s
        | OtherDecl \<Rightarrow> Inr s)"
  using assms by (simp add: pre_scan_hook_def dindex_def)

lemma no_import_in_table:
  "dget type_annotations k = Some row \<Longrightarrow> ''import_from_module'' \<notin> set (dkeys row)"
proof -
  have "list_all (\<lambda>(k, row). ''import_from_module'' \<notin> set (dkeys row)) type_annotations"
    by code_simp
  then show "dget type_annotations k = Some row \<Longrightarrow> ''import_from_module'' \<notin> set (dkeys row)"
    by (auto simp: list_all_iff dest!: map_of_SomeD)
qed

lemma class_hook_import:
  assumes "class_module ps headers module m d = Inr m'" "annotation_table s = type_annotations"
    "dget (global_annotations s) ''import_from_module'' = None"
  shows "\<exists>s'. class_hook ps headers module m d s = Inr s' \<and> dget (global_annotations s') ''import_from_module'' =
    (if m' = module then None else Some (Text (''ns.'' @ replace_dashes m')))"
  using assms no_import_in_table [of "decl_string d"]
  by (auto simp: class_hook_def Let_def split: option.splits)

lemma take_params_row:
  assumes "dget (annotation_table s) key = Some row" "dget row ''params'' = Some (Params ps)"
  shows "annotation_table (take_params key row s) = dset key (ddel ''params'' row) (annotation_table s)"
    "parameter_annotations (take_params key row s) = dict_update ps (parameter_annotations s)"
    "global_annotations (take_params key row s) = global_annotations s"
  using assms by (simp_all add: take_params_def)

lemma function_hook_params:
  assumes "dget (annotation_table s) (decl_text d) = Some row" "dget row ''params'' = Some (Params ps)"
  shows "parameter_annotations (function_hook d s) = dict_update ps (parameter_annotations s)"
    "annotation_table (function_hook d s) = dset (decl_text d) (ddel ''params'' row) (annotation_table s)"
    "dget (global_annotations (function_hook d s)) ''params'' = dget (global_annotations s) ''params''"
proof -
  have "''params'' \<notin> set (dkeys (ddel ''params'' row))" by (simp only: dkeys_ddel) simp
  from annotate_all_absent [OF this] take_params_row [OF assms]
  show "parameter_annotations (function_hook d s) = dict_update ps (parameter_annotations s)"
    "annotation_table (function_hook d s) = dset (decl_text d) (ddel ''params'' row) (annotation_table s)"
    "dget (global_annotations (function_hook d s)) ''params'' = dget (global_annotations s) ''params''"
    using assms by (simp_all only: function_hook_def option.case annotate_simps)
qed

lemma function_hook_empty:
  assumes "dget (annotation_table s) (decl_text d) = Some (ddel ''params'' row)"
  shows "parameter_annotations (function_hook d s) = parameter_annotations s"
  using assms by (simp add: function_hook_def take_params_def dict_simps)


section \<open>Properties\<close>



text \<open>The settings of the parameters of a function are given to its parameters, and never
  to the function itself, the first time that the function is scanned.  The hook
  deletes them from the shared table, so a second scan of the function, whatever
  dictionaries it starts from, gives its parameters nothing.\<close>

theorem parameters_annotated_once:
  assumes "modular_relative_path (file_name d) = Inr (Some h)" "h \<noteq> []" "dget headers h = Some m"
    "kind d = MemberFunction \<or> kind d = Constructor"
    "dget (annotation_table s) (decl_text d) = Some row" "dget row ''params'' = Some (Params settings)"
  shows "\<exists>s1. pre_scan_hook ps headers module d s = Inr s1 \<and>
    parameter_annotations s1 = dict_update settings (parameter_annotations s) \<and>
    dget (global_annotations s1) ''params'' = dget (global_annotations s) ''params'' \<and>
    (\<forall>g. \<exists>s2. pre_scan_hook ps headers module d (s1\<lparr>global_annotations := g, parameter_annotations := []\<rparr>) = Inr s2 \<and>
       parameter_annotations s2 = [])"
proof -
  define t where "t = describe ps h m d s"
  define s1 where "s1 = function_hook d t"
  have hook: "pre_scan_hook ps headers module d u = Inr (function_hook d (describe ps h m d u))" for u
    using assms(4) by (auto simp: hook_known [OF assms(1-3)] Let_def)
  have row: "dget (annotation_table t) (decl_text d) = Some row" using assms(5) by (simp add: t_def)
  note first = function_hook_params [OF row assms(6), folded s1_def]
  have "parameter_annotations (function_hook d (describe ps h m d (s1\<lparr>global_annotations := g, parameter_annotations := []\<rparr>))) = []" for g
    using function_hook_empty [of "describe ps h m d (s1\<lparr>global_annotations := g, parameter_annotations := []\<rparr>)" d row]
    by (simp add: first(2) dict_simps)
  moreover have "dget (global_annotations t) ''params'' = dget (global_annotations s) ''params''"
    by (simp add: t_def describe_annotation)
  ultimately show ?thesis
    using first hook by (intro exI [of _ s1]) (simp add: t_def s1_def)
qed

lemma parameters_annotated_once_witness:
  "\<exists>s1. pre_scan_hook \<lparr>template_args = \<lambda>s. [], is_instantiation = \<lambda>s. False, template_parameters = \<lambda>s. [], location_of = \<lambda>s. None\<rparr>
      [(''random-variable.h'', ''core'')] ''core''
      \<lparr>kind = MemberFunction, file_name = ''ns3/random-variable.h'', decl_name = ''GetSeed'', decl_string = ''::ns3::RandomVariable::GetSeed'',
       decl_text = ''void ns3::RandomVariable::GetSeed(uint32_t * seed) const [member function]'', parent_name = ''RandomVariable''\<rparr>
      \<lparr>annotation_table = type_annotations, global_annotations = [], parameter_annotations = [], argument_defaults = []\<rparr> = Inr s1 \<and>
    parameter_annotations s1 = [(''seed'', [(''direction'', ''out''), (''array_length'', ''6'')])]"
proof -
  have path: "modular_relative_path ''ns3/random-variable.h'' = Inr (Some ''random-variable.h'')" by code_simp
  have row: "dget type_annotations ''void ns3::RandomVariable::GetSeed(uint32_t * seed) const [member function]'' =
      Some [(''params'', Params [(''seed'', [(''direction'', ''out''), (''array_length'', ''6'')])])]"
    by code_simp
  show ?thesis
    using parameters_annotated_once [of "\<lparr>kind = MemberFunction, file_name = ''ns3/random-variable.h'', decl_name = ''GetSeed'',
          decl_string = ''::ns3::RandomVariable::GetSeed'',
          decl_text = ''void ns3::RandomVariable::GetSeed(uint32_t * seed) const [member function]'', parent_name = ''RandomVariable''\<rparr>"
        "''random-variable.h''" "[(''random-variable.h'', ''core'')]" "''core''"
        "\<lparr>annotation_table = type_annotations, global_annotations = [], parameter_annotations = [], argument_defaults = []\<rparr>"
        "[(''params'', Params [(''seed'', [(''direction'', ''out''), (''array_length'', ''6'')])])]"
        "[(''seed'', [(''direction'', ''out''), (''array_length'', ''6'')])]"
        "\<lparr>template_args = \<lambda>s. [], is_instantiation = \<lambda>s. False, template_parameters = \<lambda>s. [], location_of = \<lambda>s. None\<rparr>" "''core''"]
      path row
    by (auto simp: dict_update_def)
qed

end
