(* ===== verification/VizThreads.thy ===== *)
theory VizThreads
  imports PyString Complex_Main
begin

text \<open>
  The two threads of \<open>src/visualizer/visualizer/core.py\<close>: the loop of
  \<open>SimulationThread.run\<close> and the callbacks of the view, which share a lock, the
  event \<open>go\<close> and the target time, as one event system.  The main loop runs one
  callback at a time, but the callback of the update timer runs pending events
  while it waits for the lock, so callbacks nest.  How far the simulator runs is
  an argument of its event; drawing is left out.
\<close>

section \<open>State\<close>

text \<open>The places where the simulation thread can be interrupted.\<close>

datatype sim_pc = AtCheck | AtWait | AtClear | AtTest | AtAcquire | Running | Ended

text \<open>
  \<open>shown\<close> is the simulation time of the last update of the view.  \<open>timers\<close> are the
  live sources of the main loop and \<open>timeout_id\<close> the one that the view knows.
  \<open>ticks\<close> are the timer callbacks that wait for the lock, innermost first, each
  with whether it has found the lock taken and runs other events; \<open>after_view\<close>
  holds the messages of a callback that has released the lock again.
\<close>

record threads =
  sim_pc :: sim_pc
  go :: bool
  quit :: bool
  locked :: bool
  now :: rat
  target_time :: rat
  shown :: rat
  sample_period :: rat
  play :: bool
  timers :: "nat list"
  timeout_id :: "nat option"
  next_id :: nat
  ticks :: "(nat \<times> bool) list"
  after_view :: "string list option"
  pause_messages :: "string list"
  idle :: nat

datatype viz_event =
    Sim | SimRun rat "string list"
  | Fire nat | Spin | View | EndTick
  | Toggle bool | Speed rat | Idle | Quit

section \<open>The simulation thread\<close>

definition sim_event :: "threads \<Rightarrow> threads option" where
  "sim_event s =
     (case sim_pc s of
        AtCheck \<Rightarrow> Some (s\<lparr>sim_pc := if quit s then Ended else AtWait\<rparr>)
      | AtWait \<Rightarrow> (if go s then Some (s\<lparr>sim_pc := AtClear\<rparr>) else None)
      | AtClear \<Rightarrow> Some (s\<lparr>go := False, sim_pc := AtTest\<rparr>)
      | AtTest \<Rightarrow> Some (s\<lparr>sim_pc := if quit s then Ended else AtAcquire\<rparr>)
      | AtAcquire \<Rightarrow> (if locked s then None else Some (s\<lparr>locked := True, sim_pc := Running\<rparr>))
      | Running \<Rightarrow> None
      | Ended \<Rightarrow> None)"

text \<open>
  \<open>SimulatorRunUntil\<close> returns at the target time or before, when a message pauses
  it; a target that has passed leaves the time as it is.
\<close>

definition sim_run :: "rat \<Rightarrow> string list \<Rightarrow> threads \<Rightarrow> threads option" where
  "sim_run t messages s =
     (if sim_pc s = Running \<and> now s \<le> t \<and> t \<le> max (now s) (target_time s)
      then Some (s\<lparr>now := t, pause_messages := pause_messages s @ messages, idle := idle s + 1,
                   locked := False, sim_pc := AtCheck\<rparr>)
      else None)"

section \<open>The callbacks of the view\<close>

definition source_remove :: "nat option \<Rightarrow> threads \<Rightarrow> threads" where
  "source_remove i s = (case i of None \<Rightarrow> s | Some i \<Rightarrow> s\<lparr>timers := remove1 i (timers s)\<rparr>)"

definition start_update_timer :: "threads \<Rightarrow> threads" where
  "start_update_timer s =
     (let s = source_remove (timeout_id s) s
      in s\<lparr>timers := timers s @ [next_id s], timeout_id := Some (next_id s), next_id := Suc (next_id s)\<rparr>)"

definition on_play_button_toggled :: "threads \<Rightarrow> threads" where
  "on_play_button_toggled s = (if play s then start_update_timer s else source_remove (timeout_id s) s)"

definition set_active :: "bool \<Rightarrow> threads \<Rightarrow> threads" where
  "set_active b s = (if play s = b then s else on_play_button_toggled (s\<lparr>play := b\<rparr>))"

definition speed_changed :: "rat \<Rightarrow> threads \<Rightarrow> threads" where
  "speed_changed v s = start_update_timer (s\<lparr>sample_period := v / 10\<rparr>)"

text \<open>
  \<open>update_view_timeout\<close> has two parts: the update of the view under the lock, and
  what follows its release.  A callback that returns false loses its source.
\<close>

definition update_view :: "threads \<Rightarrow> threads" where
  "update_view s =
     s\<lparr>after_view := Some (pause_messages s), pause_messages := [],
       shown := now s, target_time := now s + sample_period s\<rparr>"

definition end_update :: "nat \<Rightarrow> string list \<Rightarrow> threads \<Rightarrow> threads" where
  "end_update i messages s =
     (let s = (if messages \<noteq> [] then set_active False s else s)
      in if \<not> play s then s\<lparr>timeout_id := None, timers := remove1 i (timers s)\<rparr>
         else s\<lparr>go := True\<rparr>)"

definition quit_viz :: "threads \<Rightarrow> threads" where
  "quit_viz s =
     (case timeout_id s of None \<Rightarrow> s | Some i \<Rightarrow> (source_remove (Some i) s)\<lparr>timeout_id := None\<rparr>)
     \<lparr>quit := True, go := True\<rparr>"

text \<open>
  The main loop dispatches an event when no callback runs, or inside one that spins.
  After \<open>quit_viz\<close> the view waits for the thread to end.
\<close>

definition view_ready :: "threads \<Rightarrow> bool" where
  "view_ready s \<longleftrightarrow>
     \<not> quit s \<and> after_view s = None \<and> (case ticks s of [] \<Rightarrow> True | (i, spinning) # _ \<Rightarrow> spinning)"

definition tick_event :: "viz_event \<Rightarrow> threads \<Rightarrow> threads option" where
  "tick_event e s =
     (case (ticks s, after_view s) of
        ((i, b) # rest, None) \<Rightarrow>
          (if e = Spin \<and> locked s then Some (s\<lparr>ticks := (i, True) # rest\<rparr>)
           else if e = View \<and> \<not> locked s then Some (update_view s) else None)
      | ((i, b) # rest, Some messages) \<Rightarrow>
          (if e = EndTick then Some ((end_update i messages s)\<lparr>ticks := rest, after_view := None\<rparr>) else None)
      | ([], _) \<Rightarrow> None)"

definition viz_event :: "viz_event \<Rightarrow> threads \<Rightarrow> threads option" where
  "viz_event e s =
     (case e of
        Sim \<Rightarrow> sim_event s
      | SimRun t messages \<Rightarrow> sim_run t messages s
      | Fire i \<Rightarrow>
          (if view_ready s \<and> i \<in> set (timers s) \<and> i \<notin> fst ` set (ticks s)
           then Some (s\<lparr>ticks := (i, False) # ticks s\<rparr>) else None)
      | Toggle b \<Rightarrow> (if view_ready s \<and> play s \<noteq> b then Some (set_active b s) else None)
      | Speed v \<Rightarrow> (if view_ready s \<and> 1 / 100 \<le> v \<and> v \<le> 10 then Some (speed_changed v s) else None)
      | Idle \<Rightarrow> (if view_ready s \<and> 0 < idle s \<and> \<not> locked s then Some (s\<lparr>idle := idle s - 1\<rparr>) else None)
      | Quit \<Rightarrow> (if view_ready s then Some (quit_viz s) else None)
      | _ \<Rightarrow> (if quit s then None else tick_event e s))"

text \<open>After \<open>create_gui\<close>, which sets the speed, and the start of the thread.\<close>

definition start_threads :: threads where
  "start_threads = speed_changed 1
     \<lparr>sim_pc = AtCheck, go = False, quit = False, locked = False, now = 0, target_time = 0, shown = 0,
      sample_period = 1 / 10, play = False, timers = [], timeout_id = None, next_id = 1, ticks = [],
      after_view = None, pause_messages = [], idle = 0\<rparr>"

fun run_viz :: "viz_event list \<Rightarrow> threads \<Rightarrow> threads option" where
  "run_viz [] s = Some s"
| "run_viz (e # es) s = (case viz_event e s of None \<Rightarrow> None | Some s' \<Rightarrow> run_viz es s')"

inductive viz_reachable :: "threads \<Rightarrow> bool" where
  start: "viz_reachable start_threads"
| step: "viz_reachable s \<Longrightarrow> viz_event e s = Some s' \<Longrightarrow> viz_reachable s'"


section \<open>The invariant\<close>

definition clock_ok :: "threads \<Rightarrow> bool" where
  "clock_ok s \<longleftrightarrow>
     shown s \<le> now s \<and> now s \<le> max (shown s) (target_time s) \<and> target_time s \<le> shown s + 1 \<and>
     0 < sample_period s \<and> sample_period s \<le> 1"

definition ids_ok :: "threads \<Rightarrow> bool" where
  "ids_ok s \<longleftrightarrow> list_all (\<lambda>i. i < next_id s) (timers s) \<and> distinct (timers s)"

definition timers_ok :: "threads \<Rightarrow> bool" where
  "timers_ok s \<longleftrightarrow> ids_ok s \<and> (play s \<and> \<not> quit s \<longrightarrow> timers s \<noteq> [])"

definition sim_ok :: "threads \<Rightarrow> bool" where
  "sim_ok s \<longleftrightarrow>
     (locked s \<longleftrightarrow> sim_pc s = Running) \<and> (quit s \<and> sim_pc s = AtWait \<longrightarrow> go s) \<and> (sim_pc s = Ended \<longrightarrow> quit s)"

definition viz_inv :: "threads \<Rightarrow> bool" where
  "viz_inv s \<longleftrightarrow> clock_ok s \<and> timers_ok s \<and> sim_ok s"

lemma viz_inv_other [simp]:
  "viz_inv (s\<lparr>ticks := x\<rparr>) = viz_inv s" "viz_inv (s\<lparr>after_view := y\<rparr>) = viz_inv s"
  "viz_inv (s\<lparr>idle := n\<rparr>) = viz_inv s" "viz_inv (s\<lparr>pause_messages := ms\<rparr>) = viz_inv s"
  by (simp_all add: viz_inv_def clock_ok_def timers_ok_def ids_ok_def sim_ok_def)

lemma viz_inv_shown: "viz_inv s \<Longrightarrow> viz_inv (s\<lparr>shown := now s, target_time := now s + sample_period s\<rparr>)"
  by (simp add: viz_inv_def clock_ok_def timers_ok_def ids_ok_def sim_ok_def)

text \<open>What the callbacks leave alone.\<close>

definition same_thread :: "threads \<Rightarrow> threads \<Rightarrow> bool" where
  "same_thread s t \<longleftrightarrow>
     sim_pc t = sim_pc s \<and> locked t = locked s \<and> now t = now s \<and> shown t = shown s \<and>
     target_time t = target_time s \<and> quit t = quit s"

lemma source_remove_same [simp]:
  "same_thread s (source_remove i s)" "go (source_remove i s) = go s" "sample_period (source_remove i s) = sample_period s"
  "play (source_remove i s) = play s" "next_id (source_remove i s) = next_id s" "quit (source_remove i s) = quit s"
  "timeout_id (source_remove i s) = timeout_id s" "ticks (source_remove i s) = ticks s"
  "after_view (source_remove i s) = after_view s" "pause_messages (source_remove i s) = pause_messages s"
  by (simp_all add: source_remove_def same_thread_def split: option.splits)

lemma source_remove_ids [intro]: "ids_ok s \<Longrightarrow> ids_ok (source_remove i s)"
  by (auto simp: ids_ok_def source_remove_def list_all_iff split: option.splits dest: notin_set_remove1)

lemma start_update_timer_same [simp]:
  "same_thread s (start_update_timer s)" "go (start_update_timer s) = go s"
  "sample_period (start_update_timer s) = sample_period s" "play (start_update_timer s) = play s"
  "ticks (start_update_timer s) = ticks s" "after_view (start_update_timer s) = after_view s"
  "pause_messages (start_update_timer s) = pause_messages s" "quit (start_update_timer s) = quit s"
  using source_remove_same(1) [of s "timeout_id s"]
  by (simp_all add: start_update_timer_def Let_def same_thread_def)

lemma start_update_timer_ok: "ids_ok s \<Longrightarrow> timers_ok (start_update_timer s)"
  using source_remove_ids [of s "timeout_id s"]
  by (auto simp: timers_ok_def ids_ok_def start_update_timer_def Let_def list_all_iff)

lemma set_active_same [simp]:
  "same_thread s (set_active b s)" "go (set_active b s) = go s" "sample_period (set_active b s) = sample_period s"
  "play (set_active b s) = b" "ticks (set_active b s) = ticks s" "after_view (set_active b s) = after_view s"
  "pause_messages (set_active b s) = pause_messages s" "quit (set_active b s) = quit s"
  using start_update_timer_same(1) [of "s\<lparr>play := b\<rparr>"] source_remove_same(1) [of "s\<lparr>play := b\<rparr>" "timeout_id s"]
  by (auto simp: set_active_def on_play_button_toggled_def same_thread_def)

lemma set_active_ok: "timers_ok s \<Longrightarrow> timers_ok (set_active b s)"
proof -
  assume ok: "timers_ok s"
  then have ids: "ids_ok (s\<lparr>play := b\<rparr>)" by (simp add: timers_ok_def ids_ok_def)
  show ?thesis
  proof (cases "b \<and> play s \<noteq> b")
    case True
    then show ?thesis using start_update_timer_ok [OF ids] by (simp add: set_active_def on_play_button_toggled_def)
  next
    case False
    then show ?thesis using ok source_remove_ids [OF ids]
      by (auto simp: set_active_def on_play_button_toggled_def timers_ok_def)
  qed
qed

lemma same_thread_clock: "same_thread s t \<Longrightarrow> sample_period t = sample_period s \<Longrightarrow> clock_ok s \<Longrightarrow> clock_ok t"
  by (simp add: same_thread_def clock_ok_def)

lemma same_thread_sim: "same_thread s t \<Longrightarrow> go t = go s \<Longrightarrow> sim_ok s \<Longrightarrow> sim_ok t"
  by (simp add: same_thread_def sim_ok_def)

lemma sim_event_inv: "viz_inv s \<Longrightarrow> sim_event s = Some s' \<Longrightarrow> viz_inv s'"
  by (auto simp: viz_inv_def sim_event_def clock_ok_def timers_ok_def ids_ok_def sim_ok_def
      split: sim_pc.splits if_splits)

lemma sim_run_inv: "viz_inv s \<Longrightarrow> sim_run t ms s = Some s' \<Longrightarrow> viz_inv s'"
  by (auto simp: viz_inv_def sim_run_def clock_ok_def timers_ok_def ids_ok_def sim_ok_def split: if_splits)

lemma end_update_inv:
  assumes "viz_inv s"
  shows "viz_inv (end_update i ms s)"
proof -
  define t where "t = (if ms \<noteq> [] then set_active False s else s)"
  have t: "viz_inv t"
    using assms same_thread_clock [of s "set_active False s"] same_thread_sim [of s "set_active False s"] set_active_ok [of s False]
    by (simp add: t_def viz_inv_def)
  then show ?thesis
    using source_remove_ids [of t "Some i"]
    by (auto simp: end_update_def Let_def viz_inv_def clock_ok_def sim_ok_def timers_ok_def ids_ok_def source_remove_def
        simp flip: t_def)
qed

lemma quit_viz_inv:
  assumes "viz_inv s"
  shows "viz_inv (quit_viz s)"
  using assms source_remove_ids [of s "timeout_id s"] source_remove_same(1) [of s "timeout_id s"]
  by (auto simp: quit_viz_def viz_inv_def clock_ok_def sim_ok_def timers_ok_def ids_ok_def same_thread_def
      split: option.splits)

lemma tick_event_inv: "viz_inv s \<Longrightarrow> tick_event e s = Some s' \<Longrightarrow> viz_inv s'"
proof -
  assume inv: "viz_inv s" and e: "tick_event e s = Some s'"
  obtain i b rest where ticks: "ticks s = (i, b) # rest"
    using e by (cases "ticks s") (auto simp: tick_event_def)
  show "viz_inv s'"
  proof (cases "after_view s")
    case None
    have "update_view s = s\<lparr>shown := now s, target_time := now s + sample_period s,
        after_view := Some (pause_messages s), pause_messages := []\<rparr>"
      by (simp add: update_view_def)
    then have "viz_inv (update_view s)" using viz_inv_shown [OF inv] by simp
    then show ?thesis using e inv None ticks by (auto simp: tick_event_def split: if_splits)
  next
    case (Some ms)
    then show ?thesis
      using e end_update_inv [OF inv, of i ms] ticks by (auto simp: tick_event_def split: if_splits)
  qed
qed

lemma viz_event_inv:
  assumes "viz_inv s" "viz_event e s = Some s'"
  shows "viz_inv s'"
proof (cases e)
  case (Speed v)
  then have v: "0 < v / 10" "v / 10 \<le> 1" and s': "s' = start_update_timer (s\<lparr>sample_period := v / 10\<rparr>)"
    using assms(2) by (auto simp: viz_event_def speed_changed_def split: if_splits)
  have "ids_ok (s\<lparr>sample_period := v / 10\<rparr>)" "clock_ok (s\<lparr>sample_period := v / 10\<rparr>)" "sim_ok (s\<lparr>sample_period := v / 10\<rparr>)"
    using assms(1) v by (auto simp: viz_inv_def timers_ok_def ids_ok_def clock_ok_def sim_ok_def)
  then show ?thesis
    unfolding s' viz_inv_def
    using start_update_timer_ok same_thread_clock same_thread_sim start_update_timer_same by blast
next
  case (Toggle b)
  then have "s' = set_active b s" using assms(2) by (simp add: viz_event_def split: if_splits)
  then show ?thesis
    using assms(1) same_thread_clock [of s "set_active b s"] same_thread_sim [of s "set_active b s"] set_active_ok [of s b]
    by (simp add: viz_inv_def)
next
  case (Fire i)
  then show ?thesis using assms by (auto simp: viz_event_def split: if_splits)
next
  case Idle
  then show ?thesis using assms by (auto simp: viz_event_def split: if_splits)
next
  case Sim
  then show ?thesis using assms sim_event_inv by (simp add: viz_event_def)
next
  case (SimRun t ms)
  then show ?thesis using assms sim_run_inv by (simp add: viz_event_def)
next
  case Quit
  then show ?thesis using assms quit_viz_inv by (auto simp: viz_event_def split: if_splits)
qed (use assms tick_event_inv in \<open>auto simp: viz_event_def split: if_splits\<close>)

lemma start_inv: "viz_inv start_threads"
  by code_simp

theorem viz_reachable_inv: "viz_reachable s \<Longrightarrow> viz_inv s"
  by (induction rule: viz_reachable.induct) (auto intro: start_inv viz_event_inv)


lemma after_view_ticks: "viz_reachable s \<Longrightarrow> after_view s \<noteq> None \<Longrightarrow> ticks s \<noteq> []"
proof (induction rule: viz_reachable.induct)
  case start
  then show ?case by (simp add: start_threads_def speed_changed_def)
next
  case (step s e s')
  show ?case
  proof (cases e)
    case (Speed v)
    then show ?thesis using step by (auto simp: viz_event_def speed_changed_def view_ready_def split: if_splits)
  next
    case Quit
    then show ?thesis using step by (auto simp: viz_event_def quit_viz_def view_ready_def split: if_splits option.splits)
  next
    case (Toggle b)
    then show ?thesis using step by (auto simp: viz_event_def view_ready_def split: if_splits)
  qed (use step in \<open>auto simp: viz_event_def sim_event_def sim_run_def tick_event_def update_view_def
      split: if_splits sim_pc.splits list.splits option.splits\<close>)
qed


section \<open>Progress\<close>

lemma run_viz_append: "run_viz (es @ fs) s = (case run_viz es s of None \<Rightarrow> None | Some t \<Rightarrow> run_viz fs t)"
  by (induction es arbitrary: s) (auto split: option.splits)

lemma run_viz_trans: "run_viz es s = Some t \<Longrightarrow> run_viz fs t = Some u \<Longrightarrow> run_viz (es @ fs) s = Some u"
  by (simp add: run_viz_append)

lemma run_viz_reachable: "run_viz es s = Some t \<Longrightarrow> viz_reachable s \<Longrightarrow> viz_reachable t"
  by (induction es arbitrary: s) (auto split: option.splits intro: viz_reachable.step)

text \<open>The events that happen without the user.\<close>

definition own_event :: "viz_event \<Rightarrow> bool" where
  "own_event e \<longleftrightarrow> (case e of Toggle b \<Rightarrow> False | Speed v \<Rightarrow> False | Quit \<Rightarrow> False | _ \<Rightarrow> True)"

definition playing :: "threads \<Rightarrow> bool" where
  "playing s \<longleftrightarrow> play s \<and> \<not> quit s \<and> pause_messages s = [] \<and> after_view s \<in> {None, Some []} \<and>
     (after_view s \<noteq> None \<longrightarrow> ticks s \<noteq> [])"

text \<open>A schedule from one state to another that leaves the time alone.\<close>

definition leads :: "threads \<Rightarrow> threads \<Rightarrow> bool" where
  "leads s t \<longleftrightarrow> (\<exists>es. run_viz es s = Some t \<and> list_all own_event es) \<and> playing t \<and> \<not> locked t \<and>
     now t = now s \<and> sample_period t = sample_period s \<and> timers t = timers s"

lemma leads_trans: "leads s t \<Longrightarrow> leads t u \<Longrightarrow> leads s u"
  unfolding leads_def using run_viz_trans list_all_append by metis

lemma leads_run:
  "run_viz es s = Some t \<Longrightarrow> list_all own_event es \<Longrightarrow> playing t \<Longrightarrow> \<not> locked t \<Longrightarrow> now t = now s \<Longrightarrow>
     sample_period t = sample_period s \<Longrightarrow> timers t = timers s \<Longrightarrow> leads s t"
  unfolding leads_def by blast

lemma leads_unlocked:
  assumes "viz_inv s" "playing s"
  shows "\<exists>t. leads s t"
proof (cases "locked s")
  case True
  then have "run_viz [SimRun (now s) []] s = Some (s\<lparr>idle := idle s + 1, locked := False, sim_pc := AtCheck\<rparr>)"
    using assms(1) by (simp add: viz_event_def sim_run_def viz_inv_def sim_ok_def)
  then have "leads s (s\<lparr>idle := idle s + 1, locked := False, sim_pc := AtCheck\<rparr>)"
    by (rule leads_run) (use assms(2) in \<open>simp_all add: own_event_def playing_def\<close>)
  then show ?thesis by blast
next
  case False
  then have "leads s s" using assms(2) leads_run [of "[]" s s] by simp
  then show ?thesis by blast
qed

lemma end_tick:
  assumes "playing s" "\<not> locked s" "ticks s = (i, b) # rest" "after_view s = Some []"
  shows "leads s (s\<lparr>go := True, ticks := rest, after_view := None\<rparr>)"
proof -
  have "run_viz [EndTick] s = Some (s\<lparr>go := True, ticks := rest, after_view := None\<rparr>)"
    using assms by (simp add: viz_event_def tick_event_def end_update_def playing_def)
  then show ?thesis by (rule leads_run) (use assms in \<open>simp_all add: own_event_def playing_def\<close>)
qed

lemma whole_tick:
  assumes "playing s" "\<not> locked s" "ticks s = (i, b) # rest" "after_view s = None"
  shows "leads s (s\<lparr>go := True, ticks := rest, shown := now s, target_time := now s + sample_period s\<rparr>)"
proof -
  have "run_viz [View] s = Some (update_view s)"
    using assms by (simp add: viz_event_def tick_event_def playing_def)
  then have "leads s (update_view s)"
    by (rule leads_run) (use assms in \<open>simp_all add: own_event_def playing_def update_view_def\<close>)
  moreover have "leads (update_view s) ((update_view s)\<lparr>go := True, ticks := rest, after_view := None\<rparr>)"
    using assms by (intro end_tick [where i = i and b = b]) (simp_all add: playing_def update_view_def)
  moreover have "(update_view s)\<lparr>go := True, ticks := rest, after_view := None\<rparr> =
      s\<lparr>go := True, ticks := rest, shown := now s, target_time := now s + sample_period s\<rparr>"
    using assms(1,4) by (simp add: update_view_def playing_def)
  ultimately show ?thesis using leads_trans by metis
qed

lemma leads_drained:
  assumes "playing s" "\<not> locked s"
  shows "\<exists>t. leads s t \<and> ticks t = []"
  using assms
proof (induction "length (ticks s)" arbitrary: s rule: less_induct)
  case less
  show ?case
  proof (cases "ticks s")
    case Nil
    then show ?thesis using less.prems leads_run [of "[]" s s] by auto
  next
    case (Cons ib rest)
    obtain i b where ib: "ib = (i, b)" by fastforce
    have "\<exists>t. leads s t \<and> length (ticks t) < length (ticks s)"
    proof (cases "after_view s")
      case None
      from whole_tick [OF less.prems _ None, of i b rest] show ?thesis using Cons ib by auto
    next
      case (Some ms)
      then have "ms = []" using less.prems(1) by (simp add: playing_def)
      then show ?thesis using end_tick [OF less.prems, of i b rest] Cons ib Some by auto
    qed
    then obtain t where t: "leads s t" "length (ticks t) < length (ticks s)" by blast
    then have "playing t" "\<not> locked t" by (simp_all add: leads_def)
    from less.hyps [OF t(2) this] show ?thesis using t(1) leads_trans by blast
  qed
qed

lemma leads_running:
  assumes "go s" "\<not> locked s" "\<not> quit s" "sim_ok s"
  shows "\<exists>es t. run_viz es s = Some t \<and> list_all own_event es \<and> sim_pc t = Running \<and>
    now t = now s \<and> target_time t = target_time s"
proof -
  have own: "list_all own_event [Sim, Sim, Sim, Sim, Sim]" by (simp add: own_event_def)
  show ?thesis
  proof (cases "sim_pc s")
    case AtCheck
    then show ?thesis using assms own
      by (intro exI [of _ "[Sim, Sim, Sim, Sim, Sim]"]) (simp add: viz_event_def sim_event_def)
  next
    case AtWait
    then show ?thesis using assms own
      by (intro exI [of _ "[Sim, Sim, Sim, Sim]"]) (simp add: viz_event_def sim_event_def)
  next
    case AtClear
    then show ?thesis using assms own
      by (intro exI [of _ "[Sim, Sim, Sim]"]) (simp add: viz_event_def sim_event_def)
  next
    case AtTest
    then show ?thesis using assms own
      by (intro exI [of _ "[Sim, Sim]"]) (simp add: viz_event_def sim_event_def)
  next
    case AtAcquire
    then show ?thesis using assms own
      by (intro exI [of _ "[Sim]"]) (simp add: viz_event_def sim_event_def)
  next
    case Running
    then show ?thesis using assms by (simp add: sim_ok_def)
  next
    case Ended
    then show ?thesis using assms by (simp add: sim_ok_def)
  qed
qed

lemma run_viz_inv: "run_viz es s = Some t \<Longrightarrow> viz_inv s \<Longrightarrow> viz_inv t"
  by (induction es arbitrary: s) (auto split: option.splits intro: viz_event_inv)

lemma leads_inv: "leads s t \<Longrightarrow> viz_inv s \<Longrightarrow> viz_inv t"
  by (auto simp: leads_def intro: run_viz_inv)

lemma leads_next_tick:
  assumes "viz_inv s" "playing s"
  shows "\<exists>t. leads s t \<and> go t \<and> target_time t = now s + sample_period s"
proof -
  obtain r where r: "leads s r" using leads_unlocked [OF assms] by blast
  then obtain u where "leads r u" and ticks: "ticks u = []" using leads_drained [of r] by (auto simp: leads_def)
  then have u: "leads s u" using r leads_trans by blast
  have pu: "playing u" "\<not> locked u" "after_view u = None" using u ticks by (auto simp: leads_def playing_def)
  have "timers u \<noteq> []" using leads_inv [OF u assms(1)] pu(1) by (simp add: viz_inv_def timers_ok_def playing_def)
  then obtain i where i: "i \<in> set (timers u)" by (cases "timers u") auto
  define f where "f = u\<lparr>ticks := [(i, False)]\<rparr>"
  have "run_viz [Fire i] u = Some f"
    using i pu ticks by (simp add: f_def viz_event_def view_ready_def playing_def)
  then have f: "leads u f"
    by (rule leads_run) (use pu in \<open>simp_all add: f_def own_event_def playing_def\<close>)
  have "leads f (f\<lparr>go := True, ticks := [], shown := now f, target_time := now f + sample_period f\<rparr>)"
    using f pu by (intro whole_tick [where i = i and b = False]) (simp_all add: f_def leads_def)
  moreover have "now f = now s" "sample_period f = sample_period s" using u by (simp_all add: f_def leads_def)
  ultimately show ?thesis using leads_trans [OF leads_trans [OF u f]]
    by (intro exI [of _ "f\<lparr>go := True, ticks := [], shown := now f, target_time := now f + sample_period f\<rparr>"]) simp
qed

lemma play_advances_inv:
  assumes "viz_inv s" "playing s"
  shows "\<exists>es t. run_viz es s = Some t \<and> list_all own_event es \<and> now t = now s + sample_period s"
proof -
  obtain w es where w: "leads s w" "go w" "target_time w = now s + sample_period s"
    and es: "run_viz es s = Some w" "list_all own_event es"
    using leads_next_tick [OF assms] by (auto simp: leads_def)
  have "\<not> locked w" "\<not> quit w" "sim_ok w" "now w = now s"
    using w(1) leads_inv [OF w(1) assms(1)] by (simp_all add: leads_def playing_def viz_inv_def)
  then obtain fs t where t: "run_viz fs w = Some t" "list_all own_event fs" "sim_pc t = Running"
      "now t = now s" "target_time t = now s + sample_period s"
    using leads_running [OF w(2)] w(3) by metis
  define e where "e = SimRun (target_time t) []"
  have "0 < sample_period s" using assms(1) by (simp add: viz_inv_def clock_ok_def)
  then have "run_viz [e] t = Some (t\<lparr>now := target_time t, idle := idle t + 1, locked := False, sim_pc := AtCheck\<rparr>)"
    using t by (simp add: e_def viz_event_def sim_run_def)
  from run_viz_trans [OF run_viz_trans [OF es(1) t(1)] this] show ?thesis
    using es(2) t by (intro exI [of _ "(es @ fs) @ [e]"] exI) (auto simp: e_def own_event_def)
qed

text \<open>Without a callback that spins, the view knows the only timer.\<close>

definition one_timer :: "threads \<Rightarrow> bool" where
  "one_timer s \<longleftrightarrow>
     (timers s = [] \<or> (\<exists>i. timers s = [i] \<and> timeout_id s = Some i)) \<and>
     (ticks s = [] \<or> (\<exists>i. ticks s = [(i, False)] \<and> timers s = [i]))"

lemma one_timer_start_timer: "one_timer s \<Longrightarrow> ticks s = [] \<Longrightarrow> one_timer (start_update_timer s)"
  by (auto simp: one_timer_def start_update_timer_def source_remove_def Let_def split: option.splits)

lemma one_timer_remove: "one_timer s \<Longrightarrow> ticks s = [] \<Longrightarrow> one_timer (source_remove (timeout_id s) s)"
  by (auto simp: one_timer_def source_remove_def split: option.splits)

lemma one_timer_event:
  assumes "one_timer s" "viz_event e s = Some s'" "e \<noteq> Spin"
  shows "one_timer s'"
proof -
  have ready: "view_ready s \<Longrightarrow> ticks s = []"
    using assms(1) by (auto simp: view_ready_def one_timer_def)
  show ?thesis
  proof (cases e)
    case (Speed v)
    have "one_timer (s\<lparr>sample_period := v / 10\<rparr>)" using assms(1) by (simp add: one_timer_def)
    then show ?thesis
      using Speed assms(2) ready one_timer_start_timer [of "s\<lparr>sample_period := v / 10\<rparr>"]
      by (auto simp: viz_event_def speed_changed_def split: if_splits)
  next
    case (Toggle b)
    have "one_timer (s\<lparr>play := b\<rparr>)" using assms(1) by (simp add: one_timer_def)
    then show ?thesis
      using Toggle assms(2) ready one_timer_start_timer [of "s\<lparr>play := b\<rparr>"] one_timer_remove [of "s\<lparr>play := b\<rparr>"]
      by (auto simp: viz_event_def set_active_def on_play_button_toggled_def split: if_splits)
  next
    case Quit
    then show ?thesis
      using assms ready by (auto simp: viz_event_def quit_viz_def one_timer_def source_remove_def split: if_splits option.splits)
  next
    case (Fire i)
    then show ?thesis using assms ready by (auto simp: viz_event_def one_timer_def split: if_splits)
  next
    case EndTick
    then show ?thesis using assms
      by (auto simp: viz_event_def tick_event_def one_timer_def end_update_def set_active_def on_play_button_toggled_def
          source_remove_def Let_def split: if_splits option.splits list.splits)
  next
    case View
    then show ?thesis using assms
      by (auto simp: viz_event_def tick_event_def one_timer_def update_view_def split: if_splits option.splits list.splits)
  next
    case Idle
    then show ?thesis using assms by (auto simp: viz_event_def one_timer_def split: if_splits)
  next
    case Sim
    then show ?thesis using assms by (auto simp: viz_event_def sim_event_def one_timer_def split: if_splits sim_pc.splits)
  next
    case (SimRun t ms)
    then show ?thesis using assms by (auto simp: viz_event_def sim_run_def one_timer_def split: if_splits)
  qed (use assms(3) in simp)
qed

lemma one_timer_run: "run_viz es s = Some t \<Longrightarrow> Spin \<notin> set es \<Longrightarrow> one_timer s \<Longrightarrow> one_timer t"
  by (induction es arbitrary: s) (auto split: option.splits intro: one_timer_event)

text \<open>How many events are left after the quit.\<close>

fun quit_left :: "sim_pc \<Rightarrow> nat" where
  "quit_left AtCheck = 1"
| "quit_left AtWait = 3"
| "quit_left AtClear = 2"
| "quit_left AtTest = 1"
| "quit_left AtAcquire = 3"
| "quit_left Running = 2"
| "quit_left Ended = 0"

lemma quit_event:
  assumes "quit s" "viz_event e s = Some s'"
  shows "quit s' \<and> quit_left (sim_pc s') < quit_left (sim_pc s)"
  using assms
  by (cases e; cases "sim_pc s") (auto simp: viz_event_def view_ready_def sim_event_def sim_run_def split: if_splits)

lemma quit_run:
  "run_viz es s = Some t \<Longrightarrow> quit s \<Longrightarrow> quit t \<and> length es + quit_left (sim_pc t) \<le> quit_left (sim_pc s)"
proof (induction es arbitrary: s)
  case Nil
  then show ?case by simp
next
  case (Cons e es)
  then obtain u where u: "viz_event e s = Some u" "run_viz es u = Some t" by (auto split: option.splits)
  show ?case using Cons.IH [OF u(2)] quit_event [OF Cons.prems(2) u(1)] by simp
qed

lemma quit_enabled:
  assumes "quit s" "sim_ok s" "sim_pc s \<noteq> Ended"
  shows "\<exists>e u. viz_event e s = Some u"
proof (cases "sim_pc s = Running")
  case True
  then have "\<exists>u. viz_event (SimRun (now s) []) s = Some u" by (simp add: viz_event_def sim_run_def)
  then show ?thesis by blast
next
  case False
  then have "\<exists>u. viz_event Sim s = Some u"
    using assms by (cases "sim_pc s") (auto simp: viz_event_def sim_event_def sim_ok_def)
  then show ?thesis by blast
qed

text \<open>
  The press of the button sets a period going; while it runs the button is released and
  the speed changed, so that a new timer spins, and the speed is changed once more.
\<close>

definition lost_timer_events :: "viz_event list" where
  "lost_timer_events =
     [Toggle True, Fire 2, View, EndTick, Sim, Sim, Sim, Sim, Sim,
      Toggle False, Speed 1, Fire 3, Spin, Speed 1,
      SimRun (1 / 10) [], View, EndTick, Toggle True]"


section \<open>Properties\<close>

text \<open>The view is never ahead of the simulation, and the simulation never more than one
  second ahead of the view.\<close>

theorem view_follows_simulation:
  assumes "viz_reachable s"
  shows "shown s \<le> now s \<and> now s \<le> shown s + 1"
  using viz_reachable_inv [OF assms] by (auto simp: viz_inv_def clock_ok_def)

lemma view_follows_simulation_witness: "shown start_threads \<le> now start_threads \<and> now start_threads \<le> shown start_threads + 1"
  by (rule view_follows_simulation [OF viz_reachable.start])

text \<open>C6. From every state that can be reached with the play button pressed and no message
  pending, the threads and the timer alone can advance the simulation by one
  sample period: no wake-up is lost and no lock is held for ever.\<close>

theorem play_advances:
  assumes "viz_reachable s" "play s" "\<not> quit s" "pause_messages s = []" "after_view s \<in> {None, Some []}"
  shows "\<exists>es t. run_viz es s = Some t \<and> list_all own_event es \<and> now t = now s + sample_period s"
proof (rule play_advances_inv)
  show "viz_inv s" using assms(1) by (rule viz_reachable_inv)
  show "playing s" using assms after_view_ticks [OF assms(1)] by (simp add: playing_def)
qed

lemma play_advances_witness:
  "\<exists>es t. run_viz es (set_active True start_threads) = Some t \<and> list_all own_event es \<and> now t = 1 / 10"
proof -
  have "viz_event (Toggle True) start_threads = Some (set_active True start_threads)"
    by (simp add: viz_event_def view_ready_def start_threads_def speed_changed_def start_update_timer_def source_remove_def)
  then have "viz_reachable (set_active True start_threads)" by (rule viz_reachable.step [OF viz_reachable.start])
  then show ?thesis
    using play_advances [of "set_active True start_threads"] set_active_same(1) [of start_threads True]
    by (simp add: same_thread_def) (simp add: start_threads_def speed_changed_def start_update_timer_def source_remove_def)
qed

text \<open>C8. Quitting always ends the simulation thread: from every state that can be reached
  after the quit at most three more events are possible, and when none is left
  the thread has ended, so that the join returns.\<close>

theorem quit_ends_thread:
  assumes "viz_reachable s" "quit s" "run_viz es s = Some t"
  shows "length es \<le> 3 \<and> (sim_pc t = Ended \<or> (\<exists>e u. viz_event e t = Some u))"
proof -
  have left: "quit t" "length es + quit_left (sim_pc t) \<le> quit_left (sim_pc s)"
    using quit_run [OF assms(3,2)] by simp_all
  have "quit_left (sim_pc s) \<le> 3" by (cases "sim_pc s") simp_all
  moreover have "sim_ok t"
    using viz_reachable_inv [OF run_viz_reachable [OF assms(3,1)]] by (simp add: viz_inv_def)
  ultimately show ?thesis using left quit_enabled [of t] by auto
qed

lemma quit_ends_thread_witness:
  "\<exists>t. run_viz [Sim] (quit_viz start_threads) = Some t \<and> length [Sim] \<le> 3 \<and>
     (sim_pc t = Ended \<or> (\<exists>e u. viz_event e t = Some u))"
proof -
  have "viz_event Quit start_threads = Some (quit_viz start_threads)"
    by (simp add: viz_event_def view_ready_def start_threads_def speed_changed_def start_update_timer_def source_remove_def)
  then have reach: "viz_reachable (quit_viz start_threads)" by (rule viz_reachable.step [OF viz_reachable.start])
  have "quit (quit_viz start_threads)" by (simp add: quit_viz_def)
  moreover have "map_option (\<lambda>s. ()) (run_viz [Sim] (quit_viz start_threads)) = Some ()" by code_simp
  then obtain t where t: "run_viz [Sim] (quit_viz start_threads) = Some t" by auto
  ultimately show ?thesis using quit_ends_thread [OF reach, of "[Sim]" t] by blast
qed

text \<open>As long as no timer callback has to wait for the lock there is at most one timer.
  While one waits, a change of the speed makes the view forget a timer, and after
  the next press of the button two timers drive the simulation.\<close>

theorem second_timer:
  "(\<forall>es s. run_viz es start_threads = Some s \<and> Spin \<notin> set es \<longrightarrow> length (timers s) \<le> 1) \<and>
   (\<exists>s. run_viz lost_timer_events start_threads = Some s \<and> play s \<and> timers s = [4, 5] \<and> timeout_id s = Some 5)"
proof
  have "one_timer start_threads"
    by (simp add: one_timer_def start_threads_def speed_changed_def start_update_timer_def source_remove_def)
  then show "\<forall>es s. run_viz es start_threads = Some s \<and> Spin \<notin> set es \<longrightarrow> length (timers s) \<le> 1"
    using one_timer_run by (fastforce simp: one_timer_def)
  show "\<exists>s. run_viz lost_timer_events start_threads = Some s \<and> play s \<and> timers s = [4, 5] \<and> timeout_id s = Some 5"
  proof -
    have "map_option (\<lambda>s. (play s, timers s, timeout_id s)) (run_viz lost_timer_events start_threads) = Some (True, [4, 5], Some 5)"
      by code_simp
    then show ?thesis by auto
  qed
qed

lemma second_timer_witness:
  "length (timers (set_active True start_threads)) \<le> 1"
proof -
  have "run_viz [Toggle True] start_threads = Some (set_active True start_threads)"
    by (simp add: viz_event_def view_ready_def start_threads_def speed_changed_def start_update_timer_def source_remove_def)
  then show ?thesis using second_timer by fastforce
qed

end
