(* ===== verification/VizModel.thy ===== *)
theory VizModel
  imports PyString Complex_Main
begin

text \<open>
  The model that \<open>src/visualizer/visualizer/core.py\<close> keeps of a simulation: the nodes,
  channels and links that \<open>scan_topology\<close> makes, the selected node and the nodes
  whose transmissions are recorded, and the arrows of the recent transmissions.
  The simulator's topology and the layout program are arguments; drawing
  attributes are left out.
\<close>

section \<open>Device traits\<close>

record traits =
  is_wireless :: "bool option"
  is_virtual :: bool

definition netdevice_traits :: "(string, traits) dict" where
  "netdevice_traits =
     [(''ns.point_to_point.PointToPointNetDevice'', \<lparr>is_wireless = Some False, is_virtual = False\<rparr>),
      (''ns.csma.CsmaNetDevice'', \<lparr>is_wireless = Some False, is_virtual = False\<rparr>),
      (''ns.wifi.WifiNetDevice'', \<lparr>is_wireless = Some True, is_virtual = False\<rparr>),
      (''ns.bridge.BridgeNetDevice'', \<lparr>is_wireless = None, is_virtual = True\<rparr>),
      (''ns.internet.LoopbackNetDevice'', \<lparr>is_wireless = Some False, is_virtual = True\<rparr>),
      (''ns.mesh.MeshPointDevice'', \<lparr>is_wireless = None, is_virtual = True\<rparr>),
      (''ns.wimax.SubscriberStationNetDevice'', \<lparr>is_wireless = Some True, is_virtual = False\<rparr>),
      (''ns.wimax.BaseStationNetDevice'', \<lparr>is_wireless = Some True, is_virtual = False\<rparr>),
      (''ns.lte.LteUeNetDevice'', \<lparr>is_wireless = Some True, is_virtual = False\<rparr>),
      (''ns.lte.LteEnbNetDevice'', \<lparr>is_wireless = Some True, is_virtual = False\<rparr>)]"

text \<open>An unknown type is taken for a wireless device, and is known from then on.\<close>

definition lookup_netdevice_traits :: "string \<Rightarrow> (string, traits) dict \<Rightarrow> traits \<times> (string, traits) dict" where
  "lookup_netdevice_traits t d =
     (case dget d t of
        Some tr \<Rightarrow> (tr, d)
      | None \<Rightarrow> (let tr = \<lparr>is_wireless = Some True, is_virtual = False\<rparr> in (tr, dset t tr d)))"

section \<open>The topology of the simulator\<close>

record net_device =
  device_type :: string
  channel_id :: nat

text \<open>A channel lists the nodes of its devices.\<close>

record topology =
  mobility :: "(rat \<times> rat) option list"
  devices :: "net_device list list"
  channel_nodes :: "nat \<Rightarrow> nat list"

definition n_nodes :: "topology \<Rightarrow> nat" where
  "n_nodes net = length (devices net)"

section \<open>The visualizer\<close>

record node_view =
  selected :: bool
  position :: "rat \<times> rat"
  red :: bool

datatype endpoint = NodeEnd nat | ChannelEnd nat

datatype transmissions_mode = ShowAll | ShowNone | ShowSelected

record transmission =
  transmitter :: nat
  receiver :: nat
  tx_bytes :: nat

record arrow =
  arrow_id :: nat
  visible :: bool
  arrow_ends :: "nat \<times> nat"

record visualizer =
  nodes :: "(nat, node_view) dict"
  channels :: "(nat, rat \<times> rat) dict"
  links :: "(endpoint \<times> endpoint) list"
  selected_node :: "nat option"
  show_mode :: transmissions_mode
  nodes_of_interest :: "nat list"
  last_transmissions :: "transmission list list"
  arrows :: "arrow list"
  next_arrow :: nat
  known_traits :: "(string, traits) dict"

definition pixels_per_meter :: rat where
  "pixels_per_meter = 3"

definition to_canvas :: "rat \<times> rat \<Rightarrow> rat \<times> rat" where
  "to_canvas p = (fst p * pixels_per_meter, snd p * pixels_per_meter)"

definition to_simulation :: "rat \<times> rat \<Rightarrow> rat \<times> rat" where
  "to_simulation p = (fst p / pixels_per_meter, snd p / pixels_per_meter)"

definition new_node :: node_view where
  "new_node = \<lparr>selected = False, position = (0, 0), red = False\<rparr>"

definition get_node :: "nat \<Rightarrow> visualizer \<Rightarrow> visualizer" where
  "get_node i v = (if dhas (nodes v) i then v else v\<lparr>nodes := dset i new_node (nodes v)\<rparr>)"

definition get_channel :: "nat \<Rightarrow> visualizer \<Rightarrow> visualizer" where
  "get_channel c v = (if dhas (channels v) c then v else v\<lparr>channels := dset c (0, 0) (channels v)\<rparr>)"

definition create_link :: "endpoint \<Rightarrow> endpoint \<Rightarrow> visualizer \<Rightarrow> visualizer" where
  "create_link a b v = v\<lparr>links := links v @ [(a, b)]\<rparr>"

definition update_node :: "nat \<Rightarrow> (node_view \<Rightarrow> node_view) \<Rightarrow> visualizer \<Rightarrow> visualizer" where
  "update_node i f v =
     (case dget (nodes v) i of None \<Rightarrow> v | Some n \<Rightarrow> v\<lparr>nodes := dset i (f n) (nodes v)\<rparr>)"

section \<open>Scanning the topology\<close>

text \<open>The graph of the layout program: a strict graph, which keeps one of equal edges.\<close>

record layout_graph =
  graph_nodes :: "endpoint list"
  graph_edges :: "(endpoint \<times> endpoint) list"

definition graph_add_node :: "endpoint \<Rightarrow> layout_graph \<Rightarrow> layout_graph" where
  "graph_add_node a g = g\<lparr>graph_nodes := List.insert a (graph_nodes g)\<rparr>"

definition graph_add_edge :: "endpoint \<Rightarrow> endpoint \<Rightarrow> layout_graph \<Rightarrow> layout_graph" where
  "graph_add_edge a b g =
     (let g = graph_add_node b (graph_add_node a g)
      in if (a, b) \<in> set (graph_edges g) \<or> (b, a) \<in> set (graph_edges g) then g
         else g\<lparr>graph_edges := graph_edges g @ [(a, b)]\<rparr>)"

definition node_mobility :: "topology \<Rightarrow> nat \<Rightarrow> (rat \<times> rat) option" where
  "node_mobility net i = (if i < length (mobility net) then mobility net ! i else None)"

definition represent_channels_as_nodes :: bool where
  "represent_channels_as_nodes = True"

text \<open>The loop over the other devices of the channel.\<close>

definition link_node :: "topology \<Rightarrow> nat \<Rightarrow> nat \<Rightarrow> layout_graph \<times> visualizer \<Rightarrow> layout_graph \<times> visualizer" where
  "link_node net i j = (\<lambda>(g, v).
     let v = get_node j v
     in if j \<noteq> i
        then ((if node_mobility net i = None \<and> node_mobility net j = None
               then graph_add_edge (NodeEnd i) (NodeEnd j) g else g),
              create_link (NodeEnd i) (NodeEnd j) v)
        else (g, v))"

definition scan_device :: "topology \<Rightarrow> nat \<Rightarrow> net_device \<Rightarrow> layout_graph \<times> visualizer \<Rightarrow> layout_graph \<times> visualizer" where
  "scan_device net i dev = (\<lambda>(g, v).
     let (tr, known) = lookup_netdevice_traits (device_type dev) (known_traits v);
         v = v\<lparr>known_traits := known\<rparr>; c = channel_id dev; others = channel_nodes net c
     in if is_wireless tr = Some True \<or> is_virtual tr then (g, v)
        else if 2 < length others \<and> represent_channels_as_nodes
        then ((if node_mobility net i = None then graph_add_edge (NodeEnd i) (ChannelEnd c) g else g),
              create_link (NodeEnd i) (ChannelEnd c) (get_channel c v))
        else fold (link_node net i) others (g, v))"

definition scan_node :: "topology \<Rightarrow> nat \<Rightarrow> layout_graph \<times> visualizer \<Rightarrow> layout_graph \<times> visualizer" where
  "scan_node net i = (\<lambda>(g, v).
     let v = get_node i v;
         (g, v) = (case node_mobility net i of
             Some p \<Rightarrow> (g, update_node i (\<lambda>n. n\<lparr>position := to_canvas p, red := True\<rparr>) v)
           | None \<Rightarrow> (graph_add_node (NodeEnd i) g, v))
     in fold (scan_device net i) (devices net ! i) (g, v))"

text \<open>The positions of the layout, for nodes and channels that must be known.\<close>

definition place :: "(endpoint \<Rightarrow> rat \<times> rat) \<Rightarrow> visualizer \<Rightarrow> endpoint \<Rightarrow> visualizer py_result" where
  "place layout v e =
     (case e of
        NodeEnd i \<Rightarrow>
          rbind (dindex (nodes v) i) (\<lambda>n. Inr (v\<lparr>nodes := dset i (n\<lparr>position := layout e\<rparr>) (nodes v)\<rparr>))
      | ChannelEnd c \<Rightarrow>
          rbind (dindex (channels v) c) (\<lambda>p. Inr (v\<lparr>channels := dset c (layout e) (channels v)\<rparr>)))"

definition scan_topology :: "(layout_graph \<Rightarrow> endpoint \<Rightarrow> rat \<times> rat) \<Rightarrow> topology \<Rightarrow> visualizer \<Rightarrow> visualizer py_result" where
  "scan_topology layout net v =
     (let (g, v) = fold (scan_node net) [0..<n_nodes net] (\<lparr>graph_nodes = [], graph_edges = []\<rparr>, v)
      in foldM (place (layout g)) v (graph_nodes g))"

section \<open>Selection\<close>

definition interest :: "nat \<Rightarrow> visualizer \<Rightarrow> nat list" where
  "interest n v =
     (case show_mode v of
        ShowAll \<Rightarrow> [0..<n]
      | ShowNone \<Rightarrow> []
      | ShowSelected \<Rightarrow> (case selected_node v of None \<Rightarrow> [] | Some i \<Rightarrow> [i]))"

definition set_show_transmissions_mode :: "nat \<Rightarrow> transmissions_mode \<Rightarrow> visualizer \<Rightarrow> visualizer" where
  "set_show_transmissions_mode n mode v =
     (let v = v\<lparr>show_mode := mode\<rparr>
      in if mode = ShowAll then v\<lparr>nodes_of_interest := [0..<n]\<rparr>
         else if mode = ShowNone then v\<lparr>nodes_of_interest := []\<rparr>
         else (case selected_node v of
                 None \<Rightarrow> v\<lparr>nodes_of_interest := []\<rparr>
               | Some i \<Rightarrow> v\<lparr>nodes_of_interest := [i]\<rparr>))"

definition set_selected :: "bool \<Rightarrow> nat option \<Rightarrow> visualizer \<Rightarrow> visualizer" where
  "set_selected b sel v =
     (case sel of None \<Rightarrow> v | Some i \<Rightarrow> update_node i (\<lambda>n. n\<lparr>selected := b\<rparr>) v)"

text \<open>A node is given by its index, which must be known, or is none.\<close>

definition select_node :: "nat option \<Rightarrow> visualizer \<Rightarrow> visualizer py_result" where
  "select_node sel v =
     (if (case sel of None \<Rightarrow> False | Some i \<Rightarrow> \<not> dhas (nodes v) i) then Inl KeyError
      else if sel = selected_node v then Inr v
      else (let v = set_selected False (selected_node v) v;
                v = set_selected True sel (v\<lparr>selected_node := sel\<rparr>)
            in Inr (if show_mode v = ShowSelected
                    then (case sel of None \<Rightarrow> v\<lparr>nodes_of_interest := []\<rparr>
                          | Some i \<Rightarrow> v\<lparr>nodes_of_interest := [i]\<rparr>)
                    else v)))"

section \<open>Transmissions\<close>

definition remember :: "nat \<Rightarrow> transmission list \<Rightarrow> visualizer \<Rightarrow> visualizer" where
  "remember smooth_factor ts v =
     (let xs = last_transmissions v @ [ts]
      in v\<lparr>last_transmissions := drop (length xs - smooth_factor) xs\<rparr>)"

definition average_step :: "transmission \<Rightarrow> (nat \<times> nat, nat \<times> nat) dict \<Rightarrow> (nat \<times> nat, nat \<times> nat) dict" where
  "average_step t d =
     (let key = (transmitter t, receiver t); (bytes, count) = dget_default d key (0, 0)
      in dset key (bytes + tx_bytes t, count + 1) d)"

definition transmissions_average :: "transmission list list \<Rightarrow> (nat \<times> nat, nat \<times> nat) dict" where
  "transmissions_average ts = fold average_step (concat ts) []"

text \<open>
  An arrow is taken from the end of the pool, or made.  The logarithm of the rate
  fails for a pair that has sent no bytes.
\<close>

definition show_arrow ::
  "arrow list \<times> visualizer \<Rightarrow> (nat \<times> nat) \<times> (nat \<times> nat) \<Rightarrow> (arrow list \<times> visualizer) py_result" where
  "show_arrow st kv =
     (let (new, v) = st; (key, bytes, count) = kv; v = get_node (snd key) (get_node (fst key) v);
          (a, v) = (if arrows v = []
                    then (\<lparr>arrow_id = next_arrow v, visible = False, arrow_ends = (0, 0)\<rparr>, v\<lparr>next_arrow := next_arrow v + 1\<rparr>)
                    else (last (arrows v), v\<lparr>arrows := butlast (arrows v)\<rparr>))
      in if bytes = 0 then Inl ValueError
         else Inr (new @ [a\<lparr>visible := True, arrow_ends := key\<rparr>], v))"

definition update_transmissions_view :: "visualizer \<Rightarrow> visualizer py_result" where
  "update_transmissions_view v =
     (let v = v\<lparr>arrows := List.map (\<lambda>a. a\<lparr>visible := False\<rparr>) (arrows v)\<rparr>
      in rbind (foldM show_arrow ([], v) (transmissions_average (last_transmissions v))) (\<lambda>(new, v).
         Inr (v\<lparr>arrows := new @ arrows v\<rparr>)))"


section \<open>Laws of the scan\<close>

definition traits_of :: "(string, traits) dict \<Rightarrow> string \<Rightarrow> traits" where
  "traits_of d t = fst (lookup_netdevice_traits t d)"

text \<open>What a step of the scan keeps and adds.\<close>

definition known_ends :: "topology \<Rightarrow> layout_graph \<Rightarrow> visualizer \<Rightarrow> bool" where
  "known_ends net g v \<longleftrightarrow>
     (\<forall>i. NodeEnd i \<in> set (graph_nodes g) \<longrightarrow> dhas (nodes v) i \<and> node_mobility net i = None) \<and>
     (\<forall>c. ChannelEnd c \<in> set (graph_nodes g) \<longrightarrow> dhas (channels v) c)"

definition extends :: "topology \<Rightarrow> layout_graph \<times> visualizer \<Rightarrow> layout_graph \<times> visualizer \<Rightarrow> bool" where
  "extends net s t \<longleftrightarrow>
     (\<forall>i n. dget (nodes (snd s)) i = Some n \<longrightarrow> dget (nodes (snd t)) i = Some n) \<and>
     set (graph_nodes (fst s)) \<subseteq> set (graph_nodes (fst t)) \<and>
     (known_ends net (fst s) (snd s) \<longrightarrow> known_ends net (fst t) (snd t)) \<and>
     traits_of (known_traits (snd t)) = traits_of (known_traits (snd s))"

lemma extends_refl [simp]: "extends net s s"
  by (simp add: extends_def)

lemma extends_trans: "extends net s t \<Longrightarrow> extends net t u \<Longrightarrow> extends net s u"
  by (auto simp: extends_def)

lemma extends_node: "extends net s t \<Longrightarrow> dhas (nodes (snd s)) i \<Longrightarrow> dhas (nodes (snd t)) i"
  by (auto simp: extends_def)

definition device_links :: "topology \<Rightarrow> (string \<Rightarrow> traits) \<Rightarrow> nat \<Rightarrow> net_device \<Rightarrow> (endpoint \<times> endpoint) list" where
  "device_links net tr i dev =
     (let others = channel_nodes net (channel_id dev)
      in if is_wireless (tr (device_type dev)) = Some True \<or> is_virtual (tr (device_type dev)) then []
         else if 2 < length others then [(NodeEnd i, ChannelEnd (channel_id dev))]
         else List.map (\<lambda>j. (NodeEnd i, NodeEnd j)) (List.filter (\<lambda>j. j \<noteq> i) others))"

lemma graph_add_simps [simp]:
  "set (graph_nodes (graph_add_node a g)) = insert a (set (graph_nodes g))"
  "set (graph_nodes (graph_add_edge a b g)) = insert a (insert b (set (graph_nodes g)))"
  by (auto simp: graph_add_node_def graph_add_edge_def Let_def)

lemma get_node_simps [simp]:
  "dget (nodes (get_node i v)) j = (if j = i \<and> dget (nodes v) i = None then Some new_node else dget (nodes v) j)"
  "channels (get_node i v) = channels v" "links (get_node i v) = links v" "known_traits (get_node i v) = known_traits v"
  by (auto simp: get_node_def dict_simps)

lemma get_channel_simps [simp]:
  "nodes (get_channel c v) = nodes v" "dget (channels (get_channel c v)) d = (if d = c \<and> dget (channels v) c = None then Some (0, 0) else dget (channels v) d)"
  "links (get_channel c v) = links v" "known_traits (get_channel c v) = known_traits v"
  by (auto simp: get_channel_def dict_simps)

lemma link_node_extends:
  assumes "dhas (nodes (snd s)) i"
  shows "extends net s (link_node net i j s) \<and>
    links (snd (link_node net i j s)) = links (snd s) @ (if j = i then [] else [(NodeEnd i, NodeEnd j)])"
  using assms by (cases s) (auto simp: link_node_def extends_def known_ends_def create_link_def Let_def)

lemma link_nodes_extends:
  assumes "dhas (nodes (snd s)) i"
  shows "extends net s (fold (link_node net i) js s) \<and>
    links (snd (fold (link_node net i) js s)) =
      links (snd s) @ List.map (\<lambda>j. (NodeEnd i, NodeEnd j)) (List.filter (\<lambda>j. j \<noteq> i) js)"
  using assms
proof (induction js arbitrary: s)
  case Nil
  then show ?case by simp
next
  case (Cons j js)
  note one = link_node_extends [OF Cons.prems, of net j]
  have "dhas (nodes (snd (link_node net i j s))) i" using one Cons.prems extends_node by blast
  from Cons.IH [OF this] one show ?case using extends_trans [of net s "link_node net i j s"] by auto
qed

lemma lookup_traits_of: "traits_of (snd (lookup_netdevice_traits t d)) = traits_of d"
  by (auto simp: traits_of_def lookup_netdevice_traits_def fun_eq_iff Let_def dict_simps split: option.splits)

lemma scan_device_extends:
  assumes "dhas (nodes (snd s)) i"
  shows "extends net s (scan_device net i dev s) \<and>
    links (snd (scan_device net i dev s)) =
      links (snd s) @ device_links net (traits_of (known_traits (snd s))) i dev"
proof -
  obtain g v where s: "s = (g, v)" by fastforce
  obtain tr known where look: "lookup_netdevice_traits (device_type dev) (known_traits v) = (tr, known)" by fastforce
  define w where "w = v\<lparr>known_traits := known\<rparr>"
  have tr: "traits_of (known_traits v) (device_type dev) = tr" by (simp add: traits_of_def look)
  have known: "traits_of known = traits_of (known_traits v)"
    using lookup_traits_of [of "device_type dev" "known_traits v"] by (simp add: look)
  have w: "extends net (g, v) (g, w)" by (simp add: extends_def w_def known known_ends_def)
  have i: "dhas (nodes w) i" using assms s by (simp add: w_def)
  consider (skip) "is_wireless tr = Some True \<or> is_virtual tr"
    | (channel) "\<not> (is_wireless tr = Some True \<or> is_virtual tr)" "2 < length (channel_nodes net (channel_id dev))"
    | (other) "\<not> (is_wireless tr = Some True \<or> is_virtual tr)" "\<not> 2 < length (channel_nodes net (channel_id dev))"
    by blast
  then show ?thesis
  proof cases
    case skip
    then have "scan_device net i dev s = (g, w)"
      by (simp add: scan_device_def s look w_def Let_def)
    then show ?thesis using w skip s by (simp add: device_links_def tr w_def)
  next
    case channel
    define c where "c = channel_id dev"
    define g' where "g' = (if node_mobility net i = None then graph_add_edge (NodeEnd i) (ChannelEnd c) g else g)"
    have step: "scan_device net i dev s = (g', create_link (NodeEnd i) (ChannelEnd c) (get_channel c w))"
      using channel by (simp add: scan_device_def s look w_def Let_def represent_channels_as_nodes_def g'_def c_def)
    have "extends net (g, w) (g', create_link (NodeEnd i) (ChannelEnd c) (get_channel c w))"
      using i by (auto simp: extends_def known_ends_def create_link_def g'_def)
    from extends_trans [OF w this]
    have "extends net s (scan_device net i dev s)" unfolding step by (simp only: s)
    moreover have "links (snd (scan_device net i dev s)) = links v @ [(NodeEnd i, ChannelEnd c)]"
      unfolding step by (simp add: create_link_def w_def)
    ultimately show ?thesis using channel s by (simp add: device_links_def tr c_def)
  next
    case other
    have step: "scan_device net i dev s = fold (link_node net i) (channel_nodes net (channel_id dev)) (g, w)"
      using other by (simp add: scan_device_def s look w_def Let_def)
    have all: "extends net (g, w) (scan_device net i dev s)"
      "links (snd (scan_device net i dev s)) =
        links v @ List.map (\<lambda>j. (NodeEnd i, NodeEnd j)) (List.filter (\<lambda>j. j \<noteq> i) (channel_nodes net (channel_id dev)))"
      using link_nodes_extends [of "(g, w)" i net "channel_nodes net (channel_id dev)"] i
      unfolding step by (simp_all add: w_def)
    have "extends net s (scan_device net i dev s)" using extends_trans [OF w all(1)] by (simp only: s)
    then show ?thesis using all(2) other s by (simp add: device_links_def tr)
  qed
qed

lemma scan_devices_extends:
  assumes "dhas (nodes (snd s)) i"
  shows "extends net s (fold (scan_device net i) devs s) \<and>
    links (snd (fold (scan_device net i) devs s)) =
      links (snd s) @ concat (List.map (device_links net (traits_of (known_traits (snd s))) i) devs)"
  using assms
proof (induction devs arbitrary: s)
  case Nil
  then show ?case by simp
next
  case (Cons dev devs)
  note one = scan_device_extends [OF Cons.prems, of net dev]
  have "dhas (nodes (snd (scan_device net i dev s))) i" using one Cons.prems extends_node by blast
  moreover have "traits_of (known_traits (snd (scan_device net i dev s))) = traits_of (known_traits (snd s))"
    using one by (simp add: extends_def)
  ultimately show ?case
    using Cons.IH [of "scan_device net i dev s"] one extends_trans [of net s "scan_device net i dev s"] by auto
qed


text \<open>What is known after the nodes below a bound have been scanned.\<close>

definition placed :: "topology \<Rightarrow> nat \<Rightarrow> layout_graph \<Rightarrow> visualizer \<Rightarrow> bool" where
  "placed net k g v \<longleftrightarrow>
     (\<forall>i < k. dhas (nodes v) i \<and>
        (case node_mobility net i of
           Some p \<Rightarrow> position (the (dget (nodes v) i)) = to_canvas p
         | None \<Rightarrow> NodeEnd i \<in> set (graph_nodes g)))"

lemma placed_extends: "placed net k (fst s) (snd s) \<Longrightarrow> extends net s t \<Longrightarrow> placed net k (fst t) (snd t)"
  by (fastforce simp: placed_def extends_def split: option.splits)

definition node_links :: "topology \<Rightarrow> (string \<Rightarrow> traits) \<Rightarrow> nat \<Rightarrow> (endpoint \<times> endpoint) list" where
  "node_links net tr i = concat (List.map (device_links net tr i) (devices net ! i))"

definition scan_ok :: "topology \<Rightarrow> nat \<Rightarrow> (string \<Rightarrow> traits) \<Rightarrow> (endpoint \<times> endpoint) list \<Rightarrow> layout_graph \<times> visualizer \<Rightarrow> bool" where
  "scan_ok net k tr ls s \<longleftrightarrow>
     known_ends net (fst s) (snd s) \<and> placed net k (fst s) (snd s) \<and> traits_of (known_traits (snd s)) = tr \<and>
     links (snd s) = ls @ concat (List.map (node_links net tr) [0..<k])"

lemma scan_node_ok:
  assumes "scan_ok net k tr ls s"
  shows "scan_ok net (Suc k) tr ls (scan_node net k s)"
proof -
  obtain g v where s: "s = (g, v)" by fastforce
  define t where "t = (case node_mobility net k of
      Some p \<Rightarrow> (g, update_node k (\<lambda>n. n\<lparr>position := to_canvas p, red := True\<rparr>) (get_node k v))
    | None \<Rightarrow> (graph_add_node (NodeEnd k) g, get_node k v))"
  have scan: "scan_node net k s = fold (scan_device net k) (devices net ! k) t"
    by (simp add: scan_node_def s t_def Let_def split: option.splits)
  have old: "known_ends net g v" "placed net k g v" "traits_of (known_traits v) = tr"
      "links v = ls @ concat (List.map (node_links net tr) [0..<k])"
    using assms by (simp_all add: scan_ok_def s)
  have t: "known_ends net (fst t) (snd t)" "placed net (Suc k) (fst t) (snd t)"
      "known_traits (snd t) = known_traits v" "links (snd t) = links v"
    using old(1,2)
    by (auto simp: t_def known_ends_def placed_def update_node_def dict_simps less_Suc_eq split: option.splits)
  have "dhas (nodes (snd t)) k" using t(2) by (auto simp: placed_def)
  from scan_devices_extends [OF this, of net "devices net ! k"] show ?thesis
    using t old placed_extends [OF t(2)] by (auto simp: scan_ok_def scan extends_def node_links_def)
qed

lemma scan_nodes_ok:
  assumes "links v = ls" "traits_of (known_traits v) = tr"
  shows "scan_ok net k tr ls (fold (scan_node net) [0..<k] (\<lparr>graph_nodes = [], graph_edges = []\<rparr>, v))"
proof (induction k)
  case 0
  then show ?case using assms by (simp add: scan_ok_def known_ends_def placed_def)
next
  case (Suc k)
  then show ?case using scan_node_ok by simp
qed

lemma place_known:
  assumes "\<forall>e \<in> set es. case e of NodeEnd i \<Rightarrow> dhas (nodes v) i | ChannelEnd c \<Rightarrow> dhas (channels v) c"
  shows "\<exists>w. foldM (place layout) v es = Inr w \<and> links w = links v \<and>
    (\<forall>i. dhas (nodes w) i \<longleftrightarrow> dhas (nodes v) i) \<and>
    (\<forall>i n. dget (nodes v) i = Some n \<longrightarrow>
       dget (nodes w) i = Some (if NodeEnd i \<in> set es then n\<lparr>position := layout (NodeEnd i)\<rparr> else n))"
  using assms
proof (induction es arbitrary: v)
  case Nil
  then show ?case by simp
next
  case (Cons e es)
  obtain u where u: "place layout v e = Inr u" "links u = links v" "\<forall>i. dhas (nodes u) i \<longleftrightarrow> dhas (nodes v) i"
      "\<forall>c. dhas (channels u) c \<longleftrightarrow> dhas (channels v) c"
      "\<forall>i n. dget (nodes v) i = Some n \<longrightarrow>
        dget (nodes u) i = Some (if e = NodeEnd i then n\<lparr>position := layout e\<rparr> else n)"
  proof (cases e)
    case (NodeEnd i)
    then obtain n where "dget (nodes v) i = Some n" using Cons.prems by auto
    then show ?thesis using NodeEnd that by (simp add: place_def dindex_def dict_simps)
  next
    case (ChannelEnd c)
    then obtain p where "dget (channels v) c = Some p" using Cons.prems by auto
    then show ?thesis using ChannelEnd that by (simp add: place_def dindex_def dict_simps)
  qed
  have "\<forall>e \<in> set es. case e of NodeEnd i \<Rightarrow> dhas (nodes u) i | ChannelEnd c \<Rightarrow> dhas (channels u) c"
    using Cons.prems u(3,4) by (auto split: endpoint.splits)
  from Cons.IH [OF this] obtain w where w: "foldM (place layout) u es = Inr w" "links w = links u"
      "\<forall>i. dhas (nodes w) i \<longleftrightarrow> dhas (nodes u) i"
      "\<forall>i n. dget (nodes u) i = Some n \<longrightarrow>
         dget (nodes w) i = Some (if NodeEnd i \<in> set es then n\<lparr>position := layout (NodeEnd i)\<rparr> else n)"
    by blast
  have "dget (nodes w) i = Some (if NodeEnd i \<in> set (e # es) then n\<lparr>position := layout (NodeEnd i)\<rparr> else n)"
    if n: "dget (nodes v) i = Some n" for i n
    using u(5) w(4) n by (cases "e = NodeEnd i") auto
  then show ?case using u w by (intro exI [of _ w]) simp
qed


section \<open>Laws of the selection\<close>

definition selection_ok :: "nat \<Rightarrow> visualizer \<Rightarrow> bool" where
  "selection_ok n v \<longleftrightarrow>
     (\<forall>i nv. dget (nodes v) i = Some nv \<longrightarrow> (selected nv \<longleftrightarrow> selected_node v = Some i)) \<and>
     (\<forall>i. selected_node v = Some i \<longrightarrow> dhas (nodes v) i) \<and>
     nodes_of_interest v = interest n v"

lemma update_node_simps [simp]:
  "dget (nodes (update_node i f v)) j = (if j = i then map_option f (dget (nodes v) i) else dget (nodes v) j)"
  "selected_node (update_node i f v) = selected_node v" "show_mode (update_node i f v) = show_mode v"
  "nodes_of_interest (update_node i f v) = nodes_of_interest v"
  by (auto simp: update_node_def dict_simps split: option.splits)

lemma set_mode_ok: "selection_ok n v \<Longrightarrow> selection_ok n (set_show_transmissions_mode n mode v)"
  by (cases mode) (auto simp: selection_ok_def set_show_transmissions_mode_def interest_def Let_def split: option.splits)

lemma select_node_ok:
  assumes "selection_ok n v" "select_node sel v = Inr w"
  shows "selection_ok n w \<and> selected_node w = sel"
  using assms
  by (auto simp: select_node_def selection_ok_def set_selected_def interest_def Let_def
      split: option.splits if_splits transmissions_mode.splits)


section \<open>Laws of the arrows\<close>

definition keys_bytes_ok :: "((nat \<times> nat) \<times> (nat \<times> nat)) list \<Rightarrow> bool" where
  "keys_bytes_ok kvs \<longleftrightarrow> list_all (\<lambda>(k, b, c). 0 < b) kvs"

lemma show_arrow_pool:
  assumes "0 < b"
  shows "\<exists>a w. show_arrow (new, v) (k, b, c) = Inr (new @ [a], w) \<and> visible a \<and> arrow_ends a = k \<and>
    arrows w = butlast (arrows v) \<and> last_transmissions w = last_transmissions v \<and>
    (if arrows v = [] then arrow_id a = next_arrow v \<and> next_arrow w = next_arrow v + 1
     else arrow_id a = arrow_id (last (arrows v)) \<and> next_arrow w = next_arrow v)"
  using assms by (auto simp: show_arrow_def get_node_def Let_def)

text \<open>The identities of a pool, and the next one, are never given twice.\<close>

definition pool_ok :: "arrow list \<Rightarrow> visualizer \<Rightarrow> bool" where
  "pool_ok new v \<longleftrightarrow>
     distinct (List.map arrow_id (new @ arrows v)) \<and> list_all (\<lambda>a. arrow_id a < next_arrow v) (new @ arrows v)"

lemma show_arrows_pool:
  assumes "keys_bytes_ok kvs" "pool_ok new v" "list_all (\<lambda>a. \<not> visible a) (arrows v)"
  shows "\<exists>as w. foldM show_arrow (new, v) kvs = Inr (new @ as, w) \<and> pool_ok (new @ as) w \<and>
    list_all visible as \<and> List.map arrow_ends as = List.map fst kvs \<and>
    list_all (\<lambda>a. \<not> visible a) (arrows w) \<and> length (arrows w) = length (arrows v) - length kvs"
  using assms
proof (induction kvs arbitrary: new v)
  case Nil
  then show ?case by simp
next
  case (Cons kv kvs)
  obtain k b c where kv: "kv = (k, b, c)" by (cases kv)
  then have "0 < b" using Cons.prems(1) by (simp add: keys_bytes_ok_def)
  from show_arrow_pool [OF this, of new v k c] obtain a w where
    a: "show_arrow (new, v) kv = Inr (new @ [a], w)" "visible a" "arrow_ends a = k" "arrows w = butlast (arrows v)"
      "if arrows v = [] then arrow_id a = next_arrow v \<and> next_arrow w = next_arrow v + 1
       else arrow_id a = arrow_id (last (arrows v)) \<and> next_arrow w = next_arrow v"
    unfolding kv by blast
  have ids: "pool_ok (new @ [a]) w"
  proof (cases "arrows v = []")
    case True
    then show ?thesis using a Cons.prems(2) by (auto simp: pool_ok_def list_all_iff)
  next
    case False
    then obtain xs x where x: "arrows v = xs @ [x]" by (metis rev_exhaust)
    then show ?thesis using a Cons.prems(2) by (auto simp: pool_ok_def)
  qed
  have "list_all (\<lambda>a. \<not> visible a) (arrows w)"
    using a(4) Cons.prems(3) by (auto simp: list_all_iff dest: in_set_butlastD)
  moreover have "keys_bytes_ok kvs" using Cons.prems(1) by (simp add: keys_bytes_ok_def)
  ultimately obtain as u where u: "foldM show_arrow (new @ [a], w) kvs = Inr ((new @ [a]) @ as, u)" "pool_ok ((new @ [a]) @ as) u"
      "list_all visible as" "List.map arrow_ends as = List.map fst kvs"
      "list_all (\<lambda>a. \<not> visible a) (arrows u)" "length (arrows u) = length (arrows w) - length kvs"
    using Cons.IH [OF _ ids] by blast
  then show ?case using a kv by (intro exI [of _ "a # as"] exI [of _ u]) simp
qed

definition pair_transmissions :: "transmission list \<Rightarrow> nat \<times> nat \<Rightarrow> transmission list" where
  "pair_transmissions ts k = List.filter (\<lambda>t. (transmitter t, receiver t) = k) ts"

lemma average_step_get:
  "dget (average_step t d) k =
     (if k = (transmitter t, receiver t)
      then Some (fst (dget_default d k (0, 0)) + tx_bytes t, snd (dget_default d k (0, 0)) + 1) else dget d k)"
  by (simp add: average_step_def Let_def split_beta dict_simps)

lemma average_fold_wf: "dict_wf (fold average_step ts [])"
  by (induction ts rule: rev_induct) (simp_all add: average_step_def Let_def split_beta)

lemma pair_transmissions_snoc [simp]:
  "pair_transmissions (ts @ [t]) k =
     (if k = (transmitter t, receiver t) then pair_transmissions ts k @ [t] else pair_transmissions ts k)"
  by (auto simp: pair_transmissions_def)

lemma average_fold:
  "dget (fold average_step ts []) k =
     (if pair_transmissions ts k = [] then None
      else Some (sum_list (List.map tx_bytes (pair_transmissions ts k)), length (pair_transmissions ts k)))"
proof (induction ts rule: rev_induct)
  case Nil
  then show ?case by (simp add: pair_transmissions_def)
next
  case (snoc t ts)
  have "fold average_step (ts @ [t]) [] = average_step t (fold average_step ts [])" by simp
  then show ?case
    using snoc by (simp only: average_step_get dget_default_def pair_transmissions_snoc) simp
qed


section \<open>Properties\<close>

text \<open>C20. The scan ends without an error.  It draws, in the order of the nodes and their
  devices, one link from a node to each channel of more than two devices and one
  link to every other node of a smaller channel (so that the two ends of a
  two-device channel draw the link twice), nothing for wireless and virtual
  devices; every node is known and is at its position where it has one and at
  the position of the layout where it has none.\<close>

theorem scan_topology_draws:
  "\<exists>w g. scan_topology layout net v = Inr w \<and>
     links w = links v @ concat (List.map (node_links net (traits_of (known_traits v))) [0..<n_nodes net]) \<and>
     (\<forall>i < n_nodes net. \<exists>n. dget (nodes w) i = Some n \<and>
        position n = (case node_mobility net i of Some p \<Rightarrow> to_canvas p | None \<Rightarrow> layout g (NodeEnd i)))"
proof -
  obtain g u where scan: "fold (scan_node net) [0..<n_nodes net] (\<lparr>graph_nodes = [], graph_edges = []\<rparr>, v) = (g, u)"
    by fastforce
  have ok: "known_ends net g u" "placed net (n_nodes net) g u"
      "links u = links v @ concat (List.map (node_links net (traits_of (known_traits v))) [0..<n_nodes net])"
    using scan_nodes_ok [OF refl refl, of net "n_nodes net" v] by (simp_all add: scan scan_ok_def)
  have "\<forall>e \<in> set (graph_nodes g). case e of NodeEnd i \<Rightarrow> dhas (nodes u) i | ChannelEnd c \<Rightarrow> dhas (channels u) c"
    using ok(1) unfolding known_ends_def by (auto split: endpoint.splits)
  from place_known [OF this, of "layout g"] obtain w where
    w: "foldM (place (layout g)) u (graph_nodes g) = Inr w" "links w = links u"
      "\<forall>i n. dget (nodes u) i = Some n \<longrightarrow>
         dget (nodes w) i = Some (if NodeEnd i \<in> set (graph_nodes g) then n\<lparr>position := layout g (NodeEnd i)\<rparr> else n)"
    by blast
  have "\<exists>n. dget (nodes w) i = Some n \<and>
      position n = (case node_mobility net i of Some p \<Rightarrow> to_canvas p | None \<Rightarrow> layout g (NodeEnd i))" if i: "i < n_nodes net" for i
  proof -
    obtain n where n: "dget (nodes u) i = Some n" using ok(2) i by (auto simp: placed_def)
    show ?thesis
    proof (cases "node_mobility net i")
      case None
      then have "NodeEnd i \<in> set (graph_nodes g)" using ok(2) i by (auto simp: placed_def)
      then show ?thesis using w(3) n None by simp
    next
      case (Some p)
      then have "NodeEnd i \<notin> set (graph_nodes g)" using ok(1) by (auto simp: known_ends_def)
      moreover have "position n = to_canvas p" using ok(2) i n Some by (auto simp: placed_def)
      ultimately show ?thesis using w(3) n Some by simp
    qed
  qed
  then show ?thesis using w ok(3) by (intro exI [of _ w] exI [of _ g]) (simp add: scan_topology_def scan)
qed

lemma scan_topology_draws_witness:
  "\<exists>w. scan_topology (\<lambda>g e. (0, 0))
      \<lparr>mobility = [], devices = [[\<lparr>device_type = ''ns.csma.CsmaNetDevice'', channel_id = 7\<rparr>],
         [\<lparr>device_type = ''ns.csma.CsmaNetDevice'', channel_id = 7\<rparr>]], channel_nodes = \<lambda>c. [0, 1]\<rparr>
      \<lparr>nodes = [], channels = [], links = [], selected_node = None, show_mode = ShowAll, nodes_of_interest = [0, 1],
        last_transmissions = [], arrows = [], next_arrow = 0, known_traits = netdevice_traits\<rparr> = Inr w \<and>
     links w = [(NodeEnd 0, NodeEnd 1), (NodeEnd 1, NodeEnd 0)]"
proof -
  have csma: "traits_of netdevice_traits ''ns.csma.CsmaNetDevice'' = \<lparr>is_wireless = Some False, is_virtual = False\<rparr>"
    by code_simp
  show ?thesis
    using scan_topology_draws [of "\<lambda>g e. (0, 0)"
        "\<lparr>mobility = [], devices = [[\<lparr>device_type = ''ns.csma.CsmaNetDevice'', channel_id = 7\<rparr>],
           [\<lparr>device_type = ''ns.csma.CsmaNetDevice'', channel_id = 7\<rparr>]], channel_nodes = \<lambda>c. [0, 1]\<rparr>"
        "\<lparr>nodes = [], channels = [], links = [], selected_node = None, show_mode = ShowAll, nodes_of_interest = [0, 1],
          last_transmissions = [], arrows = [], next_arrow = 0, known_traits = netdevice_traits\<rparr>"]
    by (auto simp: n_nodes_def node_links_def device_links_def csma upt_rec)
qed

text \<open>Exactly the selected node is marked as selected, and the simulator records the
  nodes that the mode asks for: all of them, none, or the selected one.  Selecting
  a known node or none, changing the mode and meeting a new node keep this; a
  node that is not known raises \<open>KeyError\<close>.\<close>

theorem selection_kept:
  assumes "selection_ok n v"
  shows "selection_ok n (set_show_transmissions_mode n mode v) \<and> selection_ok n (get_node i v) \<and>
    (case select_node sel v of
       Inl e \<Rightarrow> e = KeyError \<and> (\<exists>i. sel = Some i \<and> \<not> dhas (nodes v) i)
     | Inr w \<Rightarrow> selection_ok n w \<and> selected_node w = sel)"
proof (intro conjI)
  show "selection_ok n (set_show_transmissions_mode n mode v)" using assms by (rule set_mode_ok)
  have "selection_ok n (v\<lparr>nodes := dset i new_node (nodes v)\<rparr>)" if "\<not> dhas (nodes v) i"
    using assms that by (auto simp: selection_ok_def interest_def dict_simps new_node_def split: transmissions_mode.splits option.splits)
  then show "selection_ok n (get_node i v)" using assms by (auto simp: get_node_def)
  show "case select_node sel v of
       Inl e \<Rightarrow> e = KeyError \<and> (\<exists>i. sel = Some i \<and> \<not> dhas (nodes v) i)
     | Inr w \<Rightarrow> selection_ok n w \<and> selected_node w = sel"
  proof (cases "select_node sel v")
    case (Inl e)
    then show ?thesis by (auto simp: select_node_def Let_def split: if_splits option.splits)
  next
    case (Inr w)
    then show ?thesis using select_node_ok [OF assms Inr] by simp
  qed
qed

text \<open>The view of the transmissions shows one arrow for every pair of nodes of the
  remembered transmissions and no other, reuses the arrows of the pool, each once,
  and makes only those that are missing; it fails with \<open>ValueError\<close> when some pair
  has sent no bytes.\<close>

theorem arrows_shown:
  assumes "pool_ok [] v"
  shows "case update_transmissions_view v of
     Inr w \<Rightarrow>
       pool_ok [] w \<and> length (arrows w) = max (length (arrows v)) (length (transmissions_average (last_transmissions v))) \<and>
       List.map arrow_ends (List.filter visible (arrows w)) = dkeys (transmissions_average (last_transmissions v))
   | Inl e \<Rightarrow> \<exists>k. pair_transmissions (concat (last_transmissions v)) k \<noteq> [] \<and>
       sum_list (List.map tx_bytes (pair_transmissions (concat (last_transmissions v)) k)) = 0"
proof -
  define u where "u = v\<lparr>arrows := List.map (\<lambda>a. a\<lparr>visible := False\<rparr>) (arrows v)\<rparr>"
  define kvs where "kvs = transmissions_average (last_transmissions v)"
  have u: "pool_ok [] u" "list_all (\<lambda>a. \<not> visible a) (arrows u)" "last_transmissions u = last_transmissions v"
    using assms by (simp_all add: u_def pool_ok_def list_all_iff comp_def)
  have view: "update_transmissions_view v = rbind (foldM show_arrow ([], u) kvs) (\<lambda>(new, w). Inr (w\<lparr>arrows := new @ arrows w\<rparr>))"
    by (simp add: update_transmissions_view_def u_def kvs_def)
  show ?thesis
  proof (cases "keys_bytes_ok kvs")
    case True
    from show_arrows_pool [OF True u(1,2)] obtain as w where
      w: "foldM show_arrow ([], u) kvs = Inr (as, w)" "pool_ok as w" "list_all visible as"
        "List.map arrow_ends as = List.map fst kvs" "list_all (\<lambda>a. \<not> visible a) (arrows w)"
        "length (arrows w) = length (arrows u) - length kvs"
      by auto
    have len: "length as = length kvs" using w(4) by (metis length_map)
    have "List.filter visible (as @ arrows w) = as" using w(3,5) by (simp add: list_all_iff filter_eq_self filter_empty_conv)
    then show ?thesis
      using w len by (simp add: view u_def pool_ok_def kvs_def max_def)
  next
    case False
    then obtain k b c where kbc: "(k, b, c) \<in> set kvs" "b = 0" by (auto simp: keys_bytes_ok_def list_all_iff)
    have wf: "dict_wf kvs" using average_fold_wf by (simp add: kvs_def transmissions_average_def)
    then have "dget kvs k = Some (b, c)" using kbc(1) by simp
    then have zero: "pair_transmissions (concat (last_transmissions v)) k \<noteq> [] \<and>
        sum_list (List.map tx_bytes (pair_transmissions (concat (last_transmissions v)) k)) = 0"
      using average_fold [of "concat (last_transmissions v)" k] kbc(2)
      by (auto simp: kvs_def transmissions_average_def split: if_splits)
    have "\<exists>e. foldM show_arrow (new, w) xs = Inl e" if "(k, 0, c) \<in> set xs" for new w xs
      using that
    proof (induction xs arbitrary: new w)
      case (Cons x xs)
      then show ?case
        by (cases "show_arrow (new, w) x") (auto simp: show_arrow_def Let_def split: if_splits)
    qed simp
    then have "\<exists>e. update_transmissions_view v = Inl e" using kbc by (auto simp: view py_simps)
    then obtain e where e: "update_transmissions_view v = Inl e" by blast
    show ?thesis unfolding e sum.case by (rule exI [of _ k]) (rule zero)
  qed
qed

definition demo_viz :: visualizer where
  "demo_viz =
     \<lparr>nodes = [(0, new_node), (1, new_node\<lparr>selected := True\<rparr>)], channels = [], links = [], selected_node = Some 1,
      show_mode = ShowSelected, nodes_of_interest = [1],
      last_transmissions = [[\<lparr>transmitter = 0, receiver = 1, tx_bytes = 100\<rparr>]],
      arrows = [\<lparr>arrow_id = 0, visible = True, arrow_ends = (1, 0)\<rparr>, \<lparr>arrow_id = 1, visible = False, arrow_ends = (0, 0)\<rparr>],
      next_arrow = 2, known_traits = netdevice_traits\<rparr>"

lemma selection_kept_witness:
  "case select_node (Some 0) demo_viz of Inl e \<Rightarrow> False | Inr w \<Rightarrow> selection_ok 2 w \<and> selected_node w = Some 0"
proof -
  have "selection_ok 2 demo_viz" by (auto simp: selection_ok_def demo_viz_def interest_def new_node_def split: if_splits)
  from selection_kept [OF this, of ShowAll 0 "Some 0"] show ?thesis
    by (auto simp: demo_viz_def split: sum.splits)
qed

lemma arrows_shown_witness:
  "case update_transmissions_view demo_viz of
     Inl e \<Rightarrow> False | Inr w \<Rightarrow> length (arrows w) = 2 \<and> List.map arrow_ends (List.filter visible (arrows w)) = [(0, 1)]"
proof -
  have "pool_ok [] demo_viz" by (simp add: pool_ok_def demo_viz_def)
  moreover have "transmissions_average (last_transmissions demo_viz) = [((0, 1), (100, 1))]" by code_simp
  moreover have "length (arrows demo_viz) = 2" by (simp add: demo_viz_def)
  moreover have "is_ok (update_transmissions_view demo_viz)" by code_simp
  ultimately show ?thesis using arrows_shown [of demo_viz] by (auto split: sum.splits)
qed

end
