(* ===== verification/VizView.thy ===== *)
theory VizView
  imports VizModel
begin

text \<open>
  The view of \<open>src/visualizer/visualizer/core.py\<close>: positions of the nodes while the simulation
  runs, the bounds of the canvas, the node that is followed, the automatic zoom, and the
  handlers of the mouse that drag a node and pan the canvas.  The conversions of the
  canvas library and the adjustments of the window are arguments.
\<close>

section \<open>Positions\<close>

type_synonym point = "rat \<times> rat"

text \<open>
  \<open>mobility_known\<close> is the cached answer of \<open>has_mobility\<close>.  \<open>bounds\<close> is \<open>None\<close> where the
  library's \<open>get_bounds\<close> raises, which \<open>set_position\<close> ignores.
\<close>

record node_item =
  item_pos :: point
  mobility_known :: "bool option"

record canvas_view =
  items :: "(nat, node_item) dict"
  follow_node :: "nat option"
  bounds :: "(point \<times> point) option"
  adjustment :: point
  zoom :: rat

definition grow_bounds :: "point \<Rightarrow> point \<times> point \<Rightarrow> point \<times> point" where
  "grow_bounds p b =
     ((min (fst p) (fst (fst b)), min (snd p) (snd (fst b))), (max (fst p) (fst (snd b)), max (snd p) (snd (snd b))))"

definition update_item :: "nat \<Rightarrow> (node_item \<Rightarrow> node_item) \<Rightarrow> canvas_view \<Rightarrow> canvas_view" where
  "update_item i f v = (case dget (items v) i of None \<Rightarrow> v | Some it \<Rightarrow> v\<lparr>items := dset i (f it) (items v)\<rparr>)"

definition set_position :: "nat \<Rightarrow> point \<Rightarrow> canvas_view \<Rightarrow> canvas_view" where
  "set_position i p v =
     (let v = update_item i (\<lambda>it. it\<lparr>item_pos := p\<rparr>) v
      in v\<lparr>bounds := map_option (grow_bounds p) (bounds v)\<rparr>)"

text \<open>The first question is answered by the simulator, later ones by the first answer.\<close>

definition has_mobility :: "(nat \<Rightarrow> point option) \<Rightarrow> nat \<Rightarrow> node_item \<Rightarrow> bool" where
  "has_mobility mob i it = (case mobility_known it of Some b \<Rightarrow> b | None \<Rightarrow> mob i \<noteq> None)"

definition center_at :: "(canvas_view \<Rightarrow> point \<Rightarrow> point) \<Rightarrow> point \<Rightarrow> point \<Rightarrow> canvas_view \<Rightarrow> canvas_view" where
  "center_at to_px page p v =
     v\<lparr>adjustment := (fst (to_px v p) - fst page / 2, snd (to_px v p) - snd page / 2)\<rparr>"

definition update_node_position ::
  "(canvas_view \<Rightarrow> point \<Rightarrow> point) \<Rightarrow> point \<Rightarrow> (nat \<Rightarrow> point option) \<Rightarrow> nat \<Rightarrow> canvas_view \<Rightarrow> canvas_view" where
  "update_node_position to_px page mob i v =
     (case dget (items v) i of
        None \<Rightarrow> v
      | Some it \<Rightarrow>
          (let known = has_mobility mob i it;
               v = update_item i (\<lambda>it. it\<lparr>mobility_known := Some known\<rparr>) v
           in if known
              then (case mob i of
                      None \<Rightarrow> v
                    | Some pos \<Rightarrow>
                        (let p = to_canvas pos; v = set_position i p v
                         in if follow_node v = Some i then center_at to_px page p v else v))
              else v))"

definition update_node_positions ::
  "(canvas_view \<Rightarrow> point \<Rightarrow> point) \<Rightarrow> point \<Rightarrow> (nat \<Rightarrow> point option) \<Rightarrow> canvas_view \<Rightarrow> canvas_view" where
  "update_node_positions to_px page mob v = fold (update_node_position to_px page mob) (dkeys (items v)) v"

definition center_on_node :: "(canvas_view \<Rightarrow> point \<Rightarrow> point) \<Rightarrow> point \<Rightarrow> nat \<Rightarrow> canvas_view \<Rightarrow> canvas_view py_result" where
  "center_on_node to_px page i v =
     rbind (dindex (items v) i) (\<lambda>it. Inr (center_at to_px page (item_pos it) v))"

section \<open>The automatic zoom\<close>

text \<open>
  \<open>set_zoom\<close> is the assignment of the zoom adjustment with what follows from it in the
  canvas; \<open>scroll_to\<close> moves a point to the top left corner.
\<close>

definition min_of :: "rat list \<Rightarrow> rat" where
  "min_of xs = foldl min (hd xs) (tl xs)"

definition max_of :: "rat list \<Rightarrow> rat" where
  "max_of xs = foldl max (hd xs) (tl xs)"

definition autoscale_view ::
  "(canvas_view \<Rightarrow> point \<Rightarrow> point) \<Rightarrow> (canvas_view \<Rightarrow> point \<Rightarrow> point) \<Rightarrow> (rat \<Rightarrow> canvas_view \<Rightarrow> canvas_view) \<Rightarrow> (point \<Rightarrow> canvas_view \<Rightarrow> canvas_view) \<Rightarrow>
   point \<Rightarrow> (nat \<Rightarrow> point option) \<Rightarrow> canvas_view \<Rightarrow> canvas_view" where
  "autoscale_view to_px from_px set_zoom scroll_to page mob v =
     (if items v = [] then v
      else (let v = update_node_positions to_px page mob v;
                positions = List.map (\<lambda>(i, it). item_pos it) (items v);
                lo = (min_of (List.map fst positions), min_of (List.map snd positions));
                hi = (max_of (List.map fst positions), max_of (List.map snd positions));
                lo_px = to_px v lo; hi_px = to_px v hi;
                new_dx = 3 / 2 * (fst hi_px - fst lo_px); new_dy = 3 / 2 * (snd hi_px - snd lo_px)
            in if new_dx = 0 \<or> new_dy = 0 then v
               else (let v = set_zoom (min (fst page / new_dx) (snd page / new_dy)) v;
                         p1 = from_px v (adjustment v);
                         p2 = from_px v (fst (adjustment v) + fst page, snd (adjustment v) + snd page);
                         width = fst p2 - fst p1; height = snd p2 - snd p1
                     in scroll_to ((fst lo + fst hi) / 2 - width / 2, (snd lo + snd hi) / 2 - height / 2) v)))"

text \<open>\<open>set_bounds\<close> checks its arguments when it is called and sets the bounds of the canvas later.\<close>

definition set_bounds :: "point \<Rightarrow> point \<Rightarrow> (canvas_view \<Rightarrow> canvas_view) py_result" where
  "set_bounds p q =
     (if fst q > fst p \<and> snd q > snd p
      then Inr (\<lambda>v. v\<lparr>bounds := Some (to_canvas p, to_canvas q)\<rparr>)
      else Inl AssertionError)"

section \<open>Dragging and panning\<close>

text \<open>
  A signal handler is known by a number.  \<open>canvas_handlers\<close> are those that wait for motions
  over the canvas, \<open>node_handlers\<close> those of the nodes.  The state of a drag holds the
  pointer and the position in the simulation at its start; the state of a panning the pointer
  and the adjustments.
\<close>

record mouse =
  panning :: "(point \<times> point \<times> nat) option"
  dragging :: "(point \<times> point \<times> nat) option"
  canvas_handlers :: "nat list"
  node_handlers :: "(nat \<times> nat) list"
  next_handler :: nat
  reported :: nat
  mobile :: "nat \<Rightarrow> point option"
  the_view :: canvas_view

definition begin_panning :: "point \<Rightarrow> mouse \<Rightarrow> mouse" where
  "begin_panning pos m =
     m\<lparr>panning := Some (pos, adjustment (the_view m), next_handler m),
       canvas_handlers := canvas_handlers m @ [next_handler m], next_handler := next_handler m + 1\<rparr>"

definition end_panning :: "mouse \<Rightarrow> mouse" where
  "end_panning m =
     (case panning m of
        None \<Rightarrow> m
      | Some (mouse0, canvas0, h) \<Rightarrow> m\<lparr>canvas_handlers := removeAll h (canvas_handlers m), panning := None\<rparr>)"

definition panning_motion :: "point \<Rightarrow> (mouse, bool) action" where
  "panning_motion pos m =
     (case panning m of
        None \<Rightarrow> (m, Inl AssertionError)
      | Some (mouse0, canvas0, h) \<Rightarrow>
          (m\<lparr>the_view := (the_view m)\<lparr>adjustment :=
               (fst canvas0 - (fst pos - fst mouse0), snd canvas0 - (snd pos - snd mouse0))\<rparr>\<rparr>, Inr True))"

definition begin_node_drag :: "nat \<Rightarrow> point \<Rightarrow> mouse \<Rightarrow> mouse" where
  "begin_node_drag i pointer m =
     (case mobile m i of
        None \<Rightarrow> m
      | Some pos \<Rightarrow>
          if dragging m \<noteq> None then m
          else m\<lparr>dragging := Some (pointer, pos, next_handler m),
                 node_handlers := node_handlers m @ [(i, next_handler m)], next_handler := next_handler m + 1\<rparr>)"

definition node_drag_motion :: "nat \<Rightarrow> point \<Rightarrow> mouse \<Rightarrow> mouse \<times> bool" where
  "node_drag_motion i pointer m =
     (case (mobile m i, dragging m) of
        (Some pos, Some (pointer0, sim0, h)) \<Rightarrow>
          (let d = to_simulation (fst pointer - fst pointer0, snd pointer - snd pointer0);
               pos = (fst sim0 + fst d, snd sim0 + snd d)
           in (m\<lparr>mobile := (mobile m)(i \<mapsto> pos), the_view := set_position i (to_canvas pos) (the_view m)\<rparr>, True))
      | _ \<Rightarrow> (m, False))"

text \<open>The handler is removed from the given node, on which it may not be.\<close>

definition end_node_drag :: "nat \<Rightarrow> mouse \<Rightarrow> mouse" where
  "end_node_drag i m =
     (case dragging m of
        None \<Rightarrow> m
      | Some (pointer0, sim0, h) \<Rightarrow> m\<lparr>node_handlers := removeAll (i, h) (node_handlers m), dragging := None\<rparr>)"

text \<open>
  The events of the mouse: a press or a release over a node or over the background, and a motion,
  with the node below it, its place in the window and its place on the canvas.
\<close>

datatype mouse_event =
    PressNode nat nat point | PressBack nat point
  | ReleaseNode nat nat | ReleaseBack nat
  | Motion "nat option" point point

text \<open>
  A handler that returns true ends the emission of the signal.  The handlers of the
  canvas come first; all of them run the same method, and when that raises the exception is
  reported and the emission goes on.
\<close>

definition node_motion :: "nat option \<Rightarrow> point \<Rightarrow> mouse \<Rightarrow> mouse \<times> bool" where
  "node_motion over pointer m =
     (case over of
        None \<Rightarrow> (m, False)
      | Some i \<Rightarrow> if i \<in> fst ` set (node_handlers m) then node_drag_motion i pointer m else (m, False))"

definition motion :: "nat option \<Rightarrow> point \<Rightarrow> point \<Rightarrow> mouse \<Rightarrow> mouse \<times> bool" where
  "motion over pos pointer m =
     (if canvas_handlers m = [] then node_motion over pointer m
      else (case panning_motion pos m of
              (m, Inr handled) \<Rightarrow> (m, handled)
            | (m, Inl e) \<Rightarrow> node_motion over pointer (m\<lparr>reported := reported m + length (canvas_handlers m)\<rparr>)))"

definition mouse_event :: "mouse_event \<Rightarrow> mouse \<Rightarrow> mouse \<times> bool" where
  "mouse_event e m =
     (case e of
        PressNode i button pointer \<Rightarrow>
          (if button = 2 then begin_node_drag i pointer m else m, button \<in> {1, 2, 3})
      | PressBack button pos \<Rightarrow>
          (if button = 2 then begin_panning pos m else m, button \<in> {1, 2})
      | ReleaseNode i button \<Rightarrow> (if button = 2 then end_node_drag i m else m, button = 2)
      | ReleaseBack button \<Rightarrow> (if button = 2 then end_panning m else m, button = 2)
      | Motion over pos pointer \<Rightarrow> motion over pos pointer m)"

definition run_mouse :: "mouse_event list \<Rightarrow> mouse \<Rightarrow> mouse" where
  "run_mouse es m = fold (\<lambda>e m. fst (mouse_event e m)) es m"

text \<open>
  A step of the wheel up or down changes the zoom by a quarter; the adjustment keeps it in its
  range.  Other directions are not handled.
\<close>

datatype scroll_direction = ScrollUp | ScrollDown | ScrollOther

definition scroll_event :: "(rat \<Rightarrow> rat) \<Rightarrow> scroll_direction \<Rightarrow> canvas_view \<Rightarrow> canvas_view \<times> bool" where
  "scroll_event clamp d v =
     (case d of
        ScrollUp \<Rightarrow> (v\<lparr>zoom := clamp (zoom v * (5 / 4))\<rparr>, True)
      | ScrollDown \<Rightarrow> (v\<lparr>zoom := clamp (zoom v / (5 / 4))\<rparr>, True)
      | ScrollOther \<Rightarrow> (v, False))"

section \<open>Laws of the mouse\<close>

text \<open>
  A press of the middle button over the background while the canvas is being panned; the number of
  them in a list of events, and whether the canvas is panned at its end.
\<close>

fun presses_again :: "bool \<Rightarrow> mouse_event list \<Rightarrow> nat \<times> bool" where
  "presses_again active [] = (0, active)"
| "presses_again active (e # es) =
     (case e of
        PressBack button pos \<Rightarrow>
          if button = 2 then (let (n, a) = presses_again True es in (if active then n + 1 else n, a))
          else presses_again active es
      | ReleaseBack button \<Rightarrow> presses_again (if button = 2 then False else active) es
      | _ \<Rightarrow> presses_again active es)"

text \<open>The handlers of the canvas: those that were left, then that of the current panning.\<close>

definition pan_ok :: "nat \<Rightarrow> bool \<Rightarrow> mouse \<Rightarrow> bool" where
  "pan_ok n active m \<longleftrightarrow>
     (case panning m of
        None \<Rightarrow> \<not> active \<and> length (canvas_handlers m) = n
      | Some (p, q, h) \<Rightarrow> active \<and> length (canvas_handlers m) = n + 1 \<and> last (canvas_handlers m) = h) \<and>
     distinct (canvas_handlers m) \<and> (\<forall>h \<in> set (canvas_handlers m). h < next_handler m)"

lemma node_motion_pan [simp]:
  "panning (fst (node_motion over pointer m)) = panning m"
  "canvas_handlers (fst (node_motion over pointer m)) = canvas_handlers m"
  "next_handler (fst (node_motion over pointer m)) = next_handler m"
  "reported (fst (node_motion over pointer m)) = reported m"
  by (auto simp: node_motion_def node_drag_motion_def Let_def split: option.splits)

lemma motion_pan [simp]:
  "panning (fst (motion over pos pointer m)) = panning m"
  "canvas_handlers (fst (motion over pos pointer m)) = canvas_handlers m"
  "next_handler (fst (motion over pos pointer m)) = next_handler m"
  by (auto simp: motion_def panning_motion_def split: option.splits)

lemma drag_pan [simp]:
  "panning (begin_node_drag i p m) = panning m" "canvas_handlers (begin_node_drag i p m) = canvas_handlers m"
  "next_handler m \<le> next_handler (begin_node_drag i p m)"
  "panning (end_node_drag i m) = panning m" "canvas_handlers (end_node_drag i m) = canvas_handlers m"
  "next_handler (end_node_drag i m) = next_handler m"
  by (auto simp: begin_node_drag_def end_node_drag_def split: option.splits)

lemma pan_ok_same:
  "pan_ok n active m \<Longrightarrow> panning m' = panning m \<Longrightarrow> canvas_handlers m' = canvas_handlers m \<Longrightarrow>
     next_handler m \<le> next_handler m' \<Longrightarrow> pan_ok n active m'"
  by (auto simp: pan_ok_def split: option.splits)

lemma pan_ok_press: "pan_ok n active m \<Longrightarrow> pan_ok (if active then n + 1 else n) True (begin_panning p m)"
  by (auto simp: pan_ok_def begin_panning_def split: option.splits)

lemma removeAll_last: "distinct hs \<Longrightarrow> hs \<noteq> [] \<Longrightarrow> removeAll (last hs) hs = butlast hs"
  by (induction hs rule: rev_induct) auto

lemma pan_ok_release: "pan_ok n active m \<Longrightarrow> pan_ok n False (end_panning m)"
proof -
  assume ok: "pan_ok n active m"
  show "pan_ok n False (end_panning m)"
  proof (cases "panning m")
    case None
    then show ?thesis using ok by (simp add: pan_ok_def end_panning_def)
  next
    case (Some x)
    obtain p q h where x: "x = (p, q, h)" by (cases x)
    have "canvas_handlers m \<noteq> []" "last (canvas_handlers m) = h" "distinct (canvas_handlers m)"
      using ok Some x by (auto simp: pan_ok_def)
    then have "removeAll h (canvas_handlers m) = butlast (canvas_handlers m)" using removeAll_last by metis
    then show ?thesis using ok Some x
      by (auto simp: pan_ok_def end_panning_def distinct_butlast dest: in_set_butlastD)
  qed
qed

lemma pan_ok_run:
  "pan_ok k active m \<Longrightarrow> presses_again active es = (n, a) \<Longrightarrow> pan_ok (k + n) a (run_mouse es m)"
proof (induction es arbitrary: k active m n)
  case Nil
  then show ?case by (simp add: run_mouse_def)
next
  case (Cons e es)
  have run: "run_mouse (e # es) m = run_mouse es (fst (mouse_event e m))" by (simp add: run_mouse_def)
  show ?case
  proof (cases e)
    case (PressNode i b p)
    then have ok: "pan_ok k active (fst (mouse_event e m))"
      by (intro pan_ok_same [OF Cons.prems(1)]) (simp_all add: mouse_event_def)
    have "presses_again active es = (n, a)" using Cons.prems(2) PressNode by simp
    from Cons.IH [OF ok this] show ?thesis unfolding run .
  next
    case (PressBack b p)
    show ?thesis
    proof (cases "b = 2")
      case True
      obtain n' where n': "presses_again True es = (n', a)" "n = (if active then n' + 1 else n')"
        using Cons.prems(2) PressBack True by (auto split: prod.splits)
      show ?thesis unfolding run
        using Cons.IH [OF pan_ok_press [OF Cons.prems(1)] n'(1)] n'(2) PressBack True
        by (auto simp: mouse_event_def split: if_splits)
    next
      case False
      then show ?thesis unfolding run using Cons PressBack by (auto simp: mouse_event_def)
    qed
  next
    case (ReleaseNode i b)
    then have ok: "pan_ok k active (fst (mouse_event e m))"
      by (intro pan_ok_same [OF Cons.prems(1)]) (simp_all add: mouse_event_def)
    have "presses_again active es = (n, a)" using Cons.prems(2) ReleaseNode by simp
    from Cons.IH [OF ok this] show ?thesis unfolding run .
  next
    case (ReleaseBack b)
    then show ?thesis unfolding run
      using Cons.prems Cons.IH pan_ok_release [OF Cons.prems(1)]
      by (auto simp: mouse_event_def split: if_splits)
  next
    case (Motion over pos p)
    then have ok: "pan_ok k active (fst (mouse_event e m))"
      by (intro pan_ok_same [OF Cons.prems(1)]) (simp_all add: mouse_event_def)
    have "presses_again active es = (n, a)" using Cons.prems(2) Motion by simp
    from Cons.IH [OF ok this] show ?thesis unfolding run .
  qed
qed

text \<open>What holds during a drag of a node that began at a pointer and a place.\<close>

definition dragged :: "nat \<Rightarrow> point \<Rightarrow> point \<Rightarrow> nat \<Rightarrow> mouse \<Rightarrow> mouse \<Rightarrow> bool" where
  "dragged i p0 s0 h m0 m \<longleftrightarrow>
     dragging m = Some (p0, s0, h) \<and> canvas_handlers m = [] \<and> node_handlers m = node_handlers m0 @ [(i, h)] \<and>
     mobile m i \<noteq> None \<and> dget (items (the_view m)) i \<noteq> None \<and>
     (\<forall>j. j \<noteq> i \<longrightarrow> mobile m j = mobile m0 j \<and> dget (items (the_view m)) j = dget (items (the_view m0)) j)"

definition pointer_at :: "nat \<Rightarrow> point \<Rightarrow> point \<Rightarrow> point \<Rightarrow> mouse \<Rightarrow> bool" where
  "pointer_at i p0 s0 p m \<longleftrightarrow>
     (\<exists>it'. dget (items (the_view m)) i = Some it' \<and>
        fst (item_pos it') - fst p = fst (to_canvas s0) - fst p0 \<and> snd (item_pos it') - snd p = snd (to_canvas s0) - snd p0 \<and>
        map_option to_canvas (mobile m i) = Some (item_pos it'))"

lemma set_position_items:
  "dget (items (set_position i p v)) j =
     (if j = i then map_option (\<lambda>it. it\<lparr>item_pos := p\<rparr>) (dget (items v) i) else dget (items v) j)"
  by (simp add: set_position_def update_item_def dict_simps split: option.splits)

lemma dragged_motion:
  assumes "dragged i p0 s0 h m0 m"
  shows "dragged i p0 s0 h m0 (fst (mouse_event (Motion (Some i) q p) m)) \<and>
    pointer_at i p0 s0 p (fst (mouse_event (Motion (Some i) q p) m))"
proof -
  obtain s it where m: "mobile m i = Some s" "dget (items (the_view m)) i = Some it"
    using assms by (auto simp: dragged_def)
  define pos where "pos = (fst s0 + fst (to_simulation (fst p - fst p0, snd p - snd p0)),
      snd s0 + snd (to_simulation (fst p - fst p0, snd p - snd p0)))"
  have "fst (mouse_event (Motion (Some i) q p) m) =
      m\<lparr>mobile := (mobile m)(i \<mapsto> pos), the_view := set_position i (to_canvas pos) (the_view m)\<rparr>"
    using assms m by (simp add: mouse_event_def motion_def node_motion_def node_drag_motion_def dragged_def pos_def Let_def)
  then show ?thesis
    using assms m
    by (simp add: dragged_def pointer_at_def set_position_items pos_def to_canvas_def to_simulation_def
        pixels_per_meter_def field_simps)
qed

lemma dragged_run:
  "dragged i p0 s0 h m0 m \<Longrightarrow> dragged i p0 s0 h m0 (run_mouse (List.map (\<lambda>(q, p). Motion (Some i) q p) qps) m)"
proof (induction qps arbitrary: m)
  case Nil
  then show ?case by (simp add: run_mouse_def)
next
  case (Cons x qps)
  obtain q p where x: "x = (q, p)" by (cases x)
  show ?case using Cons.IH [OF conjunct1 [OF dragged_motion [OF Cons.prems, of q p]]] by (simp add: run_mouse_def x)
qed

section \<open>Laws of positions\<close>

lemma min_of_eq: "xs \<noteq> [] \<Longrightarrow> min_of xs = Min (set xs)"
proof -
  have "(\<lambda>x s. min s x) = (min :: rat \<Rightarrow> _)" by (simp add: fun_eq_iff min.commute)
  then show "xs \<noteq> [] \<Longrightarrow> min_of xs = Min (set xs)"
    by (cases xs) (simp_all add: min_of_def foldl_conv_fold Min.set_eq_fold [symmetric])
qed

lemma max_of_eq: "xs \<noteq> [] \<Longrightarrow> max_of xs = Max (set xs)"
proof -
  have "(\<lambda>x s. max s x) = (max :: rat \<Rightarrow> _)" by (simp add: fun_eq_iff max.commute)
  then show "xs \<noteq> [] \<Longrightarrow> max_of xs = Max (set xs)"
    by (cases xs) (simp_all add: max_of_def foldl_conv_fold Max.set_eq_fold [symmetric])
qed

lemma update_item_items:
  "dget (items (update_item i f v)) j = (if j = i then map_option f (dget (items v) i) else dget (items v) j)"
  by (simp add: update_item_def dict_simps split: option.splits)

lemma update_item_same [simp]:
  "dkeys (items (update_item i f v)) = dkeys (items v)" "bounds (update_item i f v) = bounds v"
  "follow_node (update_item i f v) = follow_node v" "zoom (update_item i f v) = zoom v"
  by (auto simp: update_item_def dkeys_dset_present split: option.splits)

lemma set_position_same [simp]:
  "dkeys (items (set_position i p v)) = dkeys (items v)" "follow_node (set_position i p v) = follow_node v"
  "zoom (set_position i p v) = zoom v" "bounds (set_position i p v) = map_option (grow_bounds p) (bounds v)"
  by (simp_all add: set_position_def Let_def)

lemma center_at_same [simp]:
  "items (center_at to_px page p v) = items v" "bounds (center_at to_px page p v) = bounds v"
  "zoom (center_at to_px page p v) = zoom v" "follow_node (center_at to_px page p v) = follow_node v"
  by (simp_all add: center_at_def)

text \<open>Where a node is after an update, and what is then known of it.\<close>

definition moved :: "(nat \<Rightarrow> point option) \<Rightarrow> nat \<Rightarrow> node_item \<Rightarrow> node_item" where
  "moved mob i it =
     it\<lparr>mobility_known := Some (has_mobility mob i it),
        item_pos := (if has_mobility mob i it then (case mob i of Some pos \<Rightarrow> to_canvas pos | None \<Rightarrow> item_pos it)
                     else item_pos it)\<rparr>"

lemma update_node_position_items:
  "dget (items (update_node_position to_px page mob i v)) j =
     (if j = i then map_option (moved mob i) (dget (items v) i) else dget (items v) j)"
  by (auto simp: update_node_position_def Let_def update_item_items set_position_items moved_def
      split: option.splits)

lemma update_node_position_same [simp]:
  "dkeys (items (update_node_position to_px page mob i v)) = dkeys (items v)"
  "zoom (update_node_position to_px page mob i v) = zoom v"
  "follow_node (update_node_position to_px page mob i v) = follow_node v"
  by (auto simp: update_node_position_def Let_def split: option.splits)

lemma update_positions_fold:
  "distinct is \<Longrightarrow>
     dget (items (fold (update_node_position to_px page mob) is v)) j =
       (if j \<in> set is then map_option (moved mob j) (dget (items v) j) else dget (items v) j)"
proof (induction "is" arbitrary: v)
  case Nil
  then show ?case by simp
next
  case (Cons i "is")
  then show ?case by (auto simp: update_node_position_items)
qed

lemma update_positions_same [simp]:
  "dkeys (items (fold (update_node_position to_px page mob) is v)) = dkeys (items v)"
  "zoom (fold (update_node_position to_px page mob) is v) = zoom v"
  by (induction "is" arbitrary: v) simp_all

definition in_bounds :: "point \<Rightarrow> point \<times> point \<Rightarrow> bool" where
  "in_bounds p b \<longleftrightarrow>
     fst (fst b) \<le> fst p \<and> snd (fst b) \<le> snd p \<and> fst p \<le> fst (snd b) \<and> snd p \<le> snd (snd b)"

definition all_in_bounds :: "canvas_view \<Rightarrow> bool" where
  "all_in_bounds v \<longleftrightarrow> (\<forall>b. bounds v = Some b \<longrightarrow> (\<forall>i it. dget (items v) i = Some it \<longrightarrow> in_bounds (item_pos it) b))"

lemma in_bounds_grow: "in_bounds p (grow_bounds p b)" "in_bounds q b \<Longrightarrow> in_bounds q (grow_bounds p b)"
  by (auto simp: in_bounds_def grow_bounds_def)

lemma set_position_in_bounds: "all_in_bounds v \<Longrightarrow> all_in_bounds (set_position i p v)"
  unfolding all_in_bounds_def
  by (auto simp: set_position_items split: if_splits) (metis in_bounds_grow)+

lemma update_node_position_in_bounds:
  assumes "all_in_bounds v"
  shows "all_in_bounds (update_node_position to_px page mob i v)"
proof -
  have known: "all_in_bounds (update_item i (\<lambda>it. it\<lparr>mobility_known := k\<rparr>) w)" if "all_in_bounds w" for k w
    using that unfolding all_in_bounds_def by (auto simp: update_item_items split: if_splits)
  have center: "all_in_bounds (center_at to_px page p w) = all_in_bounds w" for p w
    by (simp add: all_in_bounds_def)
  show ?thesis using assms known set_position_in_bounds
    by (simp add: update_node_position_def Let_def center split: option.splits)
qed

lemma update_positions_in_bounds:
  "all_in_bounds v \<Longrightarrow> all_in_bounds (fold (update_node_position to_px page mob) is v)"
  by (induction "is" arbitrary: v) (simp_all add: update_node_position_in_bounds)

text \<open>C22. After an update of the positions every node that had a mobility model when it was first asked
  is where that model says, if it still has one, and every other node is where it was,
  also one that has got a model since.  The nodes stay within the bounds of the canvas.\<close>

theorem positions_follow_mobility:
  assumes "dict_wf (items v)" and "dget (items v) i = Some it"
  shows "\<exists>it'. dget (items (update_node_positions to_px page mob v)) i = Some it'
    \<and> mobility_known it' = Some (case mobility_known it of Some b \<Rightarrow> b | None \<Rightarrow> mob i \<noteq> None)
    \<and> item_pos it' = (case mob i of Some pos \<Rightarrow> if mobility_known it = Some False then item_pos it else to_canvas pos
                        | None \<Rightarrow> item_pos it)
    \<and> (all_in_bounds v \<longrightarrow> all_in_bounds (update_node_positions to_px page mob v))"
proof -
  have "i \<in> set (dkeys (items v))" unfolding mem_dkeys using assms(2) by simp
  then have "dget (items (update_node_positions to_px page mob v)) i = Some (moved mob i it)"
    using update_positions_fold [OF assms(1)] assms(2) by (simp add: update_node_positions_def)
  then show ?thesis
    using update_positions_in_bounds [of v]
    by (auto simp: update_node_positions_def moved_def has_mobility_def split: option.splits)
qed

definition demo_view :: canvas_view where
  "demo_view =
     \<lparr>items = [(0, \<lparr>item_pos = (0, 0), mobility_known = Some False\<rparr>), (1, \<lparr>item_pos = (0, 0), mobility_known = None\<rparr>)],
      follow_node = Some 1, bounds = Some ((0, 0), (10, 10)), adjustment = (0, 0), zoom = 1\<rparr>"

lemma positions_follow_mobility_witness:
  "\<exists>it. dget (items (update_node_positions (\<lambda>v p. p) (100, 100) (\<lambda>i. Some (5, 1)) demo_view)) 1 = Some it
     \<and> item_pos it = (15, 3)"
proof -
  have "dict_wf (items demo_view)" and "dget (items demo_view) 1 = Some \<lparr>item_pos = (0, 0), mobility_known = None\<rparr>"
    by (simp_all add: demo_view_def)
  from positions_follow_mobility [OF this, of "\<lambda>v p. p" "(100, 100)" "\<lambda>i. Some (5, 1)"] show ?thesis
    by (auto simp: to_canvas_def pixels_per_meter_def)
qed

text \<open>The automatic zoom, for a canvas whose pixels are its points scaled by the zoom.  Nodes in one row or
  one column, or a single node, leave the zoom as it is.  Otherwise the zoom becomes what
  shows the box of all nodes in two thirds of the page, divided by the former zoom: the box fits
  when the former zoom was one, as it is when the visualizer starts.\<close>

theorem autoscale_zoom:
  fixes to_px from_px :: "canvas_view \<Rightarrow> point \<Rightarrow> point" and set_zoom :: "rat \<Rightarrow> canvas_view \<Rightarrow> canvas_view"
    and scroll_to :: "point \<Rightarrow> canvas_view \<Rightarrow> canvas_view" and mob :: "nat \<Rightarrow> point option" and page :: point
    and left upper :: "canvas_view \<Rightarrow> rat" and clamp :: "rat \<Rightarrow> rat" and v :: canvas_view
  assumes px: "\<And>v p. to_px v p = ((fst p - left v) * zoom v, (snd p - upper v) * zoom v)"
    and scroll: "\<And>p v. zoom (scroll_to p v) = zoom v" and set_zoom: "\<And>z v. zoom (set_zoom z v) = clamp z"
    and some: "items v \<noteq> []" and pos: "zoom v > 0"
  defines "ps \<equiv> List.map (\<lambda>(i, it). item_pos it) (items (update_node_positions to_px page mob v))"
  defines "dx \<equiv> Max (fst ` set ps) - Min (fst ` set ps)" and "dy \<equiv> Max (snd ` set ps) - Min (snd ` set ps)"
  defines "z \<equiv> zoom (autoscale_view to_px from_px set_zoom scroll_to page mob v)"
  shows "(dx = 0 \<or> dy = 0 \<longrightarrow> z = zoom v)
    \<and> (dx > 0 \<and> dy > 0 \<longrightarrow>
         z = clamp (min (2 * fst page / (3 * zoom v * dx)) (2 * snd page / (3 * zoom v * dy)))
       \<and> (zoom v = 1 \<and> z \<le> min (2 * fst page / (3 * dx)) (2 * snd page / (3 * dy)) \<longrightarrow>
            z * dx \<le> 2 / 3 * fst page \<and> z * dy \<le> 2 / 3 * snd page))"
proof -
  define w where "w = update_node_positions to_px page mob v"
  have w: "zoom w = zoom v" "dkeys (items w) = dkeys (items v)" by (simp_all add: w_def update_node_positions_def)
  then have ne: "ps \<noteq> []" using some by (auto simp: ps_def w_def [symmetric])
  have lo: "min_of (List.map f ps) = Min (f ` set ps)" and hi: "max_of (List.map f ps) = Max (f ` set ps)" for f :: "point \<Rightarrow> rat"
    using ne by (simp_all add: min_of_eq max_of_eq)
  have dxpx: "3 / 2 * (fst (to_px w (Max (fst ` set ps), b)) - fst (to_px w (Min (fst ` set ps), a))) = 3 / 2 * (zoom v * dx)" for a b
    by (simp add: px w dx_def algebra_simps)
  have dypx: "3 / 2 * (snd (to_px w (b, Max (snd ` set ps))) - snd (to_px w (a, Min (snd ` set ps)))) = 3 / 2 * (zoom v * dy)" for a b
    by (simp add: px w dy_def algebra_simps)
  have z: "z = (if dx = 0 \<or> dy = 0 then zoom v
      else clamp (min (fst page / (3 / 2 * (zoom v * dx))) (snd page / (3 / 2 * (zoom v * dy)))))"
    unfolding z_def autoscale_view_def Let_def w_def [symmetric] if_not_P [OF some]
    unfolding ps_def [unfolded w_def [symmetric], symmetric] lo hi dxpx dypx
    using pos w by (simp add: scroll set_zoom)
  show ?thesis
  proof (intro conjI impI)
    show "z = zoom v" if "dx = 0 \<or> dy = 0" using that by (simp add: z)
    assume d: "dx > 0 \<and> dy > 0"
    have px: "fst page / (3 / 2 * (zoom v * dx)) = 2 * fst page / (3 * zoom v * dx)"
        "snd page / (3 / 2 * (zoom v * dy)) = 2 * snd page / (3 * zoom v * dy)"
      by (simp_all add: field_simps)
    show "z = clamp (min (2 * fst page / (3 * zoom v * dx)) (2 * snd page / (3 * zoom v * dy)))"
      unfolding z px using d by auto
    assume le: "zoom v = 1 \<and> z \<le> min (2 * fst page / (3 * dx)) (2 * snd page / (3 * dy))"
    show "z * dx \<le> 2 / 3 * fst page" using le d by (simp add: field_simps)
    show "z * dy \<le> 2 / 3 * snd page" using le d by (simp add: field_simps)
  qed
qed

lemma autoscale_zoom_witness:
  "zoom (autoscale_view (\<lambda>(v::canvas_view) p. (fst p * zoom v, snd p * zoom v)) (\<lambda>(v::canvas_view) p. (fst p / zoom v, snd p / zoom v))
     (\<lambda>z (v::canvas_view). v\<lparr>zoom := z\<rparr>) (\<lambda>p (v::canvas_view). v) (90, 90) (\<lambda>i. Some (if i = 0 then (0, 0) else (10, 10)))
     (demo_view\<lparr>items := [(0, \<lparr>item_pos = (0, 0), mobility_known = None\<rparr>), (1, \<lparr>item_pos = (0, 0), mobility_known = None\<rparr>)]\<rparr>)) = 2"
proof -
  define v where "v = demo_view\<lparr>items := [(0, \<lparr>item_pos = (0, 0), mobility_known = None\<rparr>), (1, \<lparr>item_pos = (0, 0), mobility_known = None\<rparr>)]\<rparr>"
  define to_px where "to_px = (\<lambda>(v::canvas_view) p. (fst p * zoom v, snd p * zoom v) :: point)"
  have items: "items (update_node_positions to_px (90, 90) (\<lambda>i. Some (if i = 0 then (0, 0) else (10, 10))) v) =
      [(0, \<lparr>item_pos = (0, 0), mobility_known = Some True\<rparr>), (1, \<lparr>item_pos = (30, 30), mobility_known = Some True\<rparr>)]"
    by (simp add: v_def demo_view_def update_node_positions_def update_node_position_def Let_def update_item_def
        has_mobility_def set_position_def to_canvas_def pixels_per_meter_def center_at_def)
  show ?thesis
    using autoscale_zoom [of to_px "\<lambda>v::canvas_view. 0" "\<lambda>v::canvas_view. 0" "\<lambda>p (v::canvas_view). v" "\<lambda>z (v::canvas_view). v\<lparr>zoom := z\<rparr>" "\<lambda>z. z" v
        "(90, 90)" "\<lambda>i. Some (if i = 0 then (0, 0) else (10, 10))" "\<lambda>(v::canvas_view) p. (fst p / zoom v, snd p / zoom v)"]
    by (simp add: items to_px_def [symmetric] v_def [symmetric])
      (simp add: to_px_def v_def demo_view_def)
qed

text \<open>Panning.  A double click of the middle button over the background begins to pan twice and
  loses the first handler, which is never disconnected again: the canvas has as many handlers as
  there were such presses, and one more while it is panned.  After the release every motion
  raises once for each of them; without such presses no motion ever does.\<close>

theorem panning_handlers:
  assumes "panning m = None" and "canvas_handlers m = []" and "presses_again False es = (n, active)"
  shows "length (canvas_handlers (run_mouse es m)) = (if active then n + 1 else n)
    \<and> (panning (run_mouse es m) \<noteq> None \<longleftrightarrow> active)
    \<and> reported (run_mouse (es @ [Motion over pos pointer]) m) =
        reported (run_mouse es m) + (if active then 0 else n)"
proof -
  have "pan_ok 0 False m" using assms(1, 2) by (simp add: pan_ok_def)
  then have ok: "pan_ok n active (run_mouse es m)" using pan_ok_run [OF _ assms(3)] by fastforce
  have "run_mouse (es @ [Motion over pos pointer]) m = fst (motion over pos pointer (run_mouse es m))"
    by (simp add: run_mouse_def mouse_event_def)
  moreover have "reported (fst (motion over pos pointer (run_mouse es m))) =
      reported (run_mouse es m) + (if active then 0 else n)"
    using ok by (auto simp: motion_def panning_motion_def pan_ok_def split: option.splits)
  ultimately show ?thesis using ok by (auto simp: pan_ok_def split: option.splits)
qed

definition demo_mouse :: mouse where
  "demo_mouse =
     \<lparr>panning = None, dragging = None, canvas_handlers = [], node_handlers = [], next_handler = 0, reported = 0,
      mobile = (\<lambda>i. Some (1, 1)), the_view = demo_view\<rparr>"

lemma panning_handlers_witness:
  "reported (run_mouse [PressBack 2 (0, 0), PressBack 2 (0, 0), ReleaseBack 2, Motion None (1, 1) (1, 1)] demo_mouse) = 1"
proof -
  have p: "presses_again False [PressBack 2 (0, 0), PressBack 2 (0, 0), ReleaseBack 2] = (1, False)" by simp
  have start: "panning demo_mouse = None" "canvas_handlers demo_mouse = []" by (simp_all add: demo_mouse_def)
  have "reported (run_mouse [PressBack 2 (0, 0), PressBack 2 (0, 0), ReleaseBack 2] demo_mouse) = 0"
    by (simp add: run_mouse_def mouse_event_def begin_panning_def end_panning_def demo_mouse_def)
  then show ?thesis using panning_handlers [OF start p, of None "(1, 1)" "(1, 1)"] by simp
qed

text \<open>C23. A node that can move follows the pointer while it is dragged: whatever the motions in between, its place
  on the canvas keeps its distance to the pointer, the simulation has the same place, and no
  other node is moved.  The release leaves the handlers as they were before the press.\<close>

theorem drag_follows_pointer:
  fixes p0 q p :: point and qps :: "(point \<times> point) list"
  assumes free: "dragging m = None" "canvas_handlers m = []" "mobile m i = Some s0"
    and item: "dget (items (the_view m)) i = Some it"
    and fresh: "\<forall>(j, h) \<in> set (node_handlers m). h < next_handler m"
  defines "m' \<equiv> run_mouse (PressNode i 2 p0 # List.map (\<lambda>(q, p). Motion (Some i) q p) (qps @ [(q, p)])) m"
  shows "(\<exists>it'. dget (items (the_view m')) i = Some it' \<and>
        fst (item_pos it') - fst p = fst (to_canvas s0) - fst p0 \<and> snd (item_pos it') - snd p = snd (to_canvas s0) - snd p0 \<and>
        map_option to_canvas (mobile m' i) = Some (item_pos it'))
    \<and> (\<forall>j. j \<noteq> i \<longrightarrow> mobile m' j = mobile m j \<and> dget (items (the_view m')) j = dget (items (the_view m)) j)
    \<and> dragging (run_mouse [ReleaseNode i 2] m') = None
    \<and> node_handlers (run_mouse [ReleaseNode i 2] m') = node_handlers m"
proof -
  define h where "h = next_handler m"
  define m1 where "m1 = begin_node_drag i p0 m"
  have start: "dragged i p0 s0 h m m1"
    using free item by (simp add: dragged_def m1_def begin_node_drag_def h_def)
  define m2 where "m2 = run_mouse (List.map (\<lambda>(q, p). Motion (Some i) q p) qps) m1"
  have m2: "dragged i p0 s0 h m m2" unfolding m2_def by (rule dragged_run [OF start])
  have m': "m' = fst (mouse_event (Motion (Some i) q p) m2)"
    by (simp add: m'_def m2_def m1_def run_mouse_def mouse_event_def)
  from dragged_motion [OF m2, of q p] have d: "dragged i p0 s0 h m m'" and at: "pointer_at i p0 s0 p m'"
    unfolding m' by blast+
  have "\<forall>x \<in> set (node_handlers m). x \<noteq> (i, h)" using fresh by (auto simp: h_def)
  then have "removeAll (i, h) (node_handlers m) = node_handlers m" by (auto intro: removeAll_id)
  then have release: "dragging (run_mouse [ReleaseNode i 2] m') = None"
      "node_handlers (run_mouse [ReleaseNode i 2] m') = node_handlers m"
    using d by (auto simp: run_mouse_def mouse_event_def end_node_drag_def dragged_def)
  show ?thesis using at d release unfolding pointer_at_def dragged_def by blast
qed

lemma drag_follows_pointer_witness:
  "map_option item_pos (dget (items (the_view
     (run_mouse [PressNode 1 2 (4, 4), Motion (Some 1) (0, 0) (9, 9), Motion (Some 1) (0, 0) (7, 4)] demo_mouse))) 1) = Some (6, 3)"
proof -
  have "\<exists>it'. dget (items (the_view (run_mouse [PressNode 1 2 (4, 4), Motion (Some 1) (0, 0) (9, 9),
      Motion (Some 1) (0, 0) (7, 4)] demo_mouse))) 1 = Some it' \<and>
      fst (item_pos it') - fst (7, 4 :: rat) = fst (to_canvas (1, 1)) - fst (4, 4 :: rat) \<and>
      snd (item_pos it') - snd (7 :: rat, 4) = snd (to_canvas (1, 1)) - snd (4 :: rat, 4)"
    using drag_follows_pointer [of demo_mouse 1 "(1, 1)" "\<lparr>item_pos = (0, 0), mobility_known = None\<rparr>" "(4, 4)"
        "[((0, 0), (9, 9))]" "(0, 0)" "(7, 4)"]
    by (auto simp: demo_mouse_def demo_view_def)
  then show ?thesis by (auto simp: to_canvas_def pixels_per_meter_def prod_eq_iff)
qed

end

