(* ===== verification/VizPlugins.thy ===== *)
theory VizPlugins
  imports Prelude Complex_Main
begin

text \<open>
  Two plugins of the visualizer: \<open>plugins/wifi_intrastructure_link.py\<close>, which follows the
  access point of every station, and \<open>plugins/interface_statistics.py\<close>, which keeps
  the last samples of every node.  The state of the Wifi devices and the samples
  are arguments; drawing is left out.
\<close>

section \<open>Links to access points\<close>

text \<open>A link is known by its place in the list of all links; \<open>node_links\<close> is the list of a node.\<close>

record monitor =
  access_points :: "(string, nat) dict"
  stations :: "(nat \<times> nat \<times> nat) list"
  link_ap :: "nat option list"
  link_node :: "nat option list"
  node_links :: "(nat, nat list) dict"

definition links_of :: "monitor \<Rightarrow> nat \<Rightarrow> nat list" where
  "links_of m n = dget_default (node_links m) n []"

text \<open>\<open>list.remove\<close> raises for an absent element.\<close>

definition remove_link :: "nat \<Rightarrow> nat \<Rightarrow> (monitor, unit) action" where
  "remove_link n l m =
     (if l \<in> set (links_of m n)
      then (m\<lparr>node_links := dset n (remove1 l (links_of m n)) (node_links m)\<rparr>, Inr ())
      else (m, Inl ValueError))"

definition add_link :: "nat \<Rightarrow> nat \<Rightarrow> (monitor, unit) action" where
  "add_link n l m = (m\<lparr>node_links := dset n (links_of m n @ [l]) (node_links m)\<rparr>, Inr ())"

definition set_ap :: "nat \<Rightarrow> nat option \<Rightarrow> (monitor, unit) action" where
  "set_ap l ap m =
     (if ap = link_ap m ! l then (m, Inr ())
      else sbind (case link_ap m ! l of None \<Rightarrow> sret () | Some n \<Rightarrow> remove_link n l) (\<lambda>_.
           sbind (supdate (\<lambda>m. m\<lparr>link_ap := (link_ap m)[l := ap]\<rparr>)) (\<lambda>_.
           case ap of None \<Rightarrow> sret () | Some n \<Rightarrow> add_link n l)) m)"

datatype wifi_device = OtherDevice | Station | AccessPoint string

text \<open>\<open>WifiLink.__init__\<close> leaves the link without an access point.\<close>

definition new_link :: "nat \<Rightarrow> monitor \<Rightarrow> monitor" where
  "new_link node m = m\<lparr>link_ap := link_ap m @ [None], link_node := link_node m @ [Some node]\<rparr>"

definition scan_wifi_device :: "nat \<Rightarrow> nat \<times> wifi_device \<Rightarrow> monitor \<Rightarrow> monitor" where
  "scan_wifi_device node = (\<lambda>(dev, w) m.
     (case w of
        OtherDevice \<Rightarrow> m
      | Station \<Rightarrow> (new_link node m)\<lparr>stations := stations m @ [(dev, node, length (link_ap m))]\<rparr>
      | AccessPoint bssid \<Rightarrow> m\<lparr>access_points := dset bssid node (access_points m)\<rparr>))"

definition destroy_link :: "nat \<Rightarrow> monitor \<Rightarrow> monitor" where
  "destroy_link l m = m\<lparr>link_ap := (link_ap m)[l := None], link_node := (link_node m)[l := None]\<rparr>"

definition scan_nodes :: "(nat \<times> (nat \<times> wifi_device) list) list \<Rightarrow> monitor \<Rightarrow> monitor" where
  "scan_nodes nodes m =
     (let m = fold (\<lambda>(dev, node, l). destroy_link l) (stations m) m;
          m = m\<lparr>access_points := [], stations := []\<rparr>
      in fold (\<lambda>(node, devs). fold (scan_wifi_device node) devs) nodes m)"

text \<open>The state of a station device: whether its link is up, and its BSSID.\<close>

definition no_bssid :: string where
  "no_bssid = ''00:00:00:00:00:00''"

definition update_station :: "(nat \<Rightarrow> bool \<times> string) \<Rightarrow> nat \<times> nat \<times> nat \<Rightarrow> (monitor, unit) action" where
  "update_station wifi = (\<lambda>(dev, node, l) m.
     (let (up, bssid) = wifi dev
      in if \<not> up then set_ap l None m
         else if bssid = no_bssid then set_ap l None m
         else (case dget (access_points m) bssid of
                 None \<Rightarrow> (m, Inl KeyError)
               | Some ap \<Rightarrow> set_ap l (Some ap) m)))"

fun update_stations :: "(nat \<Rightarrow> bool \<times> string) \<Rightarrow> (nat \<times> nat \<times> nat) list \<Rightarrow> (monitor, unit) action" where
  "update_stations wifi [] = sret ()"
| "update_stations wifi (st # sts) = sbind (update_station wifi st) (\<lambda>_. update_stations wifi sts)"

definition simulation_periodic_update :: "(nat \<Rightarrow> bool \<times> string) \<Rightarrow> (monitor, unit) action" where
  "simulation_periodic_update wifi m = update_stations wifi (stations m) m"

section \<open>Statistics\<close>

record iface_stats =
  transmitted_packets :: nat
  transmitted_bytes :: nat
  received_packets :: nat
  received_bytes :: nat

record net_dev_stats =
  tx_packets :: nat
  tx_bytes :: nat
  rx_packets :: nat
  rx_bytes :: nat
  tx_packet_rate :: rat
  rx_packet_rate :: rat
  tx_bit_rate :: rat
  rx_bit_rate :: rat

definition node_statistics_memory :: nat where
  "node_statistics_memory = 10"

type_synonym collector = "(nat, iface_stats list list) dict"

definition keep_last :: "nat \<Rightarrow> 'a list \<Rightarrow> 'a list" where
  "keep_last n xs = drop (length xs - n) xs"

definition collect_node :: "nat \<times> iface_stats list \<Rightarrow> collector \<Rightarrow> collector" where
  "collect_node = (\<lambda>(node, stats) c.
     dset node (keep_last node_statistics_memory (dget_default c node [] @ [stats])) c)"

definition collect_statistics :: "(nat \<times> iface_stats list) list \<Rightarrow> collector \<Rightarrow> collector" where
  "collect_statistics samples c = fold collect_node samples c"

definition rate :: "rat \<Rightarrow> nat \<Rightarrow> nat \<Rightarrow> rat" where
  "rate k new old = (of_nat new - of_nat old) / k"

definition iface_rates :: "rat \<Rightarrow> iface_stats list \<Rightarrow> nat \<times> iface_stats \<Rightarrow> net_dev_stats py_result" where
  "iface_rates k firsts = (\<lambda>(iface, s).
     rbind (py_index firsts (int iface)) (\<lambda>old.
     if k = 0 then Inl ZeroDivisionError
     else Inr \<lparr>tx_packets = transmitted_packets s, tx_bytes = transmitted_bytes s,
       rx_packets = received_packets s, rx_bytes = received_bytes s,
       tx_packet_rate = rate k (transmitted_packets s) (transmitted_packets old),
       rx_packet_rate = rate k (received_packets s) (received_packets old),
       tx_bit_rate = rate k (transmitted_bytes s * 8) (transmitted_bytes old * 8),
       rx_bit_rate = rate k (received_bytes s * 8) (received_bytes old * 8)\<rparr>))"

definition get_interface_statistics :: "rat \<Rightarrow> nat \<Rightarrow> collector \<Rightarrow> net_dev_stats list py_result" where
  "get_interface_statistics sample_period node c =
     (case dget c node of
        None \<Rightarrow> Inr []
      | Some raw \<Rightarrow>
          (if length raw < node_statistics_memory then Inr []
           else if length raw \<noteq> node_statistics_memory then Inl AssertionError
           else (let k = sample_period * (of_nat node_statistics_memory - 1)
                 in map_res (iface_rates k (hd raw)) (enumerate 0 (last raw)))))"


section \<open>Laws of the links\<close>

text \<open>
  A live link is in the list of its access point once and in no other list.  The links
  that a second scan has destroyed may stay in a list; no list has a link that
  does not exist yet.
\<close>

definition live :: "monitor \<Rightarrow> nat list" where
  "live m = List.map (\<lambda>(dev, node, l). l) (stations m)"

definition link_ok :: "monitor \<Rightarrow> nat \<Rightarrow> bool" where
  "link_ok m l \<longleftrightarrow> l < length (link_ap m) \<and>
     (\<forall>n. count_list (links_of m n) l = (if link_ap m ! l = Some n then 1 else 0))"

definition monitor_ok :: "monitor \<Rightarrow> bool" where
  "monitor_ok m \<longleftrightarrow>
     distinct (live m) \<and> (\<forall>l \<in> set (live m). link_ok m l) \<and>
     (\<forall>n. \<forall>l \<in> set (links_of m n). l < length (link_ap m))"

lemma count_remove1: "count_list (remove1 x xs) y = (if x = y then count_list xs y - 1 else count_list xs y)"
  by (induction xs) (auto simp: count_list_0_iff)

lemma links_of_set [simp]:
  "links_of (m\<lparr>node_links := dset n ls (node_links m)\<rparr>) k = (if k = n then ls else links_of m k)"
  by (simp add: links_of_def dget_default_def dict_simps)

lemma set_ap_ok:
  assumes "monitor_ok m" "l \<in> set (live m)"
  shows "\<exists>m'. set_ap l ap m = (m', Inr ()) \<and> monitor_ok m' \<and> link_ap m' = (link_ap m)[l := ap] \<and>
    stations m' = stations m \<and> access_points m' = access_points m"
proof (cases "ap = link_ap m ! l")
  case True
  then show ?thesis using assms by (simp add: set_ap_def list_update_id)
next
  case False
  have l: "link_ok m l" using assms by (simp add: monitor_ok_def)
  define r where "r = (case link_ap m ! l of None \<Rightarrow> m
      | Some n \<Rightarrow> m\<lparr>node_links := dset n (remove1 l (links_of m n)) (node_links m)\<rparr>)"
  have rem: "(case link_ap m ! l of None \<Rightarrow> sret () | Some n \<Rightarrow> remove_link n l) m = (r, Inr ())"
  proof (cases "link_ap m ! l")
    case (Some n)
    then have "count_list (links_of m n) l = 1" using l by (simp add: link_ok_def)
    then have "l \<in> set (links_of m n)" by (metis count_notin zero_neq_one)
    then show ?thesis using Some by (simp add: remove_link_def r_def)
  qed (simp add: r_def sret_def)
  have fields: "link_ap r = link_ap m" "stations r = stations m" "access_points r = access_points m"
    by (simp_all add: r_def split: option.splits)
  have counts: "count_list (links_of r n) j = (if j = l then 0 else if link_ap m ! j = Some n then 1 else 0)"
    if "link_ok m j" for n j
    using l that by (auto simp: r_def link_ok_def count_remove1 split: option.splits)
  have old: "set (links_of r n) \<subseteq> set (links_of m n)" for n
    using set_remove1_subset [of l] by (auto simp: r_def split: option.splits)
  define q where "q = r\<lparr>link_ap := (link_ap m)[l := ap]\<rparr>"
  define w where "w = (case ap of None \<Rightarrow> q | Some n \<Rightarrow> q\<lparr>node_links := dset n (links_of q n @ [l]) (node_links q)\<rparr>)"
  have run: "set_ap l ap m = (w, Inr ())"
    using False fields(1) unfolding set_ap_def sbind_def rem
    by (auto simp: q_def w_def supdate_def sret_def add_link_def split: option.splits)
  have ql: "links_of q n = links_of r n" for n by (simp add: q_def links_of_def)
  have wl: "links_of w n = (if ap = Some n then links_of r n @ [l] else links_of r n)" for n
    by (auto simp: w_def ql split: option.splits)
  have w: "link_ap w = (link_ap m)[l := ap]" "stations w = stations m" "access_points w = access_points m"
    using fields by (auto simp: w_def q_def split: option.splits)
  have "link_ok w j" if j: "link_ok m j" for j
    using counts [OF j] l j by (auto simp: link_ok_def wl w(1) nth_list_update)
  moreover have "live w = live m" by (simp add: live_def w(2))
  moreover have "j < length (link_ap w)" if "j \<in> set (links_of w n)" for n j
    using that old [of n] assms(1) l by (auto simp: wl w(1) monitor_ok_def link_ok_def split: if_splits)
  ultimately have "monitor_ok w" using assms(1) by (auto simp: monitor_ok_def)
  then show ?thesis using run w by blast
qed

text \<open>The access point that a station should be linked to, and the stations without one.\<close>

definition wanted_ap :: "(nat \<Rightarrow> bool \<times> string) \<Rightarrow> monitor \<Rightarrow> nat \<Rightarrow> nat option" where
  "wanted_ap wifi m dev =
     (if fst (wifi dev) \<and> snd (wifi dev) \<noteq> no_bssid then dget (access_points m) (snd (wifi dev)) else None)"

definition unknown_ap :: "(nat \<Rightarrow> bool \<times> string) \<Rightarrow> monitor \<Rightarrow> nat \<times> nat \<times> nat \<Rightarrow> bool" where
  "unknown_ap wifi m = (\<lambda>(dev, node, l).
     fst (wifi dev) \<and> snd (wifi dev) \<noteq> no_bssid \<and> dget (access_points m) (snd (wifi dev)) = None)"

lemma update_station_eq:
  "update_station wifi (dev, node, l) m =
     (if unknown_ap wifi m (dev, node, l) then (m, Inl KeyError) else set_ap l (wanted_ap wifi m dev) m)"
  by (cases "wifi dev") (auto simp: update_station_def unknown_ap_def wanted_ap_def split: option.splits)

lemma update_stations_ok:
  assumes "monitor_ok m" "set sts \<subseteq> set (stations m)" "distinct (List.map (\<lambda>(dev, node, l). l) sts)"
    "update_stations wifi sts m = (m', r)"
  shows "monitor_ok m' \<and> stations m' = stations m \<and> access_points m' = access_points m \<and>
    r = (if \<exists>st \<in> set sts. unknown_ap wifi m st then Inl KeyError else Inr ()) \<and>
    (\<forall>(dev, node, l) \<in> set (takeWhile (\<lambda>st. \<not> unknown_ap wifi m st) sts). link_ap m' ! l = wanted_ap wifi m dev) \<and>
    (\<forall>l. l \<notin> (\<lambda>(dev, node, l). l) ` set (takeWhile (\<lambda>st. \<not> unknown_ap wifi m st) sts) \<longrightarrow> link_ap m' ! l = link_ap m ! l)"
  using assms
proof (induction sts arbitrary: m)
  case Nil
  then show ?case by (simp add: sret_def)
next
  case (Cons st sts)
  obtain dev node l where st: "st = (dev, node, l)" by (cases st)
  show ?case
  proof (cases "unknown_ap wifi m st")
    case True
    then show ?thesis using Cons.prems by (auto simp: st sbind_def update_station_eq)
  next
    case False
    have l: "l \<in> set (live m)" using Cons.prems(2) st by (force simp: live_def)
    obtain u where u: "set_ap l (wanted_ap wifi m dev) m = (u, Inr ())" "monitor_ok u"
        "link_ap u = (link_ap m)[l := wanted_ap wifi m dev]" "stations u = stations m" "access_points u = access_points m"
      using set_ap_ok [OF Cons.prems(1) l] by blast
    have same: "unknown_ap wifi u = unknown_ap wifi m" "wanted_ap wifi u = wanted_ap wifi m"
      by (simp_all add: unknown_ap_def wanted_ap_def u(5) fun_eq_iff)
    have "update_stations wifi sts u = (m', r)"
      using Cons.prems(4) False u(1) by (simp add: st sbind_def update_station_eq)
    moreover have "set sts \<subseteq> set (stations u)" "distinct (List.map (\<lambda>(dev, node, l). l) sts)"
      using Cons.prems(2,3) u(4) by simp_all
    ultimately have IH: "monitor_ok m' \<and> stations m' = stations u \<and> access_points m' = access_points u \<and>
      r = (if \<exists>st \<in> set sts. unknown_ap wifi m st then Inl KeyError else Inr ()) \<and>
      (\<forall>(dev, node, l) \<in> set (takeWhile (\<lambda>st. \<not> unknown_ap wifi m st) sts). link_ap m' ! l = wanted_ap wifi m dev) \<and>
      (\<forall>l. l \<notin> (\<lambda>(dev, node, l). l) ` set (takeWhile (\<lambda>st. \<not> unknown_ap wifi m st) sts) \<longrightarrow> link_ap m' ! l = link_ap u ! l)"
      using Cons.IH [OF u(2)] unfolding same by blast
    have out: "l \<notin> (\<lambda>(dev, node, l). l) ` set (takeWhile (\<lambda>st. \<not> unknown_ap wifi m st) sts)"
      using Cons.prems(3) st by (force dest: set_takeWhileD)
    have "l < length (link_ap m)" using Cons.prems(1) l by (simp add: monitor_ok_def link_ok_def)
    then have "link_ap m' ! l = wanted_ap wifi m dev" using IH out u(3) by simp
    moreover have "link_ap u ! j = link_ap m ! j" if "j \<noteq> l" for j using u(3) that by simp
    ultimately show ?thesis using IH False u(4,5) st by auto
  qed
qed


text \<open>After the scan of the nodes every link is without an access point.\<close>

definition ids_below :: "monitor \<Rightarrow> bool" where
  "ids_below m \<longleftrightarrow> (\<forall>n. \<forall>l \<in> set (links_of m n). l < length (link_ap m))"

definition fresh_links :: "monitor \<Rightarrow> bool" where
  "fresh_links m \<longleftrightarrow> ids_below m \<and> distinct (live m) \<and>
     (\<forall>l \<in> set (live m). l < length (link_ap m) \<and> link_ap m ! l = None \<and> (\<forall>n. l \<notin> set (links_of m n)))"

lemma scan_wifi_device_fresh: "fresh_links m \<Longrightarrow> fresh_links (scan_wifi_device node dw m)"
proof (cases dw)
  case (Pair dev w)
  then show "fresh_links m \<Longrightarrow> fresh_links (scan_wifi_device node dw m)"
  proof (cases w)
    case Station
    have links: "links_of (scan_wifi_device node dw m) n = links_of m n" for n
      by (simp add: Pair Station scan_wifi_device_def new_link_def links_of_def)
    have live: "live (scan_wifi_device node dw m) = live m @ [length (link_ap m)]"
      and ap: "link_ap (scan_wifi_device node dw m) = link_ap m @ [None]"
      by (simp_all add: Pair Station scan_wifi_device_def new_link_def live_def)
    assume m: "fresh_links m"
    then have "length (link_ap m) \<notin> set (links_of m n)" for n by (auto simp: fresh_links_def ids_below_def)
    then show ?thesis using m unfolding fresh_links_def ids_below_def links live ap
      by (auto simp: nth_append less_Suc_eq)
  qed (auto simp: scan_wifi_device_def fresh_links_def ids_below_def links_of_def live_def)
qed

lemma destroy_links_below: "ids_below m \<Longrightarrow> ids_below (fold (\<lambda>(dev, node, l). destroy_link l) sts m)"
proof (induction sts arbitrary: m)
  case (Cons st sts)
  have "ids_below (destroy_link l m)" for l
    using Cons.prems by (simp add: ids_below_def destroy_link_def links_of_def)
  then show ?case using Cons.IH by (cases st) simp
qed simp

lemma scan_nodes_fresh:
  assumes "ids_below m"
  shows "fresh_links (scan_nodes ns m)"
proof -
  define d where "d = (fold (\<lambda>(dev, node, l). destroy_link l) (stations m) m)\<lparr>access_points := [], stations := []\<rparr>"
  have "ids_below (fold (\<lambda>(dev, node, l). destroy_link l) (stations m) m)" using assms by (rule destroy_links_below)
  then have start: "fresh_links d" by (simp add: d_def fresh_links_def ids_below_def links_of_def live_def)
  have devs: "fresh_links (fold (scan_wifi_device node) ds m)" if "fresh_links m" for node ds m
    using that by (induction ds arbitrary: m) (auto intro: scan_wifi_device_fresh)
  have "fresh_links (fold (\<lambda>(node, devs). fold (scan_wifi_device node) devs) ns m)" if "fresh_links m" for m
    using that by (induction ns arbitrary: m) (auto intro: devs)
  from this [OF start] show ?thesis by (simp add: scan_nodes_def Let_def d_def)
qed

lemma fresh_monitor_ok: "fresh_links m \<Longrightarrow> monitor_ok m"
  by (auto simp: fresh_links_def monitor_ok_def link_ok_def ids_below_def count_list_0_iff)


section \<open>Laws of the statistics\<close>

lemma keep_last_snoc: "0 < n \<Longrightarrow> keep_last n (keep_last n xs @ [x]) = keep_last n (xs @ [x])"
  by (cases "length xs < n") (simp_all add: keep_last_def Suc_diff_le)

text \<open>The samples of a node, in order.\<close>

definition history :: "nat \<Rightarrow> (nat \<times> iface_stats list) list \<Rightarrow> iface_stats list list" where
  "history node samples = List.map snd (List.filter (\<lambda>(n, s). n = node) samples)"

lemma collected_history:
  "dget (collect_statistics samples []) node =
     (if history node samples = [] then None else Some (keep_last 10 (history node samples)))"
proof (induction samples rule: rev_induct)
  case Nil
  then show ?case by (simp add: collect_statistics_def history_def)
next
  case (snoc ns samples)
  obtain n s where ns: "ns = (n, s)" by fastforce
  have all: "collect_statistics (samples @ [ns]) [] = collect_node ns (collect_statistics samples [])"
    by (simp add: collect_statistics_def)
  have h: "history node (samples @ [ns]) = (if n = node then history node samples @ [s] else history node samples)"
    by (simp add: history_def ns)
  show ?case
  proof (cases "n = node")
    case True
    have "dget_default (collect_statistics samples []) node [] = keep_last 10 (history node samples)"
      using snoc by (simp add: dget_default_def keep_last_def)
    then show ?thesis
      using True keep_last_snoc [of 10 "history node samples" s] unfolding all h
      by (simp add: ns collect_node_def node_statistics_memory_def dict_simps)
  next
    case False
    then show ?thesis using snoc unfolding all h
      by (simp add: ns collect_node_def dict_simps)
  qed
qed

definition iface_row :: "rat \<Rightarrow> iface_stats \<Rightarrow> iface_stats \<Rightarrow> net_dev_stats" where
  "iface_row k old s =
     \<lparr>tx_packets = transmitted_packets s, tx_bytes = transmitted_bytes s,
      rx_packets = received_packets s, rx_bytes = received_bytes s,
      tx_packet_rate = rate k (transmitted_packets s) (transmitted_packets old),
      rx_packet_rate = rate k (received_packets s) (received_packets old),
      tx_bit_rate = rate k (transmitted_bytes s * 8) (transmitted_bytes old * 8),
      rx_bit_rate = rate k (received_bytes s * 8) (received_bytes old * 8)\<rparr>"

lemma iface_rates_row:
  "k \<noteq> 0 \<Longrightarrow> i < length olds \<Longrightarrow> iface_rates k olds (i, s) = Inr (iface_row k (olds ! i) s)"
  by (simp add: iface_rates_def iface_row_def py_simps)

lemma iface_rates_all:
  assumes "k \<noteq> 0" "n + length ss \<le> length olds"
  shows "map_res (iface_rates k olds) (enumerate n ss) = Inr (map2 (iface_row k) (drop n olds) ss)"
  using assms(2)
proof (induction ss arbitrary: n)
  case Nil
  then show ?case by simp
next
  case (Cons s ss)
  have "drop n olds = olds ! n # drop (Suc n) olds" using Cons.prems by (simp add: Cons_nth_drop_Suc)
  then show ?case using Cons.IH [of "Suc n"] Cons.prems by (simp add: iface_rates_row [OF assms(1)])
qed

lemma iface_rates_short:
  assumes "k \<noteq> 0" "length olds < n + length ss" "n \<le> length olds"
  shows "map_res (iface_rates k olds) (enumerate n ss) = Inl IndexError"
  using assms(2,3)
proof (induction ss arbitrary: n)
  case Nil
  then show ?case by simp
next
  case (Cons s ss)
  show ?case
  proof (cases "n < length olds")
    case True
    then show ?thesis using Cons.IH [of "Suc n"] Cons.prems by (simp add: iface_rates_row [OF assms(1)])
  next
    case False
    then have "iface_rates k olds (n, s) = Inl IndexError" by (simp add: iface_rates_def py_index_def)
    then show ?thesis by simp
  qed
qed


section \<open>Properties\<close>

text \<open>After a scan and after every update, failed ones included, each link is in the list
  of its access point once and in no other list.  An update links every station to
  the access point of its BSSID, and to none when its link is down, up to the first
  station with an unknown BSSID; there it raises \<open>KeyError\<close>, and the stations from
  there on keep their old links.\<close>

theorem links_follow_access_points:
  assumes "monitor_ok m" "simulation_periodic_update wifi m = (m', r)"
  shows "monitor_ok m' \<and> (ids_below m \<longrightarrow> monitor_ok (scan_nodes ns m)) \<and>
    r = (if \<exists>st \<in> set (stations m). unknown_ap wifi m st then Inl KeyError else Inr ()) \<and>
    (\<forall>(dev, node, l) \<in> set (takeWhile (\<lambda>st. \<not> unknown_ap wifi m st) (stations m)). link_ap m' ! l = wanted_ap wifi m dev) \<and>
    (\<forall>(dev, node, l) \<in> set (dropWhile (\<lambda>st. \<not> unknown_ap wifi m st) (stations m)). link_ap m' ! l = link_ap m ! l)"
proof -
  have "distinct (List.map (\<lambda>(dev, node, l). l) (stations m))"
    using assms(1) by (simp add: monitor_ok_def live_def)
  note all = update_stations_ok [OF assms(1) subset_refl this assms(2) [unfolded simulation_periodic_update_def]]
  have "distinct (List.map (\<lambda>(dev, node, l). l) (takeWhile (\<lambda>st. \<not> unknown_ap wifi m st) (stations m) @
      dropWhile (\<lambda>st. \<not> unknown_ap wifi m st) (stations m)))"
    using \<open>distinct (List.map (\<lambda>(dev, node, l). l) (stations m))\<close> by simp
  then have disjoint: "(\<lambda>(dev, node, l). l) ` set (takeWhile (\<lambda>st. \<not> unknown_ap wifi m st) (stations m)) \<inter>
      (\<lambda>(dev, node, l). l) ` set (dropWhile (\<lambda>st. \<not> unknown_ap wifi m st) (stations m)) = {}"
    unfolding map_append distinct_append set_map by blast
  have "link_ap m' ! l = link_ap m ! l"
    if "(dev, node, l) \<in> set (dropWhile (\<lambda>st. \<not> unknown_ap wifi m st) (stations m))" for dev node l
  proof -
    have "l \<in> (\<lambda>(dev, node, l). l) ` set (dropWhile (\<lambda>st. \<not> unknown_ap wifi m st) (stations m))"
      using that by force
    then show ?thesis using all disjoint by blast
  qed
  then show ?thesis using all scan_nodes_fresh fresh_monitor_ok by blast
qed

definition demo_monitor :: monitor where
  "demo_monitor = scan_nodes [(0, [(5, Station)]), (1, [(6, AccessPoint ''00:00:00:00:00:01'')]), (2, [(7, Station)])]
     \<lparr>access_points = [], stations = [], link_ap = [], link_node = [], node_links = []\<rparr>"

lemma links_follow_access_points_witness:
  "\<exists>m'. simulation_periodic_update (\<lambda>dev. (True, if dev = 5 then ''00:00:00:00:00:01'' else ''ff'')) demo_monitor = (m', Inl KeyError) \<and>
     monitor_ok m' \<and> link_ap m' ! 0 = Some 1 \<and> link_ap m' ! 1 = None"
proof -
  define wifi :: "nat \<Rightarrow> bool \<times> string" where "wifi = (\<lambda>dev. (True, if dev = 5 then ''00:00:00:00:00:01'' else ''ff''))"
  obtain m' r where run: "simulation_periodic_update wifi demo_monitor = (m', r)" by fastforce
  have "fresh_links demo_monitor"
    unfolding demo_monitor_def by (rule scan_nodes_fresh) (simp add: ids_below_def links_of_def dget_default_def)
  then have ok: "monitor_ok demo_monitor" by (rule fresh_monitor_ok)
  have sts: "stations demo_monitor = [(5, 0, 0), (7, 2, 1)]" "access_points demo_monitor = [(''00:00:00:00:00:01'', 1)]"
      "link_ap demo_monitor = [None, None]"
    by code_simp+
  show ?thesis
    using links_follow_access_points [OF ok run, of "[]"] run
    unfolding wifi_def [symmetric] by (auto simp: sts unknown_ap_def wanted_ap_def wifi_def no_bssid_def)
qed

text \<open>The statistics of a node are empty until it has ten samples.  Then each interface
  has the counters of the last sample and the rates of change against the tenth
  last one, over nine sample periods; an interface that has appeared since then
  raises \<open>IndexError\<close>.\<close>

theorem statistics_of_last_samples:
  assumes "0 < p" and h: "h = history node samples"
  shows "get_interface_statistics p node (collect_statistics samples []) =
    (if length h < 10 then Inr []
     else if length (h ! (length h - 10)) < length (last h) then Inl IndexError
     else Inr (map2 (iface_row (p * 9)) (h ! (length h - 10)) (last h)))"
proof (cases "length h < 10")
  case True
  then show ?thesis
    by (simp add: get_interface_statistics_def collected_history h node_statistics_memory_def keep_last_def)
next
  case False
  define raw where "raw = keep_last 10 h"
  have raw: "length raw = 10" "hd raw = h ! (length h - 10)" "last raw = last h"
    using False by (simp_all add: raw_def keep_last_def hd_drop_conv_nth)
  have "h \<noteq> []" using False by auto
  then have stats: "get_interface_statistics p node (collect_statistics samples []) =
      map_res (iface_rates (p * 9) (hd raw)) (enumerate 0 (last raw))"
    using raw(1) by (simp add: get_interface_statistics_def collected_history raw_def node_statistics_memory_def flip: h)
  have "p * 9 \<noteq> 0" using assms(1) by simp
  then show ?thesis
    using iface_rates_all [of "p * 9" 0 "last raw" "hd raw"] iface_rates_short [of "p * 9" "hd raw" 0 "last raw"] False
    unfolding stats by (simp add: raw)
qed


definition demo_samples :: "(nat \<times> iface_stats list) list" where
  "demo_samples = List.map (\<lambda>i. (3, [\<lparr>transmitted_packets = i, transmitted_bytes = 100 * i, received_packets = 0, received_bytes = 0\<rparr>])) [0..<10]"

lemma statistics_of_last_samples_witness:
  "\<exists>s. get_interface_statistics (1 / 10) 3 (collect_statistics demo_samples []) = Inr [s] \<and> tx_bit_rate s = 8000"
proof -
  have h: "history 3 demo_samples =
      List.map (\<lambda>i. [\<lparr>transmitted_packets = i, transmitted_bytes = 100 * i, received_packets = 0, received_bytes = 0\<rparr>]) [0..<10]"
    by (simp add: history_def demo_samples_def filter_map comp_def)
  show ?thesis
    using statistics_of_last_samples [OF _ refl, of "1 / 10" 3 demo_samples] unfolding h
    by (simp add: last_map iface_row_def rate_def)
qed

end
