(* ===== verification/Console.thy ===== *)
theory Console
  imports PyString
begin

text \<open>
  The console of the visualizer, \<open>src/visualizer/visualizer/ipython_view.py\<close>: the history and the
  completion of the shell, the lines that it executes, the buffer of text with coloured and
  protected parts, the calls that wait until the main loop is idle, and the keys.  What the
  interactive interpreter and its input splitter answer is an argument.
\<close>

section \<open>The shell\<close>

text \<open>
  What the interpreter supplies: whether the lines so far need more, their source, a run, which
  returns the inputs remembered afterwards and the output, prompts, indentation and completions.
\<close>

record ipython =
  accepts_more :: "string list \<Rightarrow> bool"
  source_of :: "string list \<Rightarrow> string"
  run_cell :: "string \<Rightarrow> string list \<Rightarrow> string list \<times> string"
  prompt_for :: "bool \<Rightarrow> string list \<Rightarrow> string"
  autoindent :: bool
  indent_of :: "string list \<Rightarrow> nat"
  completions :: "string \<Rightarrow> string list"

record ip_shell =
  entries :: "string list"
  history_level :: int
  splitter :: "string list"
  iter_more :: bool
  do_indent :: bool
  prompt :: string
  interrupt :: bool
  cout :: string

text \<open>\<open>s.strip('\<newline>')\<close> for the newline.\<close>

definition strip_newlines :: "string \<Rightarrow> string" where
  "strip_newlines s = rev (dropWhile (\<lambda>c. c = newline) (rev (dropWhile (\<lambda>c. c = newline) s)))"

definition get_history :: "ip_shell \<Rightarrow> string" where
  "get_history s = (case py_index (entries s) (history_level s) of Inl e \<Rightarrow> [] | Inr l \<Rightarrow> strip_newlines l)"

definition history_back :: "ip_shell \<Rightarrow> string \<times> ip_shell" where
  "history_back s =
     (let s = s\<lparr>history_level := history_level s - 1\<rparr>;
          s = (if get_history s = [] then s\<lparr>history_level := history_level s + 1\<rparr> else s)
      in (get_history s, s))"

definition history_forward :: "ip_shell \<Rightarrow> string \<times> ip_shell" where
  "history_forward s =
     (let s = (if history_level s < 0 then s\<lparr>history_level := history_level s + 1\<rparr> else s)
      in (get_history s, s))"

text \<open>
  \<open>execute\<close>: the line is what \<open>raw_input\<close> returns, unless an interruption waits.  The reset after an
  interruption leaves \<open>iter_more\<close> as it was.
\<close>

definition execute_line :: "ipython \<Rightarrow> string \<Rightarrow> ip_shell \<Rightarrow> ip_shell" where
  "execute_line ip line s =
     (let s = s\<lparr>history_level := 0, prompt := prompt_for ip (iter_more s) (entries s)\<rparr>;
          s = (if iter_more s \<and> autoindent ip then s\<lparr>do_indent := True\<rparr> else s)
      in if interrupt s
         then s\<lparr>interrupt := False, cout := cout s @ [newline] @ ''KeyboardInterrupt'' @ [newline], splitter := []\<rparr>
         else (let s = s\<lparr>splitter := splitter s @ [line]\<rparr>;
                   s = s\<lparr>iter_more := accepts_more ip (splitter s)\<rparr>;
                   s = s\<lparr>prompt := prompt_for ip (iter_more s) (entries s)\<rparr>
               in if iter_more s then s\<lparr>do_indent := True\<rparr>
                  else (let (inputs, output) = run_cell ip (source_of ip (splitter s)) (entries s)
                        in s\<lparr>splitter := [], entries := inputs, cout := cout s @ output, do_indent := False\<rparr>)))"

section \<open>Completion\<close>

definition complete_sep :: "char \<Rightarrow> bool" where
  "complete_sep c \<longleftrightarrow> is_space c \<or> c \<in> set ''{}[]()''"

text \<open>The last part of the line split at separators.\<close>

definition last_word :: "string \<Rightarrow> string" where
  "last_word line = rev (takeWhile (\<lambda>c. \<not> complete_sep c) (rev line))"

fun common_prefix :: "string \<Rightarrow> string \<Rightarrow> string" where
  "common_prefix (c # cs) (d # ds) = (if c = d then c # common_prefix cs ds else [])"
| "common_prefix cs ds = []"

definition complete :: "ipython \<Rightarrow> string \<Rightarrow> string \<times> string list" where
  "complete ip line =
     (let w = last_word line; possibilities = (if w = [] then [] else completions ip w)
      in (case possibilities of
            [] \<Rightarrow> line
          | p # ps \<Rightarrow>
              (let pre = foldl common_prefix p ps
               in take (length line - length w) line @ (if pre = [] then [last line] else pre)),
          possibilities))"

section \<open>The buffer\<close>

text \<open>
  A character of the buffer has the name of a colour, if it has one, and is protected or not.
\<close>

type_synonym cell = "char \<times> string option \<times> bool"

datatype console_op = WriteOp string bool | ShowPromptOp string | ChangeLineOp string | ShowReturnedOp string

record console =
  cells :: "cell list"
  line_start :: nat
  cursor :: nat
  selection :: nat
  idle_queue :: "console_op list"
  shell :: ip_shell

definition ansi_codes :: "string list" where
  "ansi_codes =
     [''0;30'', ''0;31'', ''0;32'', ''0;33'', ''0;34'', ''0;35'', ''0;36'', ''0;37'',
      ''1;30'', ''1;31'', ''1;32'', ''1;33'', ''1;34'', ''1;35'', ''1;36'', ''1;37'']"

definition tag_table :: "string list" where
  "tag_table = ansi_codes @ [''0'', ''notouch'']"

text \<open>
  The colour codes of a text: the expression matches an optional start mark, an escape and a
  bracket, as few characters as possible up to a letter m in the same line, and an optional end mark.
\<close>

definition skip_char :: "char \<Rightarrow> string \<Rightarrow> string" where
  "skip_char c s = (case s of d # ds \<Rightarrow> if d = c then ds else s | [] \<Rightarrow> s)"

definition color_at :: "string \<Rightarrow> (string \<times> string) option" where
  "color_at s =
     (let s = skip_char (CHR 0x01) s
      in if startswith s [CHR 0x1B, CHR ''['']
         then (let body = drop 2 s; code = takeWhile (\<lambda>c. c \<noteq> CHR ''m'' \<and> c \<noteq> newline) body
               in (case drop (length code) body of
                     c # rest \<Rightarrow> if c = CHR ''m'' then Some (code, skip_char (CHR 0x02) rest) else None
                   | [] \<Rightarrow> None))
         else None)"

lemma length_skip_char: "length (skip_char c s) \<le> length s"
  by (simp add: skip_char_def split: list.split)

lemma color_at_shorter: "color_at s = Some (code, rest) \<Longrightarrow> length rest < length s"
proof -
  assume some: "color_at s = Some (code, rest)"
  define t where "t = skip_char (CHR 0x01) s"
  from some obtain r where "drop (length code) (drop 2 t) = CHR ''m'' # r" and rest: "rest = skip_char (CHR 0x02) r"
    by (auto simp: color_at_def Let_def t_def [symmetric] split: if_splits list.splits)
  then have "Suc (length r) \<le> length t" by (metis drop_drop length_Cons length_drop diff_le_self)
  then show ?thesis
    using length_skip_char [of "CHR 0x01" s] length_skip_char [of "CHR 0x02" r] by (simp add: rest t_def)
qed

function color_parts :: "string \<Rightarrow> string \<times> (string \<times> string) list" where
  "color_parts s =
     (case color_at s of
        Some (code, rest) \<Rightarrow> (let (text, parts) = color_parts rest in ([], (code, text) # parts))
      | None \<Rightarrow> (case s of
                  [] \<Rightarrow> ([], [])
                | c # cs \<Rightarrow> (let (text, parts) = color_parts cs in (c # text, parts))))"
  by pat_completeness auto
termination
  by (relation "measure length") (auto dest: color_at_shorter)

declare color_parts.simps [simp del]

definition color_split :: "string \<Rightarrow> string list" where
  "color_split s = (let (text, parts) = color_parts s in text # concat (List.map (\<lambda>(code, t). [code, t]) parts))"

definition color_findall :: "string \<Rightarrow> string list" where
  "color_findall s = List.map fst (snd (color_parts s))"

definition moved_by :: "nat \<Rightarrow> nat \<Rightarrow> nat \<Rightarrow> nat" where
  "moved_by end n p = (if p = end then end + n else p)"

definition append_cells :: "string \<Rightarrow> string option \<Rightarrow> console \<Rightarrow> console" where
  "append_cells t code s =
     s\<lparr>cells := cells s @ List.map (\<lambda>c. (c, code, False)) t,
       cursor := moved_by (length (cells s)) (length t) (cursor s),
       selection := moved_by (length (cells s)) (length t) (selection s)\<rparr>"

definition insert_with_tag :: "string \<Rightarrow> string \<Rightarrow> (console, unit) action" where
  "insert_with_tag t code s =
     (if code \<in> set tag_table then (append_cells t (Some code) s, Inr ()) else (s, Inl ValueError))"

text \<open>\<open>segments.index(tag)\<close> is the first element equal to the tag, also when it is a text.\<close>

fun list_index :: "'a list \<Rightarrow> 'a \<Rightarrow> nat option" where
  "list_index [] x = None"
| "list_index (y # ys) x = (if x = y then Some 0 else map_option Suc (list_index ys x))"

fun write_colored :: "string list \<Rightarrow> string list \<Rightarrow> (console, unit) action" where
  "write_colored [] segments = sret ()"
| "write_colored (code # codes) segments =
     (case list_index segments code of
        None \<Rightarrow> sraise ValueError
      | Some i \<Rightarrow>
          if i + 1 < length segments
          then sbind (insert_with_tag (segments ! (i + 1)) code)
                 (\<lambda>u. write_colored codes (take i segments @ drop (i + 1) segments))
          else sraise IndexError)"

definition protect :: "nat \<Rightarrow> nat \<Rightarrow> console \<Rightarrow> console" where
  "protect a b s =
     s\<lparr>cells := take a (cells s) @ List.map (\<lambda>(c, code, p). (c, code, True)) (take (b - a) (drop a (cells s))) @
         drop (max a b) (cells s)\<rparr>"

definition write_cells :: "string \<Rightarrow> bool \<Rightarrow> (console, unit) action" where
  "write_cells t editable s =
     (let start = length (cells s); segments = color_split t
      in sbind (sbind (supdate (append_cells (hd segments) None))
                  (\<lambda>u. if tl segments = [] then sret () else write_colored (color_findall t) (tl segments)))
           (\<lambda>u s. (if editable then s else protect start (length (cells s)) s, Inr ())) s)"

definition show_prompt :: "string \<Rightarrow> (console, unit) action" where
  "show_prompt t = sbind (write_cells t False) (\<lambda>u s. (s\<lparr>line_start := length (cells s)\<rparr>, Inr ()))"

text \<open>
  \<open>forward_to_line_end\<close> goes to the end of the line, or of the next one when it is already there.
\<close>

definition text_of :: "console \<Rightarrow> string" where
  "text_of s = List.map fst (cells s)"

definition to_line_end :: "string \<Rightarrow> nat" where
  "to_line_end t =
     (case t of
        [] \<Rightarrow> 0
      | c # cs \<Rightarrow>
          (if c = newline then 1 + length (takeWhile (\<lambda>c. c \<noteq> newline) cs)
           else length (takeWhile (\<lambda>c. c \<noteq> newline) t)))"

definition current_line :: "console \<Rightarrow> string" where
  "current_line s = drop (line_start s) (text_of s)"

definition line_end :: "console \<Rightarrow> nat" where
  "line_end s = line_start s + to_line_end (current_line s)"

definition delete_cells :: "nat \<Rightarrow> nat \<Rightarrow> console \<Rightarrow> console" where
  "delete_cells a b s =
     (let at = (\<lambda>p. if p \<le> a then p else if p \<le> b then a else p - (b - a))
      in s\<lparr>cells := take a (cells s) @ drop b (cells s), cursor := at (cursor s), selection := at (selection s)\<rparr>)"

definition change_line :: "string \<Rightarrow> (console, unit) action" where
  "change_line t = sbind (\<lambda>s. (delete_cells (line_start s) (line_end s) s, Inr ())) (\<lambda>u. write_cells t True)"

definition show_returned :: "ipython \<Rightarrow> string \<Rightarrow> (console, unit) action" where
  "show_returned ip t =
     sbind (\<lambda>s. (protect (line_start s) (line_end s) s, Inr ())) (\<lambda>u.
     sbind (write_cells (newline # t) False) (\<lambda>u.
     sbind (if t = [] then sret () else write_cells [newline] False) (\<lambda>u.
     sbind (\<lambda>s. show_prompt (prompt (shell s)) s) (\<lambda>u s.
       (let s = s\<lparr>line_start := length (cells s), cursor := length (cells s), selection := length (cells s)\<rparr>
        in (if do_indent (shell s)
            then append_cells (replicate (indent_of ip (splitter (shell s))) CHR '' '') None s else s,
            Inr ()))))))"

text \<open>A call that waits for the idle main loop; an exception in it is reported and ends it.\<close>

definition run_op :: "ipython \<Rightarrow> console_op \<Rightarrow> (console, unit) action" where
  "run_op ip op =
     (case op of
        WriteOp t editable \<Rightarrow> write_cells t editable
      | ShowPromptOp t \<Rightarrow> show_prompt t
      | ChangeLineOp t \<Rightarrow> change_line t
      | ShowReturnedOp t \<Rightarrow> show_returned ip t)"

definition when_idle :: "console_op list \<Rightarrow> console \<Rightarrow> console" where
  "when_idle ops s = s\<lparr>idle_queue := idle_queue s @ ops\<rparr>"

definition flush_idle :: "ipython \<Rightarrow> console \<Rightarrow> console" where
  "flush_idle ip s = fold (\<lambda>op s. fst (run_op ip op s)) (idle_queue s) (s\<lparr>idle_queue := []\<rparr>)"

section \<open>The keys\<close>

datatype key = HomeKey | LeftKey | ReturnKey | UpKey | DownKey | TabKey | CharKey char | OtherKey

record key_event =
  keyval :: key
  ctrl :: bool
  alt :: bool
  shift :: bool
  has_string :: bool

definition process_line :: "ipython \<Rightarrow> console \<Rightarrow> console" where
  "process_line ip s =
     (let sh = execute_line ip (current_line s) (shell s); rv = strip_newlines (cout sh)
      in when_idle [ShowReturnedOp rv] (s\<lparr>shell := sh\<lparr>cout := []\<rparr>\<rparr>))"

definition complete_key :: "ipython \<Rightarrow> (console, bool) action" where
  "complete_key ip s =
     (let line = current_line s; (completed, possibilities) = complete ip line
      in if strip line = [] then (s, Inr False)
         else (let s = (if length possibilities > 1
                        then when_idle ([WriteOp [newline] False] @ List.map (\<lambda>p. WriteOp (p @ [newline]) False) possibilities
                               @ [ShowPromptOp (prompt (shell s))]) s
                        else s)
               in if completed = [] \<and> length possibilities \<le> 1 then (s, Inl UnboundLocalError)
                  else (when_idle [ChangeLineOp (if completed = [] then line else completed)] s, Inr True)))"

definition on_key_extend :: "ipython \<Rightarrow> key_event \<Rightarrow> (console, bool) action" where
  "on_key_extend ip e s =
     (if ctrl e \<and> keyval e = CharKey CHR ''c''
      then (process_line ip (s\<lparr>shell := (shell s)\<lparr>interrupt := True\<rparr>\<rparr>), Inr True)
      else (case keyval e of
              ReturnKey \<Rightarrow> (process_line ip s, Inr True)
            | UpKey \<Rightarrow> (let (line, sh) = history_back (shell s) in (when_idle [ChangeLineOp line] (s\<lparr>shell := sh\<rparr>), Inr True))
            | DownKey \<Rightarrow> (let (line, sh) = history_forward (shell s) in (when_idle [ChangeLineOp line] (s\<lparr>shell := sh\<rparr>), Inr True))
            | TabKey \<Rightarrow> complete_key ip s
            | _ \<Rightarrow> (s, Inr False)))"

definition editable_at :: "console \<Rightarrow> nat \<Rightarrow> bool" where
  "editable_at s p = (if p < length (cells s) then \<not> snd (snd (cells s ! p)) else True)"

definition place_cursor :: "nat \<Rightarrow> console \<Rightarrow> console" where
  "place_cursor p s = s\<lparr>cursor := p, selection := p\<rparr>"

text \<open>The marks are moved to the start of the line before a key that types something.\<close>

definition keep_after_prompt :: "console \<Rightarrow> console" where
  "keep_after_prompt s =
     (if line_start s \<le> cursor s \<and> line_start s \<le> selection s then s
      else if line_start s > cursor s \<and> line_start s > selection s then place_cursor (line_start s) s
      else if cursor s < selection s then s\<lparr>cursor := line_start s\<rparr>
      else if cursor s > selection s then s\<lparr>selection := line_start s\<rparr>
      else s)"

definition on_key_press :: "ipython \<Rightarrow> key_event \<Rightarrow> (console, bool) action" where
  "on_key_press ip e s =
     (if keyval e = HomeKey \<and> \<not> (ctrl e \<or> alt e)
      then (if shift e then s\<lparr>cursor := line_start s\<rparr> else place_cursor (line_start s) s, Inr True)
      else if keyval e = LeftKey \<and> \<not> editable_at s (cursor s - 1) then (s, Inr True)
      else on_key_extend ip e
             (if keyval e = HomeKey \<or> keyval e = LeftKey \<or> \<not> has_string e then s else keep_after_prompt s))"

section \<open>Laws of the history\<close>

text \<open>A place in the history that goes back at most to a limit.\<close>

fun walk :: "nat \<Rightarrow> bool list \<Rightarrow> nat \<Rightarrow> nat" where
  "walk m [] d = d"
| "walk m (b # bs) d = walk m bs (if b then min (d + 1) m else d - 1)"

definition history_run :: "bool list \<Rightarrow> ip_shell \<Rightarrow> ip_shell" where
  "history_run bs s = fold (\<lambda>b s. snd (if b then history_back s else history_forward s)) bs s"

definition reach :: "ip_shell \<Rightarrow> nat" where
  "reach s = length (takeWhile (\<lambda>l. strip_newlines l \<noteq> []) (rev (entries s)))"

lemma less_length_takeWhile:
  "d \<le> length (takeWhile P xs) \<Longrightarrow> d < length (takeWhile P xs) \<longleftrightarrow> d < length xs \<and> P (xs ! d)"
  by (metis length_takeWhile_le nth_length_takeWhile order_le_less order_less_le_trans set_takeWhileD nth_mem takeWhile_nth)

lemma get_history_at:
  assumes "history_level s = - int (Suc d)"
  shows "get_history s = (if d < length (entries s) then strip_newlines (rev (entries s) ! d) else [])"
proof -
  have "nat (- 1 - int d + int (length (entries s))) = length (entries s) - Suc d" by arith
  then show ?thesis using assms by (auto simp: get_history_def py_index_def rev_nth)
qed

lemma history_step:
  assumes "history_level s = - int d" and "d \<le> reach s"
  shows "history_level (snd (history_back s)) = - int (min (d + 1) (reach s))"
    and "history_level (snd (history_forward s)) = - int (d - 1)"
    and "entries (snd (history_back s)) = entries s" "entries (snd (history_forward s)) = entries s"
proof -
  let ?t = "s\<lparr>history_level := history_level s - 1\<rparr>"
  have "history_level ?t = - int (Suc d)" using assms(1) by simp
  from get_history_at [OF this]
  have "get_history ?t \<noteq> [] \<longleftrightarrow> d < length (entries s) \<and> strip_newlines (rev (entries s) ! d) \<noteq> []"
    by simp
  also have "\<dots> \<longleftrightarrow> d < reach s"
    using less_length_takeWhile [of d "\<lambda>l. strip_newlines l \<noteq> []" "rev (entries s)"] assms(2) by (simp add: reach_def)
  finally have "get_history ?t \<noteq> [] \<longleftrightarrow> d < reach s" .
  then show "history_level (snd (history_back s)) = - int (min (d + 1) (reach s))"
    using assms by (auto simp: history_back_def Let_def)
  show "history_level (snd (history_forward s)) = - int (d - 1)"
    using assms(1) by (auto simp: history_forward_def Let_def of_nat_diff)
qed (simp_all add: history_back_def history_forward_def Let_def)

lemma history_run_level:
  "history_level s = - int d \<Longrightarrow> d \<le> reach s \<Longrightarrow>
     history_level (history_run bs s) = - int (walk (reach s) bs d) \<and> entries (history_run bs s) = entries s
       \<and> walk (reach s) bs d \<le> reach s"
proof (induction bs arbitrary: s d)
  case Nil
  then show ?case by (simp add: history_run_def)
next
  case (Cons b bs)
  define t where "t = snd (if b then history_back s else history_forward s)"
  define d' where "d' = (if b then min (d + 1) (reach s) else d - 1)"
  have t: "history_level t = - int d'" "entries t = entries s"
    using history_step [OF Cons.prems] by (auto simp: t_def d'_def)
  then have r: "reach t = reach s" by (simp add: reach_def)
  have "d' \<le> reach t" using Cons.prems(2) r by (auto simp: d'_def)
  from Cons.IH [OF t(1) this] t(2) r show ?case by (simp add: history_run_def t_def d'_def)
qed

text \<open>Whatever keys go back and forward in the history, the place is that of a counter that goes back at most to
  the last line that is empty but for newlines, or to the first: lines before an empty one cannot be
  reached.  The line shown is the one at that place, without its newlines.\<close>

theorem history_is_clamped_counter:
  fixes s :: ip_shell
  defines "t \<equiv> s\<lparr>history_level := 0\<rparr>" and "m \<equiv> reach s"
  shows "history_level (history_run bs t) = - int (walk m bs 0)
    \<and> entries (history_run bs t) = entries s \<and> walk m bs 0 \<le> m
    \<and> get_history (history_run bs t) =
        (case walk m bs 0 of 0 \<Rightarrow> (case entries s of [] \<Rightarrow> [] | l # ls \<Rightarrow> strip_newlines l)
         | Suc d \<Rightarrow> strip_newlines (rev (entries s) ! d))"
proof -
  have "history_level t = - int 0" and r: "reach t = m" "entries t = entries s" by (simp_all add: t_def m_def reach_def)
  from history_run_level [OF this(1), of bs] r
  have run: "history_level (history_run bs t) = - int (walk m bs 0)" "entries (history_run bs t) = entries s" "walk m bs 0 \<le> m"
    by simp_all
  have "m \<le> length (entries s)" using length_takeWhile_le [of _ "rev (entries s)"] by (simp add: m_def reach_def)
  then have "get_history (history_run bs t) =
        (case walk m bs 0 of 0 \<Rightarrow> (case entries s of [] \<Rightarrow> [] | l # ls \<Rightarrow> strip_newlines l)
         | Suc d \<Rightarrow> strip_newlines (rev (entries s) ! d))"
  proof (cases "walk m bs 0")
    case 0
    then show ?thesis using run by (auto simp: get_history_def py_index_def split: list.splits)
  next
    case (Suc d)
    with run(1) have "history_level (history_run bs t) = - int (Suc d)" by simp
    from get_history_at [OF this] Suc run \<open>m \<le> length (entries s)\<close> show ?thesis by simp
  qed
  with run show ?thesis by simp
qed

section \<open>Laws of the completion\<close>

lemma common_prefix_iff: "prefix q (common_prefix a b) \<longleftrightarrow> prefix q a \<and> prefix q b"
proof (induction a b arbitrary: q rule: common_prefix.induct)
  case (1 c cs d ds)
  then show ?case by (cases q) auto
qed auto

lemma fold_common_prefix_iff: "prefix q (foldl common_prefix p ps) \<longleftrightarrow> prefix q p \<and> (\<forall>r \<in> set ps. prefix q r)"
  by (induction ps arbitrary: p) (auto simp: common_prefix_iff)

lemma last_word_suffix: "take (length line - length (last_word line)) line @ last_word line = line"
proof -
  obtain r where "rev line = rev (last_word line) @ r"
    using takeWhile_dropWhile_id [of "\<lambda>c. \<not> complete_sep c" "rev line"] by (metis last_word_def rev_rev_ident)
  then have "line = rev r @ last_word line" by (metis rev_append rev_rev_ident)
  then show ?thesis by (metis append_eq_conv_conj diff_add_inverse2 length_append)
qed

text \<open>C25. When the interpreter offers only words that extend the last word of the line, the completed line
  extends the line, is common to all that is offered, and is the longest such line.\<close>

theorem completion_longest:
  assumes "last_word line \<noteq> []" and "completions ip (last_word line) \<noteq> []"
    and "\<forall>p \<in> set (completions ip (last_word line)). prefix (last_word line) p"
  shows "\<exists>a. line = a @ last_word line \<and> prefix line (fst (complete ip line))
    \<and> (\<forall>q. prefix q (fst (complete ip line)) \<longleftrightarrow> (\<forall>p \<in> set (completions ip (last_word line)). prefix q (a @ p)))
    \<and> snd (complete ip line) = completions ip (last_word line)"
proof -
  define w where "w = last_word line"
  define a where "a = take (length line - length w) line"
  obtain p ps where ps: "completions ip w = p # ps" using assms(2) by (cases "completions ip w") (auto simp: w_def)
  define pre where "pre = foldl common_prefix p ps"
  have line: "line = a @ w" using last_word_suffix [of line] by (simp add: a_def w_def)
  have w: "prefix w pre" unfolding pre_def fold_common_prefix_iff using assms(3) ps by (simp add: w_def [symmetric])
  then have ne: "pre \<noteq> []" using assms(1) by (auto simp: w_def)
  have c: "complete ip line = (a @ pre, p # ps)"
    using assms(1) ne by (simp add: complete_def Let_def w_def [symmetric] ps a_def [symmetric] pre_def [symmetric])
  have "prefix q (a @ pre) \<longleftrightarrow> (\<forall>r \<in> set (p # ps). prefix q (a @ r))" for q
  proof -
    have one: "prefix q (a @ r) \<longleftrightarrow> prefix q a \<or> (\<exists>u. q = a @ u \<and> prefix u r)" for r
      by (auto simp: prefix_append)
    show ?thesis
      unfolding one using fold_common_prefix_iff [of _ p ps] by (auto simp: pre_def)
  qed
  moreover have "prefix line (a @ pre)" using w by (subst line) simp
  ultimately show ?thesis unfolding w_def [symmetric] c ps fst_conv snd_conv using line by blast
qed

section \<open>Laws of the buffer\<close>

abbreviation with_tag :: "string option \<Rightarrow> bool \<Rightarrow> string \<Rightarrow> cell list" where
  "with_tag code p t \<equiv> List.map (\<lambda>c. (c, code, p)) t"

text \<open>No text between the colour codes is the same as a code that comes after it.\<close>

fun texts_clear :: "(string \<times> string) list \<Rightarrow> bool" where
  "texts_clear [] = True"
| "texts_clear ((code, t) # parts) = (t \<notin> fst ` set parts \<and> texts_clear parts)"

definition append_parts :: "(string \<times> string) list \<Rightarrow> console \<Rightarrow> console" where
  "append_parts parts s = fold (\<lambda>(code, t). append_cells t (Some code)) parts s"

definition parts_cells :: "bool \<Rightarrow> (string \<times> string) list \<Rightarrow> cell list" where
  "parts_cells p parts = concat (List.map (\<lambda>(code, t). with_tag (Some code) p t) parts)"

named_theorems frame_simps

lemma append_cells_frame [frame_simps]:
  "cells (append_cells t code s) = cells s @ with_tag code False t"
  "line_start (append_cells t code s) = line_start s" "shell (append_cells t code s) = shell s"
  "idle_queue (append_cells t code s) = idle_queue s"
  by (simp_all add: append_cells_def)

lemma append_parts_frame [frame_simps]:
  "cells (append_parts parts s) = cells s @ parts_cells False parts"
  "line_start (append_parts parts s) = line_start s" "shell (append_parts parts s) = shell s"
  "idle_queue (append_parts parts s) = idle_queue s"
  by (induction parts arbitrary: s) (auto simp: append_parts_def parts_cells_def frame_simps)

lemma protect_frame [frame_simps]:
  "line_start (protect a b s) = line_start s" "shell (protect a b s) = shell s"
  "idle_queue (protect a b s) = idle_queue s" "text_of (protect a b s) = text_of s"
proof -
  have fst: "List.map fst (List.map (\<lambda>(c, code, p). (c, code, True)) xs) = List.map fst xs" for xs :: "cell list"
    by (induction xs) auto
  have parts: "take a xs @ take (b - a) (drop a xs) @ drop (max a b) xs = xs" for xs :: "cell list"
  proof (cases "a \<le> b")
    case True
    then show ?thesis using split_three [OF True, of xs] by (simp only: max_absorb2)
  qed simp
  have "text_of (protect a b s) = List.map fst (take a (cells s)) @ List.map fst (take (b - a) (drop a (cells s))) @
      List.map fst (drop (max a b) (cells s))"
    unfolding protect_def text_of_def by (simp add: fst split_beta)
  also have "\<dots> = List.map fst (take a (cells s) @ take (b - a) (drop a (cells s)) @ drop (max a b) (cells s))"
    by (simp only: map_append)
  finally show "text_of (protect a b s) = text_of s" unfolding parts text_of_def .
qed (simp_all add: protect_def)

lemma protect_end:
  "cells s = old @ new \<Longrightarrow> cells (protect (length old) (length (cells s)) s) = old @ List.map (\<lambda>(c, code, p). (c, code, True)) new"
  by (simp add: protect_def)

lemma list_index_append: "x \<notin> set ys \<Longrightarrow> list_index (ys @ x # zs) x = Some (length ys)"
  by (induction ys) auto

lemma write_colored_parts:
  "\<forall>code \<in> fst ` set parts. code \<notin> set done \<Longrightarrow> texts_clear parts \<Longrightarrow> fst ` set parts \<subseteq> set tag_table \<Longrightarrow>
     write_colored (List.map fst parts) (done @ concat (List.map (\<lambda>(code, t). [code, t]) parts)) s =
       (append_parts parts s, Inr ())"
proof (induction parts arbitrary: "done" s)
  case Nil
  then show ?case by (simp add: append_parts_def sret_def)
next
  case (Cons part parts)
  obtain code t where part: "part = (code, t)" by (cases part)
  define rest where "rest = concat (List.map (\<lambda>(code, t). [code, t]) parts)"
  have "list_index (done @ code # t # rest) code = Some (length done)"
    using Cons.prems(1) part by (simp add: list_index_append)
  moreover have "(done @ code # t # rest) ! Suc (length done) = t" by (simp add: nth_append)
  moreover have "take (length done) (done @ code # t # rest) @ drop (Suc (length done)) (done @ code # t # rest) =
      (done @ [t]) @ rest" by simp
  moreover have "\<forall>c \<in> fst ` set parts. c \<notin> set (done @ [t])" using Cons.prems(1, 2) part by auto
  ultimately show ?case
    using Cons.IH [of "done @ [t]" "append_cells t (Some code) s"] Cons.prems(2, 3) part
    by (simp add: sbind_def insert_with_tag_def append_parts_def rest_def)
qed

lemma write_cells_parts:
  assumes parts: "color_parts t = (x, parts)" and clear: "texts_clear parts" and known: "fst ` set parts \<subseteq> set tag_table"
  obtains s' where "write_cells t editable s = (s', Inr ())"
    "cells s' = cells s @ with_tag None (\<not> editable) x @ parts_cells (\<not> editable) parts"
    "line_start s' = line_start s" "shell s' = shell s" "idle_queue s' = idle_queue s"
proof -
  define s1 where "s1 = append_parts parts (append_cells x None s)"
  define s2 where "s2 = (if editable then s1 else protect (length (cells s)) (length (cells s1)) s1)"
  have split: "hd (color_split t) = x" "tl (color_split t) = concat (List.map (\<lambda>(code, t). [code, t]) parts)"
    by (simp_all add: color_split_def parts)
  have tags: "color_findall t = List.map fst parts" by (simp add: color_findall_def parts)
  have empty: "concat (List.map (\<lambda>(code, t). [code, t]) parts) = [] \<longleftrightarrow> parts = []" by (cases parts) auto
  have run: "(if concat (List.map (\<lambda>(code, t). [code, t]) parts) = [] then sret ()
      else write_colored (List.map fst parts) (concat (List.map (\<lambda>(code, t). [code, t]) parts))) (append_cells x None s) = (s1, Inr ())"
  proof (cases "parts = []")
    case True
    then show ?thesis by (simp add: s1_def append_parts_def sret_def)
  next
    case False
    then show ?thesis unfolding empty
      using write_colored_parts [of parts "[]" "append_cells x None s"] clear known by (simp add: s1_def)
  qed
  have w: "write_cells t editable s = (s2, Inr ())"
    unfolding write_cells_def Let_def split tags sbind_def [of "supdate _"] supdate_def prod.case sum.case sbind_def run
    by (simp add: s2_def)
  have c1: "cells s1 = cells s @ (with_tag None False x @ parts_cells False parts)" by (simp add: s1_def frame_simps)
  have prot: "List.map (\<lambda>(c, code, p). (c, code, True)) (parts_cells False parts) = parts_cells True parts"
    by (induction parts) (auto simp: parts_cells_def)
  have "cells s2 = cells s @ with_tag None (\<not> editable) x @ parts_cells (\<not> editable) parts"
  proof (cases editable)
    case True
    then show ?thesis using c1 by (simp add: s2_def)
  next
    case False
    then show ?thesis using protect_end [OF c1] prot by (simp add: s2_def comp_def)
  qed
  moreover have "line_start s2 = line_start s" "shell s2 = shell s" "idle_queue s2 = idle_queue s"
    by (simp_all add: s2_def s1_def frame_simps)
  ultimately show ?thesis using that w by blast
qed

abbreviation escape :: char where "escape \<equiv> CHR 0x1B"

lemma color_parts_plain: "escape \<notin> set t \<Longrightarrow> color_parts t = (t, [])"
proof (induction t rule: length_induct)
  case (1 t)
  have "escape \<notin> set (skip_char (CHR 0x01) t)" using 1(2) by (auto simp: skip_char_def split: list.splits if_splits)
  then have "\<not> startswith (skip_char (CHR 0x01) t) [escape, CHR ''['']"
    by (metis list.set_intros(1) set_mono_prefix startswith_def subsetD)
  then have none: "color_at t = None" by (simp add: color_at_def Let_def)
  then show ?case using 1 by (cases t) (simp_all add: color_parts.simps)
qed

lemma write_plain:
  assumes "escape \<notin> set t"
  obtains s' where "write_cells t editable s = (s', Inr ())"
    "cells s' = cells s @ with_tag None (\<not> editable) t"
    "line_start s' = line_start s" "shell s' = shell s" "idle_queue s' = idle_queue s"
  using write_cells_parts [OF color_parts_plain [OF assms], of editable s] by (auto simp: parts_cells_def)

text \<open>Text with colour codes.  When every code is known and no text is the same as a code after it, the
  buffer gets the text before the first code without a colour and each later one with that of its
  code, all protected unless the text is editable.\<close>

theorem colored_write:
  assumes "color_parts t = (x, parts)" and "texts_clear parts" and "fst ` set parts \<subseteq> set tag_table"
  shows "snd (write_cells t editable s) = Inr ()
    \<and> cells (fst (write_cells t editable s)) =
        cells s @ with_tag None (\<not> editable) x @ concat (List.map (\<lambda>(code, t). with_tag (Some code) (\<not> editable) t) parts)
    \<and> line_start (fst (write_cells t editable s)) = line_start s"
proof -
  from write_cells_parts [OF assms, of editable s] obtain s' where "write_cells t editable s = (s', Inr ())"
    "cells s' = cells s @ with_tag None (\<not> editable) x @ parts_cells (\<not> editable) parts" "line_start s' = line_start s"
    by metis
  then show ?thesis by (simp add: parts_cells_def)
qed

lemma colored_write_witness:
  "List.map fst (cells (fst (write_cells (''a'' @ escape # ''[0;31mb'' @ escape # ''[0mc'') False
     \<lparr>cells = [], line_start = 0, cursor = 0, selection = 0, idle_queue = [], shell = undefined\<rparr>))) = ''abc''"
proof -
  have p: "color_parts (''a'' @ escape # ''[0;31mb'' @ escape # ''[0mc'') = (''a'', [(''0;31'', ''b''), (''0'', ''c'')])"
    by code_simp
  show ?thesis
    using colored_write [OF p, of False "\<lparr>cells = [], line_start = 0, cursor = 0, selection = 0, idle_queue = [], shell = undefined\<rparr>"]
    by (simp add: tag_table_def ansi_codes_def)
qed

text \<open>A text that is the same as a later code is taken for the code, and the text after that is lost.\<close>

lemma text_taken_for_code:
  "text_of (fst (write_cells (escape # ''[0;31m0;32'' @ escape # ''[0;32mok'') False
     \<lparr>cells = [], line_start = 0, cursor = 0, selection = 0, idle_queue = [], shell = undefined\<rparr>)) = ''0;320;32''"
proof -
  have p: "color_parts (escape # ''[0;31m0;32'' @ escape # ''[0;32mok'') = ([], [(''0;31'', ''0;32''), (''0;32'', ''ok'')])"
    by code_simp
  show ?thesis
    by (simp add: write_cells_def color_split_def color_findall_def p [simplified] sbind_def supdate_def sret_def append_cells_def
        insert_with_tag_def tag_table_def ansi_codes_def text_of_def protect_def Let_def)
qed

section \<open>Laws of the keys\<close>

lemma keep_after_prompt_frame [frame_simps]:
  "cells (keep_after_prompt s) = cells s" "line_start (keep_after_prompt s) = line_start s"
  "idle_queue (keep_after_prompt s) = idle_queue s" "shell (keep_after_prompt s) = shell s"
  "text_of (keep_after_prompt s) = text_of s" "current_line (keep_after_prompt s) = current_line s"
  by (simp_all add: keep_after_prompt_def place_cursor_def text_of_def current_line_def)

text \<open>A key that types something finds the cursor and the selection behind the prompt.\<close>

lemma typing_after_prompt:
  assumes "has_string e" and "keyval e = OtherKey \<or> (\<exists>c. keyval e = CharKey c \<and> \<not> (ctrl e \<and> c = CHR ''c''))"
  shows "on_key_press ip e s = (keep_after_prompt s, Inr False)
    \<and> line_start s \<le> cursor (keep_after_prompt s) \<and> line_start s \<le> selection (keep_after_prompt s)"
  using assms by (auto simp: on_key_press_def on_key_extend_def keep_after_prompt_def place_cursor_def)

lemma to_line_end_single: "newline \<notin> set t \<Longrightarrow> to_line_end t = length t"
  by (cases t) (auto simp: to_line_end_def takeWhile_eq_all_conv intro!: arg_cong [where f = length])

lemma line_end_text: "drop (line_end s) (text_of s) = drop (to_line_end (current_line s)) (current_line s)"
  by (simp add: line_end_def current_line_def add.commute)

lemma delete_frame [frame_simps]:
  "text_of (delete_cells a b s) = take a (text_of s) @ drop b (text_of s)"
  "line_start (delete_cells a b s) = line_start s" "shell (delete_cells a b s) = shell s"
  "idle_queue (delete_cells a b s) = idle_queue s"
  by (simp_all add: delete_cells_def Let_def text_of_def take_map drop_map)

lemma change_line_text:
  assumes "escape \<notin> set t"
  obtains s' where "change_line t s = (s', Inr ())"
    "text_of s' = take (line_start s) (text_of s) @ drop (to_line_end (current_line s)) (current_line s) @ t"
    "line_start s' = line_start s" "shell s' = shell s" "idle_queue s' = idle_queue s"
proof -
  from write_plain [OF assms, of True "delete_cells (line_start s) (line_end s) s"] obtain s' where s':
    "write_cells t True (delete_cells (line_start s) (line_end s) s) = (s', Inr ())"
    "cells s' = cells (delete_cells (line_start s) (line_end s) s) @ with_tag None False t"
    "line_start s' = line_start s" "shell s' = shell s" "idle_queue s' = idle_queue s"
    by (auto simp: frame_simps)
  have "text_of s' = text_of (delete_cells (line_start s) (line_end s) s) @ t"
    by (simp add: text_of_def s'(2) comp_def)
  then show ?thesis using that s' by (simp add: frame_simps line_end_text change_line_def sbind_def)
qed

text \<open>The up key shows the line before in the history, behind the prompt and in place of the current line, when
  that is a single line.  Of a current line with several lines, as an earlier up key may have
  left it, the lines after the first stay in front of the line that is shown.\<close>

theorem up_key_line:
  fixes s :: console and e :: key_event and ip :: ipython
  assumes "idle_queue s = []" and "keyval e = UpKey" and plain: "escape \<notin> set (fst (history_back (shell s)))"
  defines "s' \<equiv> flush_idle ip (fst (on_key_press ip e s))" and "l \<equiv> current_line s"
  shows "text_of s' = take (line_start s) (text_of s) @ drop (to_line_end l) l @ fst (history_back (shell s))
    \<and> line_start s' = line_start s \<and> shell s' = snd (history_back (shell s)) \<and> idle_queue s' = []
    \<and> (newline \<notin> set l \<longrightarrow> drop (to_line_end l) l = [])"
proof -
  obtain line sh where up: "history_back (shell s) = (line, sh)" by (cases "history_back (shell s)")
  define k where "k = (if \<not> has_string e then s else keep_after_prompt s)"
  define m where "m = k\<lparr>shell := sh, idle_queue := []\<rparr>"
  have k: "shell k = shell s" "idle_queue k = []" using assms(1) by (simp_all add: k_def frame_simps)
  have m: "text_of m = text_of s" "line_start m = line_start s" "current_line m = l" "shell m = sh" "idle_queue m = []"
    by (simp_all add: m_def k_def frame_simps text_of_def current_line_def l_def)
  from change_line_text [of line m] plain up obtain s1 where s1: "change_line line m = (s1, Inr ())"
    "text_of s1 = take (line_start s) (text_of s) @ drop (to_line_end l) l @ line"
    "line_start s1 = line_start s" "shell s1 = sh" "idle_queue s1 = []"
    using m by auto
  have "s' = fst (change_line line m)"
    using assms(2) up k
    by (simp add: s'_def on_key_press_def on_key_extend_def k_def [symmetric] when_idle_def flush_idle_def run_op_def m_def)
  with s1 up show ?thesis by (auto simp: to_line_end_single)
qed

text \<open>Whatever stands before the current line is protected.\<close>

definition prompt_protected :: "console \<Rightarrow> bool" where
  "prompt_protected s \<longleftrightarrow> list_all (\<lambda>(c, code, p). p) (take (line_start s) (cells s))"

lemma protect_line:
  assumes "prompt_protected s" and "newline \<notin> set (current_line s)"
  shows "list_all (\<lambda>(c, code, p). p) (cells (protect (line_start s) (line_end s) s))"
proof -
  have len: "length (current_line s) = length (cells s) - line_start s" by (simp add: current_line_def text_of_def)
  then have end_le: "length (cells s) \<le> line_end s" using to_line_end_single [OF assms(2)] by (simp add: line_end_def)
  have "line_start s \<le> line_end s" by (simp add: line_end_def)
  then have "cells (protect (line_start s) (line_end s) s) =
      take (line_start s) (cells s) @ List.map (\<lambda>(c, code, p). (c, code, True)) (drop (line_start s) (cells s))"
    using end_le by (simp add: protect_def max_absorb2 diff_le_mono)
  then show ?thesis using assms(1) by (auto simp: prompt_protected_def list_all_iff)
qed

lemma write_plain_False:
  assumes "escape \<notin> set t"
  obtains s' where "write_cells t False s = (s', Inr ())" "cells s' = cells s @ with_tag None True t"
    "line_start s' = line_start s" "shell s' = shell s" "idle_queue s' = idle_queue s"
  using write_plain [OF assms, of False s] by auto

text \<open>What the answer to a line adds to the buffer.\<close>

definition answer :: "string \<Rightarrow> string \<Rightarrow> string" where
  "answer out pr = newline # out @ (if out = [] then [] else [newline]) @ pr"

lemma show_returned_cells:
  fixes s :: console and ip :: ipython and out :: string
  assumes plain: "escape \<notin> set out" "escape \<notin> set (prompt (shell s))"
  defines "blanks \<equiv> (if do_indent (shell s) then replicate (indent_of ip (splitter (shell s))) CHR '' '' else [])"
    and "old \<equiv> cells (protect (line_start s) (line_end s) s)"
  obtains s' where "show_returned ip out s = (s', Inr ())"
    "cells s' = old @ with_tag None True (answer out (prompt (shell s))) @ with_tag None False blanks"
    "line_start s' = length old + length (answer out (prompt (shell s)))"
    "shell s' = shell s" "idle_queue s' = idle_queue s" "cursor s' = length (cells s')"
proof -
  define s0 where "s0 = protect (line_start s) (line_end s) s"
  have nl: "escape \<notin> set (newline # out)" "escape \<notin> set [newline]" using plain(1) by simp_all
  obtain s1 where s1: "write_cells (newline # out) False s0 = (s1, Inr ())" "cells s1 = cells s0 @ with_tag None True (newline # out)"
    "line_start s1 = line_start s0" "shell s1 = shell s0" "idle_queue s1 = idle_queue s0"
    using write_plain_False [OF nl(1)] by blast
  obtain s2 where s2: "(if out = [] then sret () else write_cells [newline] False) s1 = (s2, Inr ())"
    "cells s2 = cells s1 @ with_tag None True (if out = [] then [] else [newline])"
    "line_start s2 = line_start s1" "shell s2 = shell s1" "idle_queue s2 = idle_queue s1"
  proof (cases "out = []")
    case True
    show ?thesis by (rule that [of s1]) (simp_all add: True sret_def)
  next
    case False
    obtain w where "write_cells [newline] False s1 = (w, Inr ())" "cells w = cells s1 @ with_tag None True [newline]"
      "line_start w = line_start s1" "shell w = shell s1" "idle_queue w = idle_queue s1"
      by (rule write_plain_False [OF nl(2), of s1])
    then show ?thesis by (intro that [of w]) (simp_all add: False)
  qed
  have sh: "shell s2 = shell s" by (simp add: s2 s1 s0_def frame_simps)
  then have "escape \<notin> set (prompt (shell s2))" using plain(2) by simp
  then obtain s3 where s3: "write_cells (prompt (shell s2)) False s2 = (s3, Inr ())"
    "cells s3 = cells s2 @ with_tag None True (prompt (shell s2))" "shell s3 = shell s2" "idle_queue s3 = idle_queue s2"
    using write_plain_False by blast
  define s4 where "s4 = s3\<lparr>line_start := length (cells s3), cursor := length (cells s3), selection := length (cells s3)\<rparr>"
  define s5 where "s5 = (if do_indent (shell s4) then append_cells (replicate (indent_of ip (splitter (shell s4))) CHR '' '') None s4 else s4)"
  have "show_returned ip out s = (s5, Inr ())"
    unfolding show_returned_def show_prompt_def sbind_def s0_def [symmetric] prod.case sum.case s1(1) s2(1) s3(1)
    by (simp add: s5_def s4_def Let_def)
  moreover have c3: "cells s3 = old @ with_tag None True (answer out (prompt (shell s)))"
    by (simp add: s3 s2 s1 answer_def old_def s0_def frame_simps)
  moreover have "cells s5 = cells s3 @ with_tag None False blanks" "line_start s5 = length (cells s3)"
      "cursor s5 = length (cells s5)" "shell s5 = shell s" "idle_queue s5 = idle_queue s"
    using sh s3 by (auto simp: s5_def s4_def append_cells_def moved_by_def blanks_def s2 s1 s0_def frame_simps)
  ultimately show ?thesis using that [of s5] by (simp add: answer_def)
qed


section \<open>Witnesses\<close>

definition demo_ip :: ipython where
  "demo_ip =
     \<lparr>accepts_more = (\<lambda>ls. False), source_of = concat, run_cell = (\<lambda>l ls. (ls @ [l], l @ [newline])),
      prompt_for = (\<lambda>more ls. ''> ''), autoindent = False, indent_of = (\<lambda>ls. 0),
      completions = (\<lambda>w. [''print'', ''prefix''])\<rparr>"

definition demo_shell :: ip_shell where
  "demo_shell =
     \<lparr>entries = ['''', ''ab'', ''c''], history_level = 0, splitter = [], iter_more = False, do_indent = False,
      prompt = ''> '', interrupt = False, cout = []\<rparr>"

definition demo_console :: console where
  "demo_console =
     \<lparr>cells = with_tag None True ''> '' @ with_tag None False ''xy'', line_start = 2, cursor = 4, selection = 4,
      idle_queue = [], shell = demo_shell\<rparr>"

lemma completion_longest_witness:
  "last_word ''f(p'' = ''p'' \<and> (\<exists>a. ''f(p'' = a @ ''p'' \<and> prefix ''f(p'' (fst (complete demo_ip ''f(p'')))"
proof -
  have w: "last_word ''f(p'' = ''p''" by (simp add: last_word_def complete_sep_def is_space_def)
  show ?thesis using completion_longest [of "''f(p''" demo_ip] by (auto simp: w demo_ip_def)
qed

lemma demo_shell_back: "history_back demo_shell = (''c'', demo_shell\<lparr>history_level := -1\<rparr>)"
  by (simp add: history_back_def get_history_def py_index_def demo_shell_def strip_newlines_def Let_def)

lemma up_key_line_witness:
  "text_of (flush_idle demo_ip (fst (on_key_press demo_ip
     \<lparr>keyval = UpKey, ctrl = False, alt = False, shift = False, has_string = False\<rparr> demo_console))) = ''> c''"
proof -
  have c: "text_of demo_console = ''> xy''" "line_start demo_console = 2" "idle_queue demo_console = []"
      "shell demo_console = demo_shell" "current_line demo_console = ''xy''"
    by (simp_all add: demo_console_def text_of_def current_line_def)
  show ?thesis
    using up_key_line [of demo_console "\<lparr>keyval = UpKey, ctrl = False, alt = False, shift = False, has_string = False\<rparr>" demo_ip]
    by (simp add: c demo_shell_back to_line_end_single)
qed


end
