(* ===== verification/FileTree.thy ===== *)
theory FileTree
  imports PyPath
begin

text \<open>
  The part of a POSIX file system that scripts create files in, as
  \<open>pathlib\<close> and \<open>shutil\<close> show it: an absolute path is the list of its names, and
  a tree maps the paths that exist to what they are.  The operating system may
  refuse any call; which calls it refuses is a parameter.
\<close>

type_synonym path = "string list"

datatype entry = Directory | Text_file string

datatype os_call = Mkdir path | Open_file path | Write_file path | Remove_tree path

text \<open>
  \<open>written\<close> is how much of the text reaches a file whose write is refused, and
  \<open>survives\<close> tells what is left after a refused removal of a tree.
\<close>

record os_env =
  cwd :: path
  refuses :: "os_call \<Rightarrow> bool"
  written :: "path \<Rightarrow> nat"
  survives :: "path \<Rightarrow> bool"

record 'm fs_state =
  tree :: "path \<Rightarrow> entry option"
  printed :: "'m list"

definition willing :: "os_env \<Rightarrow> bool" where
  "willing os \<longleftrightarrow> (\<forall>c. \<not> refuses os c)"

section \<open>Paths\<close>

text \<open>The names of a relative path, \<open>str(path)\<close> of an absolute one, and \<open>with_suffix\<close>.\<close>

definition path_comps :: "string \<Rightarrow> path" where
  "path_comps s = List.filter (\<lambda>c. c \<noteq> [] \<and> c \<noteq> ''.'') (str_split CHR ''/'' s)"

definition path_str :: "path \<Rightarrow> string" where
  "path_str p = ''/'' @ join ''/'' p"

definition stem :: "string \<Rightarrow> string" where
  "stem n =
     (let head = rev (dropWhile (\<lambda>c. c \<noteq> CHR ''.'') (rev n))
      in if length head \<le> 1 \<or> length head = length n then n else butlast head)"

definition with_suffix :: "path \<Rightarrow> string \<Rightarrow> path" where
  "with_suffix p suf = butlast p @ [stem (last p) @ suf]"

lemma path_comps_name: "CHR ''/'' \<notin> set n \<Longrightarrow> n \<noteq> [] \<Longrightarrow> n \<noteq> ''.'' \<Longrightarrow> path_comps n = [n]"
  by (simp add: path_comps_def str_split_no_sep)

lemma stem_no_dot: "CHR ''.'' \<notin> set n \<Longrightarrow> stem n = n"
proof -
  assume "CHR ''.'' \<notin> set n"
  then have "dropWhile (\<lambda>c. c \<noteq> CHR ''.'') (rev n) = []" by (auto simp: dropWhile_eq_Nil_conv)
  then show ?thesis by (simp only: stem_def Let_def) simp
qed

lemma with_suffix_snoc [simp]: "with_suffix (p @ [n]) suf = p @ [stem n @ suf]"
  by (simp add: with_suffix_def)

section \<open>Calls\<close>

definition exists_path :: "'m fs_state \<Rightarrow> path \<Rightarrow> bool" where
  "exists_path s p \<longleftrightarrow> tree s p \<noteq> None"

definition is_dir :: "'m fs_state \<Rightarrow> path \<Rightarrow> bool" where
  "is_dir s p \<longleftrightarrow> tree s p = Some Directory"

definition set_entry :: "path \<Rightarrow> entry \<Rightarrow> 'm fs_state \<Rightarrow> 'm fs_state" where
  "set_entry p e s = s\<lparr>tree := (tree s)(p \<mapsto> e)\<rparr>"

text \<open>The system call \<open>mkdir\<close>, which tells a missing parent from other failures.\<close>

datatype mkdir_outcome = Made | No_parent | Failed

definition os_mkdir :: "os_env \<Rightarrow> path \<Rightarrow> 'm fs_state \<Rightarrow> 'm fs_state \<times> mkdir_outcome" where
  "os_mkdir os p s =
     (if refuses os (Mkdir p) \<or> exists_path s p then (s, Failed)
      else (case tree s (butlast p) of
              None \<Rightarrow> (s, No_parent)
            | Some (Text_file x) \<Rightarrow> (s, Failed)
            | Some Directory \<Rightarrow> (set_entry p Directory s, Made)))"

text \<open>\<open>Path.mkdir\<close> with \<open>parents=False\<close>, then with \<open>parents=True\<close>, which makes the parents first.\<close>

definition mkdir_here :: "os_env \<Rightarrow> bool \<Rightarrow> path \<Rightarrow> ('m fs_state, unit) action" where
  "mkdir_here os exist_ok p s =
     (case os_mkdir os p s of
        (s1, Made) \<Rightarrow> (s1, Inr ())
      | (s1, No_parent) \<Rightarrow> (s1, Inl OSError)
      | (s1, Failed) \<Rightarrow> if exist_ok \<and> is_dir s1 p then (s1, Inr ()) else (s1, Inl OSError))"

function path_mkdir :: "os_env \<Rightarrow> bool \<Rightarrow> path \<Rightarrow> ('m fs_state, unit) action" where
  "path_mkdir os exist_ok p s =
     (if snd (os_mkdir os p s) = No_parent \<and> p \<noteq> []
      then sbind (path_mkdir os True (butlast p)) (\<lambda>_. mkdir_here os exist_ok p) s
      else mkdir_here os exist_ok p s)"
  by pat_completeness auto
termination
  by (relation "measure (\<lambda>(os, exist_ok, p, s). length p)") auto

declare path_mkdir.simps [simp del]

definition open_to_write :: "os_env \<Rightarrow> path \<Rightarrow> ('m fs_state, unit) action" where
  "open_to_write os p s =
     (if refuses os (Open_file p) \<or> is_dir s p \<or> \<not> is_dir s (butlast p) then (s, Inl OSError)
      else (set_entry p (Text_file []) s, Inr ()))"

definition write_text :: "os_env \<Rightarrow> path \<Rightarrow> string \<Rightarrow> ('m fs_state, unit) action" where
  "write_text os p content s =
     (if refuses os (Write_file p) then (set_entry p (Text_file (take (written os p) content)) s, Inl OSError)
      else (set_entry p (Text_file content) s, Inr ()))"

definition cut_tree :: "(path \<Rightarrow> bool) \<Rightarrow> path \<Rightarrow> 'm fs_state \<Rightarrow> 'm fs_state" where
  "cut_tree keep p s = s\<lparr>tree := \<lambda>q. if prefix p q \<and> \<not> keep q then None else tree s q\<rparr>"

definition rmtree :: "os_env \<Rightarrow> path \<Rightarrow> ('m fs_state, unit) action" where
  "rmtree os p s =
     (if \<not> is_dir s p then (s, Inl OSError)
      else if refuses os (Remove_tree p) then (cut_tree (survives os) p s, Inl OSError)
      else (cut_tree (\<lambda>q. False) p s, Inr ()))"

definition say :: "'m \<Rightarrow> 'm fs_state \<Rightarrow> 'm fs_state" where
  "say m s = s\<lparr>printed := printed s @ [m]\<rparr>"

lemmas fs_state_simps = exists_path_def is_dir_def set_entry_def cut_tree_def say_def
declare fs_state_simps [action_simps]

text \<open>Entries added one after the other.\<close>

definition add_entries :: "(path \<times> entry) list \<Rightarrow> (path \<Rightarrow> entry option) \<Rightarrow> path \<Rightarrow> entry option" where
  "add_entries es t = fold (\<lambda>(q, e) t. t(q \<mapsto> e)) es t"

lemma add_entries_Nil [simp]: "add_entries [] t = t"
  by (simp add: add_entries_def)

lemma add_entries_Cons [simp]: "add_entries ((q, e) # es) t = add_entries es (t(q \<mapsto> e))"
  by (simp add: add_entries_def)

lemma add_entries_append: "add_entries (es @ fs) t = add_entries fs (add_entries es t)"
  by (simp add: add_entries_def)

lemma add_entries_other: "q \<notin> fst ` set es \<Longrightarrow> add_entries es t q = t q"
  by (induction es arbitrary: t) auto

lemma add_entries_at:
  "distinct (List.map fst es) \<Longrightarrow> add_entries es t q = (case map_of es q of None \<Rightarrow> t q | Some e \<Rightarrow> Some e)"
proof (induction es arbitrary: t)
  case Nil
  then show ?case by simp
next
  case (Cons qe es)
  obtain p e where qe: "qe = (p, e)" by (cases qe)
  have "map_of es p = None" using Cons.prems by (simp add: qe map_of_eq_None_iff)
  then show ?case using Cons by (auto simp: qe split: option.splits)
qed

section \<open>Trees\<close>

text \<open>In a tree the root is a directory, and what exists lies in a directory.\<close>

definition tree_wf :: "(path \<Rightarrow> entry option) \<Rightarrow> bool" where
  "tree_wf t \<longleftrightarrow> t [] = Some Directory \<and> (\<forall>p n. t (p @ [n]) \<noteq> None \<longrightarrow> t p = Some Directory)"

lemma tree_wf_parent: "tree_wf t \<Longrightarrow> t p \<noteq> None \<Longrightarrow> t (butlast p) = Some Directory"
  by (cases p rule: rev_cases) (auto simp: tree_wf_def)

lemma tree_wf_above:
  assumes "tree_wf t" and "t (p @ ns) \<noteq> None" and "ns \<noteq> []"
  shows "t p = Some Directory"
  using assms(2, 3)
proof (induction ns rule: rev_induct)
  case Nil
  then show ?case by simp
next
  case (snoc n ns)
  have "t ((p @ ns) @ [n]) \<noteq> None" using snoc.prems by simp
  then have "t (p @ ns) = Some Directory" using assms(1) unfolding tree_wf_def by blast
  then show ?case using snoc.IH by (cases "ns = []") auto
qed

lemma tree_wf_below:
  "tree_wf t \<Longrightarrow> t p = None \<Longrightarrow> prefix p q \<Longrightarrow> t q = None"
  by (metis append.right_neutral option.distinct(1) prefixE tree_wf_above)

lemma tree_wf_set_entry:
  assumes "tree_wf t" and "t (butlast p) = Some Directory" and "e = Directory \<or> t p \<noteq> Some Directory" and "p \<noteq> []"
  shows "tree_wf (t(p \<mapsto> e))"
  using assms unfolding tree_wf_def by (auto simp: butlast_append split: if_splits)

section \<open>Making directories\<close>

text \<open>
  Whatever is refused, \<open>mkdir\<close> adds directories only, at the path itself and above
  it, and it adds the path itself exactly when it returns.
\<close>

definition only_adds_dirs :: "path \<Rightarrow> (path \<Rightarrow> entry option) \<Rightarrow> (path \<Rightarrow> entry option) \<Rightarrow> bool" where
  "only_adds_dirs p t t' \<longleftrightarrow>
     (\<forall>q. t' q = t q \<or> (t q = None \<and> t' q = Some Directory \<and> prefix q p))"

lemma only_adds_dirs_refl [simp]: "only_adds_dirs p t t"
  by (simp add: only_adds_dirs_def)

lemma only_adds_dirs_trans:
  "only_adds_dirs p t t1 \<Longrightarrow> only_adds_dirs p t1 t2 \<Longrightarrow> only_adds_dirs p t t2"
  unfolding only_adds_dirs_def by (metis option.distinct(1))

lemma only_adds_dirs_mono: "only_adds_dirs p t t' \<Longrightarrow> prefix p q \<Longrightarrow> only_adds_dirs q t t'"
  unfolding only_adds_dirs_def using prefix_order.trans by blast

definition mkdir_ok :: "path \<Rightarrow> 'm fs_state \<Rightarrow> 'm fs_state \<Rightarrow> py_error + unit \<Rightarrow> bool" where
  "mkdir_ok p s s' r \<longleftrightarrow>
     only_adds_dirs p (tree s) (tree s') \<and> printed s' = printed s \<and>
     (tree_wf (tree s) \<longrightarrow> tree_wf (tree s')) \<and>
     (case r of Inr u \<Rightarrow> tree s' p = Some Directory | Inl e \<Rightarrow> tree s' p = tree s p)"

lemma mkdir_here_ok:
  assumes "mkdir_here os exist_ok p s = (s', r)"
  shows "mkdir_ok p s s' r"
proof -
  have wf: "tree_wf (tree s) \<Longrightarrow> tree s p = None \<Longrightarrow> tree s (butlast p) = Some Directory \<Longrightarrow>
      tree_wf ((tree s)(p \<mapsto> Directory))"
    using tree_wf_set_entry [of "tree s" p Directory] by (cases "p = []") (auto simp: tree_wf_def)
  show ?thesis using assms wf
    by (auto simp: mkdir_here_def os_mkdir_def mkdir_ok_def only_adds_dirs_def action_simps
        split: if_splits option.splits entry.splits)
qed

lemma path_mkdir_ok:
  "path_mkdir os exist_ok p s = (s', r) \<Longrightarrow> mkdir_ok p s s' r"
proof (induction os exist_ok p s arbitrary: s' r rule: path_mkdir.induct)
  case (1 os exist_ok p s)
  show ?case
  proof (cases "snd (os_mkdir os p s) = No_parent \<and> p \<noteq> []")
    case False
    then show ?thesis using "1.prems" mkdir_here_ok by (metis path_mkdir.simps)
  next
    case True
    then have eq: "sbind (path_mkdir os True (butlast p)) (\<lambda>_. mkdir_here os exist_ok p) s = (s', r)"
      using "1.prems" by (subst (asm) path_mkdir.simps) simp
    have up: "prefix (butlast p) p" by (metis append_butlast_last_id prefixI True)
    have len: "\<not> prefix p (butlast p)" using True
      by (metis append_butlast_last_id append_self_conv not_Cons_self2 prefix_order.antisym up)
    from sbind_cases [OF eq] show ?thesis
    proof (elim disjE exE conjE)
      fix e assume "path_mkdir os True (butlast p) s = (s', Inl e)" and r: "r = Inl e"
      then have ok: "mkdir_ok (butlast p) s s' (Inl e)" using "1.IH" True by blast
      then have "tree s' p = tree s p" using len by (auto simp: mkdir_ok_def only_adds_dirs_def)
      then show ?thesis using ok r only_adds_dirs_mono [OF _ up] by (auto simp: mkdir_ok_def)
    next
      fix t u assume "path_mkdir os True (butlast p) s = (t, Inr u)" and rest: "mkdir_here os exist_ok p t = (s', r)"
      then have ok: "mkdir_ok (butlast p) s t (Inr u)" using "1.IH" True by blast
      have "tree t p = tree s p" using ok len by (auto simp: mkdir_ok_def only_adds_dirs_def)
      moreover have "only_adds_dirs p (tree s) (tree t)"
        using ok only_adds_dirs_mono [OF _ up] by (auto simp: mkdir_ok_def)
      moreover have "mkdir_ok p t s' r" by (rule mkdir_here_ok [OF rest])
      ultimately show ?thesis using ok only_adds_dirs_trans [of p "tree s" "tree t" "tree s'"]
        by (auto simp: mkdir_ok_def split: sum.splits)
    qed
  qed
qed

text \<open>Without refusals it makes all missing parents, unless a file is in the way.\<close>

definition with_dirs :: "path \<Rightarrow> (path \<Rightarrow> entry option) \<Rightarrow> path \<Rightarrow> entry option" where
  "with_dirs p t = (\<lambda>q. if prefix q p then Some Directory else t q)"

definition free_way :: "path \<Rightarrow> (path \<Rightarrow> entry option) \<Rightarrow> bool" where
  "free_way p t \<longleftrightarrow> (\<forall>q. prefix q p \<longrightarrow> t q = None \<or> t q = Some Directory)"

lemma with_dirs_present: "tree_wf t \<Longrightarrow> t p = Some Directory \<Longrightarrow> with_dirs p t = t"
  unfolding with_dirs_def by (rule ext) (metis append_Nil2 option.distinct(1) prefixE tree_wf_above)

lemma with_dirs_snoc:
  "tree_wf t \<Longrightarrow> t p = Some Directory \<Longrightarrow> t(p @ [n] \<mapsto> Directory) = with_dirs (p @ [n]) t"
  using with_dirs_present [of t p] unfolding with_dirs_def fun_eq_iff prefix_snoc fun_upd_def by metis

lemma tree_wf_with_dirs: "tree_wf t \<Longrightarrow> free_way p t \<Longrightarrow> tree_wf (with_dirs p t)"
  unfolding tree_wf_def with_dirs_def free_way_def
  by (auto simp: append_prefixD)

lemma path_mkdir_willing:
  assumes "willing os"
  shows "tree_wf (tree s) \<Longrightarrow> free_way p (tree s) \<Longrightarrow> exist_ok \<or> tree s p = None \<Longrightarrow>
    path_mkdir os exist_ok p s = (s\<lparr>tree := with_dirs p (tree s)\<rparr>, Inr ())"
proof (induction p arbitrary: exist_ok rule: rev_induct)
  case Nil
  then have root: "tree s [] = Some Directory" by (simp add: tree_wf_def)
  then show ?case using Nil with_dirs_present [OF Nil.prems(1) root]
    by (subst path_mkdir.simps) (simp add: mkdir_here_def os_mkdir_def exists_path_def is_dir_def)
next
  case (snoc n p)
  note wf = snoc.prems(1)
  have no: "\<And>c. \<not> refuses os c" using assms by (simp add: willing_def)
  have way: "free_way p (tree s)" using snoc.prems(2) by (simp add: free_way_def)
  show ?case
  proof (cases "tree s (p @ [n]) = None")
    case False
    then have dir: "tree s (p @ [n]) = Some Directory" using snoc.prems(2) by (auto simp: free_way_def)
    then show ?thesis using snoc.prems(3) with_dirs_present [OF wf dir]
      by (subst path_mkdir.simps) (simp add: mkdir_here_def os_mkdir_def exists_path_def is_dir_def)
  next
    case new: True
    show ?thesis
    proof (cases "tree s p = None")
      case False
      then have dir: "tree s p = Some Directory" using way by (auto simp: free_way_def)
      then show ?thesis using new no with_dirs_snoc [OF wf dir, of n]
        by (subst path_mkdir.simps) (simp add: mkdir_here_def os_mkdir_def action_simps)
    next
      case True
      define t where "t = with_dirs p (tree s)"
      have wf_t: "tree_wf t" unfolding t_def by (rule tree_wf_with_dirs [OF wf way])
      have at: "t p = Some Directory" "t (p @ [n]) = None" using new by (auto simp: t_def with_dirs_def)
      have up: "path_mkdir os True p s = (s\<lparr>tree := t\<rparr>, Inr ())" unfolding t_def using snoc.IH [OF wf way, of True] by simp
      have here: "mkdir_here os exist_ok (p @ [n]) (s\<lparr>tree := t\<rparr>) = (s\<lparr>tree := t(p @ [n] \<mapsto> Directory)\<rparr>, Inr ())"
        using at no by (simp add: mkdir_here_def os_mkdir_def action_simps)
      have all: "t(p @ [n] \<mapsto> Directory) = with_dirs (p @ [n]) (tree s)"
        by (auto simp: t_def with_dirs_def fun_eq_iff prefix_snoc)
      have "snd (os_mkdir os (p @ [n]) s) = No_parent" using True new no by (simp add: os_mkdir_def exists_path_def)
      then show ?thesis using up here all by (subst path_mkdir.simps) (simp add: sbind_def)
    qed
  qed
qed

section \<open>Programs that stay below a directory\<close>

text \<open>
  Whatever is refused, such a program changes nothing but paths strictly below
  the directory and prints nothing.
\<close>

definition below_only :: "path \<Rightarrow> 'm fs_state \<Rightarrow> 'm fs_state \<Rightarrow> bool" where
  "below_only p s s' \<longleftrightarrow>
     printed s' = printed s \<and> (\<forall>q. \<not> strict_prefix p q \<longrightarrow> tree s' q = tree s q) \<and> tree_wf (tree s')"

definition stays_below :: "path \<Rightarrow> ('m fs_state, 'a) action \<Rightarrow> bool" where
  "stays_below p m \<longleftrightarrow>
     (\<forall>s s' r. tree_wf (tree s) \<longrightarrow> tree s p = Some Directory \<longrightarrow> m s = (s', r) \<longrightarrow> below_only p s s')"

lemma stays_belowD:
  "stays_below p m \<Longrightarrow> tree_wf (tree s) \<Longrightarrow> tree s p = Some Directory \<Longrightarrow> m s = (s', r) \<Longrightarrow> below_only p s s'"
  by (simp add: stays_below_def)

named_theorems below_intros

lemma strict_prefix_child [simp]: "strict_prefix p (p @ n # ns)"
  by (simp add: strict_prefix_def)

lemma stays_below_sret [below_intros]: "stays_below p (sret x)"
  by (simp add: stays_below_def below_only_def sret_def)

lemma stays_below_sraise [below_intros]: "stays_below p (sraise e)"
  by (simp add: stays_below_def below_only_def sraise_def)

lemma stays_below_sbind [below_intros]:
  assumes m: "stays_below p m" and f: "\<And>x. stays_below p (f x)"
  shows "stays_below p (sbind m f)"
  unfolding stays_below_def
proof (intro allI impI)
  fix s s' r
  assume wf: "tree_wf (tree s)" and dir: "tree s p = Some Directory" and run: "sbind m f s = (s', r)"
  from sbind_cases [OF run] show "below_only p s s'"
  proof (elim disjE exE conjE)
    fix e assume "m s = (s', Inl e)"
    then show ?thesis using stays_belowD [OF m wf dir] by blast
  next
    fix t x assume "m s = (t, Inr x)" and rest: "f x t = (s', r)"
    then have t: "below_only p s t" using stays_belowD [OF m wf dir] by blast
    then have "below_only p t s'" using stays_belowD [OF f _ _ rest] dir by (simp add: below_only_def)
    then show ?thesis using t by (simp add: below_only_def)
  qed
qed

lemma stays_below_if [below_intros]: "stays_below p m \<Longrightarrow> stays_below p n \<Longrightarrow> stays_below p (if b then m else n)"
  by simp

lemma below_only_entry:
  assumes "tree_wf (tree s)" and "tree s (butlast q) = Some Directory" and "e = Directory \<or> tree s q \<noteq> Some Directory"
    and "strict_prefix p q"
  shows "below_only p s (set_entry q e s)"
proof -
  have "q \<noteq> []" using assms(4) by auto
  then have "tree_wf ((tree s)(q \<mapsto> e))" using assms tree_wf_set_entry by blast
  then show ?thesis using assms(4) by (auto simp: below_only_def set_entry_def)
qed

lemma stays_below_mkdir [below_intros]:
  "stays_below p (path_mkdir os exist_ok (p @ [d]))"
  unfolding stays_below_def
proof (intro allI impI)
  fix s s' r
  assume wf: "tree_wf (tree s)" and dir: "tree s p = Some Directory" and run: "path_mkdir os exist_ok (p @ [d]) s = (s', r)"
  have ok: "mkdir_ok (p @ [d]) s s' r" by (rule path_mkdir_ok [OF run])
  have "tree s' q = tree s q" if "\<not> strict_prefix p q" for q
  proof (rule ccontr)
    assume "tree s' q \<noteq> tree s q"
    then have "tree s q = None" and "prefix q (p @ [d])" using ok unfolding mkdir_ok_def only_adds_dirs_def by auto
    then have "prefix q p" using that by (auto simp: prefix_snoc strict_prefix_def)
    then show False using \<open>tree s q = None\<close> dir tree_wf_below [OF wf] by (metis option.distinct(1))
  qed
  then show "below_only p s s'" using ok wf by (simp add: below_only_def mkdir_ok_def)
qed

lemma stays_below_open [below_intros]:
  "strict_prefix p q \<Longrightarrow> stays_below p (open_to_write os q)"
  unfolding stays_below_def
  by (auto simp: open_to_write_def is_dir_def below_only_entry below_only_def [of p s s for s]
      split: if_splits)

text \<open>What a call that returns has done, whatever else is refused.\<close>

lemma path_mkdir_child:
  assumes "tree s p = Some Directory" and "path_mkdir os False (p @ [d]) s = (s', Inr u)"
  shows "s' = set_entry (p @ [d]) Directory s"
  using assms
  by (subst (asm) path_mkdir.simps)
    (auto simp: os_mkdir_def mkdir_here_def action_simps split: if_splits)

lemma path_mkdir_child_willing:
  assumes "willing os" and "tree s p = Some Directory" and "tree s (p @ [d]) = None"
  shows "path_mkdir os False (p @ [d]) s = (set_entry (p @ [d]) Directory s, Inr ())"
  using assms
  by (subst path_mkdir.simps) (simp add: os_mkdir_def mkdir_here_def willing_def action_simps)

lemma path_mkdir_returned:
  assumes wf: "tree_wf (tree s)" and run: "path_mkdir os exist_ok p s = (s', Inr u)"
  shows "tree s' = with_dirs p (tree s) \<and> tree_wf (tree s') \<and> printed s' = printed s"
proof -
  have ok: "mkdir_ok p s s' (Inr u)" by (rule path_mkdir_ok [OF run])
  then have at: "tree s' p = Some Directory" and wf': "tree_wf (tree s')" using wf by (auto simp: mkdir_ok_def)
  have "tree s' q = with_dirs p (tree s) q" for q
  proof (cases "prefix q p")
    case True
    then show ?thesis using at with_dirs_present [OF wf' at] by (metis with_dirs_def)
  next
    case False
    then show ?thesis using ok by (auto simp: with_dirs_def mkdir_ok_def only_adds_dirs_def)
  qed
  then show ?thesis using ok wf' by (auto simp: mkdir_ok_def)
qed

end
