(* ===== verification/ScaffoldTemplates.thy ===== *)
theory ScaffoldTemplates
  imports PyString
begin

text \<open>
  The templates of \<open>utils/create-module.py\<close>, each as the list of its lines, and
  \<open>str.format\<close> with keyword arguments, as far as the templates use it: doubled
  braces, \<open>{NAME}\<close> and \<open>{NAME!r}\<close>.  Strings are ASCII.
\<close>

section \<open>Representation of strings\<close>

definition hex_digit :: "nat \<Rightarrow> char" where
  "hex_digit d = ''0123456789abcdef'' ! d"

text \<open>\<open>repr\<close> of a string prefers single quotes.\<close>

definition escape_char :: "char \<Rightarrow> char \<Rightarrow> string" where
  "escape_char q c =
     (let n = of_char c :: nat
      in if c = q \<or> c = CHR 0x5C then [CHR 0x5C, c]
         else if c = CHR 0x0A then [CHR 0x5C, CHR ''n'']
         else if c = CHR 0x0D then [CHR 0x5C, CHR ''r'']
         else if c = CHR 0x09 then [CHR 0x5C, CHR ''t'']
         else if n < 32 \<or> n = 127 then [CHR 0x5C, CHR ''x'', hex_digit (n div 16), hex_digit (n mod 16)]
         else [c])"

definition py_repr :: "string \<Rightarrow> string" where
  "py_repr s =
     (let q = (if CHR 0x27 \<in> set s \<and> CHR 0x22 \<notin> set s then CHR 0x22 else CHR 0x27)
      in q # concat (List.map (escape_char q) s) @ [q])"

section \<open>Formatting\<close>

text \<open>A field is the name and, after an exclamation mark, the conversion.\<close>

definition format_field :: "(string, string) dict \<Rightarrow> string \<Rightarrow> string py_result" where
  "format_field kw f =
     (let name = takeWhile (\<lambda>c. c \<noteq> CHR ''!'') f; conv = dropWhile (\<lambda>c. c \<noteq> CHR ''!'') f
      in if conv \<noteq> [] \<and> conv \<noteq> ''!r'' then Inl ValueError
         else rbind (dindex kw name) (\<lambda>v. Inr (if conv = ''!r'' then py_repr v else v)))"

lemma length_tl_dropWhile: "length (dropWhile P cs) - Suc 0 \<le> length cs"
  by (meson diff_le_self le_trans length_dropWhile_le)

function py_format :: "(string, string) dict \<Rightarrow> string \<Rightarrow> string py_result" where
  "py_format kw [] = Inr []"
| "py_format kw (c # cs) =
     (if c = CHR ''{'' then
        if cs \<noteq> [] \<and> hd cs = CHR ''{'' then rbind (py_format kw (tl cs)) (\<lambda>r. Inr (CHR ''{'' # r))
        else if CHR ''}'' \<notin> set cs then Inl ValueError
        else rbind (format_field kw (takeWhile (\<lambda>d. d \<noteq> CHR ''}'') cs)) (\<lambda>v.
             rbind (py_format kw (tl (dropWhile (\<lambda>d. d \<noteq> CHR ''}'') cs))) (\<lambda>r. Inr (v @ r)))
      else if c = CHR ''}'' then
        if cs \<noteq> [] \<and> hd cs = CHR ''}'' then rbind (py_format kw (tl cs)) (\<lambda>r. Inr (CHR ''}'' # r))
        else Inl ValueError
      else rbind (py_format kw cs) (\<lambda>r. Inr (c # r)))"
  by pat_completeness auto
termination
  by (relation "measure (\<lambda>(kw, s). length s)") (auto simp: less_Suc_eq_le length_tl_dropWhile)

declare py_format.simps [simp del]

definition template_text :: "string list \<Rightarrow> string" where
  "template_text ls = join [newline] ls"

section \<open>Formatting by lines\<close>

text \<open>
  A line whose fields close on the line is formatted on its own.  \<open>line_ok ks\<close>
  holds for such a line when the fields are among the keywords \<open>ks\<close>.
\<close>

function line_ok :: "string list \<Rightarrow> string \<Rightarrow> bool" where
  "line_ok ks [] = True"
| "line_ok ks (c # cs) =
     (if c = CHR ''{'' then
        if cs \<noteq> [] \<and> hd cs = CHR ''{'' then line_ok ks (tl cs)
        else CHR ''}'' \<in> set cs \<and>
          takeWhile (\<lambda>d. d \<noteq> CHR ''}'') cs \<in> set ks \<union> (\<lambda>k. k @ ''!r'') ` set ks \<and>
          line_ok ks (tl (dropWhile (\<lambda>d. d \<noteq> CHR ''}'') cs))
      else if c = CHR ''}'' then cs \<noteq> [] \<and> hd cs = CHR ''}'' \<and> line_ok ks (tl cs)
      else line_ok ks cs)"
  by pat_completeness auto
termination
  by (relation "measure (\<lambda>(ks, s). length s)") (auto simp: less_Suc_eq_le length_tl_dropWhile)

declare line_ok.simps [simp del]

lemma rbind_assoc: "rbind (rbind m f) g = rbind m (\<lambda>x. rbind (f x) g)"
  by (cases m) simp_all

lemma takeWhile_name [simp]: "x \<notin> set k \<Longrightarrow> takeWhile (\<lambda>d. d \<noteq> x) (k @ x # r) = k"
  by (induction k) auto

lemma dropWhile_name [simp]: "x \<notin> set k \<Longrightarrow> dropWhile (\<lambda>d. d \<noteq> x) (k @ x # r) = x # r"
  by (induction k) auto

lemma format_field_ok:
  assumes f: "f \<in> set ks \<union> (\<lambda>k. k @ ''!r'') ` set ks"
    and keys: "\<forall>k \<in> set ks. CHR ''!'' \<notin> set k \<and> dhas kw k"
  shows "is_ok (format_field kw f)"
proof -
  obtain k where k: "k \<in> set ks" "f = k \<or> f = k @ ''!r''" using f by blast
  then have bare: "CHR ''!'' \<notin> set k" and "dhas kw k" using keys by auto
  then obtain v where v: "dindex kw k = Inr v" by (cases "dget kw k") (auto simp: dindex_def)
  from k(2) show ?thesis
  proof
    assume "f = k"
    moreover have "takeWhile (\<lambda>c. c \<noteq> CHR ''!'') k = k" "dropWhile (\<lambda>c. c \<noteq> CHR ''!'') k = []"
      using bare by (auto simp: takeWhile_eq_all_conv dropWhile_eq_Nil_conv)
    ultimately show ?thesis using v by (simp only: format_field_def Let_def) simp
  next
    assume "f = k @ ''!r''"
    then show ?thesis using bare v by (simp add: format_field_def Let_def)
  qed
qed

lemma py_format_ok:
  assumes "\<forall>k \<in> set ks. CHR ''!'' \<notin> set k \<and> dhas kw k"
  shows "line_ok ks l \<Longrightarrow> is_ok (py_format kw l)"
  using assms
proof (induction ks l rule: line_ok.induct)
  case (1 ks)
  then show ?case by (simp add: py_format.simps)
next
  case (2 ks c cs)
  then show ?case using format_field_ok [of "takeWhile (\<lambda>d. d \<noteq> CHR ''}'') cs" ks kw]
    by (subst py_format.simps) (auto simp: line_ok.simps py_simps split: if_splits)
qed

lemma py_format_append:
  "line_ok ks l \<Longrightarrow>
     py_format kw (l @ m) = rbind (py_format kw l) (\<lambda>a. rbind (py_format kw m) (\<lambda>b. Inr (a @ b)))"
proof (induction ks l rule: line_ok.induct)
  case (1 ks)
  then show ?case by (cases "py_format kw m") (simp_all add: py_format.simps)
next
  case (2 ks c cs)
  note IH = "2.IH" and ok = "2.prems"
  have part: "takeWhile (\<lambda>d. d \<noteq> CHR ''}'') (cs @ m) = takeWhile (\<lambda>d. d \<noteq> CHR ''}'') cs"
      "tl (dropWhile (\<lambda>d. d \<noteq> CHR ''}'') (cs @ m)) = tl (dropWhile (\<lambda>d. d \<noteq> CHR ''}'') cs) @ m"
    if "CHR ''}'' \<in> set cs"
    using that by (auto simp: takeWhile_append1 dropWhile_append1 tl_append dropWhile_eq_Nil_conv split: list.splits)
  consider (two) "c = CHR ''{''" "cs \<noteq> []" "hd cs = CHR ''{''"
    | (field) "c = CHR ''{''" "\<not> (cs \<noteq> [] \<and> hd cs = CHR ''{'')" | (shut) "c = CHR ''}''"
    | (plain) "c \<noteq> CHR ''{''" "c \<noteq> CHR ''}''" by blast
  then show ?case
  proof cases
    case two
    then have "line_ok ks (tl cs)" using ok by (simp add: line_ok.simps)
    then show ?thesis using two IH(1) by (simp add: py_format.simps rbind_assoc)
  next
    case field
    then have l: "CHR ''}'' \<in> set cs" "line_ok ks (tl (dropWhile (\<lambda>d. d \<noteq> CHR ''}'') cs))"
      using ok by (auto simp: line_ok.simps)
    then have "cs \<noteq> []" by auto
    then show ?thesis using field l IH(2) part by (simp add: py_format.simps rbind_assoc)
  next
    case shut
    then have "cs \<noteq> []" "hd cs = CHR ''}''" "line_ok ks (tl cs)" using ok by (auto simp: line_ok.simps)
    then show ?thesis using shut IH(3) by (simp add: py_format.simps rbind_assoc)
  next
    case plain
    then have "line_ok ks cs" using ok by (simp add: line_ok.simps)
    then show ?thesis using plain IH(4) by (simp add: py_format.simps rbind_assoc)
  qed
qed

text \<open>A template whose lines are such lines is formatted line by line.\<close>

lemma py_format_lines:
  assumes keys: "\<forall>k \<in> set ks. CHR ''!'' \<notin> set k \<and> dhas kw k" and lines: "list_all (line_ok ks) ls"
  shows "\<exists>out. map_res (py_format kw) ls = Inr out \<and> py_format kw (template_text ls) = Inr (join [newline] out)"
  using lines
proof (induction ls)
  case Nil
  then show ?case by (simp add: template_text_def py_format.simps)
next
  case (Cons l ls)
  then obtain out where out: "map_res (py_format kw) ls = Inr out"
      and whole: "py_format kw (template_text ls) = Inr (join [newline] out)" by auto
  obtain a where a: "py_format kw l = Inr a" using py_format_ok [OF keys] Cons.prems by (auto simp: is_ok_iff)
  show ?case
  proof (cases ls)
    case Nil
    then show ?thesis using a by (simp add: template_text_def)
  next
    case (Cons m ms)
    then have "template_text (l # ls) = l @ newline # template_text ls" by (simp add: template_text_def)
    moreover have "py_format kw (newline # template_text ls) = Inr (newline # join [newline] out)"
      using whole by (subst py_format.simps) simp
    moreover have "out \<noteq> []" using out Cons by (auto simp: py_simps)
    then have "join [newline] (a # out) = a @ newline # join [newline] out" by (cases out) simp_all
    ultimately show ?thesis
      using a out py_format_append [of ks l kw "newline # template_text ls"] \<open>list_all (line_ok ks) (l # ls)\<close>
      by simp
  qed
qed

section \<open>Templates\<close>

definition wscript_template :: "string list" where
  "wscript_template =
    [''# -*- Mode: python; py-indent-offset: 4; indent-tabs-mode: nil; coding: utf-8; -*-'',
     [],
     ''# def options(opt):'',
     ''#     pass'',
     [],
     ''# def configure(conf):'',
     ''#     conf.check_nonfatal(header_name='' @ [CHR 0x27] @ ''stdint.h'' @ [CHR 0x27] @ '', define_name='' @
       [CHR 0x27] @ ''HAVE_STDINT_H'' @ [CHR 0x27] @ '')'',
     [],
     ''def build(bld):'',
     ''    module = bld.create_ns3_module({MODULE!r}, ['' @ [CHR 0x27] @ ''core'' @ [CHR 0x27] @ ''])'',
     ''    module.source = ['',
     ''        '' @ [CHR 0x27] @ ''model/{MODULE}.cc'' @ [CHR 0x27] @ '','',
     ''        '' @ [CHR 0x27] @ ''helper/{MODULE}-helper.cc'' @ [CHR 0x27] @ '','',
     ''        ]'',
     [],
     ''    module_test = bld.create_ns3_module_test_library('' @ [CHR 0x27] @ ''{MODULE}'' @ [CHR 0x27] @ '')'',
     ''    module_test.source = ['',
     ''        '' @ [CHR 0x27] @ ''test/{MODULE}-test-suite.cc'' @ [CHR 0x27] @ '','',
     ''        ]'',
     ''    # Tests encapsulating example programs should be listed here'',
     ''    if (bld.env['' @ [CHR 0x27] @ ''ENABLE_EXAMPLES'' @ [CHR 0x27] @ '']):'',
     ''        module_test.source.extend(['',
     ''        #    '' @ [CHR 0x27] @ ''test/{MODULE}-examples-test-suite.cc'' @ [CHR 0x27] @ '','',
     ''             ])'',
     [],
     ''    headers = bld(features='' @ [CHR 0x27] @ ''ns3header'' @ [CHR 0x27] @ '')'',
     ''    headers.module = {MODULE!r}'',
     ''    headers.source = ['',
     ''        '' @ [CHR 0x27] @ ''model/{MODULE}.h'' @ [CHR 0x27] @ '','',
     ''        '' @ [CHR 0x27] @ ''helper/{MODULE}-helper.h'' @ [CHR 0x27] @ '','',
     ''        ]'',
     [],
     ''    if bld.env.ENABLE_EXAMPLES:'',
     ''        bld.recurse('' @ [CHR 0x27] @ ''examples'' @ [CHR 0x27] @ '')'',
     [],
     ''    # bld.ns3_python_bindings()'',
     [],
     []]"

definition model_cc_template :: "string list" where
  "model_cc_template =
    [''/* -*- Mode:C++; c-file-style:'' @ [CHR 0x22] @ ''gnu'' @ [CHR 0x22] @ ''; indent-tabs-mode:nil; -*- */'',
     [],
     ''#include '' @ [CHR 0x22] @ ''{MODULE}.h'' @ [CHR 0x22],
     [],
     ''namespace ns3 {{'',
     [],
     ''/* ... */'',
     [],
     [],
     ''}}'',
     [],
     []]"

definition model_h_template :: "string list" where
  "model_h_template =
    [''/* -*- Mode:C++; c-file-style:'' @ [CHR 0x22] @ ''gnu'' @ [CHR 0x22] @ ''; indent-tabs-mode:nil; -*- */'',
     ''#ifndef {INCLUDE_GUARD}'',
     ''#define {INCLUDE_GUARD}'',
     [],
     ''namespace ns3 {{'',
     [],
     ''/* ... */'',
     [],
     ''}}'',
     [],
     ''#endif /* {INCLUDE_GUARD} */'',
     [],
     []]"

definition helper_cc_template :: "string list" where
  "helper_cc_template =
    [''/* -*- Mode:C++; c-file-style:'' @ [CHR 0x22] @ ''gnu'' @ [CHR 0x22] @ ''; indent-tabs-mode:nil; -*- */'',
     [],
     ''#include '' @ [CHR 0x22] @ ''{MODULE}-helper.h'' @ [CHR 0x22],
     [],
     ''namespace ns3 {{'',
     [],
     ''/* ... */'',
     [],
     [],
     ''}}'',
     [],
     []]"

definition helper_h_template :: "string list" where
  "helper_h_template =
    [''/* -*- Mode:C++; c-file-style:'' @ [CHR 0x22] @ ''gnu'' @ [CHR 0x22] @ ''; indent-tabs-mode:nil; -*- */'',
     ''#ifndef {INCLUDE_GUARD}'',
     ''#define {INCLUDE_GUARD}'',
     [],
     ''#include '' @ [CHR 0x22] @ ''ns3/{MODULE}.h'' @ [CHR 0x22],
     [],
     ''namespace ns3 {{'',
     [],
     ''/* ... */'',
     [],
     ''}}'',
     [],
     ''#endif /* {INCLUDE_GUARD} */'',
     [],
     []]"

definition examples_wscript_template :: "string list" where
  "examples_wscript_template =
    [''# -*- Mode: python; py-indent-offset: 4; indent-tabs-mode: nil; coding: utf-8; -*-'',
     [],
     ''def build(bld):'',
     ''    obj = bld.create_ns3_program('' @ [CHR 0x27] @ ''{MODULE}-example'' @ [CHR 0x27] @ '', [{MODULE!r}])'',
     ''    obj.source = '' @ [CHR 0x27] @ ''{MODULE}-example.cc'' @ [CHR 0x27],
     [],
     []]"

definition example_cc_template :: "string list" where
  "example_cc_template =
    [''/* -*- Mode:C++; c-file-style:'' @ [CHR 0x22] @ ''gnu'' @ [CHR 0x22] @ ''; indent-tabs-mode:nil; -*- */'',
     [],
     ''#include '' @ [CHR 0x22] @ ''ns3/core-module.h'' @ [CHR 0x22],
     ''#include '' @ [CHR 0x22] @ ''ns3/{MODULE}-helper.h'' @ [CHR 0x22],
     [],
     ''using namespace ns3;'',
     [],
     [],
     ''int '',
     ''main (int argc, char *argv[])'',
     ''{{'',
     ''  bool verbose = true;'',
     [],
     ''  CommandLine cmd (__FILE__);'',
     ''  cmd.AddValue ('' @ [CHR 0x22] @ ''verbose'' @ [CHR 0x22] @ '', '' @ [CHR 0x22] @
       ''Tell application to log if true'' @ [CHR 0x22] @ '', verbose);'',
     [],
     ''  cmd.Parse (argc,argv);'',
     [],
     ''  /* ... */'',
     [],
     ''  Simulator::Run ();'',
     ''  Simulator::Destroy ();'',
     ''  return 0;'',
     ''}}'',
     [],
     [],
     []]"

definition test_cc_template :: "string list" where
  "test_cc_template =
    [''/* -*- Mode:C++; c-file-style:'' @ [CHR 0x22] @ ''gnu'' @ [CHR 0x22] @ ''; indent-tabs-mode:nil; -*- */'',
     [],
     ''// Include a header file from your module to test.'',
     ''#include '' @ [CHR 0x22] @ ''ns3/{MODULE}.h'' @ [CHR 0x22],
     [],
     ''// An essential include is test.h'',
     ''#include '' @ [CHR 0x22] @ ''ns3/test.h'' @ [CHR 0x22],
     [],
     ''// Do not put your test classes in namespace ns3.  You may find it useful'',
     ''// to use the using directive to access the ns3 namespace directly'',
     ''using namespace ns3;'',
     [],
     ''// This is an example TestCase.'',
     ''class {CAPITALIZED}TestCase1 : public TestCase'',
     ''{{'',
     ''public:'',
     ''  {CAPITALIZED}TestCase1 ();'',
     ''  virtual ~{CAPITALIZED}TestCase1 ();'',
     [],
     ''private:'',
     ''  virtual void DoRun (void);'',
     ''}};'',
     [],
     ''// Add some help text to this case to describe what it is intended to test'',
     ''{CAPITALIZED}TestCase1::{CAPITALIZED}TestCase1 ()'',
     ''  : TestCase ('' @ [CHR 0x22] @ ''{CAPITALIZED} test case (does nothing)'' @ [CHR 0x22] @ '')'',
     ''{{'',
     ''}}'',
     [],
     ''// This destructor does nothing but we include it as a reminder that'',
     ''// the test case should clean up after itself'',
     ''{CAPITALIZED}TestCase1::~{CAPITALIZED}TestCase1 ()'',
     ''{{'',
     ''}}'',
     [],
     ''//'',
     ''// This method is the pure virtual method from class TestCase that every'',
     ''// TestCase must implement'',
     ''//'',
     ''void'',
     ''{CAPITALIZED}TestCase1::DoRun (void)'',
     ''{{'',
     ''  // A wide variety of test macros are available in src/core/test.h'',
     ''  NS_TEST_ASSERT_MSG_EQ (true, true, '' @ [CHR 0x22] @ ''true doesn'' @ [CHR 0x27] @
       ''t equal true for some reason'' @ [CHR 0x22] @ '');'',
     ''  // Use this one for floating point comparisons'',
     ''  NS_TEST_ASSERT_MSG_EQ_TOL (0.01, 0.01, 0.001, '' @ [CHR 0x22] @
       ''Numbers are not equal within tolerance'' @ [CHR 0x22] @ '');'',
     ''}}'',
     [],
     ''// The TestSuite class names the TestSuite, identifies what type of TestSuite,'',
     ''// and enables the TestCases to be run.  Typically, only the constructor for'',
     ''// this class must be defined'',
     ''//'',
     ''class {CAPITALIZED}TestSuite : public TestSuite'',
     ''{{'',
     ''public:'',
     ''  {CAPITALIZED}TestSuite ();'',
     ''}};'',
     [],
     ''{CAPITALIZED}TestSuite::{CAPITALIZED}TestSuite ()'',
     ''  : TestSuite ('' @ [CHR 0x22] @ ''{MODULE}'' @ [CHR 0x22] @ '', UNIT)'',
     ''{{'',
     ''  // TestDuration for TestCase can be QUICK, EXTENSIVE or TAKES_FOREVER'',
     ''  AddTestCase (new {CAPITALIZED}TestCase1, TestCase::QUICK);'',
     ''}}'',
     [],
     ''// Do not forget to allocate an instance of this TestSuite'',
     ''static {CAPITALIZED}TestSuite s{COMPOUND}TestSuite;'',
     [],
     []]"

definition doc_rst_template :: "string list" where
  "doc_rst_template =
    [''Example Module Documentation'',
     ''----------------------------'',
     [],
     ''.. include:: replace.txt'',
     ''.. highlight:: cpp'',
     [],
     ''.. heading hierarchy:'',
     ''   ------------- Chapter'',
     ''   ************* Section (#.#)'',
     ''   ============= Subsection (#.#.#)'',
     ''   ############# Paragraph (no number)'',
     [],
     ''This is a suggested outline for adding new module documentation to |ns3|.'',
     ''See ``src/click/doc/click.rst`` for an example.'',
     [],
     ''The introductory paragraph is for describing what this code is trying to'',
     ''model.'',
     [],
     ''For consistency (italicized formatting), please use |ns3| to refer to'',
     ''ns-3 in the documentation (and likewise, |ns2| for ns-2).  These macros'',
     ''are defined in the file ``replace.txt``.'',
     [],
     ''Model Description'',
     ''*****************'',
     [],
     ''The source code for the new module lives in the directory ``{MODULE_DIR}``.'',
     [],
     ''Add here a basic description of what is being modeled.'',
     [],
     ''Design'',
     ''======'',
     [],
     ''Briefly describe the software design of the model and how it fits into '',
     ''the existing ns-3 architecture. '',
     [],
     ''Scope and Limitations'',
     ''====================='',
     [],
     ''What can the model do?  What can it not do?  Please use this section to'',
     ''describe the scope and limitations of the model.'',
     [],
     ''References'',
     ''=========='',
     [],
     ''Add academic citations here, such as if you published a paper on this'',
     ''model, or if readers should read a particular specification or other work.'',
     [],
     ''Usage'',
     ''*****'',
     [],
     ''This section is principally concerned with the usage of your model, using'',
     ''the public API.  Focus first on most common usage patterns, then go'',
     ''into more advanced topics.'',
     [],
     ''Building New Module'',
     ''==================='',
     [],
     ''Include this subsection only if there are special build instructions or'',
     ''platform limitations.'',
     [],
     ''Helpers'',
     ''======='',
     [],
     ''What helper API will users typically use?  Describe it here.'',
     [],
     ''Attributes'',
     ''=========='',
     [],
     ''What classes hold attributes, and what are the key ones worth mentioning?'',
     [],
     ''Output'',
     ''======'',
     [],
     ''What kind of data does the model generate?  What are the key trace'',
     ''sources?   What kind of logging output can be enabled?'',
     [],
     ''Advanced Usage'',
     ''=============='',
     [],
     ''Go into further details (such as using the API outside of the helpers)'',
     ''in additional sections, as needed.'',
     [],
     ''Examples'',
     ''========'',
     [],
     ''What examples using this new code are available?  Describe them here.'',
     [],
     ''Troubleshooting'',
     ''==============='',
     [],
     ''Add any tips for avoiding pitfalls, etc.'',
     [],
     ''Validation'',
     ''**********'',
     [],
     ''Describe how the model has been tested/validated.  What tests run in the'',
     ''test suite?  How much API and code is covered by the tests?  Again, '',
     ''references to outside published work may help here.'',
     []]"

section \<open>Fields of the templates\<close>

lemma wscript_template_ok: "list_all (line_ok [''MODULE'']) wscript_template"
  by (simp add: wscript_template_def line_ok.simps)

lemma model_cc_template_ok: "list_all (line_ok [''MODULE'']) model_cc_template"
  by (simp add: model_cc_template_def line_ok.simps)

lemma model_h_template_ok: "list_all (line_ok [''MODULE'', ''INCLUDE_GUARD'']) model_h_template"
  by (simp add: model_h_template_def line_ok.simps)

lemma helper_cc_template_ok: "list_all (line_ok [''MODULE'']) helper_cc_template"
  by (simp add: helper_cc_template_def line_ok.simps)

lemma helper_h_template_ok: "list_all (line_ok [''MODULE'', ''INCLUDE_GUARD'']) helper_h_template"
  by (simp add: helper_h_template_def line_ok.simps)

lemma examples_wscript_template_ok: "list_all (line_ok [''MODULE'']) examples_wscript_template"
  by (simp add: examples_wscript_template_def line_ok.simps)

lemma example_cc_template_ok: "list_all (line_ok [''MODULE'']) example_cc_template"
  by (simp add: example_cc_template_def line_ok.simps)

lemma test_cc_template_ok: "list_all (line_ok [''MODULE'', ''CAPITALIZED'', ''COMPOUND'']) test_cc_template"
  by (simp add: test_cc_template_def line_ok.simps)

lemma doc_rst_template_ok: "list_all (line_ok [''MODULE'', ''MODULE_DIR'']) doc_rst_template"
  by (simp add: doc_rst_template_def line_ok.simps)

lemmas templates_ok =
  wscript_template_ok model_cc_template_ok model_h_template_ok
  helper_cc_template_ok helper_h_template_ok examples_wscript_template_ok
  example_cc_template_ok test_cc_template_ok doc_rst_template_ok

end
