(* ===== verification/CreateModule.thy ===== *)
theory CreateModule
  imports FileTree ScaffoldTemplates
begin

text \<open>
  \<open>utils/create-module.py\<close>: the files of a new module, the creation of a module with
  its removal on failure, and the command line.  Every call of the operating
  system may be refused.  Messages are recorded; the parser of the options is
  the caller of the model, and strings are ASCII.
\<close>

datatype message =
    Already_exists string | Creating path | Creating_failed string py_error
  | Not_a_name string | Bad_characters string | Created_all

section \<open>Names\<close>

definition to_lower :: "char \<Rightarrow> char" where
  "to_lower c = (let n = of_char c :: nat in if 65 \<le> n \<and> n \<le> 90 then char_of (n + 32) else c)"

definition capitalize :: "string \<Rightarrow> string" where
  "capitalize s = (case s of [] \<Rightarrow> [] | c # cs \<Rightarrow> to_upper c # List.map to_lower cs)"

definition dash_to_underscore :: "string \<Rightarrow> string" where
  "dash_to_underscore s = List.map (\<lambda>c. if c = CHR ''-'' then CHR ''_'' else c) s"

definition capitalized_name :: "string \<Rightarrow> string" where
  "capitalized_name modname = concat (List.map capitalize (str_split CHR ''-'' modname))"

text \<open>The first word is kept as it is.\<close>

definition compound_name :: "string \<Rightarrow> string" where
  "compound_name modname =
     (case str_split CHR ''-'' modname of [] \<Rightarrow> [] | w # ws \<Rightarrow> w @ concat (List.map capitalize ws))"

definition word_char :: "char \<Rightarrow> bool" where
  "word_char c \<longleftrightarrow>
     (let n = of_char c :: nat
      in (48 \<le> n \<and> n \<le> 57) \<or> (65 \<le> n \<and> n \<le> 90) \<or> (97 \<le> n \<and> n \<le> 122) \<or> c = CHR ''_'')"

definition name_char :: "char \<Rightarrow> bool" where
  "name_char c \<longleftrightarrow> word_char c \<or> c = CHR ''-''"

text \<open>
  The regular expression of \<open>allowedRE\<close>: at least one word character or dash.
  The dollar sign also matches before a newline at the end.
\<close>

definition allowed :: "string \<Rightarrow> bool" where
  "allowed s \<longleftrightarrow>
     (let body = (if s \<noteq> [] \<and> last s = newline then butlast s else s)
      in body \<noteq> [] \<and> list_all name_char body)"

section \<open>The files of a module\<close>

definition create_file :: "os_env \<Rightarrow> path \<Rightarrow> string list \<Rightarrow> (string, string) dict \<Rightarrow>
    (message fs_state, unit) action" where
  "create_file os p template kw =
     sbind (open_to_write os p) (\<lambda>_.
       case py_format kw (template_text template) of
         Inl e \<Rightarrow> sraise e
       | Inr content \<Rightarrow> write_text os p content)"

definition make_wscript :: "os_env \<Rightarrow> path \<Rightarrow> string \<Rightarrow> (message fs_state, bool) action" where
  "make_wscript os moduledir modname =
     sbind (create_file os (moduledir @ [''wscript'']) wscript_template [(''MODULE'', modname)]) (\<lambda>_. sret True)"

definition make_model :: "os_env \<Rightarrow> path \<Rightarrow> string \<Rightarrow> (message fs_state, bool) action" where
  "make_model os moduledir modname =
     (let modelpath = moduledir @ [''model'']
      in sbind (path_mkdir os False modelpath) (\<lambda>_.
         sbind (create_file os (with_suffix (modelpath @ [modname]) ''.cc'') model_cc_template [(''MODULE'', modname)]) (\<lambda>_.
         sbind (create_file os (with_suffix (modelpath @ [modname]) ''.h'') model_h_template
                  [(''MODULE'', modname), (''INCLUDE_GUARD'', upper (dash_to_underscore modname) @ ''_H'')]) (\<lambda>_.
         sret True))))"

definition make_test :: "os_env \<Rightarrow> path \<Rightarrow> string \<Rightarrow> (message fs_state, bool) action" where
  "make_test os moduledir modname =
     (let testpath = moduledir @ [''test'']
      in sbind (path_mkdir os False testpath) (\<lambda>_.
         sbind (create_file os (with_suffix (testpath @ [modname @ ''-test-suite'']) ''.cc'') test_cc_template
                  [(''MODULE'', modname), (''CAPITALIZED'', capitalized_name modname),
                   (''COMPOUND'', compound_name modname)]) (\<lambda>_.
         sret True)))"

definition make_helper :: "os_env \<Rightarrow> path \<Rightarrow> string \<Rightarrow> (message fs_state, bool) action" where
  "make_helper os moduledir modname =
     (let helperpath = moduledir @ [''helper'']
      in sbind (path_mkdir os False helperpath) (\<lambda>_.
         sbind (create_file os (with_suffix (helperpath @ [modname @ ''-helper'']) ''.cc'') helper_cc_template
                  [(''MODULE'', modname)]) (\<lambda>_.
         sbind (create_file os (with_suffix (helperpath @ [modname @ ''-helper'']) ''.h'') helper_h_template
                  [(''MODULE'', modname), (''INCLUDE_GUARD'', upper (dash_to_underscore modname) @ ''_HELPER_H'')]) (\<lambda>_.
         sret True))))"

definition make_examples :: "os_env \<Rightarrow> path \<Rightarrow> string \<Rightarrow> (message fs_state, bool) action" where
  "make_examples os moduledir modname =
     (let examplespath = moduledir @ [''examples'']
      in sbind (path_mkdir os False examplespath) (\<lambda>_.
         sbind (create_file os (examplespath @ [''wscript'']) examples_wscript_template [(''MODULE'', modname)]) (\<lambda>_.
         sbind (create_file os (with_suffix (examplespath @ [modname @ ''-example'']) ''.cc'') example_cc_template
                  [(''MODULE'', modname)]) (\<lambda>_.
         sret True))))"

definition make_doc :: "os_env \<Rightarrow> path \<Rightarrow> string \<Rightarrow> (message fs_state, bool) action" where
  "make_doc os moduledir modname =
     (let docpath = moduledir @ [''doc'']
      in sbind (path_mkdir os False docpath) (\<lambda>_.
         sbind (create_file os (docpath @ [modname @ ''.rst'']) doc_rst_template
                  [(''MODULE'', modname), (''MODULE_DIR'', relpath (path_str (cwd os)) (path_str moduledir) ''.'')]) (\<lambda>_.
         sret True)))"

section \<open>A module\<close>

text \<open>\<open>all(func(modulepath, modname) for func in functions)\<close> stops at the first false.\<close>

fun all_of :: "(os_env \<Rightarrow> path \<Rightarrow> string \<Rightarrow> (message fs_state, bool) action) list \<Rightarrow>
    os_env \<Rightarrow> path \<Rightarrow> string \<Rightarrow> (message fs_state, bool) action" where
  "all_of [] os p n = sret True"
| "all_of (f # fs) os p n = sbind (f os p n) (\<lambda>ok. if ok then all_of fs os p n else sret False)"

definition make_functions :: "(os_env \<Rightarrow> path \<Rightarrow> string \<Rightarrow> (message fs_state, bool) action) list" where
  "make_functions = [make_wscript, make_model, make_test, make_helper, make_examples, make_doc]"

definition generate :: "os_env \<Rightarrow> path \<Rightarrow> string \<Rightarrow> (message fs_state, unit) action" where
  "generate os modulepath modname =
     sbind (path_mkdir os False modulepath) (\<lambda>_.
     sbind (all_of make_functions os modulepath modname) (\<lambda>success.
       if success then sret () else sraise ValueError))"

definition make_module :: "os_env \<Rightarrow> path \<Rightarrow> string \<Rightarrow> (message fs_state, bool) action" where
  "make_module os modpath modname s =
     (let modulepath = modpath @ path_comps modname
      in if exists_path s modulepath then (say (Already_exists modname) s, Inr False)
         else (case generate os modulepath modname (say (Creating modulepath) s) of
                 (s1, Inr u) \<Rightarrow> (s1, Inr True)
               | (s1, Inl e) \<Rightarrow>
                   sbind (if exists_path s1 modulepath then rmtree os modulepath else sret ())
                     (\<lambda>_. sbind (supdate (say (Creating_failed modname e))) (\<lambda>_. sret False)) s1))"

section \<open>The command line\<close>

text \<open>\<open>parser.error\<close> raises \<open>SystemExit\<close>, which is no \<open>Exception\<close>.\<close>

abbreviation parser_error :: py_error where "parser_error \<equiv> PyException ''SystemExit''"

text \<open>
  A path that starts with two slashes has the root \<open>//\<close>, which is not relative to \<open>/\<close>.
\<close>

definition project_parts :: "string \<Rightarrow> path option py_result" where
  "project_parts project =
     (if project = [] then Inr None
      else if initial_slashes project = 2 then Inl ValueError
      else if list_all allowed (path_comps project) then Inr (Some (path_comps project))
      else Inl parser_error)"

definition strip_slashes :: "string \<Rightarrow> string" where
  "strip_slashes s =
     rev (dropWhile (\<lambda>c. c = CHR ''/'') (rev (dropWhile (\<lambda>c. c = CHR ''/'') s)))"

text \<open>Where a name of the command line goes: nowhere, with a message or none, or to a directory and a name.\<close>

datatype target = Skipped "message option" | Target path string

definition name_target :: "path \<Rightarrow> string \<Rightarrow> path option \<Rightarrow> string \<Rightarrow> target py_result" where
  "name_target base project project_path arg =
     (let name = strip_slashes arg; parts = path_comps name
      in if name = [] then Inr (Skipped None)
         else if length parts > 2 then Inr (Skipped (Some (Not_a_name name)))
         else if parts = [] then Inl IndexError
         else if hd parts = ''src'' \<and> project \<noteq> [] then Inl parser_error
         else (let modpath = (if hd parts = ''src'' then base @ [''src''] else base @ [''contrib'']);
                   rest = (if hd parts = ''src'' \<or> hd parts = ''contrib'' then tl parts else parts);
                   modpath = (case project_path of None \<Rightarrow> modpath | Some q \<Rightarrow> base @ [''contrib''] @ q)
               in if rest = [] then Inl IndexError
                  else if \<not> allowed (hd rest) then Inr (Skipped (Some (Bad_characters (hd rest))))
                  else Inr (Target modpath (hd rest))))"

fun collect_modules :: "path \<Rightarrow> string \<Rightarrow> path option \<Rightarrow> string list \<Rightarrow> (path \<times> string) list \<Rightarrow>
    (message fs_state, (path \<times> string) list) action" where
  "collect_modules base project project_path [] mods = sret mods"
| "collect_modules base project project_path (arg # args) mods =
     (case name_target base project project_path arg of
        Inl e \<Rightarrow> sraise e
      | Inr (Skipped None) \<Rightarrow> collect_modules base project project_path args mods
      | Inr (Skipped (Some m)) \<Rightarrow>
          sbind (supdate (say m)) (\<lambda>_. collect_modules base project project_path args mods)
      | Inr (Target modpath modname) \<Rightarrow> collect_modules base project project_path args (mods @ [(modpath, modname)]))"

fun make_modules :: "os_env \<Rightarrow> (path \<times> string) list \<Rightarrow> (message fs_state, bool) action" where
  "make_modules os [] = sret True"
| "make_modules os ((modpath, modname) # mods) =
     sbind (make_module os modpath modname) (\<lambda>ok. if ok then make_modules os mods else sret False)"

definition create_module_main :: "os_env \<Rightarrow> string \<Rightarrow> string list \<Rightarrow> (message fs_state, int) action" where
  "create_module_main os project modnames s =
     (let base = cwd os
      in if \<not> is_dir s (base @ [''src'']) \<or> \<not> is_dir s (base @ [''contrib'']) then (s, Inl parser_error)
         else (case project_parts project of
                 Inl e \<Rightarrow> (s, Inl e)
               | Inr project_path \<Rightarrow>
                   sbind (collect_modules base project project_path modnames []) (\<lambda>mods.
                   sbind (make_modules os mods) (\<lambda>ok.
                   sbind (if ok then supdate (say Created_all) else sret ()) (\<lambda>_. sret 0))) s))"

text \<open>The exit status of the script.\<close>

definition script_status :: "py_error + int \<Rightarrow> int" where
  "script_status r =
     (case r of Inr n \<Rightarrow> n | Inl e \<Rightarrow> if e = parser_error then 2 else 1)"

section \<open>What one file and one part contain\<close>

definition rendered :: "string list \<Rightarrow> (string, string) dict \<Rightarrow> string" where
  "rendered template kw = (case py_format kw (template_text template) of Inr x \<Rightarrow> x | Inl e \<Rightarrow> [])"

lemma stays_below_create_file [below_intros]:
  assumes q: "strict_prefix p q"
  shows "stays_below p (create_file os q template kw)"
  unfolding stays_below_def
proof (intro allI impI)
  fix s s' r
  assume wf: "tree_wf (tree s)" and dir: "tree s p = Some Directory" and run: "create_file os q template kw s = (s', r)"
  have ne: "q \<noteq> []" "butlast q \<noteq> q" using q by (cases q rule: rev_cases; force)+
  show "below_only p s s'"
  proof (cases "refuses os (Open_file q) \<or> is_dir s q \<or> \<not> is_dir s (butlast q)")
    case True
    then have "s' = s" using run by (auto simp: create_file_def open_to_write_def sbind_def)
    then show ?thesis using wf by (simp add: below_only_def)
  next
    case False
    define s1 where "s1 = set_entry q (Text_file []) s"
    have s1: "below_only p s s1" unfolding s1_def
      using False below_only_entry [OF wf _ _ q] by (auto simp: is_dir_def)
    then have "tree_wf (tree s1)" and "tree s1 (butlast q) = Some Directory" and "tree s1 q \<noteq> Some Directory"
      using False ne by (auto simp: below_only_def s1_def set_entry_def is_dir_def)
    then have "below_only p s1 (set_entry q (Text_file c) s1)" for c using below_only_entry q by blast
    moreover have "s' = s1 \<or> (\<exists>c. s' = set_entry q (Text_file c) s1)"
      using run False
      by (auto simp: create_file_def open_to_write_def sbind_def sraise_def write_text_def s1_def
          split: sum.splits if_splits)
    ultimately show ?thesis using s1 by (auto simp: below_only_def)
  qed
qed

lemma create_file_returned:
  assumes "create_file os q template kw s = (s', Inr u)"
  shows "s' = set_entry q (Text_file (rendered template kw)) s"
  using assms
  by (auto simp: create_file_def open_to_write_def write_text_def rendered_def set_entry_def sraise_def
      split: if_splits sum.splits dest!: sbind_cases)

lemma create_file_willing:
  assumes "willing os" and "tree s q \<noteq> Some Directory" and "tree s (butlast q) = Some Directory"
    and "list_all (line_ok ks) template" and "\<forall>k \<in> set ks. CHR ''!'' \<notin> set k \<and> dhas kw k"
  shows "create_file os q template kw s = (set_entry q (Text_file (rendered template kw)) s, Inr ())"
proof -
  obtain c where "py_format kw (template_text template) = Inr c" using py_format_lines [OF assms(5, 4)] by blast
  then show ?thesis using assms(1-3)
    by (simp add: create_file_def open_to_write_def write_text_def sbind_def rendered_def willing_def is_dir_def set_entry_def)
qed

lemma sbind_returned:
  "sbind m f s = (s', Inr y) \<longleftrightarrow> (\<exists>t x. m s = (t, Inr x) \<and> f x t = (s', Inr y))"
  by (auto simp: sbind_def split: prod.splits sum.splits)

lemma with_suffix_two [simp]: "with_suffix (p @ [d, n]) suf = p @ [d, stem n @ suf]"
  by (simp add: with_suffix_def butlast_append)

section \<open>The contract of the parts\<close>

text \<open>
  A part of a module stays below the directory of the module whatever is refused;
  when it returns it has added its entries; and it returns when nothing is
  refused and none of its paths exists.
\<close>

locale module_part =
  fixes make :: "os_env \<Rightarrow> path \<Rightarrow> string \<Rightarrow> (message fs_state, bool) action"
    and adds :: "os_env \<Rightarrow> path \<Rightarrow> string \<Rightarrow> (path \<times> entry) list"
  assumes footprint: "stays_below p (make os p n)"
    and completes: "tree s p = Some Directory \<Longrightarrow> allowed n \<Longrightarrow> make os p n s = (s', Inr ok) \<Longrightarrow>
      ok \<and> s' = s\<lparr>tree := add_entries (adds os p n) (tree s)\<rparr>"
    and returns: "willing os \<Longrightarrow> tree s p = Some Directory \<Longrightarrow> allowed n \<Longrightarrow>
      \<forall>q \<in> set (adds os p n). tree s (fst q) = None \<Longrightarrow> is_ok (snd (make os p n s))"
begin

lemma stays: "tree_wf (tree s) \<Longrightarrow> tree s p = Some Directory \<Longrightarrow> make os p n s = (s', r) \<Longrightarrow> below_only p s s'"
  by (rule stays_belowD [OF footprint])

end

lemma allowed_chars:
  assumes "allowed n" and "c \<in> set n"
  shows "name_char c \<or> c = newline"
proof (cases "n \<noteq> [] \<and> last n = newline")
  case True
  then have "set n = insert newline (set (butlast n))"
    by (metis append_butlast_last_id list.simps(15) rotate1.simps(2) set_rotate1)
  then show ?thesis using assms True by (auto simp: allowed_def Let_def list_all_iff)
next
  case False
  then show ?thesis using assms by (auto simp: allowed_def Let_def list_all_iff)
qed

lemma allowed_without_newline:
  assumes "allowed n" and "newline \<notin> set n"
  shows "list_all name_char n \<and> n \<noteq> []"
proof -
  have no: "\<not> (n \<noteq> [] \<and> last n = newline)" using assms(2) last_in_set by metis
  show ?thesis using assms(1) unfolding allowed_def Let_def if_not_P [OF no] by (rule conj_commute [THEN iffD1])
qed

lemma allowed_plain [simp]: "allowed n \<Longrightarrow> n \<noteq> [] \<and> CHR ''.'' \<notin> set n \<and> CHR ''/'' \<notin> set n"
  using allowed_chars [of n "CHR ''.''"] allowed_chars [of n "CHR ''/''"]
  by (auto simp: allowed_def name_char_def word_char_def)

definition wscript_adds :: "os_env \<Rightarrow> path \<Rightarrow> string \<Rightarrow> (path \<times> entry) list" where
  "wscript_adds os p n = [(p @ [''wscript''], Text_file (rendered wscript_template [(''MODULE'', n)]))]"

definition model_adds :: "os_env \<Rightarrow> path \<Rightarrow> string \<Rightarrow> (path \<times> entry) list" where
  "model_adds os p n =
     [(p @ [''model''], Directory),
      (p @ [''model'', n @ ''.cc''], Text_file (rendered model_cc_template [(''MODULE'', n)])),
      (p @ [''model'', n @ ''.h''], Text_file (rendered model_h_template
         [(''MODULE'', n), (''INCLUDE_GUARD'', upper (dash_to_underscore n) @ ''_H'')]))]"

definition test_adds :: "os_env \<Rightarrow> path \<Rightarrow> string \<Rightarrow> (path \<times> entry) list" where
  "test_adds os p n =
     [(p @ [''test''], Directory),
      (p @ [''test'', n @ ''-test-suite.cc''], Text_file (rendered test_cc_template
         [(''MODULE'', n), (''CAPITALIZED'', capitalized_name n), (''COMPOUND'', compound_name n)]))]"

definition helper_adds :: "os_env \<Rightarrow> path \<Rightarrow> string \<Rightarrow> (path \<times> entry) list" where
  "helper_adds os p n =
     [(p @ [''helper''], Directory),
      (p @ [''helper'', n @ ''-helper.cc''], Text_file (rendered helper_cc_template [(''MODULE'', n)])),
      (p @ [''helper'', n @ ''-helper.h''], Text_file (rendered helper_h_template
         [(''MODULE'', n), (''INCLUDE_GUARD'', upper (dash_to_underscore n) @ ''_HELPER_H'')]))]"

definition examples_adds :: "os_env \<Rightarrow> path \<Rightarrow> string \<Rightarrow> (path \<times> entry) list" where
  "examples_adds os p n =
     [(p @ [''examples''], Directory),
      (p @ [''examples'', ''wscript''], Text_file (rendered examples_wscript_template [(''MODULE'', n)])),
      (p @ [''examples'', n @ ''-example.cc''], Text_file (rendered example_cc_template [(''MODULE'', n)]))]"

definition doc_adds :: "os_env \<Rightarrow> path \<Rightarrow> string \<Rightarrow> (path \<times> entry) list" where
  "doc_adds os p n =
     [(p @ [''doc''], Directory),
      (p @ [''doc'', n @ ''.rst''], Text_file (rendered doc_rst_template
         [(''MODULE'', n), (''MODULE_DIR'', relpath (path_str (cwd os)) (path_str p) ''.'')]))]"

lemmas adds_defs = wscript_adds_def model_adds_def test_adds_def helper_adds_def examples_adds_def doc_adds_def
lemmas make_defs = make_wscript_def make_model_def make_test_def make_helper_def make_examples_def make_doc_def

lemma stem_name [simp]:
  "allowed n \<Longrightarrow> stem n = n" "allowed n \<Longrightarrow> CHR ''.'' \<notin> set m \<Longrightarrow> stem (n @ m) = n @ m"
  by (simp_all add: stem_no_dot)

lemmas part_simps = Let_def sbind_returned sret_def set_entry_def butlast_append
lemmas part_returned = create_file_returned path_mkdir_child
lemmas part_willing = path_mkdir_child_willing templates_ok [THEN create_file_willing [rotated 3]]

interpretation wscript: module_part make_wscript wscript_adds
proof unfold_locales
  show "stays_below p (make_wscript os p n)" for os p n
    unfolding make_wscript_def Let_def append_assoc append_Cons append_Nil with_suffix_two
    by (intro below_intros) simp_all
  show "ok \<and> s' = s\<lparr>tree := add_entries (wscript_adds os p n) (tree s)\<rparr>"
    if "tree s p = Some Directory" "allowed n" "make_wscript os p n s = (s', Inr ok)" for s p n os s' ok
    using that by (auto simp: make_wscript_def wscript_adds_def part_simps dest!: part_returned)
  show "is_ok (snd (make_wscript os p n s))"
    if "willing os" "tree s p = Some Directory" "allowed n" "\<forall>q \<in> set (wscript_adds os p n). tree s (fst q) = None"
    for os s p n
    using that
    by (simp add: make_wscript_def wscript_adds_def sbind_def part_simps part_willing)
qed

interpretation model: module_part make_model model_adds
proof unfold_locales
  show "stays_below p (make_model os p n)" for os p n
    unfolding make_model_def Let_def append_assoc append_Cons append_Nil with_suffix_two
    by (intro below_intros) simp_all
  show "ok \<and> s' = s\<lparr>tree := add_entries (model_adds os p n) (tree s)\<rparr>"
    if "tree s p = Some Directory" "allowed n" "make_model os p n s = (s', Inr ok)" for s p n os s' ok
    using that by (auto simp: make_model_def model_adds_def part_simps dest!: part_returned)
  show "is_ok (snd (make_model os p n s))"
    if "willing os" "tree s p = Some Directory" "allowed n" "\<forall>q \<in> set (model_adds os p n). tree s (fst q) = None"
    for os s p n
    using that
    by (simp add: make_model_def model_adds_def sbind_def part_simps part_willing)
qed

interpretation test: module_part make_test test_adds
proof unfold_locales
  show "stays_below p (make_test os p n)" for os p n
    unfolding make_test_def Let_def append_assoc append_Cons append_Nil with_suffix_two
    by (intro below_intros) simp_all
  show "ok \<and> s' = s\<lparr>tree := add_entries (test_adds os p n) (tree s)\<rparr>"
    if "tree s p = Some Directory" "allowed n" "make_test os p n s = (s', Inr ok)" for s p n os s' ok
    using that by (auto simp: make_test_def test_adds_def part_simps dest!: part_returned)
  show "is_ok (snd (make_test os p n s))"
    if "willing os" "tree s p = Some Directory" "allowed n" "\<forall>q \<in> set (test_adds os p n). tree s (fst q) = None"
    for os s p n
    using that
    by (simp add: make_test_def test_adds_def sbind_def part_simps part_willing)
qed

interpretation helper: module_part make_helper helper_adds
proof unfold_locales
  show "stays_below p (make_helper os p n)" for os p n
    unfolding make_helper_def Let_def append_assoc append_Cons append_Nil with_suffix_two
    by (intro below_intros) simp_all
  show "ok \<and> s' = s\<lparr>tree := add_entries (helper_adds os p n) (tree s)\<rparr>"
    if "tree s p = Some Directory" "allowed n" "make_helper os p n s = (s', Inr ok)" for s p n os s' ok
    using that by (auto simp: make_helper_def helper_adds_def part_simps dest!: part_returned)
  show "is_ok (snd (make_helper os p n s))"
    if "willing os" "tree s p = Some Directory" "allowed n" "\<forall>q \<in> set (helper_adds os p n). tree s (fst q) = None"
    for os s p n
    using that
    by (simp add: make_helper_def helper_adds_def sbind_def part_simps part_willing)
qed

interpretation examples: module_part make_examples examples_adds
proof unfold_locales
  show "stays_below p (make_examples os p n)" for os p n
    unfolding make_examples_def Let_def append_assoc append_Cons append_Nil with_suffix_two
    by (intro below_intros) simp_all
  show "ok \<and> s' = s\<lparr>tree := add_entries (examples_adds os p n) (tree s)\<rparr>"
    if "tree s p = Some Directory" "allowed n" "make_examples os p n s = (s', Inr ok)" for s p n os s' ok
    using that by (auto simp: make_examples_def examples_adds_def part_simps dest!: part_returned)
  show "is_ok (snd (make_examples os p n s))"
    if "willing os" "tree s p = Some Directory" "allowed n" "\<forall>q \<in> set (examples_adds os p n). tree s (fst q) = None"
    for os s p n
    using that
    by (simp add: make_examples_def examples_adds_def sbind_def part_simps part_willing)
qed

interpretation doc: module_part make_doc doc_adds
proof unfold_locales
  show "stays_below p (make_doc os p n)" for os p n
    unfolding make_doc_def Let_def append_assoc append_Cons append_Nil with_suffix_two
    by (intro below_intros) simp_all
  show "ok \<and> s' = s\<lparr>tree := add_entries (doc_adds os p n) (tree s)\<rparr>"
    if "tree s p = Some Directory" "allowed n" "make_doc os p n s = (s', Inr ok)" for s p n os s' ok
    using that by (auto simp: make_doc_def doc_adds_def part_simps dest!: part_returned)
  show "is_ok (snd (make_doc os p n s))"
    if "willing os" "tree s p = Some Directory" "allowed n" "\<forall>q \<in> set (doc_adds os p n). tree s (fst q) = None"
    for os s p n
    using that
    by (simp add: make_doc_def doc_adds_def sbind_def part_simps part_willing)
qed

section \<open>All parts\<close>

definition scaffold :: "os_env \<Rightarrow> path \<Rightarrow> string \<Rightarrow> (path \<times> entry) list" where
  "scaffold os p n =
     concat (List.map (\<lambda>a. a os p n)
       [wscript_adds, model_adds, test_adds, helper_adds, examples_adds, doc_adds])"

lemma make_functions_parts:
  "list_all2 module_part make_functions
     [wscript_adds, model_adds, test_adds, helper_adds, examples_adds, doc_adds]"
  by (simp add: make_functions_def wscript.module_part_axioms model.module_part_axioms test.module_part_axioms
      helper.module_part_axioms examples.module_part_axioms doc.module_part_axioms)

lemma all_of_stays:
  "list_all2 module_part fs as \<Longrightarrow> stays_below p (all_of fs os p n)"
proof (induction fs as rule: list_all2_induct)
  case Nil
  then show ?case by (simp add: stays_below_sret)
next
  case (Cons f fs a as)
  then have "stays_below p (f os p n)" by (simp add: module_part_def)
  then show ?case using Cons unfolding all_of.simps by (intro below_intros)
qed

lemma all_of_completes:
  "list_all2 module_part fs as \<Longrightarrow> tree_wf (tree s) \<Longrightarrow> tree s p = Some Directory \<Longrightarrow> allowed n \<Longrightarrow>
    all_of fs os p n s = (s', Inr ok) \<Longrightarrow>
    ok \<and> s' = s\<lparr>tree := add_entries (concat (List.map (\<lambda>a. a os p n) as)) (tree s)\<rparr>"
proof (induction fs as arbitrary: s rule: list_all2_induct)
  case Nil
  then show ?case by (simp add: sret_def)
next
  case (Cons f fs a as)
  from Cons.prems(4) obtain t x where f: "f os p n s = (t, Inr x)"
      and rest: "(if x then all_of fs os p n else sret False) t = (s', Inr ok)"
    by (auto simp: sbind_returned)
  have t: "x" "t = s\<lparr>tree := add_entries (a os p n) (tree s)\<rparr>"
    using module_part.completes [OF Cons.hyps(1) Cons.prems(2, 3) f] by auto
  have wf: "tree_wf (tree t)" and dir: "tree t p = Some Directory"
    using module_part.stays [OF Cons.hyps(1) Cons.prems(1, 2) f] Cons.prems(2) by (auto simp: below_only_def)
  have "all_of fs os p n t = (s', Inr ok)" using rest t(1) by simp
  from Cons.IH [OF wf dir Cons.prems(3) this] show ?case by (simp add: t(2) add_entries_append)
qed

lemma all_of_returns:
  assumes os: "willing os" and n: "allowed n"
  shows "list_all2 module_part fs as \<Longrightarrow> tree_wf (tree s) \<Longrightarrow> tree s p = Some Directory \<Longrightarrow>
    distinct (List.map fst (concat (List.map (\<lambda>a. a os p n) as))) \<Longrightarrow>
    \<forall>q \<in> fst ` set (concat (List.map (\<lambda>a. a os p n) as)). tree s q = None \<Longrightarrow>
    is_ok (snd (all_of fs os p n s))"
proof (induction fs as arbitrary: s rule: list_all2_induct)
  case Nil
  then show ?case by (simp add: sret_def)
next
  case (Cons f fs a as)
  have "is_ok (snd (f os p n s))"
    using module_part.returns [OF Cons.hyps(1) os Cons.prems(2) n] Cons.prems(4) by simp
  then obtain t x where f: "f os p n s = (t, Inr x)" by (cases "f os p n s") (auto simp: is_ok_iff)
  have t: "x" "t = s\<lparr>tree := add_entries (a os p n) (tree s)\<rparr>"
    using module_part.completes [OF Cons.hyps(1) Cons.prems(2) n f] by auto
  have wf: "tree_wf (tree t)" and dir: "tree t p = Some Directory"
    using module_part.stays [OF Cons.hyps(1) Cons.prems(1, 2) f] Cons.prems(2) by (auto simp: below_only_def)
  have fresh: "tree t q = None" if "q \<in> fst ` set (concat (List.map (\<lambda>a. a os p n) as))" for q
  proof -
    have "q \<notin> fst ` set (a os p n)" using Cons.prems(3) that by auto
    then show ?thesis using Cons.prems(4) that by (auto simp: t(2) add_entries_other)
  qed
  have "is_ok (snd (all_of fs os p n t))"
    using Cons.IH [OF wf dir] Cons.prems(3) fresh by simp
  then show ?case using f t(1) by (simp add: sbind_def)
qed

lemma scaffold_paths:
  "List.map fst (scaffold os p n) = List.map ((@) p)
     [[''wscript''], [''model''], [''model'', n @ ''.cc''], [''model'', n @ ''.h''],
      [''test''], [''test'', n @ ''-test-suite.cc''],
      [''helper''], [''helper'', n @ ''-helper.cc''], [''helper'', n @ ''-helper.h''],
      [''examples''], [''examples'', ''wscript''], [''examples'', n @ ''-example.cc''],
      [''doc''], [''doc'', n @ ''.rst'']]"
  by (simp add: scaffold_def adds_defs)

lemma scaffold_distinct: "distinct (List.map fst (scaffold os p n))"
proof -
  have "n @ ''-example.cc'' \<noteq> ''wscript''"
  proof
    assume "n @ ''-example.cc'' = ''wscript''"
    then have "last (n @ ''-example.cc'') = last ''wscript''" by simp
    then show False by simp
  qed
  then show ?thesis unfolding scaffold_paths by (simp add: distinct_map inj_on_def)
qed

lemma scaffold_below: "q \<in> fst ` set (scaffold os p n) \<Longrightarrow> strict_prefix p q"
proof -
  assume "q \<in> fst ` set (scaffold os p n)"
  then have "q \<in> set (List.map fst (scaffold os p n))" by simp
  then show ?thesis unfolding scaffold_paths by auto
qed

section \<open>Creating a module\<close>

text \<open>The parts of a module, when its generation returns and when it raises.\<close>

lemma generate_returned:
  assumes wf: "tree_wf (tree s)" and n: "allowed n" and run: "generate os p n s = (s', Inr u)"
  shows "tree s' = add_entries (scaffold os p n) (with_dirs p (tree s)) \<and> printed s' = printed s"
proof -
  from run obtain t where t: "path_mkdir os False p s = (t, Inr ())"
      and rest: "sbind (all_of make_functions os p n) (\<lambda>ok. if ok then sret () else sraise ValueError) t = (s', Inr u)"
    by (auto simp: generate_def sbind_returned)
  have t': "tree t = with_dirs p (tree s)" "tree_wf (tree t)" "printed t = printed s"
    using path_mkdir_returned [OF wf t] by auto
  then have dir: "tree t p = Some Directory" by (simp add: with_dirs_def)
  from rest obtain ok where "all_of make_functions os p n t = (s', Inr ok)"
    by (auto simp: sbind_returned sret_def sraise_def split: if_splits)
  from all_of_completes [OF make_functions_parts t'(2) dir n this] show ?thesis
    by (simp add: t' scaffold_def)
qed

lemma generate_way:
  assumes wf: "tree_wf (tree s)" and run: "generate os p n s = (s', Inr u)" and q: "prefix q p"
  shows "tree s q = None \<or> tree s q = Some Directory"
proof -
  from run obtain t where t: "path_mkdir os False p s = (t, Inr ())"
    by (auto simp: generate_def sbind_returned)
  then have "tree t q = Some Directory" using path_mkdir_returned [OF wf t] q by (simp add: with_dirs_def)
  then show ?thesis using path_mkdir_ok [OF t] unfolding mkdir_ok_def only_adds_dirs_def by metis
qed

lemma generate_raised:
  assumes wf: "tree_wf (tree s)" and new: "tree s p = None" and run: "generate os p n s = (s', Inl e)"
  shows "printed s' = printed s \<and> (tree s' p = None \<or> tree s' p = Some Directory) \<and>
    (\<forall>q. \<not> prefix p q \<longrightarrow> tree s' q = tree s q \<or> (tree s q = None \<and> tree s' q = Some Directory \<and> strict_prefix q p)) \<and>
    tree_wf (tree s')"
proof -
  from sbind_cases [OF run [unfolded generate_def]] show ?thesis
  proof (elim disjE exE conjE)
    fix e' assume "path_mkdir os False p s = (s', Inl e')"
    from path_mkdir_ok [OF this] show ?thesis
      using wf new by (auto simp: mkdir_ok_def only_adds_dirs_def strict_prefix_def)
  next
    fix t x
    assume t: "path_mkdir os False p s = (t, Inr x)"
      and rest: "sbind (all_of make_functions os p n) (\<lambda>ok. if ok then sret () else sraise ValueError) t = (s', Inl e)"
    have t': "tree t = with_dirs p (tree s)" "tree_wf (tree t)" "printed t = printed s"
      using path_mkdir_returned [OF wf t] by auto
    then have dir: "tree t p = Some Directory" by (simp add: with_dirs_def)
    have "stays_below p (sbind (all_of make_functions os p n) (\<lambda>ok. if ok then sret () else sraise ValueError))"
      by (intro below_intros all_of_stays [OF make_functions_parts])
    from stays_belowD [OF this t'(2) dir rest] have b: "below_only p t s'" .
    have "\<forall>q. prefix q p \<longrightarrow> tree s q = None \<or> tree s q = Some Directory"
      using path_mkdir_ok [OF t] t' unfolding mkdir_ok_def only_adds_dirs_def with_dirs_def by metis
    then show ?thesis using b t' dir by (auto simp: below_only_def with_dirs_def strict_prefix_def)
  qed
qed

lemma allowed_dot: "\<not> allowed ''.''"
  by code_simp

lemma path_comps_allowed [simp]: "allowed n \<Longrightarrow> path_comps n = [n]"
proof -
  assume a: "allowed n"
  have "n \<noteq> ''.''"
  proof
    assume "n = ''.''"
    with allowed_plain [OF a] show False by (simp del: allowed_plain)
  qed
  then show "path_comps n = [n]" using allowed_plain [OF a] by (intro path_comps_name) blast+
qed

lemma make_module_cases:
  assumes n: "allowed n"
  shows "make_module os modpath n s =
    (if tree s (modpath @ [n]) \<noteq> None then (say (Already_exists n) s, Inr False)
     else (case generate os (modpath @ [n]) n (say (Creating (modpath @ [n])) s) of
             (s1, Inr u) \<Rightarrow> (s1, Inr True)
           | (s1, Inl e) \<Rightarrow>
               (case (if exists_path s1 (modpath @ [n]) then rmtree os (modpath @ [n]) s1 else (s1, Inr ())) of
                  (s2, Inl e2) \<Rightarrow> (s2, Inl e2)
                | (s2, Inr u2) \<Rightarrow> (say (Creating_failed n e) s2, Inr False))))"
  using n
  by (auto simp: make_module_def Let_def exists_path_def sbind_def sret_def supdate_def
      split: prod.splits sum.splits)

lemma make_module_effects:
  assumes wf: "tree_wf (tree s)" and n: "allowed n" and run: "make_module os modpath n s = (s', r)"
  shows "(\<forall>q. \<not> prefix (modpath @ [n]) q \<longrightarrow>
      tree s' q = tree s q \<or> (tree s q = None \<and> tree s' q = Some Directory \<and> prefix q modpath))
    \<and> (r = Inr True \<longrightarrow> tree s (modpath @ [n]) = None \<and>
         tree s' = add_entries (scaffold os (modpath @ [n]) n) (with_dirs (modpath @ [n]) (tree s)))
    \<and> (r = Inr False \<longrightarrow> (\<forall>q. prefix (modpath @ [n]) q \<longrightarrow> tree s' q = tree s q))
    \<and> (\<forall>e. r = Inl e \<longrightarrow> e = OSError \<and> refuses os (Remove_tree (modpath @ [n])) \<and> tree s (modpath @ [n]) = None)"
proof (cases "tree s (modpath @ [n]) = None")
  case False
  then show ?thesis using run by (auto simp: make_module_cases [OF n] say_def)
next
  case new: True
  define p where "p = modpath @ [n]"
  define s0 where "s0 = say (Creating p) s"
  have s0: "tree s0 = tree s" by (simp add: s0_def say_def)
  have gone: "tree s q = None" if "prefix p q" for q
    using tree_wf_below [OF wf new] that by (simp add: p_def)
  have up: "strict_prefix q p \<longleftrightarrow> prefix q modpath" for q
    by (auto simp: p_def strict_prefix_def prefix_snoc)
  obtain s1 g where gen: "generate os p n s0 = (s1, g)" by fastforce
  show ?thesis
  proof (cases g)
    case (Inr u)
    then have r: "r = Inr True" "s' = s1"
      using run gen new by (auto simp: make_module_cases [OF n] p_def s0_def)
    have t: "tree s' = add_entries (scaffold os p n) (with_dirs p (tree s))"
      using generate_returned [of s0 n os p s1 u] gen wf n s0 Inr r by simp
    have "tree s' q = tree s q \<or> (tree s q = None \<and> tree s' q = Some Directory \<and> prefix q modpath)"
      if "\<not> prefix p q" for q
    proof -
      have "q \<notin> fst ` set (scaffold os p n)" using scaffold_below [of q os p n] that unfolding strict_prefix_def by blast
      moreover have "tree s q = None \<or> tree s q = Some Directory" if "prefix q p"
        using generate_way [of s0 os p n s1 u q] gen Inr that wf s0 by simp
      ultimately show ?thesis using that up by (auto simp: t add_entries_other with_dirs_def strict_prefix_def)
    qed
    then show ?thesis using t r new by (simp add: p_def)
  next
    case (Inl e)
    then have raised: "tree s1 p = None \<or> tree s1 p = Some Directory"
        "\<forall>q. \<not> prefix p q \<longrightarrow> tree s1 q = tree s q \<or> (tree s q = None \<and> tree s1 q = Some Directory \<and> strict_prefix q p)"
        "tree_wf (tree s1)"
      using generate_raised [of s0 p os n s1 e] gen wf new s0 by (auto simp: p_def)
    define u where "u = (if exists_path s1 p then rmtree os p s1 else (s1, Inr ()))"
    have run': "(case u of (s2, Inl e2) \<Rightarrow> (s2, Inl e2) | (s2, Inr u2) \<Rightarrow> (say (Creating_failed n e) s2, Inr False)) = (s', r)"
      using run gen new Inl unfolding p_def s0_def u_def make_module_cases [OF n]
      by (simp split del: if_split)
    have kept: "tree (fst u) q = tree s1 q" if "\<not> prefix p q" for q
      using that by (simp add: u_def rmtree_def cut_tree_def)
    have cut: "tree (fst u) q = None" if "prefix p q" "snd u = Inr ()" for q
      using that tree_wf_below [OF raised(3), of p q] raised(1)
      by (auto simp: u_def rmtree_def cut_tree_def exists_path_def is_dir_def split: if_splits)
    have err: "e2 = OSError \<and> refuses os (Remove_tree p)" if "snd u = Inl e2" for e2
      using that raised(1) by (auto simp: u_def rmtree_def exists_path_def is_dir_def split: if_splits)
    have tree': "tree s' = tree (fst u)"
      and r: "(r = Inr False \<and> snd u = Inr ()) \<or> (\<exists>e2. r = Inl e2 \<and> snd u = Inl e2)"
      using run' by (auto simp: say_def split: prod.splits sum.splits)
    show ?thesis using r kept cut err raised(2) new gone up unfolding tree' p_def [symmetric] by auto
  qed
qed

text \<open>The frame of a module: nothing that exists is changed.\<close>

lemma make_module_keeps:
  assumes wf: "tree_wf (tree s)" and n: "allowed n" and run: "make_module os modpath n s = (s', r)"
    and there: "tree s q \<noteq> None"
  shows "tree s' q = tree s q"
proof (cases "prefix (modpath @ [n]) q")
  case False
  then have "tree s' q = tree s q \<or> (tree s q = None \<and> tree s' q = Some Directory \<and> prefix q modpath)"
    using make_module_effects [OF wf n run, THEN conjunct1] by (elim allE impE)
  then show ?thesis using there by blast
next
  case True
  then have "tree s (modpath @ [n]) \<noteq> None" using there tree_wf_below [OF wf _ True] by (metis (no_types))
  then have "s' = say (Already_exists n) s" using run by (simp add: make_module_cases [OF n])
  then show ?thesis by (simp add: say_def)
qed

text \<open>Every file of the list is a formatted template.\<close>

lemma rendered_format:
  assumes "list_all (line_ok ks) template" and "\<forall>k \<in> set ks. CHR ''!'' \<notin> set k \<and> dhas kw k"
  shows "py_format kw (template_text template) = Inr (rendered template kw)"
  using py_format_lines [OF assms(2, 1)] by (auto simp: rendered_def)

definition from_template :: "string \<Rightarrow> entry \<Rightarrow> bool" where
  "from_template n e \<longleftrightarrow> e = Directory \<or> (\<exists>t kw c. e = Text_file c \<and> dget kw ''MODULE'' = Some n \<and>
     py_format kw (template_text t) = Inr c)"

lemma from_template_rendered:
  assumes "list_all (line_ok ks) t" and "\<forall>k \<in> set ks. CHR ''!'' \<notin> set k \<and> dhas kw k" and "dget kw ''MODULE'' = Some n"
  shows "from_template n (Text_file (rendered t kw))"
  using rendered_format [OF assms(1, 2)] assms(3) by (auto simp: from_template_def)

lemma scaffold_texts: "(q, e) \<in> set (scaffold os p n) \<Longrightarrow> from_template n e"
proof -
  have dir: "from_template n Directory" by (simp add: from_template_def)
  have "list_all (\<lambda>qe. from_template n (snd qe)) (scaffold os p n)"
    by (simp add: scaffold_def adds_defs dir templates_ok [THEN from_template_rendered])
  then show "(q, e) \<in> set (scaffold os p n) \<Longrightarrow> from_template n e" by (force simp: list_all_iff)
qed

text \<open>The parts are generated when nothing is refused and nothing is in the way.\<close>

lemma generate_returns:
  assumes os: "willing os" and n: "allowed n" and wf: "tree_wf (tree s)" and way: "free_way p (tree s)"
    and new: "tree s p = None"
  shows "is_ok (snd (generate os p n s))"
proof -
  define t where "t = s\<lparr>tree := with_dirs p (tree s)\<rparr>"
  have t: "path_mkdir os False p s = (t, Inr ())" unfolding t_def using path_mkdir_willing [OF os wf way] new by simp
  have wf_t: "tree_wf (tree t)" and dir: "tree t p = Some Directory"
    using tree_wf_with_dirs [OF wf way] by (auto simp: t_def with_dirs_def)
  have fresh: "tree t q = None" if "q \<in> fst ` set (scaffold os p n)" for q
  proof -
    have "strict_prefix p q" by (rule scaffold_below [OF that])
    then show ?thesis using tree_wf_below [OF wf new, of q] by (auto simp: t_def with_dirs_def strict_prefix_def)
  qed
  have "is_ok (snd (all_of make_functions os p n t))"
    by (intro all_of_returns [OF os n make_functions_parts wf_t dir] ballI
        scaffold_distinct [unfolded scaffold_def] fresh [unfolded scaffold_def])
  then obtain u ok where run: "all_of make_functions os p n t = (u, Inr ok)"
    by (cases "all_of make_functions os p n t") (auto simp: is_ok_iff)
  then have "ok" using all_of_completes [OF make_functions_parts wf_t dir n] by blast
  then show ?thesis using t run by (simp add: generate_def sbind_def sret_def)
qed

lemma tree_wf_cut: "tree_wf (tree s) \<Longrightarrow> p \<noteq> [] \<Longrightarrow> tree_wf (tree (cut_tree (\<lambda>q. False) p s))"
  unfolding tree_wf_def cut_tree_def by (auto simp: prefix_snoc)

lemma generate_wf:
  assumes wf: "tree_wf (tree s)" and run: "generate os p n s = (s', Inr u)"
  shows "tree_wf (tree s')"
proof -
  from run obtain t where t: "path_mkdir os False p s = (t, Inr ())"
      and rest: "sbind (all_of make_functions os p n) (\<lambda>ok. if ok then sret () else sraise ValueError) t = (s', Inr u)"
    by (auto simp: generate_def sbind_returned)
  have t': "tree t = with_dirs p (tree s)" "tree_wf (tree t)" using path_mkdir_returned [OF wf t] by auto
  then have dir: "tree t p = Some Directory" by (simp add: with_dirs_def)
  have "stays_below p (sbind (all_of make_functions os p n) (\<lambda>ok. if ok then sret () else sraise ValueError))"
    by (intro below_intros all_of_stays [OF make_functions_parts])
  from stays_belowD [OF this t'(2) dir rest] show ?thesis by (simp add: below_only_def)
qed

lemma make_module_wf:
  assumes wf: "tree_wf (tree s)" and n: "allowed n" and run: "make_module os modpath n s = (s', Inr b)"
  shows "tree_wf (tree s')"
proof (cases "tree s (modpath @ [n]) = None")
  case False
  then have "s' = say (Already_exists n) s" using run by (simp add: make_module_cases [OF n])
  then show ?thesis using wf by (simp add: say_def)
next
  case new: True
  obtain s1 g where gen: "generate os (modpath @ [n]) n (say (Creating (modpath @ [n])) s) = (s1, g)" by fastforce
  have wf0: "tree_wf (tree (say (Creating (modpath @ [n])) s))" using wf by (simp add: say_def)
  show ?thesis
  proof (cases g)
    case (Inr u)
    then show ?thesis using run gen new generate_wf [OF wf0] by (simp add: make_module_cases [OF n])
  next
    case (Inl e)
    then have "tree_wf (tree s1)"
      using generate_raised [OF wf0 _ gen [unfolded Inl]] new by (simp add: say_def)
    moreover have "s' = say (Creating_failed n e) s1 \<or>
        s' = say (Creating_failed n e) (cut_tree (\<lambda>q. False) (modpath @ [n]) s1)"
      using run gen new Inl
      by (simp add: make_module_cases [OF n] rmtree_def split: if_splits)
    ultimately show ?thesis using tree_wf_cut [of s1 "modpath @ [n]"] by (auto simp: say_def)
  qed
qed

section \<open>Identifiers in the generated files\<close>

definition c_identifier :: "string \<Rightarrow> bool" where
  "c_identifier s \<longleftrightarrow> s \<noteq> [] \<and> list_all word_char s \<and> \<not> is_digit (hd s)"

lemma char_code_eq: "c = d \<longleftrightarrow> (of_char c :: nat) = of_char d"
  by simp

lemma word_char_code:
  "word_char c \<longleftrightarrow> (let n = of_char c :: nat in (48 \<le> n \<and> n \<le> 57) \<or> (65 \<le> n \<and> n \<le> 90) \<or> (97 \<le> n \<and> n \<le> 122) \<or> n = 95)"
  unfolding word_char_def char_code_eq [of c "CHR ''_''"] by simp

lemma is_digit_code: "is_digit c \<longleftrightarrow> 48 \<le> (of_char c :: nat) \<and> (of_char c :: nat) \<le> 57"
proof -
  have "is_digit c \<longleftrightarrow> (of_char c :: nat) \<in> of_char ` set ''0123456789''"
    unfolding is_digit_def by (simp only: inj_image_mem_iff [OF inj_of_char])
  also have "of_char ` set ''0123456789'' = {48..57::nat}" by (simp add: set_eq_iff) presburger
  finally show ?thesis by simp
qed

lemma of_char_lt: "(of_char c :: nat) < 256"
  using of_char_mod_256 [of c] by (metis mod_less_divisor zero_less_numeral)

lemma code_to_upper: "(of_char (to_upper c) :: nat) = (let n = of_char c in if 97 \<le> n \<and> n \<le> 122 then n - 32 else n)"
  using of_char_lt [of c] by (auto simp: to_upper_def Let_def mod_less)

lemma code_to_lower: "(of_char (to_lower c) :: nat) = (let n = of_char c in if 65 \<le> n \<and> n \<le> 90 then n + 32 else n)"
  by (simp add: to_lower_def Let_def)

lemma case_of_chars:
  "word_char (to_upper c) = word_char c" "word_char (to_lower c) = word_char c"
  "is_digit (to_upper c) = is_digit c"
  unfolding word_char_code is_digit_code code_to_upper code_to_lower Let_def by auto

lemma list_all_capitalize: "list_all word_char (capitalize w) = list_all word_char w"
  by (cases w) (simp_all add: capitalize_def case_of_chars list_all_iff)

lemma concat_words: "concat (str_split sep s) = List.filter (\<lambda>c. c \<noteq> sep) s"
  by (induction s) (auto split: list.splits)

lemma capitalize_concat:
  "list_all word_char (concat (List.map capitalize ws)) = list_all word_char (concat ws)"
  by (induction ws) (simp_all add: list_all_capitalize)

lemma hd_capitalize_concat:
  "concat ws \<noteq> [] \<Longrightarrow> concat (List.map capitalize ws) \<noteq> [] \<and>
     is_digit (hd (concat (List.map capitalize ws))) = is_digit (hd (concat ws))"
  by (induction ws) (auto simp: capitalize_def case_of_chars hd_append split: list.splits)

lemma capitalize_concat_Nil: "concat (List.map capitalize ws) = [] \<longleftrightarrow> concat ws = []"
  by (induction ws) (auto simp: capitalize_def split: list.splits)

lemma filter_dropWhile: "List.filter (\<lambda>c. c \<noteq> x) s = [] \<longleftrightarrow> dropWhile (\<lambda>c. c = x) s = []"
    "dropWhile (\<lambda>c. c = x) s \<noteq> [] \<Longrightarrow> hd (List.filter (\<lambda>c. c \<noteq> x) s) = hd (dropWhile (\<lambda>c. c = x) s)"
  by (induction s) auto

lemma suffix_chars:
  "list_all word_char ''_H''" "list_all word_char ''_HELPER_H''" "list_all word_char ''TestCase1''"
  "list_all word_char ''TestSuite''" "word_char CHR ''s''" "word_char CHR ''_''" "\<not> is_digit CHR ''_''"
  "\<not> is_digit CHR ''-''" "\<not> is_digit CHR ''T''" "\<not> is_digit CHR ''s''" "\<not> is_digit CHR ''_''"
  by (simp_all add: word_char_def is_digit_def)

lemma guard_identifier:
  assumes "list_all name_char n" and "n \<noteq> []" and "list_all word_char suf"
  shows "c_identifier (upper (dash_to_underscore n) @ suf) \<longleftrightarrow> \<not> is_digit (hd n)"
proof -
  have "list_all word_char (upper (dash_to_underscore n))"
    using assms(1) by (auto simp: upper_def dash_to_underscore_def list_all_iff case_of_chars name_char_def suffix_chars)
  moreover have "is_digit (hd (upper (dash_to_underscore n) @ suf)) = is_digit (hd n)"
    using assms(2) by (cases n) (auto simp: upper_def dash_to_underscore_def case_of_chars suffix_chars)
  ultimately show ?thesis using assms by (simp add: c_identifier_def upper_def dash_to_underscore_def)
qed

section \<open>The whole script\<close>

definition target_ok :: "path \<Rightarrow> path \<times> string \<Rightarrow> bool" where
  "target_ok base t \<longleftrightarrow>
     allowed (snd t) \<and> (fst t = base @ [''src''] \<or> prefix (base @ [''contrib'']) (fst t))"

text \<open>The parts of a name of the command line.\<close>

definition name_comps :: "string \<Rightarrow> path" where
  "name_comps arg = path_comps (strip_slashes arg)"

lemma strip_slashes_id: "s \<noteq> [] \<Longrightarrow> hd s \<noteq> CHR ''/'' \<Longrightarrow> last s \<noteq> CHR ''/'' \<Longrightarrow> strip_slashes s = s"
proof -
  assume s: "s \<noteq> []" "hd s \<noteq> CHR ''/''" "last s \<noteq> CHR ''/''"
  have "dropWhile (\<lambda>c. c = CHR ''/'') s = s" using s by (cases s) auto
  moreover have "dropWhile (\<lambda>c. c = CHR ''/'') (rev s) = rev s" using s by (cases s rule: rev_cases) auto
  ultimately show ?thesis by (simp add: strip_slashes_def)
qed

lemma allowed_ends: "allowed n \<Longrightarrow> n \<noteq> [] \<and> hd n \<noteq> CHR ''/'' \<and> last n \<noteq> CHR ''/'' \<and> CHR ''/'' \<notin> set n \<and> n \<noteq> ''.''"
  using allowed_plain [of n] hd_in_set [of n] last_in_set [of n] allowed_dot by (metis)

lemma name_comps_allowed [simp]: "allowed n \<Longrightarrow> name_comps n = [n]"
  using allowed_ends [of n] by (simp add: name_comps_def strip_slashes_id)

lemma name_comps_two: "allowed a \<Longrightarrow> allowed b \<Longrightarrow> name_comps (a @ ''/'' @ b) = [a, b]"
  using allowed_ends [of a] allowed_ends [of b]
  by (simp add: name_comps_def strip_slashes_id path_comps_def str_split_word str_split_no_sep del: allowed_plain)

lemma name_comps_ne: "name_comps arg \<noteq> [] \<Longrightarrow> strip_slashes arg \<noteq> []"
  by (auto simp: name_comps_def path_comps_def)

lemma name_target_one:
  "name_comps arg = [x] \<Longrightarrow> name_target base project q arg =
     (if x = ''src'' then Inl (if project \<noteq> [] then parser_error else IndexError)
      else if x = ''contrib'' then Inl IndexError
      else if \<not> allowed x then Inr (Skipped (Some (Bad_characters x)))
      else Inr (Target (case q of None \<Rightarrow> base @ [''contrib''] | Some r \<Rightarrow> base @ [''contrib''] @ r) x))"
  using name_comps_ne [of arg] by (simp add: name_target_def name_comps_def Let_def split: option.splits)

lemma name_target_two:
  "name_comps arg = [x, y] \<Longrightarrow> name_target base project q arg =
     (if x = ''src'' \<and> project \<noteq> [] then Inl parser_error
      else (let dir = (case q of None \<Rightarrow> base @ [if x = ''src'' then ''src'' else ''contrib''] | Some r \<Rightarrow> base @ [''contrib''] @ r);
                nm = (if x = ''src'' \<or> x = ''contrib'' then y else x)
            in if \<not> allowed nm then Inr (Skipped (Some (Bad_characters nm))) else Inr (Target dir nm)))"
  using name_comps_ne [of arg] by (simp add: name_target_def name_comps_def Let_def split: option.splits)

lemma reserved_names: "allowed ''src''" "allowed ''contrib''"
  by code_simp+

lemma name_target_ok: "name_target base project q arg = Inr (Target mp m) \<Longrightarrow> target_ok base (mp, m)"
  by (auto simp: name_target_def target_ok_def Let_def split: if_splits option.splits)

lemma collect_modules_ok:
  "collect_modules base project q args mods s = (s', r) \<Longrightarrow> list_all (target_ok base) mods \<Longrightarrow>
     tree s' = tree s \<and> (\<forall>ms. r = Inr ms \<longrightarrow> list_all (target_ok base) ms)"
proof (induction base project q args mods arbitrary: s rule: collect_modules.induct)
  case (1 base project q mods)
  then show ?case by (auto simp: sret_def)
next
  case (2 base project q arg args mods)
  show ?case
  proof (cases "name_target base project q arg")
    case (Inl e)
    then show ?thesis using "2.prems" by (auto simp: sraise_def)
  next
    case (Inr t)
    show ?thesis
    proof (cases t)
      case (Skipped m)
      show ?thesis
      proof (cases m)
        case None
        then have "collect_modules base project q args mods s = (s', r)" using "2.prems"(1) Inr Skipped by simp
        from "2.IH"(1) [OF Inr Skipped None this "2.prems"(2)] show ?thesis .
      next
        case (Some msg)
        then have "collect_modules base project q args mods (say msg s) = (s', r)"
          using "2.prems"(1) Inr Skipped by (simp add: sbind_supdate)
        from "2.IH"(2) [OF Inr Skipped Some this "2.prems"(2)] show ?thesis by (simp add: say_def)
      qed
    next
      case (Target mp m)
      then have "list_all (target_ok base) (mods @ [(mp, m)])" using Inr name_target_ok "2.prems"(2) by simp
      moreover have "collect_modules base project q args (mods @ [(mp, m)]) s = (s', r)"
        using "2.prems"(1) Inr Target by simp
      ultimately show ?thesis using "2.IH"(3) [OF Inr Target] by blast
    qed
  qed
qed

text \<open>What the creation of a module may change: nothing that exists, and nothing outside.\<close>

definition only_below :: "path \<Rightarrow> 'm fs_state \<Rightarrow> 'm fs_state \<Rightarrow> bool" where
  "only_below base s s' \<longleftrightarrow>
     (\<forall>q. tree s q \<noteq> None \<longrightarrow> tree s' q = tree s q) \<and>
     (\<forall>q. \<not> strict_prefix (base @ [''src'']) q \<longrightarrow> \<not> strict_prefix (base @ [''contrib'']) q \<longrightarrow> tree s' q = tree s q)"

lemma only_below_refl: "tree s' = tree s \<Longrightarrow> only_below base s s'"
  by (simp add: only_below_def)

lemma only_below_trans: "only_below base s t \<Longrightarrow> only_below base t u \<Longrightarrow> only_below base s u"
  unfolding only_below_def by metis

lemma make_module_only_below:
  assumes wf: "tree_wf (tree s)" and ok: "target_ok base (modpath, n)"
    and dirs: "is_dir s (base @ [''src''])" "is_dir s (base @ [''contrib''])"
    and run: "make_module os modpath n s = (s', r)"
  shows "only_below base s s'"
proof -
  have n: "allowed n" using ok by (simp add: target_ok_def)
  have "tree s' q = tree s q"
    if out: "\<not> strict_prefix (base @ [''src'']) q" "\<not> strict_prefix (base @ [''contrib'']) q" for q
  proof (rule ccontr)
    assume ch: "tree s' q \<noteq> tree s q"
    then have none: "tree s q = None" using make_module_keeps [OF wf n run, of q] by (cases "tree s q") auto
    have above: "\<not> prefix q (base @ [d])" if "is_dir s (base @ [d])" for d
      using tree_wf_below [OF wf none] that by (auto simp: is_dir_def)
    have root: "modpath = base @ [''src''] \<or> prefix (base @ [''contrib'']) modpath"
      using ok by (simp add: target_ok_def)
    have "\<not> prefix (modpath @ [n]) q"
    proof
      assume "prefix (modpath @ [n]) q"
      then have "strict_prefix modpath q" by (auto simp: strict_prefix_def prefix_def)
      then show False using root out prefix_order.le_less_trans [of "base @ [''contrib'']" modpath q] by auto
    qed
    then have q: "prefix q modpath"
      using make_module_effects [OF wf n run, THEN conjunct1, THEN spec [of _ q]] ch by simp
    from root show False
    proof
      assume "modpath = base @ [''src'']"
      then show False using q above [OF dirs(1)] by simp
    next
      assume "prefix (base @ [''contrib'']) modpath"
      then have "prefix q (base @ [''contrib'']) \<or> prefix (base @ [''contrib'']) q"
        using q by (rule prefix_same_cases [rotated])
      then have "prefix q (base @ [''contrib''])" using out(2) unfolding strict_prefix_def by blast
      then show False using above [OF dirs(2)] by simp
    qed
  qed
  then show ?thesis using make_module_keeps [OF wf n run] by (simp add: only_below_def)
qed

lemma make_modules_only_below:
  "list_all (target_ok base) mods \<Longrightarrow> tree_wf (tree s) \<Longrightarrow> is_dir s (base @ [''src'']) \<Longrightarrow>
     is_dir s (base @ [''contrib'']) \<Longrightarrow> make_modules os mods s = (s', r) \<Longrightarrow> only_below base s s'"
proof (induction os mods arbitrary: s rule: make_modules.induct)
  case (1 os)
  then show ?case by (simp add: sret_def only_below_refl)
next
  case (2 os modpath n mods)
  from sbind_cases [OF "2.prems"(5) [unfolded make_modules.simps]] show ?case
  proof (elim disjE exE conjE)
    fix e assume "make_module os modpath n s = (s', Inl e)"
    then show ?thesis using make_module_only_below "2.prems" by fastforce
  next
    fix t ok
    assume t: "make_module os modpath n s = (t, Inr ok)"
      and rest: "(if ok then make_modules os mods else sret False) t = (s', r)"
    have b: "only_below base s t" using make_module_only_below [OF _ _ _ _ t] "2.prems" by simp
    have wf: "tree_wf (tree t)" using make_module_wf [OF _ _ t] "2.prems" by (simp add: target_ok_def)
    have dirs: "is_dir t (base @ [''src''])" "is_dir t (base @ [''contrib''])"
      using b "2.prems"(3, 4) by (auto simp: only_below_def is_dir_def)
    show ?thesis
    proof (cases ok)
      case True
      then have "only_below base t s'" using "2.IH" [OF True _ wf dirs] rest "2.prems"(1) by simp
      then show ?thesis using b only_below_trans by blast
    next
      case False
      then show ?thesis using b rest by (simp add: sret_def)
    qed
  qed
qed

lemma create_module_main_effects:
  assumes wf: "tree_wf (tree s)" and run: "create_module_main os project names s = (s', r)"
  shows "only_below (cwd os) s s' \<and> (\<forall>k. r = Inr k \<longrightarrow> k = 0)"
proof (cases "is_dir s (cwd os @ [''src'']) \<and> is_dir s (cwd os @ [''contrib''])")
  case False
  then show ?thesis using run by (auto simp: create_module_main_def only_below_refl)
next
  case dirs: True
  show ?thesis
  proof (cases "project_parts project")
    case (Inl e)
    then show ?thesis using run dirs by (auto simp: create_module_main_def only_below_refl)
  next
    case (Inr q)
    then have "sbind (collect_modules (cwd os) project q names []) (\<lambda>mods.
        sbind (make_modules os mods) (\<lambda>ok.
        sbind (if ok then supdate (say Created_all) else sret ()) (\<lambda>_. sret 0))) s = (s', r)"
      using run dirs by (simp add: create_module_main_def)
    from sbind_cases [OF this] show ?thesis
    proof (elim disjE exE conjE)
      fix e assume "collect_modules (cwd os) project q names [] s = (s', Inl e)" and "r = Inl e"
      then show ?thesis using collect_modules_ok only_below_refl by fastforce
    next
      fix t mods
      assume t: "collect_modules (cwd os) project q names [] s = (t, Inr mods)"
        and rest: "sbind (make_modules os mods) (\<lambda>ok.
          sbind (if ok then supdate (say Created_all) else sret ()) (\<lambda>_. sret 0)) t = (s', r)"
      have t': "tree t = tree s" "list_all (target_ok (cwd os)) mods" using collect_modules_ok [OF t] by auto
      have dirs': "is_dir t (cwd os @ [''src''])" "is_dir t (cwd os @ [''contrib''])"
        using dirs t' by (auto simp: is_dir_def)
      obtain u b where u: "make_modules os mods t = (u, b)" by fastforce
      have below: "only_below (cwd os) t u" using make_modules_only_below [OF t'(2) _ dirs' u] wf t' by simp
      have "tree s' = tree u \<and> (\<forall>k. r = Inr k \<longrightarrow> k = 0)"
        using rest u by (cases b) (auto simp: sbind_def sret_def supdate_def say_def split: if_splits)
      then show ?thesis using below t' by (simp add: only_below_def)
    qed
  qed
qed

section \<open>Properties\<close>

text \<open>C9. Whatever the operating system refuses, creating a module is all or nothing.
  When it returns true the module directory did not exist and now holds
  exactly its files; when it returns false nothing at or below the module directory
  has changed, which is then absent or as it was; it raises only when the removal of a
  half-made module is itself refused.  Elsewhere it only makes missing parents.\<close>

theorem module_all_or_nothing:
  assumes "tree_wf (tree s)" and "allowed n" and "make_module os modpath n s = (s', r)"
  shows "(\<forall>q. \<not> prefix (modpath @ [n]) q \<longrightarrow>
      tree s' q = tree s q \<or> (tree s q = None \<and> tree s' q = Some Directory \<and> prefix q modpath))
    \<and> (r = Inr True \<longrightarrow> tree s (modpath @ [n]) = None \<and>
         tree s' = add_entries (scaffold os (modpath @ [n]) n) (with_dirs (modpath @ [n]) (tree s)))
    \<and> (r = Inr False \<longrightarrow> (\<forall>q. prefix (modpath @ [n]) q \<longrightarrow> tree s' q = tree s q))
    \<and> (\<forall>e. r = Inl e \<longrightarrow> e = OSError \<and> refuses os (Remove_tree (modpath @ [n])) \<and> tree s (modpath @ [n]) = None)"
  using assms by (rule make_module_effects)

definition example_tree :: "message fs_state" where
  "example_tree =
     \<lparr>tree = (\<lambda>q. if q \<in> {[], [''ns''], [''ns'', ''src''], [''ns'', ''contrib'']} then Some Directory else None),
      printed = []\<rparr>"

definition example_os :: "(os_call \<Rightarrow> bool) \<Rightarrow> os_env" where
  "example_os refused = \<lparr>cwd = [''ns''], refuses = refused, written = (\<lambda>q. 0), survives = (\<lambda>q. False)\<rparr>"

lemma example_tree_wf: "tree_wf (tree example_tree)"
  unfolding tree_wf_def example_tree_def by auto

lemma example_names [simp]: "allowed ''m''" "allowed ''mod''" "\<not> allowed ''m.d''"
  by code_simp+

text \<open>The file \<open>wscript\<close> cannot be written: the module directory is removed again.\<close>

lemma module_all_or_nothing_witness:
  "snd (make_module (example_os (\<lambda>c. c = Write_file [''ns'', ''contrib'', ''m'', ''wscript'']))
     [''ns'', ''contrib''] ''m'' example_tree) = Inr False \<and>
   tree (fst (make_module (example_os (\<lambda>c. c = Write_file [''ns'', ''contrib'', ''m'', ''wscript'']))
     [''ns'', ''contrib''] ''m'' example_tree)) [''ns'', ''contrib'', ''m''] = None"
proof -
  define os where "os = example_os (\<lambda>c. c = Write_file [''ns'', ''contrib'', ''m'', ''wscript''])"
  obtain c where c: "py_format [(''MODULE'', ''m'')] (template_text wscript_template) = Inr c"
    using py_format_lines [OF _ wscript_template_ok, of "[(''MODULE'', ''m'')]"] by auto
  define p where "p = [''ns'', ''contrib'', ''m'']"
  define s0 where "s0 = say (Creating p) example_tree"
  define s1 where "s1 = set_entry p Directory s0"
  define s2 where "s2 = set_entry (p @ [''wscript'']) (Text_file []) (set_entry (p @ [''wscript'']) (Text_file []) s1)"
  have no: "refuses os x \<longleftrightarrow> x = Write_file (p @ [''wscript''])" and wr: "written os q = 0" for x q
    by (simp_all add: os_def example_os_def p_def)
  have t: "tree s0 = tree example_tree" by (simp add: s0_def say_def)
  have at: "tree s0 p = None" "tree s0 [''ns'', ''contrib''] = Some Directory" "tree s0 (p @ [''wscript'']) = None"
    unfolding t by (simp_all add: p_def example_tree_def)
  have up: "path_mkdir os False p s0 = (s1, Inr ())"
    using at by (subst path_mkdir.simps) (simp add: mkdir_here_def os_mkdir_def no exists_path_def s1_def p_def)
  have fail: "make_wscript os p ''m'' s1 = (s2, Inl OSError)"
    using at c by (simp add: make_wscript_def create_file_def sbind_def open_to_write_def write_text_def no wr s1_def s2_def
        is_dir_def set_entry_def p_def)
  have gen: "generate os p ''m'' s0 = (s2, Inl OSError)"
    by (simp add: generate_def sbind_def up make_functions_def fail)
  obtain s' r where run: "make_module os [''ns'', ''contrib''] ''m'' example_tree = (s', r)" by fastforce
  have "r = Inr False"
    using run gen at
    by (simp add: make_module_cases p_def [symmetric] s0_def [symmetric] t no rmtree_def is_dir_def s2_def s1_def set_entry_def
        split: if_splits)
  then show ?thesis
    using module_all_or_nothing [OF example_tree_wf _ run] run unfolding os_def by (auto simp: example_tree_def)
qed

text \<open>When nothing is refused, a module is created exactly when its directory does not
  exist and no file is in the way of a parent.  It then has the fourteen entries
  of the list, every file the text of a template with the name of the module in it.\<close>

theorem module_created:
  assumes os: "willing os" and wf: "tree_wf (tree s)" and n: "allowed n"
    and run: "make_module os modpath n s = (s', r)"
  shows "r = Inr (tree s (modpath @ [n]) = None \<and> free_way modpath (tree s))
    \<and> List.map fst (scaffold os (modpath @ [n]) n) = List.map ((@) (modpath @ [n]))
        [[''wscript''], [''model''], [''model'', n @ ''.cc''], [''model'', n @ ''.h''],
         [''test''], [''test'', n @ ''-test-suite.cc''],
         [''helper''], [''helper'', n @ ''-helper.cc''], [''helper'', n @ ''-helper.h''],
         [''examples''], [''examples'', ''wscript''], [''examples'', n @ ''-example.cc''],
         [''doc''], [''doc'', n @ ''.rst'']]
    \<and> (\<forall>(q, e) \<in> set (scaffold os (modpath @ [n]) n). (r = Inr True \<longrightarrow> tree s' q = Some e) \<and>
         (e = Directory \<or> (\<exists>t kw c. e = Text_file c \<and> dget kw ''MODULE'' = Some n \<and>
            py_format kw (template_text t) = Inr c)))"
proof (intro conjI)
  define p where "p = modpath @ [n]"
  define s0 where "s0 = say (Creating p) s"
  have s0: "tree s0 = tree s" by (simp add: s0_def say_def)
  obtain s1 g where gen: "generate os p n s0 = (s1, g)" by fastforce
  have "r = Inr (tree s p = None \<and> free_way modpath (tree s))"
  proof (cases "tree s p = None")
    case False
    then show ?thesis using run by (auto simp: make_module_cases [OF n] p_def)
  next
    case new: True
    show ?thesis
    proof (cases "free_way modpath (tree s)")
      case True
      have way: "free_way p (tree s0)" using True new by (auto simp: free_way_def p_def s0 prefix_snoc)
      have "is_ok g" using generate_returns [OF os n _ way] gen wf new s0 by simp
      then show ?thesis using run gen new True
        by (auto simp: make_module_cases [OF n] p_def s0_def is_ok_iff)
    next
      case False
      then obtain q where "prefix q modpath" and q: "\<not> (tree s q = None \<or> tree s q = Some Directory)"
        by (auto simp: free_way_def)
      then have "prefix q p" by (simp add: p_def)
      then have "g \<noteq> Inr u" for u using generate_way [of s0 os p n s1 u q] gen wf q s0 by auto
      then obtain e where e: "g = Inl e" by (cases g) auto
      then have "r \<noteq> Inr True" using run gen new
        by (auto simp: make_module_cases [OF n] p_def s0_def split: prod.splits sum.splits)
      moreover have "r \<noteq> Inl e2" for e2
        using make_module_effects [OF wf n run] os by (auto simp: willing_def)
      ultimately show ?thesis using False by (cases r) auto
    qed
  qed
  then show "r = Inr (tree s (modpath @ [n]) = None \<and> free_way modpath (tree s))" by (simp add: p_def)
next
  show "List.map fst (scaffold os (modpath @ [n]) n) = List.map ((@) (modpath @ [n]))
        [[''wscript''], [''model''], [''model'', n @ ''.cc''], [''model'', n @ ''.h''],
         [''test''], [''test'', n @ ''-test-suite.cc''],
         [''helper''], [''helper'', n @ ''-helper.cc''], [''helper'', n @ ''-helper.h''],
         [''examples''], [''examples'', ''wscript''], [''examples'', n @ ''-example.cc''],
         [''doc''], [''doc'', n @ ''.rst'']]"
    by (rule scaffold_paths)
next
  have at: "tree s' q = Some e" if "r = Inr True" "(q, e) \<in> set (scaffold os (modpath @ [n]) n)" for q e
  proof -
    have "tree s' = add_entries (scaffold os (modpath @ [n]) n) (with_dirs (modpath @ [n]) (tree s))"
      using make_module_effects [OF wf n run] that(1) by blast
    then show ?thesis using add_entries_at [OF scaffold_distinct] that(2) scaffold_distinct
      by (simp add: map_of_is_SomeI)
  qed
  show "\<forall>(q, e) \<in> set (scaffold os (modpath @ [n]) n). (r = Inr True \<longrightarrow> tree s' q = Some e) \<and>
         (e = Directory \<or> (\<exists>t kw c. e = Text_file c \<and> dget kw ''MODULE'' = Some n \<and>
            py_format kw (template_text t) = Inr c))"
    using at scaffold_texts unfolding from_template_def by blast
qed

lemma module_created_witness:
  "snd (make_module (example_os (\<lambda>c. False)) [''ns'', ''contrib'', ''q''] ''mod'' example_tree) = Inr True \<and>
   snd (make_module (example_os (\<lambda>c. False)) [''ns''] ''src'' example_tree) = Inr False"
proof -
  have os: "willing (example_os (\<lambda>c. False))" by (simp add: willing_def example_os_def)
  have src: "allowed ''src''" by code_simp
  have way: "free_way p (tree example_tree)" for p by (simp add: free_way_def example_tree_def)
  have new: "tree example_tree [''ns'', ''contrib'', ''q'', ''mod''] = None" "tree example_tree [''ns'', ''src''] \<noteq> None"
    by (simp_all add: example_tree_def)
  obtain s1 r1 where run1: "make_module (example_os (\<lambda>c. False)) [''ns'', ''contrib'', ''q''] ''mod'' example_tree = (s1, r1)"
    by fastforce
  obtain s2 r2 where run2: "make_module (example_os (\<lambda>c. False)) [''ns''] ''src'' example_tree = (s2, r2)" by fastforce
  show ?thesis
    using module_created [OF os example_tree_wf _ run1] module_created [OF os example_tree_wf src run2] run1 run2 way new
    by simp
qed

text \<open>C14. The script never changes anything that exists, whatever the operating system
  refuses and whatever its arguments are, and adds nothing outside of \<open>src\<close> and
  \<open>contrib\<close>.  Its status is 0 whenever no exception leaves it: when a module cannot be
  created it stops there, reports it and still returns 0.\<close>

theorem script_overwrites_nothing:
  assumes "tree_wf (tree s)" and "create_module_main os project names s = (s', r)"
  shows "(\<forall>q. tree s q \<noteq> None \<longrightarrow> tree s' q = tree s q)
    \<and> (\<forall>q. \<not> strict_prefix (cwd os @ [''src'']) q \<longrightarrow> \<not> strict_prefix (cwd os @ [''contrib'']) q \<longrightarrow>
         tree s' q = tree s q)
    \<and> (script_status r = 0 \<longleftrightarrow> is_ok r)"
  using create_module_main_effects [OF assms]
  by (auto simp: only_below_def script_status_def split: sum.splits)

lemma script_overwrites_nothing_witness:
  "script_status (snd (create_module_main (example_os (\<lambda>c. True)) [] [''mod''] example_tree)) = 0 \<and>
   tree (fst (create_module_main (example_os (\<lambda>c. True)) [] [''mod''] example_tree)) [''ns'', ''src''] = Some Directory"
proof -
  define os where "os = example_os (\<lambda>c. True)"
  define p where "p = [''ns'', ''contrib'', ''mod'']"
  have at: "tree (say (Creating p) example_tree) p = None" "tree example_tree p = None"
      "is_dir example_tree [''ns'', ''src'']" "is_dir example_tree [''ns'', ''contrib'']"
      "tree example_tree [''ns'', ''src''] = Some Directory"
    by (simp_all add: p_def example_tree_def say_def is_dir_def)
  have no: "refuses os c" and cwd: "cwd os = [''ns'']" for c by (simp_all add: os_def example_os_def)
  have up: "path_mkdir os False p (say (Creating p) example_tree) = (say (Creating p) example_tree, Inl OSError)"
    by (subst path_mkdir.simps) (simp add: mkdir_here_def os_mkdir_def no)
  have made: "make_module os [''ns'', ''contrib''] ''mod'' example_tree =
      (say (Creating_failed ''mod'' OSError) (say (Creating p) example_tree), Inr False)"
    using at up by (simp add: make_module_cases generate_def sbind_def p_def [symmetric] exists_path_def)
  obtain s' r where run: "create_module_main os [] [''mod''] example_tree = (s', r)" by fastforce
  have "is_ok r"
    using run made at
    by (auto simp: create_module_main_def cwd project_parts_def sbind_def name_target_one sret_def)
  then show ?thesis using script_overwrites_nothing [OF example_tree_wf run] run at(5) unfolding os_def by auto
qed

text \<open>Where a name goes.  A plain name and a name below \<open>contrib\<close> go to \<open>contrib\<close>, a name
  below \<open>src\<close> to \<open>src\<close>; with a project both of the first go to its directory and the third ends
  the script.  Of a name in any other directory the rest is silently dropped and
  the directory itself is created as a module.  \<open>src\<close> and \<open>contrib\<close> alone raise.\<close>

theorem module_targets:
  assumes n: "allowed n" "n \<noteq> ''src''" "n \<noteq> ''contrib''" and m: "allowed m"
  shows "name_target base [] None n = Inr (Target (base @ [''contrib'']) n)
    \<and> name_target base [] None (''contrib/'' @ m) = Inr (Target (base @ [''contrib'']) m)
    \<and> name_target base [] None (''src/'' @ m) = Inr (Target (base @ [''src'']) m)
    \<and> name_target base [] None (n @ ''/'' @ m) = Inr (Target (base @ [''contrib'']) n)
    \<and> (\<forall>project q. project \<noteq> [] \<longrightarrow>
         name_target base project (Some q) n = Inr (Target (base @ [''contrib''] @ q) n) \<and>
         name_target base project (Some q) (''contrib/'' @ m) = Inr (Target (base @ [''contrib''] @ q) m) \<and>
         name_target base project (Some q) (''src/'' @ m) = Inl parser_error)
    \<and> (\<forall>d \<in> {''src'', ''contrib'', ''.''}. name_target base [] None d = Inl IndexError)"
proof -
  have one: "name_comps n = [n]" "name_comps ''src'' = [''src'']" "name_comps ''contrib'' = [''contrib'']"
    using n(1) reserved_names by simp_all
  have two: "name_comps (''contrib/'' @ m) = [''contrib'', m]" "name_comps (''src/'' @ m) = [''src'', m]"
      "name_comps (n @ ''/'' @ m) = [n, m]"
    using name_comps_two [OF reserved_names(2) m] name_comps_two [OF reserved_names(1) m] name_comps_two [OF n(1) m]
    by simp_all
  have dot: "name_target base [] None ''.'' = Inl IndexError"
    by (simp add: name_target_def strip_slashes_def path_comps_def Let_def)
  show ?thesis
    unfolding one [THEN name_target_one] two [THEN name_target_two] ball_simps using n m dot by simp
qed

lemma module_targets_witness:
  "name_target [''ns''] [] None ''mod/m'' = Inr (Target [''ns'', ''contrib''] ''mod'')"
proof -
  have ne: "''mod'' \<noteq> ''src''" "''mod'' \<noteq> ''contrib''" by simp_all
  show ?thesis using module_targets [OF example_names(2) ne example_names(1), of "[''ns'']"] by simp
qed

text \<open>The help text promises that all generated files are valid C++.  For a name without a
  newline the include guards are identifiers exactly when the name does not begin
  with a digit, and the names of the test classes exactly when the first character
  after leading dashes is no digit; the name of the test suite object always is.\<close>

theorem generated_identifiers:
  assumes n: "allowed n" "newline \<notin> set n"
  shows "(c_identifier (upper (dash_to_underscore n) @ ''_H'') \<longleftrightarrow> \<not> is_digit (hd n))
    \<and> (c_identifier (upper (dash_to_underscore n) @ ''_HELPER_H'') \<longleftrightarrow> \<not> is_digit (hd n))
    \<and> (c_identifier (capitalized_name n @ ''TestCase1'') \<longleftrightarrow>
         \<not> (\<exists>c cs. dropWhile (\<lambda>c. c = CHR ''-'') n = c # cs \<and> is_digit c))
    \<and> c_identifier (''s'' @ compound_name n @ ''TestSuite'')"
proof -
  have chars: "list_all name_char n" and ne: "n \<noteq> []"
    using allowed_without_newline [OF n] by blast+
  have bare: "list_all word_char (concat (str_split CHR ''-'' n))"
    using chars unfolding concat_words list_all_iff name_char_def by auto
  have guards: "c_identifier (upper (dash_to_underscore n) @ ''_H'') \<longleftrightarrow> \<not> is_digit (hd n)"
      "c_identifier (upper (dash_to_underscore n) @ ''_HELPER_H'') \<longleftrightarrow> \<not> is_digit (hd n)"
    by (rule guard_identifier [OF chars ne], rule suffix_chars)+
  have "is_digit (hd (capitalized_name n @ ''TestCase1'')) \<longleftrightarrow>
      (\<exists>c cs. dropWhile (\<lambda>c. c = CHR ''-'') n = c # cs \<and> is_digit c)"
  proof (cases "dropWhile (\<lambda>c. c = CHR ''-'') n")
    case Nil
    then have "capitalized_name n = []"
      by (simp add: capitalized_name_def capitalize_concat_Nil concat_words filter_dropWhile(1) del: concat_eq_Nil_conv)
    then show ?thesis unfolding Nil by (simp add: suffix_chars)
  next
    case (Cons c cs)
    then have "concat (str_split CHR ''-'' n) \<noteq> []" by (simp add: concat_words filter_dropWhile(1) del: concat_eq_Nil_conv)
    from hd_capitalize_concat [OF this] show ?thesis
      using Cons filter_dropWhile(2) [of "CHR ''-''" n]
      by (simp add: capitalized_name_def concat_words del: concat_eq_Nil_conv)
  qed
  moreover have "list_all word_char (capitalized_name n)"
    using bare by (simp add: capitalized_name_def capitalize_concat)
  ultimately have "c_identifier (capitalized_name n @ ''TestCase1'') \<longleftrightarrow>
      \<not> (\<exists>c cs. dropWhile (\<lambda>c. c = CHR ''-'') n = c # cs \<and> is_digit c)"
    by (simp add: c_identifier_def suffix_chars [simplified])
  moreover have "list_all word_char (compound_name n)"
  proof (cases "str_split CHR ''-'' n")
    case Nil
    then show ?thesis by simp
  next
    case (Cons w ws)
    then show ?thesis using bare capitalize_concat [of ws] by (simp add: compound_name_def)
  qed
  then have "c_identifier (''s'' @ compound_name n @ ''TestSuite'')"
    by (simp add: c_identifier_def suffix_chars [simplified] suffix_chars)
  ultimately show ?thesis using guards by blast
qed

lemma generated_identifiers_witness:
  "\<not> c_identifier (capitalized_name ''-3d'' @ ''TestCase1'') \<and> c_identifier (upper (dash_to_underscore ''-3d'') @ ''_H'')"
proof -
  have "allowed ''-3d''" "\<not> is_digit CHR ''-''" "is_digit CHR ''3''" by code_simp+
  then show ?thesis using generated_identifiers [of "''-3d''"] by simp
qed

end
