(* ===== verification/RunProgram.thy ===== *)
theory RunProgram
  imports PyPath
begin

text \<open>
  \<open>wutils.py\<close>: how the build tool runs a program.  The program of a name, the
  environment of the process, the command under a debugger, under valgrind or plain, and what
  its exit status becomes.  Starting a process and splitting a command line
  (\<open>shlex.split\<close>) are parameters, as are the objects of the build.
\<close>

section \<open>Relative paths\<close>

text \<open>
  The function that stands in for \<open>os.path.relpath\<close> where that is missing: it keeps the
  empty parts of the paths that it splits.
\<close>

definition fallback_relpath :: "string \<Rightarrow> string \<Rightarrow> string \<Rightarrow> string py_result" where
  "fallback_relpath cwd path start =
     (if path = [] then Inl ValueError
      else (let start_list = str_split CHR ''/'' (abspath cwd start);
                path_list = str_split CHR ''/'' (abspath cwd path);
                i = common_len start_list path_list;
                rel_list = replicate (length start_list - i) ''..'' @ drop i path_list
            in Inr (if rel_list = [] then ''.'' else join_all rel_list)))"

section \<open>Finding a program\<close>

text \<open>
  A task generator of the build with the source and the build directory of its
  \<open>path\<close>; \<open>pg_exec\<close> is the file of its target.
\<close>

record program =
  pg_name :: string
  pg_path :: string
  pg_bld_path :: string
  pg_exec :: string
  is_ns3_program :: bool

definition in_launch_dir :: "string \<Rightarrow> program \<Rightarrow> bool" where
  "in_launch_dir launch_dir obj \<longleftrightarrow>
     startswith (pg_path obj) launch_dir \<or> startswith (pg_bld_path obj) launch_dir"

definition program_names :: "string \<Rightarrow> program \<Rightarrow> string list" where
  "program_names launch_dir obj =
     [pg_name obj, path_join (relpath launch_dir (pg_path obj) launch_dir) (pg_name obj)]"

text \<open>The loop returns the program, or raises with the names that it has seen.\<close>

fun find_loop :: "string \<Rightarrow> string \<Rightarrow> string list \<Rightarrow> program list \<Rightarrow> string list + program" where
  "find_loop launch_dir program_name found [] = Inl found"
| "find_loop launch_dir program_name found (obj # objs) =
     (if \<not> is_ns3_program obj then find_loop launch_dir program_name found objs
      else if \<not> in_launch_dir launch_dir obj then find_loop launch_dir program_name found objs
      else (let names = program_names launch_dir obj; found = found @ names
            in if program_name \<in> set names then Inr obj else find_loop launch_dir program_name found objs))"

section \<open>The environment of the process\<close>

record build =
  platform :: string
  pathsep :: string
  environ :: "(string, string) dict"
  ns3_module_path :: "string list"
  ns3_executable_path :: "string list"
  pymoddir :: string
  pyvizdir :: string
  valgrind_programs :: "string list"
  python_programs :: "string list"
  tasks :: "program list"
  launch_dir :: string
  default_cwd :: string

definition find_program :: "build \<Rightarrow> string \<Rightarrow> string list + program" where
  "find_program bld program_name = find_loop (abspath (launch_dir bld) (launch_dir bld)) program_name [] (tasks bld)"

definition pathvar :: "string \<Rightarrow> string" where
  "pathvar p =
     (if p = ''linux2'' \<or> p = ''linux'' then ''LD_LIBRARY_PATH''
      else if p = ''darwin'' then ''DYLD_LIBRARY_PATH''
      else if p = ''win32'' then ''PATH''
      else if p = ''cygwin'' then ''PATH''
      else if startswith p ''freebsd'' then ''LD_LIBRARY_PATH''
      else ''LD_LIBRARY_PATH'')"

definition update_env :: "(string, string) dict \<Rightarrow> (string, string) dict \<Rightarrow> (string, string) dict" where
  "update_env kvs d = fold (\<lambda>(k, v). dset k v) kvs d"

definition prepend_dirs :: "string \<Rightarrow> string \<Rightarrow> string list \<Rightarrow> (string, string) dict \<Rightarrow> (string, string) dict" where
  "prepend_dirs sep var dirs d =
     (case dget d var of
        Some v \<Rightarrow> dset var (join sep (dirs @ [v])) d
      | None \<Rightarrow> dset var (join sep dirs) d)"

definition get_proc_env :: "build \<Rightarrow> (string, string) dict option \<Rightarrow> (string, string) dict" where
  "get_proc_env bld os_env =
     (let proc_env = (case os_env of None \<Rightarrow> environ bld | Some kvs \<Rightarrow> update_env kvs (environ bld));
          proc_env = prepend_dirs (pathsep bld) (pathvar (platform bld)) (ns3_module_path bld) proc_env;
          proc_env = prepend_dirs (pathsep bld) ''PYTHONPATH'' [pymoddir bld, pyvizdir bld] proc_env
      in prepend_dirs (pathsep bld) ''PATH'' (ns3_executable_path bld) proc_env)"

section \<open>Running a command\<close>

text \<open>All errors but the last are a \<open>WafError\<close>.\<close>

datatype run_error =
    Conflicting string string | No_valgrind | Killed_by string | Exited int | Start_failed
  | Not_found "string list" | Raised py_error

record run_options =
  opt_valgrind :: bool
  opt_gdb :: bool
  command_template :: "string option"
  cwd_launch :: "string option"

definition has_template :: "run_options \<Rightarrow> bool" where
  "has_template o' \<longleftrightarrow> command_template o' \<noteq> None \<and> command_template o' \<noteq> Some []"

text \<open>A process that was started: its status, and the text of its standard error where that is read.\<close>

record run_process =
  exit_status :: int
  err_text :: "string py_result"

text \<open>
  The operating system: how a process starts with its arguments, environment and
  directory, whether there is a \<open>WindowsError\<close>, and the constants of the module \<open>signal\<close>.
\<close>

record run_os =
  popen :: "string list \<Rightarrow> (string, string) dict \<Rightarrow> string option \<Rightarrow> run_process py_result"
  windows :: bool
  signals :: "(string \<times> int) list"

text \<open>\<open>for line in stderrdata\<close> runs over the characters of the text.\<close>

definition leak_reported :: "string \<Rightarrow> bool" where
  "leak_reported stderrdata \<longleftrightarrow> list_ex (\<lambda>line. contains line ''== LEAK SUMMARY'') (List.map (\<lambda>c. [c]) stderrdata)"

definition run_valgrind :: "run_os \<Rightarrow> build \<Rightarrow> string list \<Rightarrow> (string, string) dict \<Rightarrow> string option \<Rightarrow> run_error + int" where
  "run_valgrind ros bld argv proc_env cwd =
     (case valgrind_programs bld of
        [] \<Rightarrow> Inl No_valgrind
      | vg # vgs \<Rightarrow>
          (case popen ros ([vg, ''--leak-check=full'', ''--show-reachable=yes'', ''--error-exitcode=1''] @ argv) proc_env cwd of
             Inl e \<Rightarrow> Inl (Raised e)
           | Inr proc \<Rightarrow>
               (case err_text proc of
                  Inl e \<Rightarrow> Inl (Raised e)
                | Inr stderrdata \<Rightarrow>
                    Inr (if exit_status proc = 0 \<and> leak_reported stderrdata then 1 else exit_status proc))))"

definition run_plain :: "run_os \<Rightarrow> string list \<Rightarrow> (string, string) dict \<Rightarrow> string option \<Rightarrow> run_error + int" where
  "run_plain ros argv proc_env cwd =
     (case popen ros argv proc_env cwd of
        Inr proc \<Rightarrow> Inr (exit_status proc)
      | Inl e \<Rightarrow> Inl (if windows ros \<and> e = OSError then Start_failed else Raised e))"

definition is_signal_name :: "string \<Rightarrow> bool" where
  "is_signal_name n \<longleftrightarrow> length n > 3 \<and> take 3 n = ''SIG'' \<and> n ! 3 \<noteq> CHR ''_''"

definition signame :: "run_os \<Rightarrow> int \<Rightarrow> string option" where
  "signame ros retval =
     (if retval < 0
      then map_option fst (List.find (\<lambda>(n, v). is_signal_name n \<and> v = - retval) (signals ros))
      else None)"

definition check_status :: "run_os \<Rightarrow> int \<Rightarrow> run_error + int" where
  "check_status ros retval =
     (if retval \<noteq> 0
      then (case signame ros retval of Some n \<Rightarrow> Inl (Killed_by n) | None \<Rightarrow> Inl (Exited retval))
      else Inr retval)"

definition run_argv :: "run_os \<Rightarrow> build \<Rightarrow> run_options \<Rightarrow> string list \<Rightarrow> (string, string) dict option \<Rightarrow>
    string option \<Rightarrow> bool \<Rightarrow> run_error + int" where
  "run_argv ros bld o' argv os_env cwd force_no_valgrind =
     (let proc_env = get_proc_env bld os_env
      in if opt_valgrind o' \<and> has_template o' then Inl (Conflicting ''--command-template'' ''--valgrind'')
         else if opt_gdb o' \<and> has_template o' then Inl (Conflicting ''--command-template'' ''--gdb'')
         else if opt_gdb o' \<and> opt_valgrind o' then Inl (Conflicting ''--valgrind'' ''--gdb'')
         else if opt_gdb o' then
           (case popen ros ([''gdb'', ''--args''] @ argv) proc_env cwd of
              Inl e \<Rightarrow> Inl (Raised e)
            | Inr proc \<Rightarrow> Inr (exit_status proc))
         else if opt_valgrind o' \<and> \<not> force_no_valgrind then
           rbind (run_valgrind ros bld argv proc_env cwd) (check_status ros)
         else rbind (run_plain ros argv proc_env cwd) (check_status ros))"

section \<open>The command of a program\<close>

definition get_command_template :: "run_options \<Rightarrow> string list \<Rightarrow> string" where
  "get_command_template o' arguments =
     foldl (\<lambda>cmd arg. cmd @ '' '' @ arg)
       (if has_template o' then the (command_template o') else ''%s'') arguments"

text \<open>
  \<open>template % (path,)\<close> where the template has the directives \<open>%s\<close> and \<open>%%\<close>; others are
  refused as a wrong type.
\<close>

fun percent_format :: "bool \<Rightarrow> string \<Rightarrow> string \<Rightarrow> string py_result" where
  "percent_format used path [] = (if used then Inr [] else Inl TypeError)"
| "percent_format used path [c] = (if c = CHR ''%'' then Inl ValueError else rbind (percent_format used path []) (\<lambda>r. Inr (c # r)))"
| "percent_format used path (c # d # cs) =
     (if c \<noteq> CHR ''%'' then rbind (percent_format used path (d # cs)) (\<lambda>r. Inr (c # r))
      else if d = CHR ''%'' then rbind (percent_format used path cs) (\<lambda>r. Inr (CHR ''%'' # r))
      else if d = CHR ''s'' \<and> \<not> used then rbind (percent_format True path cs) (\<lambda>r. Inr (path @ r))
      else Inl TypeError)"

definition double_backslashes :: "string \<Rightarrow> string" where
  "double_backslashes s = replace_str s [CHR 0x5C] [CHR 0x5C, CHR 0x5C]"

definition raised :: "'a py_result \<Rightarrow> run_error + 'a" where
  "raised r = (case r of Inl e \<Rightarrow> Inl (Raised e) | Inr x \<Rightarrow> Inr x)"

definition find_or_fail :: "build \<Rightarrow> string \<Rightarrow> run_error + program" where
  "find_or_fail bld nm = (case find_program bld nm of Inl found \<Rightarrow> Inl (Not_found found) | Inr obj \<Rightarrow> Inr obj)"

definition get_run_program :: "(string \<Rightarrow> string list py_result) \<Rightarrow> build \<Rightarrow> string \<Rightarrow> string option \<Rightarrow>
    run_error + string \<times> string list" where
  "get_run_program shlex_split bld program_string template =
     (if template = None \<or> template = Some ''%s''
      then rbind (raised (shlex_split program_string)) (\<lambda>argv.
           rbind (raised (py_index argv 0)) (\<lambda>program_name.
           rbind (find_or_fail bld program_name) (\<lambda>obj.
           Inr (program_name, pg_exec obj # drop 1 argv))))
      else rbind (find_or_fail bld program_string) (\<lambda>obj.
           rbind (raised (percent_format False (pg_exec obj) (the template))) (\<lambda>tmpl.
           rbind (raised (shlex_split (double_backslashes tmpl))) (\<lambda>execvec.
           Inr (program_string, execvec)))))"

definition run_cwd :: "build \<Rightarrow> run_options \<Rightarrow> string option" where
  "run_cwd bld o' =
     (if cwd_launch o' \<noteq> None \<and> cwd_launch o' \<noteq> Some [] then cwd_launch o' else Some (default_cwd bld))"

abbreviation visualizer_option :: string where
  "visualizer_option \<equiv> ''--SimulatorImplementationType=ns3::VisualSimulatorImpl''"

definition run_program :: "run_os \<Rightarrow> (string \<Rightarrow> string list py_result) \<Rightarrow> build \<Rightarrow> run_options \<Rightarrow> string \<Rightarrow>
    string option \<Rightarrow> string option \<Rightarrow> bool \<Rightarrow> run_error + int" where
  "run_program ros shlex_split bld o' program_string template cwd visualize =
     rbind (get_run_program shlex_split bld program_string template) (\<lambda>(dummy, execvec).
       run_argv ros bld o' (if visualize then execvec @ [visualizer_option] else execvec) None
         (case cwd of None \<Rightarrow> run_cwd bld o' | Some d \<Rightarrow> Some d) False)"

definition run_python_program :: "run_os \<Rightarrow> (string \<Rightarrow> string list py_result) \<Rightarrow> build \<Rightarrow> run_options \<Rightarrow> string \<Rightarrow>
    bool \<Rightarrow> run_error + int" where
  "run_python_program ros shlex_split bld o' program_string visualize =
     rbind (raised (shlex_split program_string)) (\<lambda>execvec.
     rbind (raised (py_index (python_programs bld) 0)) (\<lambda>python.
       run_argv ros bld o' ([python] @ (if visualize then execvec @ [visualizer_option] else execvec)) None
         (run_cwd bld o') False))"

section \<open>Duplicates\<close>

text \<open>The list comprehension whose condition adds to the set.\<close>

fun uniquify_seen :: "'a list \<Rightarrow> 'a set \<Rightarrow> 'a list" where
  "uniquify_seen [] seen = []"
| "uniquify_seen (x # xs) seen =
     (if x \<notin> seen then x # uniquify_seen xs (insert x seen) else uniquify_seen xs seen)"

definition uniquify_list :: "'a list \<Rightarrow> 'a list" where
  "uniquify_list sq = uniquify_seen sq {}"

lemma leak_never_reported: "leak_reported text = False"
  by (auto simp: leak_reported_def list_ex_iff contains_def sublist_Cons_right)

text \<open>An absolute path that is not the root splits into an empty part and its parts.\<close>

lemma in_set_tl: "x \<in> set (tl xs) \<Longrightarrow> x \<in> set xs"
  by (cases xs) auto

lemma norm_comps_parts: "set (norm_comps rooted acc cs) \<subseteq> set acc \<union> {c \<in> set cs. c \<noteq> []}"
proof (induction cs arbitrary: acc)
  case Nil
  then show ?case by simp
next
  case (Cons c cs)
  show ?case using Cons [of acc] Cons [of "c # acc"] Cons [of "tl acc"] in_set_tl [of _ acc] by auto
qed

lemma abspath_split:
  assumes "initial_slashes (if is_abs p then p else path_join cwd p) = 1" and "abspath cwd p \<noteq> ''/''"
  shows "\<exists>ps. str_split CHR ''/'' (abspath cwd p) = [] # ps \<and> path_parts (abspath cwd p) = ps"
proof -
  define q where "q = (if is_abs p then p else path_join cwd p)"
  define ps where "ps = norm_comps True [] (str_split CHR ''/'' q)"
  have "initial_slashes q = 1" using assms(1) by (simp add: q_def)
  then have "q \<noteq> []" by (auto simp: initial_slashes_def startswith_def)
  then have a: "abspath cwd p = ''/'' @ join ''/'' ps"
    using assms(1) by (simp add: abspath_def normpath_def q_def [symmetric] ps_def)
  then have "ps \<noteq> []" using assms(2) by auto
  have parts: "c \<noteq> [] \<and> CHR ''/'' \<notin> set c" if "c \<in> set ps" for c
    using norm_comps_parts [of True "[]" "str_split CHR ''/'' q"] that str_split_mem_sep [of c "CHR ''/''" q]
    unfolding ps_def by auto
  have "str_split CHR ''/'' (abspath cwd p) = [] # ps"
    using str_split_join [of ps] \<open>ps \<noteq> []\<close> parts by (simp add: a)
  moreover have "List.filter (\<lambda>c. c \<noteq> []) ps = ps" using parts by (simp add: filter_eq_self)
  ultimately show ?thesis by (simp add: path_parts_def)
qed

lemma uniquify_seen_eq: "uniquify_seen xs seen = rev (remdups (rev (List.filter (\<lambda>x. x \<notin> seen) xs)))"
proof (induction xs arbitrary: seen)
  case Nil
  then show ?case by simp
next
  case (Cons x xs)
  have "rev (remdups (rev ys @ [x])) = x # rev (remdups (rev (List.filter (\<lambda>y. y \<noteq> x) ys)))" for ys
    by (induction ys rule: rev_induct) auto
  moreover have "List.filter (\<lambda>y. y \<noteq> x) (List.filter (\<lambda>y. y \<notin> seen) xs) = List.filter (\<lambda>y. y \<notin> insert x seen) xs"
    by (simp add: conj_commute)
  ultimately show ?case using Cons by simp
qed

lemma uniquify_list_eq: "uniquify_list xs = rev (remdups (rev xs))"
  by (simp add: uniquify_list_def uniquify_seen_eq)

section \<open>Properties\<close>

text \<open>The program of a name is the first \<open>ns3\<close> program in the list whose source or build path begins
  with the launch directory and that has the name, with or without its relative path;
  without one the names of all such programs are reported.  The test compares texts, so
  a directory whose name continues that of the launch directory counts as below it.\<close>

theorem find_program_first:
  "find_program bld nm =
     (let launch = abspath (launch_dir bld) (launch_dir bld);
          below = List.filter (\<lambda>obj. is_ns3_program obj \<and> in_launch_dir launch obj) (tasks bld)
      in (case List.find (\<lambda>obj. nm \<in> set (program_names launch obj)) below of
            Some obj \<Rightarrow> Inr obj
          | None \<Rightarrow> Inl (concat (List.map (program_names launch) below))))
   \<and> (pg_path obj = launch @ rest \<longrightarrow> in_launch_dir launch obj)"
proof -
  have "find_loop launch nm found objs =
      (let below = List.filter (\<lambda>obj. is_ns3_program obj \<and> in_launch_dir launch obj) objs
       in (case List.find (\<lambda>obj. nm \<in> set (program_names launch obj)) below of
             Some obj \<Rightarrow> Inr obj
           | None \<Rightarrow> Inl (found @ concat (List.map (program_names launch) below))))" for launch found objs
    by (induction objs arbitrary: found) (auto simp: Let_def split: option.splits)
  note search = this
  show ?thesis
  proof
    show "find_program bld nm =
     (let launch = abspath (launch_dir bld) (launch_dir bld);
          below = List.filter (\<lambda>obj. is_ns3_program obj \<and> in_launch_dir launch obj) (tasks bld)
      in (case List.find (\<lambda>obj. nm \<in> set (program_names launch obj)) below of
            Some obj \<Rightarrow> Inr obj
          | None \<Rightarrow> Inl (concat (List.map (program_names launch) below))))"
      unfolding find_program_def search Let_def append_Nil by (rule refl)
    show "pg_path obj = launch @ rest \<longrightarrow> in_launch_dir launch obj" by (simp add: in_launch_dir_def)
  qed
qed

lemma find_program_first_witness:
  "in_launch_dir ''/ns/src'' \<lparr>pg_name = ''p'', pg_path = ''/ns/src-old'', pg_bld_path = ''/ns/build/src-old'',
     pg_exec = ''/ns/build/src-old/p'', is_ns3_program = True\<rparr>"
  by (rule find_program_first [where rest = "''-old''", THEN conjunct2, THEN mp]) simp

text \<open>The environment of a process, variable by variable: the library path, \<open>PYTHONPATH\<close> and
  \<open>PATH\<close> get the directories of the build before their former values, and all others are those
  of the caller over those of the environment.\<close>

theorem proc_env_variables:
  "dget (get_proc_env bld os_env) v =
     (let base = (\<lambda>k. case os_env of None \<Rightarrow> dget (environ bld) k
                    | Some kvs \<Rightarrow> (case map_of (rev kvs) k of Some x \<Rightarrow> Some x | None \<Rightarrow> dget (environ bld) k));
          before = (\<lambda>dirs old. Some (join (pathsep bld) (dirs @ (case old of None \<Rightarrow> [] | Some x \<Rightarrow> [x]))));
          with_lib = (\<lambda>k. if k = pathvar (platform bld) then before (ns3_module_path bld) (base k) else base k)
      in if v = ''PATH'' then before (ns3_executable_path bld) (with_lib v)
         else if v = ''PYTHONPATH'' then before [pymoddir bld, pyvizdir bld] (with_lib v)
         else with_lib v)"
proof -
  have update: "dget (update_env kvs d) k = (case map_of (rev kvs) k of Some x \<Rightarrow> Some x | None \<Rightarrow> dget d k)" for kvs d k
    by (induction kvs arbitrary: d) (auto simp: update_env_def dict_simps map_of_append map_add_def split: option.splits)
  have prepend: "dget (prepend_dirs sep var dirs d) k =
      (if k = var then Some (join sep (dirs @ (case dget d k of None \<Rightarrow> [] | Some x \<Rightarrow> [x]))) else dget d k)"
    for sep var dirs d k
    by (simp add: prepend_dirs_def dict_simps split: option.splits)
  have base: "dget (case os_env of None \<Rightarrow> environ bld | Some kvs \<Rightarrow> update_env kvs (environ bld)) k =
      (case os_env of None \<Rightarrow> dget (environ bld) k
       | Some kvs \<Rightarrow> (case map_of (rev kvs) k of Some x \<Rightarrow> Some x | None \<Rightarrow> dget (environ bld) k))" for k
    by (simp add: update split: option.splits)
  consider "v = ''PATH''" | "v = ''PYTHONPATH''" | "v \<noteq> ''PATH''" "v \<noteq> ''PYTHONPATH''" by blast
  then show ?thesis
    by cases (simp_all only: get_proc_env_def Let_def prepend base if_True if_False simp_thms list.inject char.inject list.distinct)
qed

text \<open>C21. Outside of the debugger a run returns only the status 0, of the process that the
  options ask for; any other status raises.  Under valgrind the text that the process
  prints has no influence: the search for a leak summary runs over single
  characters and never finds it, so a program that leaks passes.  Under the debugger the status is
  returned as it is.\<close>

theorem run_argv_outcomes:
  assumes run: "run_argv ros bld o' argv os_env cwd force = Inr r"
  shows "(\<exists>proc. popen ros
        ((if opt_gdb o' then [''gdb'', ''--args'']
          else if opt_valgrind o' \<and> \<not> force
          then [hd (valgrind_programs bld), ''--leak-check=full'', ''--show-reachable=yes'', ''--error-exitcode=1'']
          else []) @ argv) (get_proc_env bld os_env) cwd = Inr proc \<and> r = exit_status proc)
    \<and> (\<not> opt_gdb o' \<longrightarrow> r = 0)
    \<and> \<not> (has_template o' \<and> (opt_valgrind o' \<or> opt_gdb o')) \<and> \<not> (opt_gdb o' \<and> opt_valgrind o')
    \<and> (\<forall>text. run_argv (ros\<lparr>popen := \<lambda>a e d. rbind (popen ros a e d) (\<lambda>proc. Inr (proc\<lparr>err_text := Inr text\<rparr>))\<rparr>)
          bld o' argv os_env cwd force = Inr r)"
proof -
  define env where "env = get_proc_env bld os_env"
  have ok: "\<not> (opt_valgrind o' \<and> has_template o')" "\<not> (opt_gdb o' \<and> has_template o')" "\<not> (opt_gdb o' \<and> opt_valgrind o')"
    using run unfolding run_argv_def Let_def by (auto split: if_splits)
  have argv: "run_argv ros' bld o' argv os_env cwd force =
      (if opt_gdb o' then
         (case popen ros' ([''gdb'', ''--args''] @ argv) env cwd of Inl e \<Rightarrow> Inl (Raised e) | Inr proc \<Rightarrow> Inr (exit_status proc))
       else if opt_valgrind o' \<and> \<not> force then rbind (run_valgrind ros' bld argv env cwd) (check_status ros')
       else rbind (run_plain ros' argv env cwd) (check_status ros'))" for ros'
    unfolding run_argv_def Let_def env_def using ok by (simp only: if_False)
  have status: "check_status ros' k = Inr r \<longleftrightarrow> k = 0 \<and> r = 0" for ros' k
    by (auto simp: check_status_def split: option.splits)
  consider (gdb) "opt_gdb o'" | (vg) "\<not> opt_gdb o'" "opt_valgrind o' \<and> \<not> force"
    | (plain) "\<not> opt_gdb o'" "\<not> (opt_valgrind o' \<and> \<not> force)" by blast
  then show ?thesis
  proof cases
    case gdb
    then obtain proc where "popen ros ([''gdb'', ''--args''] @ argv) env cwd = Inr proc" "r = exit_status proc"
      using run unfolding argv by (auto split: sum.splits)
    then show ?thesis using gdb ok unfolding argv by (simp add: env_def)
  next
    case vg
    then have "rbind (run_valgrind ros bld argv env cwd) (check_status ros) = Inr r" using run unfolding argv by simp
    then obtain k where k: "run_valgrind ros bld argv env cwd = Inr k" "k = 0" "r = 0"
      unfolding rbind_Inr_iff status by blast
    then obtain v vs proc t where p: "valgrind_programs bld = v # vs"
        "popen ros (v # ''--leak-check=full'' # ''--show-reachable=yes'' # ''--error-exitcode=1'' # argv) env cwd = Inr proc"
        "err_text proc = Inr t" "exit_status proc = 0"
      by (auto simp: run_valgrind_def leak_never_reported split: list.splits sum.splits)
    then show ?thesis using vg ok k unfolding argv by (simp add: run_valgrind_def leak_never_reported check_status_def env_def)
  next
    case plain
    have "rbind (run_plain ros argv env cwd) (check_status ros) = Inr r"
      using run unfolding argv if_not_P [OF plain(1)] if_not_P [OF plain(2)] .
    then obtain k where k: "run_plain ros argv env cwd = Inr k" "k = 0" "r = 0"
      unfolding rbind_Inr_iff status by blast
    then obtain proc where "popen ros argv env cwd = Inr proc" "exit_status proc = 0"
      by (auto simp: run_plain_def split: sum.splits)
    then show ?thesis
      using ok k unfolding argv if_not_P [OF plain(1)] if_not_P [OF plain(2)]
      by (simp add: run_plain_def check_status_def env_def) blast
  qed
qed

text \<open>The process exits with 0 although valgrind has printed a leak summary.\<close>

lemma run_argv_outcomes_witness:
  "run_argv \<lparr>popen = \<lambda>a e d. Inr \<lparr>exit_status = 0, err_text = Inr ''==1== LEAK SUMMARY:''\<rparr>, windows = False, signals = []\<rparr>
     \<lparr>platform = ''linux'', pathsep = '':'', environ = [], ns3_module_path = [], ns3_executable_path = [],
      pymoddir = ''b'', pyvizdir = ''v'', valgrind_programs = [''valgrind''], python_programs = [], tasks = [],
      launch_dir = ''/'', default_cwd = ''/''\<rparr>
     \<lparr>opt_valgrind = True, opt_gdb = False, command_template = None, cwd_launch = None\<rparr> [''prog''] None None False = Inr 0"
proof -
  define ros where "ros = \<lparr>popen = \<lambda>a e d. Inr \<lparr>exit_status = 0, err_text = Inr []\<rparr>, windows = False, signals = []\<rparr>"
  define bld where "bld = \<lparr>platform = ''linux'', pathsep = '':'', environ = [], ns3_module_path = [], ns3_executable_path = [],
      pymoddir = ''b'', pyvizdir = ''v'', valgrind_programs = [''valgrind''], python_programs = [], tasks = [],
      launch_dir = ''/'', default_cwd = ''/''\<rparr>"
  define o' where "o' = \<lparr>opt_valgrind = True, opt_gdb = False, command_template = None, cwd_launch = None\<rparr>"
  have "run_argv ros bld o' [''prog''] None None False = Inr 0"
    by (simp add: run_argv_def run_valgrind_def ros_def bld_def o'_def has_template_def check_status_def leak_never_reported)
  from run_argv_outcomes [OF this] show ?thesis by (simp add: ros_def bld_def o'_def)
qed

text \<open>The function that stands in for \<open>os.path.relpath\<close> agrees with it on paths from a single
  slash, the root itself excepted.  For the root it climbs one directory too far.\<close>

theorem fallback_relpath_agrees:
  assumes "path \<noteq> []" and "initial_slashes (if is_abs path then path else path_join cwd path) = 1"
    and "initial_slashes (if is_abs start then start else path_join cwd start) = 1"
    and "abspath cwd path \<noteq> ''/''" and "abspath cwd start \<noteq> ''/''"
  shows "fallback_relpath cwd path start = Inr (relpath cwd path start)
    \<and> fallback_relpath ''/'' ''/a'' ''/'' = Inr ''../a'' \<and> relpath ''/'' ''/a'' ''/'' = ''a''"
proof -
  obtain ps where ps: "str_split CHR ''/'' (abspath cwd path) = [] # ps" "path_parts (abspath cwd path) = ps"
    using abspath_split assms(2, 4) by blast
  obtain ss where ss: "str_split CHR ''/'' (abspath cwd start) = [] # ss" "path_parts (abspath cwd start) = ss"
    using abspath_split assms(3, 5) by blast
  have "fallback_relpath cwd path start = Inr (relpath cwd path start)"
    using assms(1) by (simp add: fallback_relpath_def relpath_def ps ss Let_def)
  moreover have "fallback_relpath ''/'' ''/a'' ''/'' = Inr ''../a''" by code_simp
  moreover have "relpath ''/'' ''/a'' ''/'' = ''a''" by code_simp
  ultimately show ?thesis by blast
qed

lemma fallback_relpath_agrees_witness:
  "fallback_relpath ''/ns'' ''src/core'' ''/ns/build'' = Inr (relpath ''/ns'' ''src/core'' ''/ns/build'')"
proof (rule fallback_relpath_agrees [THEN conjunct1])
  show "initial_slashes (if is_abs ''src/core'' then ''src/core'' else path_join ''/ns'' ''src/core'') = 1"
      "initial_slashes (if is_abs ''/ns/build'' then ''/ns/build'' else path_join ''/ns'' ''/ns/build'') = 1"
      "abspath ''/ns'' ''src/core'' \<noteq> ''/''" "abspath ''/ns'' ''/ns/build'' \<noteq> ''/''"
    by code_simp+
qed simp

end
