(* ===== verification/BuildFlags.thy ===== *)
theory BuildFlags
  imports Prelude
begin

text \<open>
  \<open>waf-tools/cflags.py\<close>: the flags of the compilers for levels of optimization,
  warnings and debugging, the build profiles and what \<open>configure\<close> adds to the environment of
  the build.  The environment holds a list for each variable, empty when it is missing.
\<close>

section \<open>Compilers\<close>

datatype compiler = Gcc | Icc | Msvc

fun warnings_flags :: "compiler \<Rightarrow> string list list" where
  "warnings_flags Gcc = [[''-Wall''], [''-Werror''], [''-Wextra'']]"
| "warnings_flags Icc = [[], [], [''-Wall'']]"
| "warnings_flags Msvc = [[''/W2''], [''/WX''], [''/Wall'']]"

text \<open>The loop over the levels breaks at the end of the table.\<close>

fun warnings_loop :: "string list list \<Rightarrow> nat \<Rightarrow> string list" where
  "warnings_loop table 0 = []"
| "warnings_loop [] (Suc n) = []"
| "warnings_loop (ws # table) (Suc n) = ws @ warnings_loop table n"

definition get_warnings_flags :: "compiler \<Rightarrow> int \<Rightarrow> string list" where
  "get_warnings_flags c level = warnings_loop (warnings_flags c) (nat level)"

text \<open>A level without a branch gives \<open>None\<close>.\<close>

fun get_optimization_flags :: "compiler \<Rightarrow> int \<Rightarrow> string list option" where
  "get_optimization_flags Msvc level =
     (if level = 0 then Some [''/Od''] else if level = 1 then Some []
      else if level = 2 then Some [''/O2''] else if level = 3 then Some [''/Ox''] else None)"
| "get_optimization_flags c level =
     (if level = 0 then Some [''-O0''] else if level = 1 then Some [''-O'']
      else if level = 2 then Some [''-O2''] else if level = 3 then Some [''-O3''] else None)"

fun get_debug_flags :: "compiler \<Rightarrow> int \<Rightarrow> (string list \<times> string list) option" where
  "get_debug_flags Msvc level =
     (if level = 0 then Some ([], [''NDEBUG'']) else if level = 1 then Some ([''/ZI'', ''/RTC1''], [])
      else if level \<ge> 2 then Some ([''/ZI'', ''/RTC1''], [''_DEBUG'']) else None)"
| "get_debug_flags c level =
     (if level = 0 then Some ([''-g0''], [''NDEBUG'']) else if level = 1 then Some ([''-g''], [])
      else if level \<ge> 2 then Some ([''-ggdb'', ''-g3''], [''_DEBUG'']) else None)"

definition compiler_mapping :: "(string, compiler) dict" where
  "compiler_mapping =
     [(''gcc'', Gcc), (''g++'', Gcc), (''msvc'', Msvc), (''icc'', Icc), (''icpc'', Icc),
      (''clang'', Gcc), (''clang++'', Gcc)]"

text \<open>The levels of optimization, warnings and debugging of a profile.\<close>

definition profiles :: "(string, int \<times> int \<times> int) dict" where
  "profiles = [(''default'', (2, 1, 1)), (''debug'', (0, 2, 3)), (''release'', (3, 1, 0))]"

section \<open>Configuration\<close>

record conf_env =
  compiler_cc :: "string option"
  compiler_cxx :: "string option"
  flags :: "(string, string list) dict"

definition append_value :: "string \<Rightarrow> string list \<Rightarrow> conf_env \<Rightarrow> conf_env" where
  "append_value var vals conf = conf\<lparr>flags := dset var (dget_default (flags conf) var [] @ vals) (flags conf)\<rparr>"

text \<open>An empty name of a compiler counts as none; a missing key of the mapping is a missing flag support.\<close>

definition set_name :: "string option \<Rightarrow> string option" where
  "set_name c = (if c = Some [] then None else c)"

definition mapped :: "string option \<Rightarrow> compiler option" where
  "mapped c = (case c of None \<Rightarrow> None | Some n \<Rightarrow> dget compiler_mapping n)"

definition add_flags :: "string \<Rightarrow> string \<Rightarrow> string list \<Rightarrow> string list \<Rightarrow> string list \<Rightarrow> string list \<Rightarrow>
    conf_env \<Rightarrow> conf_env" where
  "add_flags var defines optimizations debug warnings debug_defs conf =
     append_value defines debug_defs (append_value var warnings (append_value var debug (append_value var optimizations conf)))"

text \<open>The result also tells whether the warning about a compiler without support was given.\<close>

definition configure :: "string \<Rightarrow> bool \<Rightarrow> conf_env \<Rightarrow> (conf_env \<times> bool) py_result" where
  "configure build_profile disable_werror conf =
     (let cc = set_name (compiler_cc conf); cxx = set_name (compiler_cxx conf)
      in if cc = None \<and> cxx = None then Inl (PyException ''WafError'')
         else (case (case mapped cc of Some c \<Rightarrow> Some c | None \<Rightarrow> mapped cxx) of
                 None \<Rightarrow> Inr (conf, True)
               | Some c \<Rightarrow>
                   rbind (dindex profiles build_profile) (\<lambda>(opt_level, warn_level, dbg_level).
                   (case get_debug_flags c dbg_level of
                      None \<Rightarrow> Inl TypeError
                    | Some (debug, debug_defs) \<Rightarrow>
                        (let warnings = get_warnings_flags c warn_level;
                             warnings = (if disable_werror then remove1 ''-Werror'' warnings else warnings);
                             need_cc = (cc \<noteq> None \<and> dget_default (flags conf) ''CCFLAGS'' [] = []);
                             need_cxx = (cxx \<noteq> None \<and> dget_default (flags conf) ''CXXFLAGS'' [] = [])
                         in if get_optimization_flags c opt_level = None \<and> (need_cc \<or> need_cxx) then Inl TypeError
                            else (let optimizations = the (get_optimization_flags c opt_level);
                                      conf = (if need_cc then add_flags ''CCFLAGS'' ''CCDEFINES'' optimizations debug warnings debug_defs conf else conf);
                                      conf = (if need_cxx then add_flags ''CXXFLAGS'' ''CXXDEFINES'' optimizations debug warnings debug_defs conf else conf)
                                  in Inr (conf, False)))))))"

section \<open>Properties\<close>

lemma dget_append_value:
  "dget_default (flags (append_value var vals conf)) v [] =
     (if v = var then dget_default (flags conf) v [] @ vals else dget_default (flags conf) v [])"
  by (simp add: append_value_def dget_default_def dict_simps split: option.splits)

lemma dget_add_flags:
  "var \<noteq> defines \<Longrightarrow> dget_default (flags (add_flags var defines os ds ws dds conf)) v [] =
     (if v = var then dget_default (flags conf) v [] @ os @ ds @ ws
      else if v = defines then dget_default (flags conf) v [] @ dds
      else dget_default (flags conf) v [])"
  by (simp add: add_flags_def dget_append_value)

lemma warnings_levels: "warnings_loop table n = concat (take n table)"
  by (induction table n rule: warnings_loop.induct) simp_all

text \<open>With a compiler that is known and a profile of the table \<open>configure\<close> returns.  Flags that the
  user has set stay as they are, with their defines; flags that are empty become those
  of the profile, for C with the compiler of C and for C++ with the same one, whatever the
  C++ compiler is.  With \<open>disable_werror\<close> no \<open>-Werror\<close> is among them, but the flag \<open>/WX\<close>, which
  has the same meaning for the third compiler, stays in the profile \<open>debug\<close>.\<close>

theorem configure_flags:
  assumes c: "mapped (set_name (compiler_cc conf)) = Some c \<or>
      (mapped (set_name (compiler_cc conf)) = None \<and> mapped (set_name (compiler_cxx conf)) = Some c)"
    and profile: "dget profiles p = Some (opt_level, warn_level, dbg_level)"
  shows "\<exists>conf' opts debug defs. configure p no_werror conf = Inr (conf', False)
    \<and> get_optimization_flags c opt_level = Some opts \<and> get_debug_flags c dbg_level = Some (debug, defs)
    \<and> (let warn = List.filter (\<lambda>w. no_werror \<longrightarrow> w \<noteq> ''-Werror'') (concat (take (nat warn_level) (warnings_flags c)));
           old = (\<lambda>v. dget_default (flags conf) v []); new = (\<lambda>v. dget_default (flags conf') v []);
           cc = set_name (compiler_cc conf) \<noteq> None \<and> old ''CCFLAGS'' = [];
           cxx = set_name (compiler_cxx conf) \<noteq> None \<and> old ''CXXFLAGS'' = []
       in new ''CCFLAGS'' = (if cc then opts @ debug @ warn else old ''CCFLAGS'')
        \<and> new ''CCDEFINES'' = old ''CCDEFINES'' @ (if cc then defs else [])
        \<and> new ''CXXFLAGS'' = (if cxx then opts @ debug @ warn else old ''CXXFLAGS'')
        \<and> new ''CXXDEFINES'' = old ''CXXDEFINES'' @ (if cxx then defs else [])
        \<and> (\<forall>v. v \<notin> {''CCFLAGS'', ''CXXFLAGS'', ''CCDEFINES'', ''CXXDEFINES''} \<longrightarrow> new v = old v))
    \<and> (c = Msvc \<and> p = ''debug'' \<longrightarrow> ''/WX'' \<in> set (get_warnings_flags c warn_level))"
proof -
  have levels: "(opt_level, warn_level, dbg_level) \<in> {(2, 1, 1), (0, 2, 3), (3, 1, 0)}"
      and wx: "p = ''debug'' \<longrightarrow> warn_level = 2"
    using profile by (auto simp: profiles_def split: if_splits)
  obtain opts debug defs where o: "get_optimization_flags c opt_level = Some opts"
      and d: "get_debug_flags c dbg_level = Some (debug, defs)"
    using levels by (cases c) auto
  define warn where "warn = get_warnings_flags c warn_level"
  have warn: "warn = concat (take (nat warn_level) (warnings_flags c))"
    by (simp add: warn_def get_warnings_flags_def warnings_levels)
  have "distinct warn" using levels unfolding warn by (cases c) auto
  then have kept: "remove1 ''-Werror'' warn = List.filter (\<lambda>w. w \<noteq> ''-Werror'') warn"
    by (auto simp: distinct_remove1_removeAll removeAll_filter_not_eq intro: filter_cong)
  have some: "\<not> (set_name (compiler_cc conf) = None \<and> set_name (compiler_cxx conf) = None)"
    using c by (auto simp: mapped_def)
  have which: "(case mapped (set_name (compiler_cc conf)) of Some c \<Rightarrow> Some c | None \<Rightarrow> mapped (set_name (compiler_cxx conf))) = Some c"
    using c by auto
  have "c = Msvc \<and> p = ''debug'' \<longrightarrow> ''/WX'' \<in> set (get_warnings_flags c warn_level)"
    using wx by (auto simp: get_warnings_flags_def warnings_levels)
  then show ?thesis
    unfolding configure_def Let_def which option.case warn [symmetric] if_not_P [OF some]
    using o d kept
    by (simp add: dindex_def profile warn_def [symmetric] dget_add_flags)
qed

lemma configure_flags_witness:
  "\<exists>conf'. configure ''debug'' True \<lparr>compiler_cc = None, compiler_cxx = Some ''msvc'', flags = []\<rparr> = Inr (conf', False)
    \<and> dget_default (flags conf') ''CXXFLAGS'' [] = [''/Od'', ''/ZI'', ''/RTC1'', ''/W2'', ''/WX'']"
  using configure_flags [of "\<lparr>compiler_cc = None, compiler_cxx = Some ''msvc'', flags = []\<rparr>" Msvc "''debug''" 0 2 3 True]
  by (simp add: mapped_def set_name_def compiler_mapping_def profiles_def dget_default_def Let_def numeral_2_eq_2)
    blast

end
