(* ===== verification/BoostTool.thy ===== *)
theory BoostTool
  imports PyString "HOL-Library.Char_ord" "HOL-Library.List_Lexorder"
begin

text \<open>
  The build tool's search for Boost, \<open>waf-tools/boost.py\<close>: the headers and their version, the
  directory of the libraries, the names that the patterns accept and the flags that link.
  Directories, the compiler and the linker are arguments.
\<close>

section \<open>Regular expressions\<close>

text \<open>
  The constructs that the patterns use, matched as Python does: \<open>rests r s\<close> are the texts that may be
  left after \<open>r\<close> has matched a prefix of \<open>s\<close>.  Names that go into a pattern are not escaped, so
  a dot accepts any character; they are taken to have no other special characters.
\<close>

datatype rx = Emp | Ch char | AnyCh | Digits nat | Cat rx rx | Alt rx rx | NonDigitAhead | NotAhead string | Ends

fun digit_rests :: "nat \<Rightarrow> string \<Rightarrow> string list" where
  "digit_rests (Suc n) (c # s) = (if is_digit c then digit_rests n s @ [c # s] else [c # s])"
| "digit_rests n s = [s]"

fun rests :: "rx \<Rightarrow> string \<Rightarrow> string list" where
  "rests Emp s = [s]"
| "rests (Ch c) s = (case s of [] \<Rightarrow> [] | x # t \<Rightarrow> if x = c then [t] else [])"
| "rests AnyCh s = (case s of [] \<Rightarrow> [] | x # t \<Rightarrow> if x = newline then [] else [t])"
| "rests (Digits n) s = digit_rests n s"
| "rests (Cat a b) s = concat (List.map (rests b) (rests a s))"
| "rests (Alt a b) s = rests a s @ rests b s"
| "rests NonDigitAhead s = (case s of [] \<Rightarrow> [] | x # t \<Rightarrow> if is_digit x then [] else [s])"
| "rests (NotAhead p) s = (if startswith s p then [] else [s])"
| "rests Ends s = (if s = [] \<or> s = [newline] then [s] else [])"

fun rx_search :: "rx \<Rightarrow> string \<Rightarrow> bool" where
  "rx_search r [] = (rests r [] \<noteq> [])"
| "rx_search r (c # s) = (rests r (c # s) \<noteq> [] \<or> rx_search r s)"

fun lit :: "string \<Rightarrow> rx" where
  "lit [] = Emp"
| "lit (c # s) = Cat (if c = CHR ''.'' then AnyCh else Ch c) (lit s)"

fun cat :: "rx list \<Rightarrow> rx" where
  "cat [] = Emp"
| "cat (r # rs) = Cat r (cat rs)"

section \<open>The configuration\<close>

record conf =
  env :: "(string, string list) dict"
  messages :: "string list"

type_synonym 'a conf_action = "(conf, 'a) action"

definition note_msg :: "string \<Rightarrow> unit conf_action" where
  "note_msg msg = supdate (\<lambda>s. s\<lparr>messages := messages s @ [msg]\<rparr>)"

definition fatal :: "string \<Rightarrow> 'a conf_action" where
  "fatal msg = sbind (note_msg msg) (\<lambda>u. sraise (PyException ''ConfigurationError''))"

definition set_env :: "string \<Rightarrow> string list \<Rightarrow> unit conf_action" where
  "set_env k v = supdate (\<lambda>s. s\<lparr>env := dset k v (env s)\<rparr>)"

definition del_env :: "string \<Rightarrow> unit conf_action" where
  "del_env k = supdate (\<lambda>s. s\<lparr>env := ddel k (env s)\<rparr>)"

definition get_env :: "conf \<Rightarrow> string \<Rightarrow> string list" where
  "get_env s k = dget_default (env s) k []"

datatype header = No_header | Unreadable | Header string

record toolchain =
  tc_platform :: string
  tc_cxx :: string
  tc_cxx_name :: string
  tc_cc_name :: string
  tc_shlib :: string
  tc_stlib :: string
  tc_include_var :: string
  tc_lib_var :: string
  tc_header :: "string \<Rightarrow> header"
  tc_version :: "string \<Rightarrow> string py_result"
  tc_dir :: "string \<Rightarrow> string list option"
  tc_listdir :: "string \<Rightarrow> string list"
  tc_links :: "(string, string list) dict \<Rightarrow> string \<Rightarrow> bool"

text \<open>A keyword or a command line option: \<open>[]\<close> is a missing text.\<close>

record boost_params =
  bp_includes :: string
  bp_libs :: string
  bp_mt :: bool
  bp_abi :: string
  bp_autodetect :: bool
  bp_toolset :: string
  bp_python :: string

definition or_text :: "string \<Rightarrow> string \<Rightarrow> string" where
  "or_text a b = (if a \<noteq> [] then a else b)"

definition merge_params :: "boost_params \<Rightarrow> boost_params \<Rightarrow> boost_params" where
  "merge_params opts kw = \<lparr>bp_includes = or_text (bp_includes opts) (bp_includes kw), bp_libs = or_text (bp_libs opts) (bp_libs kw),
     bp_mt = (bp_mt opts \<or> bp_mt kw), bp_abi = or_text (bp_abi opts) (bp_abi kw),
     bp_autodetect = (bp_autodetect opts \<or> bp_autodetect kw), bp_toolset = or_text (bp_toolset opts) (bp_toolset kw),
     bp_python = or_text (bp_python opts) (bp_python kw)\<rparr>"

section \<open>Headers and toolset\<close>

definition boost_include_dirs :: "string list" where
  "boost_include_dirs = [''/usr/include'', ''/usr/local/include'', ''/opt/local/include'', ''/sw/include'']"

definition boost_lib_dirs :: "string list" where
  "boost_lib_dirs = [''/usr/lib/x86_64-linux-gnu'', ''/usr/lib/i386-linux-gnu'', ''/usr/lib'', ''/usr/local/lib'',
     ''/opt/local/lib'', ''/sw/lib'', ''/lib'']"

definition version_file :: "toolchain \<Rightarrow> string \<Rightarrow> header" where
  "version_file tc d = (if d = [] then No_header else tc_header tc d)"

text \<open>\<open>\<^verbatim>\<open>^#define\s+BOOST_LIB_VERSION\s+"(.*)"\<close>\<close> at the start of a line; the blanks may span lines, and the
  group ends at the last quote of its line.\<close>

definition after_spaces :: "string \<Rightarrow> string option" where
  "after_spaces s = (case s of [] \<Rightarrow> None | c # t \<Rightarrow> if is_space c then Some (lstrip t) else None)"

definition up_to_last_quote :: "string \<Rightarrow> string option" where
  "up_to_last_quote l =
     (if CHR 0x22 \<in> set l then Some (rev (tl (dropWhile (\<lambda>c. c \<noteq> CHR 0x22) (rev l)))) else None)"

definition after_prefix :: "string \<Rightarrow> string \<Rightarrow> string option" where
  "after_prefix p s = (if startswith s p then Some (drop (length p) s) else None)"

definition version_at :: "string \<Rightarrow> string option" where
  "version_at s =
     Option.bind (Option.bind (after_prefix ''#define'' s) after_spaces) (\<lambda>s.
     Option.bind (Option.bind (after_prefix ''BOOST_LIB_VERSION'' s) after_spaces) (\<lambda>s.
     Option.bind (after_prefix [CHR 0x22] s) (\<lambda>s. up_to_last_quote (takeWhile (\<lambda>c. c \<noteq> newline) s))))"

fun version_in :: "bool \<Rightarrow> string \<Rightarrow> string option" where
  "version_in at_start [] = None"
| "version_in at_start (c # s) =
     (case (if at_start then version_at (c # s) else None) of
        Some v \<Rightarrow> Some v
      | None \<Rightarrow> version_in (c = newline) s)"

definition boost_get_version :: "toolchain \<Rightarrow> string \<Rightarrow> string py_result" where
  "boost_get_version tc d =
     (case version_file tc d of
        Header txt \<Rightarrow> (case version_in True txt of Some v \<Rightarrow> Inr v | None \<Rightarrow> tc_version tc d)
      | _ \<Rightarrow> tc_version tc d)"

definition has_header :: "toolchain \<Rightarrow> string \<Rightarrow> bool" where
  "has_header tc d \<longleftrightarrow> version_file tc d \<noteq> No_header"

definition include_dirs :: "toolchain \<Rightarrow> string list" where
  "include_dirs tc = str_split CHR '';'' (tc_include_var tc) @ boost_include_dirs"

definition boost_get_includes :: "toolchain \<Rightarrow> string \<Rightarrow> string conf_action" where
  "boost_get_includes tc includes =
     (if includes \<noteq> [] \<and> has_header tc includes then sret includes
      else (case List.find (has_header tc) (include_dirs tc) of
              Some d \<Rightarrow> sret d
            | None \<Rightarrow> fatal (if includes \<noteq> [] then ''headers not found in '' @ includes
                            else ''headers not found, please provide a --boost-includes argument (see help)'')))"

definition detected :: "toolchain \<Rightarrow> string \<Rightarrow> string option" where
  "detected tc cc =
     map_of [(''borland'', ''bcb''), (''clang'', if tc_platform tc = ''darwin'' then ''clang-darwin'' else ''clang''),
       (''como'', ''como''), (''cw'', ''cw''), (''darwin'', ''xgcc''), (''edg'', ''edg''),
       (''g++'', if contains (tc_cxx tc) ''MinGW'' then ''mgw'' else ''gcc''),
       (''gcc'', if contains (tc_cxx tc) ''MinGW'' then ''mgw'' else ''gcc''),
       (''icpc'', if tc_platform tc = ''win32'' then ''iw'' else ''il''),
       (''intel'', if tc_platform tc = ''win32'' then ''iw'' else ''il''),
       (''kcc'', ''kcc''), (''kylix'', ''bck''), (''mipspro'', ''mp''), (''mingw'', ''mgw''), (''msvc'', ''vc''),
       (''qcc'', ''qcc''), (''sun'', ''sw''), (''sunc++'', ''sw''), (''tru64cxx'', ''tru''), (''vacpp'', ''xlc'')] cc"

text \<open>An unknown name stays what was asked for; an empty one is then called, which raises.\<close>

definition boost_get_toolset :: "toolchain \<Rightarrow> string \<Rightarrow> string py_result" where
  "boost_get_toolset tc cc =
     (let name = (if cc = [] then if detected tc (tc_platform tc) \<noteq> None then tc_platform tc else tc_cxx_name tc else cc)
      in case detected tc name of
           Some t \<Rightarrow> Inr t
         | None \<Rightarrow> if cc = [] then Inl TypeError else Inr cc)"


section \<open>Libraries\<close>

text \<open>The last directory looked at and its files; \<open>None\<close> for a directory that does not exist.\<close>

fun search_dirs :: "toolchain \<Rightarrow> string list \<Rightarrow> string \<times> string list option \<Rightarrow> string \<times> string list option" where
  "search_dirs tc [] cur = cur"
| "search_dirs tc (d # ds) cur =
     (if d = [] then search_dirs tc ds cur
      else case tc_dir tc d of
        Some (f # fs) \<Rightarrow> (d, Some (f # fs))
      | _ \<Rightarrow> (case tc_dir tc (d @ ''64'') of
                Some (f # fs) \<Rightarrow> (d @ ''64'', Some (f # fs))
              | none \<Rightarrow> search_dirs tc ds (d @ ''64'', none)))"

definition lib_dirs :: "toolchain \<Rightarrow> string list" where
  "lib_dirs tc = str_split CHR '';'' (tc_lib_var tc) @ boost_lib_dirs"

definition libs_path :: "toolchain \<Rightarrow> string \<Rightarrow> (string \<times> string list) conf_action" where
  "libs_path tc libs =
     (let found = (case search_dirs tc (lib_dirs tc) ([], None) of
                     (d, Some fs) \<Rightarrow> sret (d, fs)
                   | (d, None) \<Rightarrow> fatal (if libs \<noteq> [] then ''libs not found in '' @ libs
                                       else ''libs not found, please provide a --boost-libs argument (see help)''))
      in if libs = [] then found
         else case tc_dir tc libs of
                None \<Rightarrow> sraise AttributeError
              | Some [] \<Rightarrow> found
              | Some fs \<Rightarrow> sret (libs, fs))"

text \<open>The longest name first, names of one length in reverse order.\<close>

definition longest_first :: "string list \<Rightarrow> string list" where
  "longest_first files = rev (sort_key length (sort files))"

definition tags_pat :: "boost_params \<Rightarrow> bool \<Rightarrow> string" where
  "tags_pat ps static =
     (if bp_mt ps then ''-mt'' else []) @
     (if bp_abi ps \<noteq> [] then (if static then ''-s'' else ''-'') @ bp_abi ps else if static then ''-s'' else [])"

text \<open>What a pattern of the build tool has after its \<open>%s\<close>.\<close>

fun pattern_ext :: "string \<Rightarrow> string" where
  "pattern_ext (a # b # s) = (if a = CHR ''%'' \<and> b = CHR ''s'' then s else pattern_ext (b # s))"
| "pattern_ext s = []"

definition python_tags :: "string \<Rightarrow> string \<Rightarrow> rx" where
  "python_tags tags py =
     (let major = lit (take 1 py); whole = lit py
      in Cat (Alt (lit tags) Emp)
         (foldr Alt [Cat (lit ''-py'') whole, cat [lit ''-py'', major, NonDigitAhead], whole, Cat major NonDigitAhead]
           (Cat NonDigitAhead (NotAhead ''-py''))))"

definition lib_tags :: "boost_params \<Rightarrow> bool \<Rightarrow> string \<Rightarrow> rx" where
  "lib_tags ps static lib =
     (if lib = ''python'' then python_tags (tags_pat ps static) (bp_python ps) else lit (tags_pat ps static))"

definition lib_patterns :: "string \<Rightarrow> string \<Rightarrow> rx \<Rightarrow> string \<Rightarrow> string \<Rightarrow> rx list" where
  "lib_patterns lib toolset tags version ext =
     (let base = lit (''boost_'' @ lib); ts = Cat (lit (CHR ''-'' # toolset)) (Digits 3); v = lit (CHR ''-'' # version); e = Cat (lit ext) Ends
      in [cat [base, ts, tags, v, e], cat [base, tags, v, e], cat [base, ts, tags, e], cat [base, tags, e], cat [base, e], base])"

fun first_match :: "rx list \<Rightarrow> string list \<Rightarrow> string option" where
  "first_match [] files = None"
| "first_match (p # ps) files =
     (case List.find (rx_search p) files of Some f \<Rightarrow> Some f | None \<Rightarrow> first_match ps files)"

text \<open>Without a dot \<open>rfind\<close> gives \<open>-1\<close>, so the last character is cut.\<close>

definition format_lib_name :: "toolchain \<Rightarrow> string \<Rightarrow> string" where
  "format_lib_name tc name =
     (let name = (if startswith name ''lib'' \<and> tc_cc_name tc \<noteq> ''msvc'' then drop 3 name else name)
      in if CHR ''.'' \<in> set name then rev (tl (dropWhile (\<lambda>c. c \<noteq> CHR ''.'') (rev name))) else butlast name)"

definition match_lib ::
  "toolchain \<Rightarrow> boost_params \<Rightarrow> string \<Rightarrow> string \<Rightarrow> string \<Rightarrow> string list \<Rightarrow> bool \<Rightarrow> string \<Rightarrow> string conf_action" where
  "match_lib tc ps toolset version path files static lib =
     (case first_match (lib_patterns lib toolset (lib_tags ps static lib) version
             (pattern_ext (if static then tc_stlib tc else tc_shlib tc))) files of
        Some f \<Rightarrow> sret (format_lib_name tc f)
      | None \<Rightarrow> fatal (''lib '' @ lib @ '' not found in '' @ path))"

fun each :: "('a \<Rightarrow> ('s, 'b) action) \<Rightarrow> 'a list \<Rightarrow> ('s, 'b list) action" where
  "each f [] = sret []"
| "each f (x # xs) = sbind (f x) (\<lambda>y. sbind (each f xs) (\<lambda>ys. sret (y # ys)))"

definition boost_get_libs ::
  "toolchain \<Rightarrow> boost_params \<Rightarrow> string \<Rightarrow> string \<Rightarrow> string \<Rightarrow> (string \<times> string list \<times> string list) conf_action" where
  "boost_get_libs tc ps version lib stlib =
     sbind (libs_path tc (bp_libs ps)) (\<lambda>(path, files).
     (case boost_get_toolset tc (bp_toolset ps) of
        Inl e \<Rightarrow> sraise e
      | Inr toolset \<Rightarrow>
          sbind (each (match_lib tc ps toolset version path (longest_first files) False) (words lib)) (\<lambda>libs.
          sbind (each (match_lib tc ps toolset version path (longest_first files) True) (words stlib)) (\<lambda>stlibs.
          sret (path, libs, stlibs)))))"

section \<open>The whole check\<close>

text \<open>The names of the libraries are one text, so a part of a name asks for the test program too.\<close>

definition test_programs :: "string \<Rightarrow> string \<Rightarrow> string list" where
  "test_programs lib stlib =
     List.filter (\<lambda>p. contains lib p \<or> contains stlib p) [''system'', ''thread'']"

definition try_link :: "toolchain \<Rightarrow> string \<Rightarrow> string \<Rightarrow> conf \<Rightarrow> bool" where
  "try_link tc lib stlib s \<longleftrightarrow> list_all (tc_links tc (env s)) (test_programs lib stlib)"

definition env_key :: "string \<Rightarrow> string \<Rightarrow> string" where
  "env_key k var = k @ ''_'' @ var"

text \<open>Without a library that can be loaded the import libraries are linked statically.\<close>

definition vc_libs :: "toolchain \<Rightarrow> string \<Rightarrow> string \<Rightarrow> string list \<Rightarrow> unit conf_action" where
  "vc_libs tc var path libs =
     (if list_ex (\<lambda>x. endswith x (replace_str ''%s'' [] (tc_shlib tc))) (tc_listdir tc path) then sret ()
      else sbind (set_env (env_key ''STLIBPATH'' var) [path]) (\<lambda>u. sbind (set_env (env_key ''STLIB'' var) libs) (\<lambda>u.
           sbind (del_env (env_key ''LIB'' var)) (\<lambda>u. del_env (env_key ''LIBPATH'' var)))))"

fun try_flags :: "toolchain \<Rightarrow> string \<Rightarrow> string \<Rightarrow> string \<Rightarrow> string list list \<Rightarrow> unit conf_action" where
  "try_flags tc var lib stlib [] =
     fatal ''Could not auto-detect boost linking flags combination, you may report it to boost.py author''"
| "try_flags tc var lib stlib (fs # fss) =
     (\<lambda>s. let k = env_key ''CXXFLAGS'' var; t = s\<lparr>env := dset k (get_env s k @ fs) (env s)\<rparr>
          in if try_link tc lib stlib t then note_msg ''ok: winning cxxflags combination'' t
             else try_flags tc var lib stlib fss s)"

definition autodetect :: "toolchain \<Rightarrow> boost_params \<Rightarrow> string \<Rightarrow> string \<Rightarrow> string \<Rightarrow> string \<Rightarrow> string list \<Rightarrow> unit conf_action" where
  "autodetect tc kw var lib stlib path libs =
     (case boost_get_toolset tc (bp_toolset kw) of
        Inl e \<Rightarrow> sraise e
      | Inr t \<Rightarrow>
          if t = ''vc''
          then sbind (\<lambda>s. set_env (env_key ''DEFINES'' var) (get_env s (env_key ''DEFINES'' var) @ [''BOOST_ALL_NO_LIB'']) s) (\<lambda>u.
               sbind (vc_libs tc var path libs) (\<lambda>u. try_flags tc var lib stlib [[''/MD'', ''/EHsc''], []]))
          else fatal ''Boost linkage flags auto-detection not implemented (needed ?) for this toolchain'')"

definition check_linkage :: "toolchain \<Rightarrow> string \<Rightarrow> string \<Rightarrow> unit conf_action" where
  "check_linkage tc lib stlib =
     (\<lambda>s. if try_link tc lib stlib s then note_msg ''ok'' s
          else fatal ''Could not link against boost libraries using supplied options'' s)"

definition result_action :: "'a py_result \<Rightarrow> 'a conf_action" where
  "result_action r = (case r of Inl e \<Rightarrow> sraise e | Inr x \<Rightarrow> sret x)"

definition set_libs :: "string \<Rightarrow> string \<Rightarrow> string list \<Rightarrow> string list \<Rightarrow> unit conf_action" where
  "set_libs var path libs stlibs =
     sbind (set_env (env_key ''LIBPATH'' var) [path]) (\<lambda>u. sbind (set_env (env_key ''STLIBPATH'' var) [path]) (\<lambda>u.
     sbind (set_env (env_key ''LIB'' var) libs) (\<lambda>u. sbind (set_env (env_key ''STLIB'' var) stlibs) (\<lambda>u. note_msg ''ok''))))"

definition check_libs ::
  "toolchain \<Rightarrow> boost_params \<Rightarrow> boost_params \<Rightarrow> string \<Rightarrow> string \<Rightarrow> string \<Rightarrow> string \<Rightarrow> unit conf_action" where
  "check_libs tc ps kw var version lib stlib =
     sbind (boost_get_libs tc ps version lib stlib) (\<lambda>(path, libs, stlibs).
     sbind (set_libs var path libs stlibs) (\<lambda>u.
     if bp_autodetect ps then autodetect tc kw var lib stlib path libs else check_linkage tc lib stlib))"

text \<open>A text in the environment is kept as a list of one item.\<close>

definition check_boost :: "toolchain \<Rightarrow> boost_params \<Rightarrow> boost_params \<Rightarrow> string \<Rightarrow> string \<Rightarrow> string \<Rightarrow> unit conf_action" where
  "check_boost tc opts kw var lib stlib =
     (if tc_cxx tc = [] then fatal ''load a c++ compiler first, conf.load(compiler_cxx)''
      else (let ps = merge_params opts kw in
        sbind (boost_get_includes tc (bp_includes ps)) (\<lambda>inc.
        sbind (set_env (env_key ''INCLUDES'' var) [inc]) (\<lambda>u.
        sbind (result_action (boost_get_version tc inc)) (\<lambda>version.
        sbind (set_env ''BOOST_VERSION'' [version]) (\<lambda>u.
        sbind (note_msg version) (\<lambda>u.
        if lib = [] \<and> stlib = [] then sret ()
        else check_libs tc ps kw var version lib stlib)))))))"


section \<open>Laws\<close>

lemma rests_cat: "rests (Cat a b) s \<noteq> [] \<Longrightarrow> rests a s \<noteq> []"
  by auto

lemma search_iff: "rx_search r s \<longleftrightarrow> (\<exists>n \<le> length s. rests r (drop n s) \<noteq> [])"
proof (induction s)
  case Nil
  then show ?case by simp
next
  case (Cons c s)
  have "(\<exists>n \<le> Suc (length s). rests r (drop n (c # s)) \<noteq> []) \<longleftrightarrow>
      rests r (c # s) \<noteq> [] \<or> (\<exists>n \<le> length s. rests r (drop n s) \<noteq> [])"
    by (metis Suc_le_mono drop0 drop_Suc_Cons not0_implies_Suc zero_le)
  then show ?case using Cons by simp
qed

lemma search_cat: "rx_search (Cat a b) s \<Longrightarrow> rx_search a s"
  unfolding search_iff using rests_cat by blast

text \<open>A text without a dot stands for itself.\<close>

lemma rests_lit: "CHR ''.'' \<notin> set p \<Longrightarrow> rests (lit p) s = (if prefix p s then [drop (length p) s] else [])"
  by (induction p arbitrary: s) (auto split: list.splits simp: Cons_prefix_Cons)

lemma search_lit:
  assumes "CHR ''.'' \<notin> set p"
  shows "rx_search (lit p) s \<longleftrightarrow> sublist p s"
proof -
  have r: "rests (lit p) t \<noteq> [] \<longleftrightarrow> prefix p t" for t
    by (simp add: rests_lit assms)
  have "rx_search (lit p) s \<longleftrightarrow> (\<exists>n \<le> length s. prefix p (drop n s))"
    unfolding search_iff r ..
  also have "\<dots> \<longleftrightarrow> sublist p s"
  proof
    assume "\<exists>n \<le> length s. prefix p (drop n s)"
    then obtain n where "prefix p (drop n s)" by blast
    then show "sublist p s"
      using sublist_order.order_trans prefix_imp_sublist sublist_drop by blast
  next
    assume "sublist p s"
    then obtain a b where "s = a @ p @ b" unfolding sublist_def by blast
    then show "\<exists>n \<le> length s. prefix p (drop n s)"
      by (intro exI [of _ "length a"]) simp
  qed
  finally show ?thesis .
qed

lemma lib_patterns_base: "p \<in> set (lib_patterns lib toolset tags version ext) \<Longrightarrow> rx_search p s \<Longrightarrow> rx_search (lit (''boost_'' @ lib)) s"
  by (auto simp: lib_patterns_def Let_def simp del: rx_search.simps rests.simps dest: search_cat)

lemma first_match_Some:
  "first_match ps files = Some f \<Longrightarrow>
     \<exists>i < length ps. List.find (rx_search (ps ! i)) files = Some f \<and> (\<forall>k < i. \<forall>g \<in> set files. \<not> rx_search (ps ! k) g)"
proof (induction ps)
  case Nil
  then show ?case by simp
next
  case (Cons p ps)
  show ?case
  proof (cases "List.find (rx_search p) files")
    case None
    then obtain i where "i < length ps" "List.find (rx_search (ps ! i)) files = Some f"
      "\<forall>k < i. \<forall>g \<in> set files. \<not> rx_search (ps ! k) g"
      using Cons by auto
    then show ?thesis
      using None by (intro exI [of _ "Suc i"]) (auto simp: less_Suc_eq_0_disj find_None_iff)
  next
    case (Some g)
    then show ?thesis using Cons.prems by (intro exI [of _ 0]) simp
  qed
qed

lemma first_match_None: "first_match ps files = None \<longleftrightarrow> (\<forall>p \<in> set ps. \<forall>f \<in> set files. \<not> rx_search p f)"
proof (induction ps)
  case Nil
  then show ?case by simp
next
  case (Cons p ps)
  have "List.find (rx_search p) files = None \<longleftrightarrow> (\<forall>f \<in> set files. \<not> rx_search p f)"
    by (auto simp: find_None_iff)
  with Cons show ?case by (cases "List.find (rx_search p) files") simp_all
qed

lemma set_longest_first [simp]: "set (longest_first files) = set files"
  by (simp add: longest_first_def)

lemma find_longest:
  assumes "List.find P (longest_first files) = Some f"
  shows "f \<in> set files \<and> P f \<and> (\<forall>g \<in> set files. P g \<longrightarrow> length g \<le> length f)"
proof -
  let ?l = "longest_first files"
  have "\<exists>i<length ?l. P (?l ! i) \<and> f = ?l ! i \<and> (\<forall>j<i. \<not> P (?l ! j))"
    using assms unfolding find_Some_iff by blast
  then obtain i where i: "i < length ?l" "P (?l ! i)" "f = ?l ! i" "\<forall>j < i. \<not> P (?l ! j)"
    by blast
  have dec: "sorted_wrt (\<lambda>a b. length b \<le> length a) ?l"
    unfolding longest_first_def sorted_wrt_rev using sorted_sort_key [of length "sort files"]
    by (simp add: sorted_map)
  have "length g \<le> length f" if "g \<in> set files" "P g" for g
  proof -
    have "g \<in> set ?l" using that(1) by simp
    then obtain j where j: "j < length ?l" "g = ?l ! j" unfolding in_set_conv_nth by blast
    then have "i \<le> j" using i(4) that(2) by (meson not_less)
    show ?thesis
    proof (cases "i = j")
      case True
      then show ?thesis unfolding i(3) j(2) by simp
    next
      case False
      with \<open>i \<le> j\<close> have "i < j" by simp
      then show ?thesis unfolding i(3) j(2) by (rule sorted_wrt_nth_less [OF dec _ j(1)])
    qed
  qed
  moreover have "f \<in> set files"
    using i(1,3) nth_mem [of i ?l] unfolding set_longest_first by simp
  ultimately show ?thesis using i(2,3) by simp
qed


text \<open>A step that succeeds keeps a property of the environment.\<close>

lemma sbind_InrE:
  assumes "sbind m f s = (t, Inr y)"
  obtains u x where "m s = (u, Inr x)" "f x u = (t, Inr y)"
proof -
  have "\<exists>u x. m s = (u, Inr x) \<and> f x u = (t, Inr y)"
    using sbind_cases [OF assms] by simp
  then show ?thesis using that by blast
qed

lemma conf_fails [simp]: "fatal msg s = (t, Inr x) \<longleftrightarrow> False" "sraise e s = (t, Inr x) \<longleftrightarrow> False"
  by (simp_all add: fatal_def note_msg_def action_simps)

lemma note_env: "note_msg msg s = (t, r) \<Longrightarrow> env t = env s \<and> r = Inr ()"
  by (auto simp: note_msg_def action_simps)

definition keeps_includes :: "string \<Rightarrow> 'a conf_action \<Rightarrow> bool" where
  "keeps_includes var f \<longleftrightarrow>
     (\<forall>s t x. f s = (t, Inr x) \<longrightarrow> dget (env t) (env_key ''INCLUDES'' var) = dget (env s) (env_key ''INCLUDES'' var))"

lemma keeps_bind:
  assumes "keeps_includes var f" "\<And>x. keeps_includes var (g x)"
  shows "keeps_includes var (sbind f g)"
  unfolding keeps_includes_def
proof (intro allI impI)
  fix s t y
  assume "sbind f g s = (t, Inr y)"
  then obtain u x where "f s = (u, Inr x)" "g x u = (t, Inr y)" by (rule sbind_InrE)
  then show "dget (env t) (env_key ''INCLUDES'' var) = dget (env s) (env_key ''INCLUDES'' var)"
    using assms unfolding keeps_includes_def by metis
qed

lemma includes_basic:
  "keeps_includes var (note_msg m)" "keeps_includes var (sret x)" "keeps_includes var (sraise e :: 'a conf_action)"
  "keeps_includes var (fatal m :: 'a conf_action)"
  "k \<noteq> env_key ''INCLUDES'' var \<Longrightarrow> keeps_includes var (set_env k v)"
  "k \<noteq> env_key ''INCLUDES'' var \<Longrightarrow> keeps_includes var (del_env k)"
  by (auto simp: keeps_includes_def note_msg_def set_env_def del_env_def action_simps dict_simps)

lemma keys_differ:
  "env_key ''LIBPATH'' var \<noteq> env_key ''INCLUDES'' var" "env_key ''STLIBPATH'' var \<noteq> env_key ''INCLUDES'' var"
  "env_key ''LIB'' var \<noteq> env_key ''INCLUDES'' var" "env_key ''STLIB'' var \<noteq> env_key ''INCLUDES'' var"
  "env_key ''DEFINES'' var \<noteq> env_key ''INCLUDES'' var" "env_key ''CXXFLAGS'' var \<noteq> env_key ''INCLUDES'' var"
  "''BOOST_VERSION'' \<noteq> env_key ''INCLUDES'' var"
  by (simp_all add: env_key_def)

lemma keeps_set_libs: "keeps_includes var (set_libs var path libs stlibs)"
  unfolding set_libs_def by (intro keeps_bind includes_basic keys_differ)

lemma keeps_vc_libs: "keeps_includes var (vc_libs tc var path libs)"
  unfolding vc_libs_def by (simp add: keeps_bind includes_basic keys_differ)

lemma try_flags_links:
  "try_flags tc var lib stlib fss s = (t, Inr u) \<Longrightarrow>
     try_link tc lib stlib t \<and> dget (env t) (env_key ''INCLUDES'' var) = dget (env s) (env_key ''INCLUDES'' var)"
proof (induction fss)
  case Nil
  then show ?case by simp
next
  case (Cons fs fss)
  define z where "z = s\<lparr>env := dset (env_key ''CXXFLAGS'' var) (get_env s (env_key ''CXXFLAGS'' var) @ fs) (env s)\<rparr>"
  show ?case
  proof (cases "try_link tc lib stlib z")
    case True
    then have "env t = env z"
      using Cons.prems note_env unfolding z_def by (simp add: Let_def)
    then show ?thesis
      using True keys_differ(6) [of var] unfolding try_link_def by (simp add: z_def dict_simps)
  next
    case False
    then show ?thesis using Cons unfolding z_def by (simp add: Let_def)
  qed
qed

lemma autodetect_links:
  assumes "autodetect tc kw var lib stlib path libs s = (t, Inr u)"
  shows "boost_get_toolset tc (bp_toolset kw) = Inr ''vc'' \<and> try_link tc lib stlib t \<and>
    dget (env t) (env_key ''INCLUDES'' var) = dget (env s) (env_key ''INCLUDES'' var)"
proof (cases "boost_get_toolset tc (bp_toolset kw)")
  case (Inl e)
  then show ?thesis using assms by (simp add: autodetect_def)
next
  case (Inr v)
  then have v: "v = ''vc''" using assms by (simp add: autodetect_def split: if_splits)
  let ?d = "\<lambda>s. set_env (env_key ''DEFINES'' var) (get_env s (env_key ''DEFINES'' var) @ [''BOOST_ALL_NO_LIB'']) s"
  obtain a b w where "?d s = (a, Inr b)" "vc_libs tc var path libs a = (w, Inr ())"
    "try_flags tc var lib stlib [[''/MD'', ''/EHsc''], []] w = (t, Inr u)"
    using assms unfolding autodetect_def Inr v by (auto elim!: sbind_InrE)
  moreover have "keeps_includes var ?d"
    using keys_differ(5) [of var, symmetric] unfolding keeps_includes_def
    by (simp add: set_env_def action_simps dict_simps)
  ultimately show ?thesis
    using Inr v try_flags_links keeps_vc_libs unfolding keeps_includes_def by metis
qed

lemma linkage_links: "check_linkage tc lib stlib s = (t, Inr u) \<Longrightarrow> try_link tc lib stlib t \<and> env t = env s"
  by (auto simp: check_linkage_def try_link_def dest: note_env split: if_splits)

lemma includes_have_header:
  "boost_get_includes tc d s = (t, Inr inc) \<Longrightarrow> has_header tc inc \<and> t = s"
  by (auto simp: boost_get_includes_def action_simps find_Some_iff split: if_splits option.splits)

lemma keeps_get_libs: "boost_get_libs tc ps v lib stlib s = (t, Inr r) \<Longrightarrow> env t = env s"
proof -
  have each: "each (match_lib tc ps ts v path fs b) ls s = (t, Inr y) \<Longrightarrow> t = s" for ts path fs b ls s t y
    by (induction ls arbitrary: y s)
      (auto simp: action_simps match_lib_def elim!: sbind_InrE split: option.splits)
  have path: "libs_path tc l s = (t, Inr y) \<Longrightarrow> t = s" for l s t y
    by (auto simp: libs_path_def Let_def action_simps split: if_splits option.splits list.splits prod.splits)
  assume "boost_get_libs tc ps v lib stlib s = (t, Inr r)"
  then show "env t = env s"
    unfolding boost_get_libs_def case_prod_beta
    by (elim sbind_InrE) (auto simp: action_simps elim!: sbind_InrE dest!: each path split: sum.splits)
qed


lemma check_libs_links:
  assumes "check_libs tc ps kw var v lib stlib s = (t, Inr u)"
  shows "try_link tc lib stlib t \<and> dget (env t) (env_key ''INCLUDES'' var) = dget (env s) (env_key ''INCLUDES'' var) \<and>
    (bp_autodetect ps \<longrightarrow> boost_get_toolset tc (bp_toolset kw) = Inr ''vc'')"
proof -
  obtain s1 r s2 x where g: "boost_get_libs tc ps v lib stlib s = (s1, Inr r)"
    and s2: "set_libs var (fst r) (fst (snd r)) (snd (snd r)) s1 = (s2, Inr x)"
    and l: "(if bp_autodetect ps then autodetect tc kw var lib stlib (fst r) (fst (snd r)) else check_linkage tc lib stlib) s2 = (t, Inr u)"
    using assms unfolding check_libs_def case_prod_beta by (elim sbind_InrE) (rule that)
  have "dget (env s2) (env_key ''INCLUDES'' var) = dget (env s) (env_key ''INCLUDES'' var)"
    using keeps_get_libs [OF g] keeps_set_libs s2 unfolding keeps_includes_def by metis
  then show ?thesis
    using l autodetect_links [of tc kw var lib stlib "fst r" "fst (snd r)" s2 t u] linkage_links [of tc lib stlib s2 t u]
    by (cases "bp_autodetect ps") simp_all
qed

lemma keeps_check_libs: "keeps_includes var (check_libs tc ps kw var v lib stlib)"
  unfolding keeps_includes_def using check_libs_links by blast

section \<open>An example\<close>

definition demo_tools :: "string list \<Rightarrow> toolchain" where
  "demo_tools files = \<lparr>tc_platform = ''linux'', tc_cxx = ''g++'', tc_cxx_name = ''gcc'', tc_cc_name = ''gcc'',
     tc_shlib = ''lib%s.so'', tc_stlib = ''lib%s.a'', tc_include_var = [], tc_lib_var = [],
     tc_header = (\<lambda>d. if d = ''/usr/include''
        then Header (''#define BOOST_LIB_VERSION '' @ [CHR 0x22] @ ''1_58'' @ [CHR 0x22, newline]) else No_header),
     tc_version = (\<lambda>d. Inl (PyException ''ConfigurationError'')),
     tc_dir = (\<lambda>d. if d = ''/usr/lib'' then Some files else None), tc_listdir = (\<lambda>d. files),
     tc_links = (\<lambda>e p. True)\<rparr>"

definition no_params :: boost_params where
  "no_params = \<lparr>bp_includes = [], bp_libs = [], bp_mt = False, bp_abi = [], bp_autodetect = False, bp_toolset = [],
     bp_python = ''27''\<rparr>"

definition start_conf :: conf where
  "start_conf = \<lparr>env = [], messages = []\<rparr>"

definition demo_check :: "string list \<Rightarrow> string \<Rightarrow> string \<Rightarrow> conf \<times> (py_error + unit)" where
  "demo_check files lib stlib = check_boost (demo_tools files) no_params no_params ''BOOST'' lib stlib start_conf"

text \<open>The files that the last pattern still accepts for a Python library are those that the patterns before
  it are there to reject; the same holds for a shared library where a static one is asked for, and a file name without
  a dot loses a letter.\<close>

theorem loose_last_pattern:
  "List.map (\<lambda>f. is_ok (snd (demo_check [f] ''python'' [])))
     [''libboost_python-py27.so'', ''libboost_python-py3.so'', ''libboost_python26.so''] = [True, True, True] \<and>
   List.map (\<lambda>f. rx_search (cat [lit ''boost_python'', python_tags [] ''27'', lit ''.so'', Ends]) f)
     [''libboost_python-py27.so'', ''libboost_python-py2.so'', ''libboost_python27.so'', ''libboost_python2.so'',
      ''libboost_python-py3.so'', ''libboost_python-py26.so'', ''libboost_python26.so'', ''libboost_python3.so''] =
     [True, True, True, True, False, False, False, False] \<and>
   dget (env (fst (demo_check [''libboost_regex.so''] [] ''regex''))) ''STLIB_BOOST'' = Some [''boost_regex''] \<and>
   dget (env (fst (demo_check [''libboost_regex''] ''regex'' []))) ''LIB_BOOST'' = Some [''boost_rege'']"
  by code_simp

section \<open>Properties\<close>



text \<open>C32. When the check of Boost succeeds with a library, the test programs link in the environment that is
  left, which also names a directory with the headers; a detection of flags succeeds only for the
  toolset vc, and this toolset is taken from the keywords alone, not from the command line.\<close>

theorem check_boost_links:
  assumes "check_boost tc opts kw var lib stlib s = (t, Inr u)" "lib \<noteq> [] \<or> stlib \<noteq> []"
  shows "(\<forall>p \<in> set (test_programs lib stlib). tc_links tc (env t) p) \<and>
    (\<exists>inc. dget (env t) (env_key ''INCLUDES'' var) = Some [inc] \<and> has_header tc inc) \<and>
    (bp_autodetect opts \<or> bp_autodetect kw \<longrightarrow> boost_get_toolset tc (bp_toolset kw) = Inr ''vc'')"
proof -
  let ?ps = "merge_params opts kw" and ?k = "env_key ''INCLUDES'' var"
  have "tc_cxx tc \<noteq> []" using assms(1) by (auto simp: check_boost_def)
  then have "sbind (boost_get_includes tc (bp_includes ?ps)) (\<lambda>inc. sbind (set_env ?k [inc]) (\<lambda>u.
      sbind (result_action (boost_get_version tc inc)) (\<lambda>v. sbind (set_env ''BOOST_VERSION'' [v]) (\<lambda>u.
      sbind (note_msg v) (\<lambda>u. check_libs tc ?ps kw var v lib stlib))))) s = (t, Inr u)"
    using assms unfolding check_boost_def Let_def by auto
  then obtain s1 inc where inc: "boost_get_includes tc (bp_includes ?ps) s = (s1, Inr inc)" and
    r: "sbind (set_env ?k [inc]) (\<lambda>u. sbind (result_action (boost_get_version tc inc)) (\<lambda>v.
      sbind (set_env ''BOOST_VERSION'' [v]) (\<lambda>u. sbind (note_msg v) (\<lambda>u. check_libs tc ?ps kw var v lib stlib)))) s1 = (t, Inr u)"
    by (rule sbind_InrE)
  from r obtain s2 x where s2: "set_env ?k [inc] s1 = (s2, Inr x)" and
    r2: "sbind (result_action (boost_get_version tc inc)) (\<lambda>v. sbind (set_env ''BOOST_VERSION'' [v]) (\<lambda>u.
      sbind (note_msg v) (\<lambda>u. check_libs tc ?ps kw var v lib stlib))) s2 = (t, Inr u)"
    by (rule sbind_InrE)
  from r2 obtain s3 v where s3: "result_action (boost_get_version tc inc) s2 = (s3, Inr v)" and
    r3: "sbind (set_env ''BOOST_VERSION'' [v]) (\<lambda>u. sbind (note_msg v) (\<lambda>u. check_libs tc ?ps kw var v lib stlib)) s3 = (t, Inr u)"
    by (rule sbind_InrE)
  have kept: "dget (env s2) ?k = Some [inc]" "s3 = s2"
    using s2 s3 by (auto simp: set_env_def result_action_def action_simps dict_simps split: sum.splits)
  have "keeps_includes var (sbind (set_env ''BOOST_VERSION'' [v]) (\<lambda>u. sbind (note_msg v) (\<lambda>u. check_libs tc ?ps kw var v lib stlib)))"
    by (intro keeps_bind includes_basic keys_differ keeps_check_libs)
  then have "dget (env t) ?k = Some [inc]"
    using r3 kept unfolding keeps_includes_def by metis
  moreover obtain s5 where "check_libs tc ?ps kw var v lib stlib s5 = (t, Inr u)"
    using r3 by (elim sbind_InrE)
  ultimately show ?thesis
    using check_libs_links includes_have_header [OF inc]
    by (auto simp: try_link_def list_all_iff merge_params_def)
qed

definition linked_conf :: conf where
  "linked_conf = fst (demo_check [''libboost_regex.so''] ''regex'' [])"

theorem check_boost_links_witness: "dget (env linked_conf) ''INCLUDES_BOOST'' = Some [''/usr/include'']"
proof -
  have c: "check_boost (demo_tools [''libboost_regex.so'']) no_params no_params ''BOOST'' ''regex'' [] start_conf = (linked_conf, Inr ())"
    by code_simp
  have "\<exists>inc. dget (env linked_conf) (env_key ''INCLUDES'' ''BOOST'') = Some [inc] \<and> has_header (demo_tools [''libboost_regex.so'']) inc"
    using check_boost_links [OF c] by blast
  then show ?thesis
    by (auto simp: env_key_def has_header_def version_file_def demo_tools_def split: if_splits)
qed

end
