(* ===== verification/CommandTask.thy ===== *)
theory CommandTask
  imports ShellCmd
begin

text \<open>
  The task that runs a command line with variables, \<open>waf-tools/command.py\<close>: substitution in
  the parts of a parsed pipeline, and its run by the commands of ShellCmd.  \<open>eval\<close>, the names of the
  nodes and \<open>shlex.split\<close> are arguments.
\<close>

section \<open>Substitution\<close>

text \<open>What \<open>eval\<close> gives: a node, the very list of sources or of targets, another list, a text or something else.\<close>

datatype evaluated = VNode string | VInputs | VOutputs | VList "string list" | VText string | VOther

record task =
  inputs :: "string list"
  outputs :: "string list"
  src_path :: "string \<Rightarrow> string"
  bld_path :: "string \<Rightarrow> string"
  bld_abspath :: "string \<Rightarrow> string"

definition repl :: "task \<Rightarrow> (string \<Rightarrow> evaluated py_result) \<Rightarrow> string \<Rightarrow> string \<Rightarrow> string py_result" where
  "repl t ev var code =
     rbind (ev (var @ code)) (\<lambda>r.
       case r of
         VNode n \<Rightarrow> if var = ''TGT'' then Inr (bld_abspath t n) else if var = ''SRC'' then Inr (src_path t n) else Inl ValueError
       | VInputs \<Rightarrow> (case inputs t of [n] \<Rightarrow> Inr (src_path t n) | _ \<Rightarrow> Inl ValueError)
       | VOutputs \<Rightarrow> (case outputs t of [n] \<Rightarrow> Inr (bld_abspath t n) | _ \<Rightarrow> Inl ValueError)
       | VList xs \<Rightarrow> (case xs of [x] \<Rightarrow> Inr x | _ \<Rightarrow> Inl AssertionError)
       | VText x \<Rightarrow> Inr x
       | VOther \<Rightarrow> Inl TypeError)"

text \<open>\<open>\<^verbatim>\<open>\$\{(\w+)(.*?)\}\<close>\<close>: the code ends at the first brace, which has to be on the line.\<close>

definition var_match :: "string \<Rightarrow> (string \<times> string \<times> string) option" where
  "var_match s =
     (case s of
        CHR ''$'' # CHR ''{'' # t \<Rightarrow>
          (let var = takeWhile word_char t; r = dropWhile word_char t;
               code = takeWhile (\<lambda>c. c \<noteq> CHR ''}'' \<and> c \<noteq> newline) r; e = dropWhile (\<lambda>c. c \<noteq> CHR ''}'' \<and> c \<noteq> newline) r
           in if var \<noteq> [] \<and> e \<noteq> [] \<and> hd e = CHR ''}'' then Some (var, code, tl e) else None)
      | _ \<Rightarrow> None)"

lemma var_match_shorter: "var_match s = Some (v, c, r) \<Longrightarrow> length r < length s"
proof -
  assume a: "var_match s = Some (v, c, r)"
  then obtain t where s: "s = CHR ''$'' # CHR ''{'' # t"
    unfolding var_match_def by (auto split: list.splits char.splits bool.splits)
  have "r = tl (dropWhile (\<lambda>c. c \<noteq> CHR ''}'' \<and> c \<noteq> newline) (dropWhile word_char t))"
    using a unfolding s var_match_def by (simp add: Let_def split: if_splits)
  then have "length r \<le> length t"
    by (metis (no_types, lifting) diff_le_self le_trans length_dropWhile_le length_tl)
  then show ?thesis unfolding s by simp
qed

function subst_arg :: "(string \<Rightarrow> string \<Rightarrow> string py_result) \<Rightarrow> string \<Rightarrow> string py_result" where
  "subst_arg f [] = Inr []"
| "subst_arg f (c # s) =
     (if c = CHR ''$'' \<and> s \<noteq> [] \<and> hd s = CHR ''$'' then rbind (subst_arg f (tl s)) (\<lambda>r. Inr (CHR ''$'' # r))
      else case var_match (c # s) of
             Some (var, code, rest) \<Rightarrow> rbind (f var code) (\<lambda>x. rbind (subst_arg f rest) (\<lambda>r. Inr (x @ r)))
           | None \<Rightarrow> rbind (subst_arg f s) (\<lambda>r. Inr (c # r)))"
  by pat_completeness auto
termination
  by (relation "measure (\<lambda>(f, s). length s)") (auto dest: var_match_shorter)

section \<open>The run of a task\<close>

definition subst_option :: "(string \<Rightarrow> string py_result) \<Rightarrow> string option \<Rightarrow> string option py_result" where
  "subst_option f x = (case x of None \<Rightarrow> Inr None | Some a \<Rightarrow> rbind (f a) (\<lambda>b. Inr (Some b)))"

definition subst_out :: "(string \<Rightarrow> string py_result) \<Rightarrow> out_target \<Rightarrow> out_target py_result" where
  "subst_out f x = (case x of OutFile a \<Rightarrow> rbind (f a) (\<lambda>b. Inr (OutFile b)) | _ \<Rightarrow> Inr x)"

definition subst_err :: "(string \<Rightarrow> string py_result) \<Rightarrow> err_target \<Rightarrow> err_target py_result" where
  "subst_err f x = (case x of ErrFile a \<Rightarrow> rbind (f a) (\<lambda>b. Inr (ErrFile b)) | _ \<Rightarrow> Inr x)"

definition subst_env :: "(string \<Rightarrow> string py_result) \<Rightarrow> (string, string) dict option \<Rightarrow> (string, string) dict option py_result" where
  "subst_env f x =
     (case x of
        None \<Rightarrow> Inr None
      | Some vars \<Rightarrow> rbind (map_res (\<lambda>(k, v). rbind (f v) (\<lambda>w. Inr (k, w))) vars) (\<lambda>vars. Inr (Some vars)))"

text \<open>The name of the command, which the abbreviation prints, is left as it is.\<close>

definition subst_command :: "(string \<Rightarrow> string py_result) \<Rightarrow> command \<Rightarrow> command py_result" where
  "subst_command f c =
     rbind (subst_option f (stdin c)) (\<lambda>i.
     rbind (subst_out f (stdout c)) (\<lambda>out.
     rbind (subst_err f (stderr c)) (\<lambda>err.
     rbind (map_res f (argv c)) (\<lambda>args.
     rbind (subst_env f (env_vars c)) (\<lambda>vars.
     Inr (c\<lparr>argv := args, stdin := i, stdout := out, stderr := err, env_vars := vars\<rparr>))))))"

definition subst_node :: "(string \<Rightarrow> string py_result) \<Rightarrow> node \<Rightarrow> node py_result" where
  "subst_node f n =
     (case n of
        Command c \<Rightarrow> rbind (subst_command f c) (\<lambda>c. Inr (Command c))
      | Chdir None \<Rightarrow> Inl TypeError
      | Chdir (Some d) \<Rightarrow> rbind (f d) (\<lambda>d. Inr (Chdir (Some d)))
      | _ \<Rightarrow> Inr n)"

definition task_run ::
  "task \<Rightarrow> (string \<Rightarrow> evaluated py_result) \<Rightarrow> os_env \<Rightarrow> bool \<Rightarrow> string list \<Rightarrow> run_state \<times> (py_error + int option)" where
  "task_run t ev os verbose tokens =
     (case rbind (parse tokens) (map_res (subst_node (subst_arg (repl t ev)))) of
        Inl e \<Rightarrow> (new_run, Inl e)
      | Inr nodes \<Rightarrow> run os verbose nodes)"

definition task_title :: "task \<Rightarrow> string list \<Rightarrow> string py_result" where
  "task_title t tokens =
     rbind (parse tokens) (\<lambda>nodes.
       Inr (''command ('' @ get_abbreviated_command nodes @ ''): '' @ join '' '' (List.map (bld_path t) (inputs t)) @
            (if outputs t \<noteq> [] then '' -> '' else []) @ join '' '' (List.map (bld_path t) (outputs t))))"

section \<open>Laws\<close>

text \<open>The parts of an argument as one writes them.\<close>

datatype piece = Plain string | Dollar | Var string string

fun print_piece :: "piece \<Rightarrow> string" where
  "print_piece (Plain s) = s"
| "print_piece Dollar = ''$$''"
| "print_piece (Var v c) = CHR ''$'' # CHR ''{'' # v @ c @ ''}''"

fun piece_value :: "(string \<Rightarrow> string \<Rightarrow> string py_result) \<Rightarrow> piece \<Rightarrow> string py_result" where
  "piece_value f (Plain s) = Inr s"
| "piece_value f Dollar = Inr ''$''"
| "piece_value f (Var v c) = f v c"

fun piece_ok :: "piece \<Rightarrow> bool" where
  "piece_ok (Plain s) = (CHR ''$'' \<notin> set s)"
| "piece_ok Dollar = True"
| "piece_ok (Var v c) =
     (v \<noteq> [] \<and> list_all word_char v \<and> CHR ''}'' \<notin> set c \<and> newline \<notin> set c \<and> (c = [] \<or> \<not> word_char (hd c)))"

lemma subst_plain:
  "CHR ''$'' \<notin> set s \<Longrightarrow> subst_arg f (s @ t) = rbind (subst_arg f t) (\<lambda>r. Inr (s @ r))"
proof (induction s)
  case Nil
  then show ?case by (cases "subst_arg f t") simp_all
next
  case (Cons c s)
  then have "c \<noteq> CHR ''$''" by auto
  then have "var_match (c # s @ t) = None"
    unfolding var_match_def by (auto split: list.splits char.splits bool.splits)
  then show ?case
    using Cons \<open>c \<noteq> CHR ''$''\<close> by (cases "subst_arg f t") simp_all
qed

lemma takeWhile_stop: "list_all P v \<Longrightarrow> w = [] \<or> \<not> P (hd w) \<Longrightarrow> takeWhile P (v @ w) = v \<and> dropWhile P (v @ w) = w"
  by (induction v) (auto, (cases w; simp)+)

lemma brace_no_word: "\<not> word_char CHR ''}''"
  by (simp add: word_char_def)

lemma var_match_print:
  assumes "piece_ok (Var v c)"
  shows "var_match (print_piece (Var v c) @ t) = Some (v, c, t)"
proof -
  let ?stop = "\<lambda>x. x \<noteq> CHR ''}'' \<and> x \<noteq> newline"
  have w: "takeWhile word_char (v @ c @ CHR ''}'' # t) = v \<and> dropWhile word_char (v @ c @ CHR ''}'' # t) = c @ CHR ''}'' # t"
    by (rule takeWhile_stop) (use assms brace_no_word in \<open>cases c; simp\<close>)+
  have "list_all ?stop c" using assms by (auto simp: list_all_iff)
  then have "takeWhile ?stop (c @ CHR ''}'' # t) = c \<and> dropWhile ?stop (c @ CHR ''}'' # t) = CHR ''}'' # t"
    by (rule takeWhile_stop) simp
  then show ?thesis
    using w assms unfolding var_match_def by (simp add: Let_def)
qed


lemma subst_var:
  assumes "piece_ok (Var v c)"
  shows "subst_arg f (print_piece (Var v c) @ t) = rbind (f v c) (\<lambda>x. rbind (subst_arg f t) (\<lambda>r. Inr (x @ r)))"
  using var_match_print [OF assms, of t] by simp

lemma subst_none: "CHR ''$'' \<notin> set s \<Longrightarrow> subst_arg f s = Inr s"
  using subst_plain [of s f "[]"] by simp

fun plain_node :: "node \<Rightarrow> bool" where
  "plain_node (Command c) =
     (let plain = (\<lambda>s. CHR ''$'' \<notin> set s)
      in list_all plain (argv c) \<and> pred_option plain (stdin c) \<and>
         (case stdout c of OutFile f \<Rightarrow> plain f | _ \<Rightarrow> True) \<and> (case stderr c of ErrFile f \<Rightarrow> plain f | _ \<Rightarrow> True) \<and>
         pred_option (list_all (\<lambda>(k, v). plain v)) (env_vars c))"
| "plain_node (Chdir d) = (case d of None \<Rightarrow> False | Some x \<Rightarrow> CHR ''$'' \<notin> set x)"
| "plain_node _ = True"

lemma map_res_same: "(\<And>x. x \<in> set xs \<Longrightarrow> f x = Inr x) \<Longrightarrow> map_res f xs = Inr xs"
  by (induction xs) simp_all

lemma subst_plain_node:
  assumes "plain_node n"
  shows "subst_node (subst_arg f) n = Inr n"
proof (cases n)
  case (Command c)
  have i: "subst_option (subst_arg f) (stdin c) = Inr (stdin c)"
    using assms Command by (auto simp: subst_option_def subst_none Let_def split: option.splits)
  have out: "subst_out (subst_arg f) (stdout c) = Inr (stdout c)"
    using assms Command by (auto simp: subst_out_def subst_none Let_def split: out_target.splits)
  have err: "subst_err (subst_arg f) (stderr c) = Inr (stderr c)"
    using assms Command by (auto simp: subst_err_def subst_none Let_def split: err_target.splits)
  have args: "map_res (subst_arg f) (argv c) = Inr (argv c)"
    using assms Command by (intro map_res_same) (auto simp: list_all_iff subst_none Let_def)
  have vars: "subst_env (subst_arg f) (env_vars c) = Inr (env_vars c)"
  proof (cases "env_vars c")
    case None
    then show ?thesis by (simp add: subst_env_def)
  next
    case (Some vs)
    have "map_res (\<lambda>(k, v). rbind (subst_arg f v) (\<lambda>w. Inr (k, w))) vs = Inr vs"
      using assms Command Some by (intro map_res_same) (auto simp: list_all_iff subst_none Let_def)
    then show ?thesis using Some by (simp add: subst_env_def)
  qed
  show ?thesis
    unfolding Command by (simp add: subst_node_def subst_command_def i out err args vars)
next
  case (Chdir d)
  then show ?thesis using assms by (cases d) (simp_all add: subst_node_def subst_none)
qed (simp_all add: subst_node_def)

section \<open>Properties\<close>

text \<open>C33. An argument that is written from plain texts, doubled dollars and variables becomes the values of its
  parts in a row, and the first part without a value is the exception that is raised.\<close>

theorem argument_of_pieces:
  assumes "list_all piece_ok ps"
  shows "subst_arg f (concat (List.map print_piece ps)) = rbind (map_res (piece_value f) ps) (\<lambda>xs. Inr (concat xs))"
  using assms
proof (induction ps)
  case Nil
  then show ?case by simp
next
  case (Cons p ps)
  let ?t = "concat (List.map print_piece ps)"
  have ih: "subst_arg f ?t = rbind (map_res (piece_value f) ps) (\<lambda>xs. Inr (concat xs))"
    using Cons by simp
  have "subst_arg f (print_piece p @ ?t) = rbind (piece_value f p) (\<lambda>x. rbind (subst_arg f ?t) (\<lambda>r. Inr (x @ r)))"
  proof (cases p)
    case (Plain s)
    then show ?thesis using Cons.prems by (simp add: subst_plain)
  next
    case Dollar
    then show ?thesis by simp
  next
    case (Var v c)
    then have "piece_ok (Var v c)" using Cons.prems by simp
    then show ?thesis unfolding Var subst_var [OF \<open>piece_ok (Var v c)\<close>] by simp
  qed
  then show ?case
    unfolding ih by (cases "piece_value f p"; cases "map_res (piece_value f) ps") simp_all
qed

definition demo_task :: task where
  "demo_task = \<lparr>inputs = [''a''], outputs = [''b'', ''c''], src_path = (\<lambda>n. ''../'' @ n), bld_path = (\<lambda>n. n),
     bld_abspath = (\<lambda>n. ''/build/'' @ n)\<rparr>"

definition demo_eval :: "string \<Rightarrow> evaluated py_result" where
  "demo_eval e = (if e = ''SRC'' then Inr VInputs else if e = ''TGT'' then Inr VOutputs
     else if e = ''TGT[1]'' then Inr (VNode ''c'') else Inl NameError)"

theorem argument_of_pieces_witness:
  "subst_arg (repl demo_task demo_eval) ''-I${SRC}:$${TGT[1]}'' = Inr ''-I../a:${TGT[1]}'' \<and>
   subst_arg (repl demo_task demo_eval) ''-I${SRC}:${TGT[1]}'' = Inr ''-I../a:/build/c'' \<and>
   subst_arg (repl demo_task demo_eval) ''${TGT}'' = Inl ValueError"
proof -
  let ?f = "repl demo_task demo_eval"
  have p: "list_all piece_ok [Plain ''-I'', Var ''SRC'' [], Plain '':'', Dollar, Plain ''{TGT[1]}'']"
    "list_all piece_ok [Plain ''-I'', Var ''SRC'' [], Plain '':'', Var ''TGT'' ''[1]'']"
    "list_all piece_ok [Var ''TGT'' []]"
    by code_simp+
  have v: "rbind (map_res (piece_value ?f) [Plain ''-I'', Var ''SRC'' [], Plain '':'', Dollar, Plain ''{TGT[1]}'']) (\<lambda>xs. Inr (concat xs)) =
      Inr ''-I../a:${TGT[1]}''"
    "rbind (map_res (piece_value ?f) [Plain ''-I'', Var ''SRC'' [], Plain '':'', Var ''TGT'' ''[1]'']) (\<lambda>xs. Inr (concat xs)) =
      Inr ''-I../a:/build/c''"
    "rbind (map_res (piece_value ?f) [Var ''TGT'' []]) (\<lambda>xs. Inr (concat xs)) = Inl ValueError"
    by code_simp+
  show ?thesis
    using argument_of_pieces [OF p(1), of ?f] argument_of_pieces [OF p(2), of ?f] argument_of_pieces [OF p(3), of ?f]
    unfolding v by (simp only: list.map print_piece.simps concat.simps append.simps)
qed

text \<open>A task whose command has no variable runs exactly as the pipeline itself, and one whose command does not parse
  or has a part without a value starts no process.\<close>

theorem task_runs_pipeline:
  assumes "parse tokens = Inr nodes"
  shows "(list_all plain_node nodes \<longrightarrow> task_run t ev os verbose tokens = run os verbose nodes) \<and>
    (\<forall>e. map_res (subst_node (subst_arg (repl t ev))) nodes = Inl e \<longrightarrow>
       task_run t ev os verbose tokens = (new_run, Inl e) \<and> procs (fst (task_run t ev os verbose tokens)) = [])"
proof -
  have "map_res (subst_node (subst_arg (repl t ev))) nodes = Inr nodes" if "list_all plain_node nodes"
    using that by (intro map_res_same subst_plain_node) (simp add: list_all_iff)
  then show ?thesis
    by (simp add: task_run_def assms new_run_def)
qed

theorem task_runs_pipeline_witness:
  "snd (task_run demo_task demo_eval \<lparr>open_ok = \<lambda>f. True, spawn = \<lambda>ls l. Inr 0, environ = []\<rparr> False [''ls'', ''${TGT}'']) = Inl ValueError"
proof -
  have p: "parse [''ls'', ''${TGT}''] = Inr [Command (new_command ''ls''\<lparr>argv := [''ls'', ''${TGT}'']\<rparr>)]"
    by code_simp
  have "map_res (subst_node (subst_arg (repl demo_task demo_eval))) [Command (new_command ''ls''\<lparr>argv := [''ls'', ''${TGT}'']\<rparr>)] = Inl ValueError"
    by code_simp
  then show ?thesis using task_runs_pipeline [OF p] by simp
qed

end
