(* ===== verification/BuildTasks.thy ===== *)
theory BuildTasks
  imports CommandTask PyPath
begin

text \<open>
  The task generators of \<open>waf-tools/misc.py\<close> (copies, substitution in templates, commands with
  inputs and outputs), the database of compile commands (\<open>waf-tools/clang_compilation_database.py\<close>)
  and the moved project directory (\<open>waf-tools/relocation.py\<close>).  The nodes of the build tool are
  their names, and what finds them is an argument.
\<close>

section \<open>Substitution in a template\<close>

text \<open>\<open>\<^verbatim>\<open>@(\w+)@\<close>\<close> at the start of a text: the name and what is behind it.\<close>

definition at_name :: "string \<Rightarrow> (string \<times> string) option" where
  "at_name s =
     (case s of
        [] \<Rightarrow> None
      | c # t \<Rightarrow>
          (let n = takeWhile word_char t; r = dropWhile word_char t
           in if c = CHR ''@'' \<and> n \<noteq> [] \<and> r \<noteq> [] \<and> hd r = CHR ''@'' then Some (n, tl r) else None))"

lemma at_name_shorter: "at_name s = Some (n, r) \<Longrightarrow> length r < length s"
  by (auto simp: at_name_def Let_def split: list.splits if_splits)
    (metis diff_le_self le_imp_less_Suc le_trans length_dropWhile_le)

definition escape_percent :: "string \<Rightarrow> string" where
  "escape_percent s = concat (List.map (\<lambda>c. if c = CHR ''%'' then ''%%'' else [c]) s)"

function mark_names :: "string \<Rightarrow> string" where
  "mark_names [] = []"
| "mark_names (c # s) =
     (case at_name (c # s) of
        Some (n, r) \<Rightarrow> ''%('' @ n @ '')s'' @ mark_names r
      | None \<Rightarrow> c # mark_names s)"
  by pat_completeness auto
termination
  by (relation "measure length") (auto dest: at_name_shorter)

function find_names :: "string \<Rightarrow> string list" where
  "find_names [] = []"
| "find_names (c # s) =
     (case at_name (c # s) of
        Some (n, r) \<Rightarrow> n # find_names r
      | None \<Rightarrow> find_names s)"
  by pat_completeness auto
termination
  by (relation "measure length") (auto dest: at_name_shorter)

text \<open>The \<open>%\<close> operator with a dictionary on the right.\<close>

definition directive :: "string \<Rightarrow> (string \<times> string) option" where
  "directive s =
     (case s of
        [] \<Rightarrow> None
      | c # t \<Rightarrow>
          (let n = takeWhile (\<lambda>x. x \<noteq> CHR '')'') t; r = dropWhile (\<lambda>x. x \<noteq> CHR '')'') t
           in if c = CHR ''('' \<and> startswith r '')s'' then Some (n, drop 2 r) else None))"

lemma directive_shorter: "directive s = Some (n, r) \<Longrightarrow> length r < length s"
  by (auto simp: directive_def Let_def split: list.splits if_splits)
    (metis diff_le_self le_imp_less_Suc le_trans length_dropWhile_le)

function format_dict :: "(string, string) dict \<Rightarrow> string \<Rightarrow> string py_result" where
  "format_dict d [] = Inr []"
| "format_dict d (c # s) =
     (if c \<noteq> CHR ''%'' then rbind (format_dict d s) (\<lambda>r. Inr (c # r))
      else if s \<noteq> [] \<and> hd s = CHR ''%'' then rbind (format_dict d (tl s)) (\<lambda>r. Inr (CHR ''%'' # r))
      else case directive s of
             Some (n, r) \<Rightarrow> rbind (dindex d n) (\<lambda>v. rbind (format_dict d r) (\<lambda>t. Inr (v @ t)))
           | None \<Rightarrow> Inl ValueError)"
  by pat_completeness auto
termination
  by (relation "measure (\<lambda>(d, s). length s)") (auto dest: directive_shorter)

definition flat_value :: "(string \<Rightarrow> string) \<Rightarrow> string \<Rightarrow> string" where
  "flat_value flat n = (if flat n \<noteq> [] then flat n else flat (upper n))"

text \<open>The dictionary belongs to the generator: what one task enters is there for the next.\<close>

definition subst_func :: "(string \<Rightarrow> string) \<Rightarrow> string \<Rightarrow> (string, string) dict \<Rightarrow> (string, string) dict \<times> string py_result" where
  "subst_func flat code di =
     (let code = escape_percent code;
          di = (if di = [] then fold (\<lambda>n. dset n (flat_value flat n)) (find_names code) di else di)
      in (di, format_dict di (mark_names code)))"

text \<open>The files of one generator, in the order in which their tasks run; a task that raises ends the build.\<close>

fun subst_files :: "(string \<Rightarrow> string) \<Rightarrow> string list \<Rightarrow> (string, string) dict \<Rightarrow> string list py_result" where
  "subst_files flat [] di = Inr []"
| "subst_files flat (code # codes) di =
     (let (di, r) = subst_func flat code di
      in rbind r (\<lambda>out. rbind (subst_files flat codes di) (\<lambda>outs. Inr (out # outs))))"

text \<open>What the replacement means, without the detour over a format.\<close>

function replace_names :: "(string, string) dict \<Rightarrow> string \<Rightarrow> string py_result" where
  "replace_names d [] = Inr []"
| "replace_names d (c # s) =
     (case at_name (c # s) of
        Some (n, r) \<Rightarrow> rbind (dindex d n) (\<lambda>v. rbind (replace_names d r) (\<lambda>t. Inr (v @ t)))
      | None \<Rightarrow> rbind (replace_names d s) (\<lambda>r. Inr (c # r)))"
  by pat_completeness auto
termination
  by (relation "measure (\<lambda>(d, s). length s)") (auto dest: at_name_shorter)

section \<open>Laws of the substitution\<close>

lemma escape_simps [simp]:
  "escape_percent [] = []"
  "escape_percent (c # s) = (if c = CHR ''%'' then ''%%'' else [c]) @ escape_percent s"
  "escape_percent (s @ t) = escape_percent s @ escape_percent t"
  by (simp_all add: escape_percent_def)

lemma percent_no_word: "\<not> word_char CHR ''%''" "\<not> word_char CHR '')''" "\<not> word_char CHR ''@''"
  by (simp_all add: word_char_def)

lemma escape_word: "list_all word_char n \<Longrightarrow> escape_percent n = n"
  using percent_no_word by (induction n) auto

lemma at_name_Some:
  assumes "at_name s = Some (n, r)"
  shows "s = CHR ''@'' # n @ CHR ''@'' # r" "n \<noteq> []" "list_all word_char n"
proof -
  obtain t where t: "s = CHR ''@'' # t" "n = takeWhile word_char t" "n \<noteq> []"
    "dropWhile word_char t \<noteq> []" "hd (dropWhile word_char t) = CHR ''@''" "r = tl (dropWhile word_char t)"
    using assms by (auto simp: at_name_def Let_def split: list.splits if_splits)
  have "dropWhile word_char t = CHR ''@'' # r"
    using t(4-6) by (metis list.collapse)
  then show "s = CHR ''@'' # n @ CHR ''@'' # r"
    using t(1,2) by (metis takeWhile_dropWhile_id)
  show "n \<noteq> []" by (rule t(3))
  show "list_all word_char n"
    unfolding t(2) list_all_iff using set_takeWhileD by fastforce
qed

lemma at_name_word:
  assumes "n \<noteq> []" "list_all word_char n"
  shows "at_name (CHR ''@'' # n @ CHR ''@'' # r) = Some (n, r)"
proof -
  have "takeWhile word_char (n @ CHR ''@'' # r) = n \<and> dropWhile word_char (n @ CHR ''@'' # r) = CHR ''@'' # r"
    by (rule takeWhile_stop) (use assms percent_no_word in simp_all)
  then show ?thesis using assms(1) percent_no_word(3) by (simp add: at_name_def)
qed


lemma escape_prefix:
  "escape_percent s = w @ t \<Longrightarrow> CHR ''%'' \<notin> set w \<Longrightarrow> \<exists>u. s = w @ u \<and> t = escape_percent u"
proof (induction w arbitrary: s)
  case Nil
  then show ?case by auto
next
  case (Cons c w)
  then obtain s' where s: "s = c # s'"
    by (cases s) (auto split: if_splits)
  then have "escape_percent s' = w @ t" using Cons.prems by (auto split: if_splits)
  then obtain u where "s' = w @ u \<and> t = escape_percent u" using Cons.IH Cons.prems(2) by auto
  then show ?case using s by auto
qed

lemma at_name_escape: "at_name (escape_percent s) = map_option (\<lambda>(n, r). (n, escape_percent r)) (at_name s)"
proof (cases "at_name s")
  case (Some p)
  obtain n r where p: "p = (n, r)" by fastforce
  note s = at_name_Some [OF Some [unfolded p]]
  have "escape_percent s = CHR ''@'' # n @ CHR ''@'' # escape_percent r"
    unfolding s(1) by (simp add: escape_word [OF s(3)])
  then show ?thesis using at_name_word [OF s(2,3)] Some p by simp
next
  case None
  show ?thesis
  proof (rule ccontr)
    assume "\<not> ?thesis"
    then obtain n r where e: "at_name (escape_percent s) = Some (n, r)" using None by auto
    note f = at_name_Some [OF e]
    have "CHR ''%'' \<notin> set (CHR ''@'' # n @ ''@'')"
      using f(3) percent_no_word(1) by (auto simp: list_all_iff)
    moreover have "escape_percent s = (CHR ''@'' # n @ ''@'') @ r" using f(1) by simp
    ultimately obtain u where "s = (CHR ''@'' # n @ ''@'') @ u" using escape_prefix by blast
    then have "at_name s = Some (n, u)" using at_name_word [OF f(2,3)] by simp
    then show False using None by simp
  qed
qed

lemma at_name_percent: "at_name (CHR ''%'' # s) = None"
  by (simp add: at_name_def Let_def)

lemma format_percent_name:
  assumes "list_all word_char n"
  shows "format_dict d (''%('' @ n @ '')s'' @ t) = rbind (dindex d n) (\<lambda>v. rbind (format_dict d t) (\<lambda>r. Inr (v @ r)))"
proof -
  have "takeWhile (\<lambda>x. x \<noteq> CHR '')'') (n @ '')s'' @ t) = n \<and> dropWhile (\<lambda>x. x \<noteq> CHR '')'') (n @ '')s'' @ t) = '')s'' @ t"
    by (rule takeWhile_stop) (use assms percent_no_word(2) in \<open>auto simp: list_all_iff\<close>)
  then have "directive (''('' @ n @ '')s'' @ t) = Some (n, t)"
    unfolding directive_def by (simp add: startswith_def Let_def)
  then show ?thesis by simp
qed

lemma format_replaces: "format_dict d (mark_names (escape_percent s)) = replace_names d s"
proof (induction d s rule: replace_names.induct)
  case (1 d)
  then show ?case by simp
next
  case (2 d c s)
  show ?case
  proof (cases "at_name (c # s)")
    case None
    have ih: "format_dict d (mark_names (escape_percent s)) = replace_names d s" using 2(1) None by simp
    have e: "at_name (escape_percent (c # s)) = None" using None at_name_escape [of "c # s"] by simp
    show ?thesis
    proof (cases "c = CHR ''%''")
      case True
      then show ?thesis using ih None by (simp add: at_name_percent)
    next
      case False
      then show ?thesis using ih None e by simp
    qed
  next
    case (Some p)
    obtain n r where p: "p = (n, r)" by fastforce
    note s = at_name_Some [OF Some [unfolded p]]
    have c: "c = CHR ''@''" using s(1) by simp
    have "at_name (escape_percent (c # s)) = Some (n, escape_percent r)"
      using Some p at_name_escape [of "c # s"] by simp
    then have "mark_names (escape_percent (c # s)) = ''%('' @ n @ '')s'' @ mark_names (escape_percent r)"
      using c by simp
    then show ?thesis
      using format_percent_name [OF s(3)] 2(2) [OF Some p [symmetric]] Some p by (simp only: replace_names.simps option.case prod.case)
  qed
qed

lemma find_names_escape: "find_names (escape_percent s) = find_names s"
proof (induction s rule: find_names.induct)
  case 1
  then show ?case by simp
next
  case (2 c s)
  show ?case
  proof (cases "at_name (c # s)")
    case None
    then have "find_names (escape_percent s) = find_names s" using 2(1) by simp
    moreover have "at_name (escape_percent (c # s)) = None" using None at_name_escape [of "c # s"] by simp
    ultimately show ?thesis using None by (cases "c = CHR ''%''") (simp_all add: at_name_percent)
  next
    case (Some p)
    obtain n r where p: "p = (n, r)" by fastforce
    have c: "c = CHR ''@''" using at_name_Some(1) [OF Some [unfolded p]] by simp
    have "at_name (escape_percent (c # s)) = Some (n, escape_percent r)"
      using Some p at_name_escape [of "c # s"] by simp
    then show ?thesis using 2(2) [OF Some p [symmetric]] Some p c by simp
  qed
qed

lemma replace_ok: "is_ok (replace_names d s) \<longleftrightarrow> (\<forall>n \<in> set (find_names s). dget d n \<noteq> None)"
proof (induction d s rule: replace_names.induct)
  case (1 d)
  then show ?case by simp
next
  case (2 d c s)
  show ?case
  proof (cases "at_name (c # s)")
    case None
    then show ?thesis using 2(1) None by (cases "replace_names d s") simp_all
  next
    case (Some p)
    obtain n r where p: "p = (n, r)" by fastforce
    show ?thesis
      using 2(2) [OF Some p [symmetric]] Some p by (cases "dget d n"; cases "replace_names d r") (simp_all add: dindex_def)
  qed
qed

lemma replace_no_names: "find_names s = [] \<Longrightarrow> replace_names d s = Inr s"
proof (induction d s rule: replace_names.induct)
  case (1 d)
  then show ?case by simp
next
  case (2 d c s)
  then show ?case by (cases "at_name (c # s)") auto
qed

definition name_values :: "(string \<Rightarrow> string) \<Rightarrow> string list \<Rightarrow> (string, string) dict" where
  "name_values flat ns = fold (\<lambda>n. dset n (flat_value flat n)) ns []"

lemma dget_fold_values:
  "dget (fold (\<lambda>n. dset n (flat_value flat n)) ns d) k = (if k \<in> set ns then Some (flat_value flat k) else dget d k)"
  by (induction ns arbitrary: d) (auto simp: dict_simps)

lemma name_values_get: "dget (name_values flat ns) k = (if k \<in> set ns then Some (flat_value flat k) else None)"
  unfolding name_values_def dget_fold_values by simp

lemma name_values_empty: "name_values flat ns = [] \<longleftrightarrow> ns = []"
proof
  assume "name_values flat ns = []"
  then have "dget (name_values flat ns) k = None" for k by simp
  then have "k \<notin> set ns" for k unfolding name_values_get by (metis option.distinct(1))
  then show "ns = []" by (cases ns) auto
qed (simp add: name_values_def)

lemma subst_func_eq:
  "subst_func flat code di =
     (let d = (if di = [] then name_values flat (find_names code) else di) in (d, replace_names d code))"
  by (auto simp: subst_func_def Let_def find_names_escape format_replaces name_values_def)

lemma subst_files_later:
  "di \<noteq> [] \<Longrightarrow> subst_files flat codes di = map_res (replace_names di) codes"
  by (induction codes) (auto simp: subst_func_eq Let_def)

text \<open>The names of the first file that has any.\<close>

fun first_names :: "string list \<Rightarrow> string list" where
  "first_names [] = []"
| "first_names (c # cs) = (if find_names c = [] then first_names cs else find_names c)"

section \<open>Substitution in the files of a generator\<close>

text \<open>C34. Without a dictionary of its own a generator replaces the names in all its files by the values of
  the names in the first file that has any: it succeeds exactly when no later file has another name, and a
  percent sign stands for itself.\<close>

theorem names_of_first_file:
  "subst_files flat codes [] = map_res (replace_names (name_values flat (first_names codes))) codes \<and>
   (is_ok (subst_files flat codes []) \<longleftrightarrow> (\<forall>code \<in> set codes. set (find_names code) \<subseteq> set (first_names codes)))"
proof -
  have eq: "subst_files flat codes [] = map_res (replace_names (name_values flat (first_names codes))) codes"
  proof (induction codes)
    case Nil
    then show ?case by simp
  next
    case (Cons c cs)
    show ?case
    proof (cases "find_names c = []")
      case True
      then show ?thesis
        using Cons replace_no_names [OF True] by (simp add: subst_func_eq Let_def name_values_def)
    next
      case False
      then have "name_values flat (find_names c) \<noteq> []" by (simp add: name_values_empty)
      then show ?thesis
        using False subst_files_later by (simp add: subst_func_eq Let_def)
    qed
  qed
  have m: "is_ok (map_res f codes) \<longleftrightarrow> (\<forall>c \<in> set codes. is_ok (f c))" for f :: "string \<Rightarrow> string py_result"
  proof (induction codes)
    case (Cons c cs)
    then show ?case by (cases "f c"; cases "map_res f cs") auto
  qed simp
  have "is_ok (subst_files flat codes []) \<longleftrightarrow> (\<forall>code \<in> set codes. set (find_names code) \<subseteq> set (first_names codes))"
    unfolding eq m replace_ok name_values_get by (auto split: if_splits)
  with eq show ?thesis by simp
qed


theorem names_of_first_file_witness:
  "subst_files (\<lambda>n. n) [''100% @a@'', ''@a@'', ''@b@''] [] = Inl KeyError"
proof -
  have "first_names [''100% @a@'', ''@a@'', ''@b@''] = [''a'']" by code_simp
  moreover have "map_res (replace_names (name_values (\<lambda>n. n) [''a''])) [''100% @a@'', ''@a@'', ''@b@''] = Inl KeyError"
    by code_simp
  ultimately show ?thesis using names_of_first_file [of "\<lambda>n. n"] by simp
qed

section \<open>Copies\<close>

text \<open>The target of a copy: with several sources each keeps its name; a substitution drops the extension, or
  writes every source to the one target.\<close>

definition copy_target :: "string \<Rightarrow> string list \<Rightarrow> string \<Rightarrow> string" where
  "copy_target tgt sources f = (if tgt = [] \<or> length sources > 1 then basename f else tgt)"

definition apply_copy :: "(string \<Rightarrow> string option) \<Rightarrow> string \<Rightarrow> string list \<Rightarrow> (string \<times> string) list py_result" where
  "apply_copy find_resource tgt sources =
     map_res (\<lambda>f. case find_resource f of
        None \<Rightarrow> Inl (PyException ''WafError'')
      | Some n \<Rightarrow> Inr (n, copy_target tgt sources n)) sources"

definition drop_ext :: "string \<Rightarrow> string" where
  "drop_ext f = (if CHR ''.'' \<in> set f then rev (tl (dropWhile (\<lambda>c. c \<noteq> CHR ''.'') (rev f))) else f)"

definition apply_subst :: "(string \<Rightarrow> string option) \<Rightarrow> string \<Rightarrow> string list \<Rightarrow> (string \<times> string) list py_result" where
  "apply_subst find_resource tgt sources =
     map_res (\<lambda>f. case find_resource f of
        None \<Rightarrow> Inl (PyException ''WafError'')
      | Some n \<Rightarrow> Inr (n, if tgt \<noteq> [] then tgt else drop_ext n)) sources"

section \<open>Commands with inputs and outputs\<close>

text \<open>An argument has the texts around the \<open>%s\<close> of its template.\<close>

datatype arg_kind = Input_file | Output_file | Dir_arg
datatype arg = Word string | Path_arg arg_kind string string string

record finder =
  fi_resource :: "string \<Rightarrow> string option"
  fi_declare :: "string \<Rightarrow> string option"
  fi_dir :: "string \<Rightarrow> string option"
  fi_abspath :: "string \<Rightarrow> string"
  fi_variant_dir :: string

record task_generator =
  ge_command :: "string option"
  ge_external :: bool
  ge_argv :: "arg list"
  ge_stdin :: "string option"
  ge_stdout :: "string option"
  ge_stderr :: "string option"
  ge_hidden_in :: "string list"
  ge_hidden_out :: "string list"
  ge_cwd :: "string option"
  ge_no_inputs :: bool
  ge_no_outputs :: bool

record output_task =
  ot_command :: "string + string"
  ot_argv :: "arg list"
  ot_stdin :: "string option"
  ot_stdout :: "string option"
  ot_stderr :: "string option"
  ot_cwd :: string
  ot_inputs :: "string list"
  ot_outputs :: "string list"
  ot_always :: bool

definition waf_error :: py_error where
  "waf_error = PyException ''WafError''"

text \<open>The message for a file that is not found has one directive and two arguments, so \<open>TypeError\<close> is raised.\<close>

definition find_arg :: "finder \<Rightarrow> arg_kind \<Rightarrow> string \<Rightarrow> string py_result" where
  "find_arg fi k nm =
     (case (case k of Input_file \<Rightarrow> fi_resource fi nm | Output_file \<Rightarrow> fi_declare fi nm | Dir_arg \<Rightarrow> fi_dir fi nm) of
        None \<Rightarrow> Inl TypeError
      | Some n \<Rightarrow> Inr n)"

text \<open>The nodes of the arguments, inputs and outputs apart.\<close>

fun arg_nodes :: "finder \<Rightarrow> arg list \<Rightarrow> (string list \<times> string list) py_result" where
  "arg_nodes fi [] = Inr ([], [])"
| "arg_nodes fi (Word w # as) = arg_nodes fi as"
| "arg_nodes fi (Path_arg k nm pre post # as) =
     rbind (find_arg fi k nm) (\<lambda>n. rbind (arg_nodes fi as) (\<lambda>(ins, outs).
       Inr (if k = Input_file then n # ins else ins, if k = Output_file then n # outs else outs)))"

definition stream_node :: "(string \<Rightarrow> string option) \<Rightarrow> string option \<Rightarrow> string option py_result" where
  "stream_node look x =
     (case x of None \<Rightarrow> Inr None | Some nm \<Rightarrow> (case look nm of None \<Rightarrow> Inl waf_error | Some n \<Rightarrow> Inr (Some n)))"

definition find_all :: "(string \<Rightarrow> string option) \<Rightarrow> string list \<Rightarrow> string list py_result" where
  "find_all look nms = map_res (\<lambda>nm. case look nm of None \<Rightarrow> Inl waf_error | Some n \<Rightarrow> Inr n) nms"

definition find_command :: "finder \<Rightarrow> task_generator \<Rightarrow> (string + string) py_result" where
  "find_command fi g =
     (case ge_command g of
        None \<Rightarrow> Inl waf_error
      | Some c \<Rightarrow>
          if ge_external g then Inr (Inl c)
          else (case fi_resource fi c of None \<Rightarrow> Inl AssertionError | Some n \<Rightarrow> Inr (Inr n)))"

definition list_of_option :: "'a option \<Rightarrow> 'a list" where
  "list_of_option x = (case x of None \<Rightarrow> [] | Some a \<Rightarrow> [a])"

text \<open>The directory of the task is that of the build variant: what the generator asked for is not looked at.\<close>

definition apply_cmd_output :: "finder \<Rightarrow> task_generator \<Rightarrow> output_task py_result" where
  "apply_cmd_output fi g =
     rbind (find_command fi g) (\<lambda>cmd.
     rbind (arg_nodes fi (ge_argv g)) (\<lambda>(ins, outs).
     rbind (stream_node (fi_declare fi) (ge_stdout g)) (\<lambda>out.
     rbind (stream_node (fi_declare fi) (ge_stderr g)) (\<lambda>err.
     rbind (stream_node (fi_resource fi) (ge_stdin g)) (\<lambda>inp.
     rbind (find_all (fi_resource fi) (ge_hidden_in g)) (\<lambda>hin.
     rbind (find_all (fi_declare fi) (ge_hidden_out g)) (\<lambda>hout.
       (let ins = ins @ list_of_option inp @ hin; outs = outs @ list_of_option out @ list_of_option err @ hout
        in if ins = [] \<and> \<not> ge_no_inputs g \<or> outs = [] \<and> \<not> ge_no_outputs g then Inl waf_error
           else Inr \<lparr>ot_command = cmd, ot_argv = ge_argv g, ot_stdin = inp, ot_stdout = out, ot_stderr = err,
                     ot_cwd = fi_variant_dir fi, ot_inputs = ins, ot_outputs = outs, ot_always = (ins = [])\<rparr>))))))))"

text \<open>The call of the process; the task always has a directory, so all paths are absolute.\<close>

record call =
  ca_argv :: "string list"
  ca_stdin :: "string option"
  ca_stdout :: "string option"
  ca_stderr :: "string option"
  ca_cwd :: string

definition arg_text :: "finder \<Rightarrow> arg \<Rightarrow> string py_result" where
  "arg_text fi a =
     (case a of Word w \<Rightarrow> Inr w | Path_arg k nm pre post \<Rightarrow> rbind (find_arg fi k nm) (\<lambda>n. Inr (pre @ fi_abspath fi n @ post)))"

definition command_call :: "finder \<Rightarrow> output_task \<Rightarrow> call py_result" where
  "command_call fi t =
     rbind (map_res (arg_text fi) (ot_argv t)) (\<lambda>args.
     Inr \<lparr>ca_argv = (case ot_command t of Inl c \<Rightarrow> c | Inr n \<Rightarrow> fi_abspath fi n) # args,
          ca_stdin = map_option (fi_abspath fi) (ot_stdin t), ca_stdout = map_option (fi_abspath fi) (ot_stdout t),
          ca_stderr = map_option (fi_abspath fi) (ot_stderr t), ca_cwd = ot_cwd t\<rparr>)"

section \<open>The database of compile commands\<close>

record db_entry =
  en_directory :: string
  en_command :: string
  en_file :: string

record compile_task =
  ct_last_cmd :: "string list option"
  ct_cwd :: "string option"
  ct_input :: string

definition entry_of :: "string \<Rightarrow> string \<Rightarrow> (string \<Rightarrow> string) \<Rightarrow> compile_task \<Rightarrow> db_entry option" where
  "entry_of here variant quote t =
     (case ct_last_cmd t of
        None \<Rightarrow> None
      | Some cmd \<Rightarrow>
          (let dir = (case ct_cwd t of None \<Rightarrow> variant | Some d \<Rightarrow> d)
           in Some \<lparr>en_directory = dir, en_command = join '' '' (List.map quote cmd),
                    en_file = relpath here (ct_input t) dir\<rparr>))"

definition add_entry :: "(string, db_entry) dict \<Rightarrow> db_entry \<Rightarrow> (string, db_entry) dict" where
  "add_entry db e = dset (en_file e) e db"

definition write_compilation_database ::
  "string \<Rightarrow> string \<Rightarrow> (string \<Rightarrow> string) \<Rightarrow> db_entry list \<Rightarrow> compile_task list \<Rightarrow> db_entry list" where
  "write_compilation_database here variant quote root tasks =
     (let db = foldl add_entry [] root;
          db = foldl add_entry db (List.map_filter (entry_of here variant quote) tasks)
      in List.map snd db)"

section \<open>A moved project directory\<close>

record node_tree =
  kids :: "(string, (string, string) dict) dict"
  parents :: "(string, string) dict"

definition kids_of :: "node_tree \<Rightarrow> string \<Rightarrow> (string, string) dict" where
  "kids_of t n = dget_default (kids t) n []"

text \<open>\<open>find_node\<close> succeeds for the nodes of the tree, \<open>make_node\<close> makes a node where there is none.\<close>

definition init_dirs :: "string option \<Rightarrow> string \<Rightarrow> string \<Rightarrow> (string \<Rightarrow> bool) \<Rightarrow> node_tree \<Rightarrow> node_tree py_result" where
  "init_dirs srcdir topdir out found t =
     (if \<not> (is_abs topdir \<and> is_abs out) then Inl waf_error
      else case srcdir of
        None \<Rightarrow> Inr t
      | Some d \<Rightarrow>
          if d \<noteq> [] \<and> found d \<and> d \<noteq> topdir \<and> kids_of t d \<noteq> []
          then Inr (t\<lparr>kids := dset d [] (dset topdir (kids_of t d) (kids t)),
                      parents := fold (\<lambda>(k, v). dset v topdir) (kids_of t d) (parents t)\<rparr>)
          else Inr t)"


section \<open>Laws of the database\<close>

definition db_ok :: "(string, db_entry) dict \<Rightarrow> bool" where
  "db_ok db \<longleftrightarrow> dict_wf db \<and> (\<forall>(k, e) \<in> set db. k = en_file e)"

definition for_file :: "string \<Rightarrow> db_entry list \<Rightarrow> db_entry option" where
  "for_file f es = List.find (\<lambda>e. en_file e = f) es"

lemma db_ok_keys: "db_ok db \<Longrightarrow> dkeys db = List.map en_file (List.map snd db)"
  by (auto simp: db_ok_def)

lemma dset_entries:
  "\<forall>(k, e) \<in> set db. k = en_file e \<Longrightarrow> \<forall>(k, e) \<in> set (dset (en_file x) x db). k = en_file e"
  by (induction db) (auto split: if_splits)

lemma db_ok_add: "db_ok db \<Longrightarrow> db_ok (foldl add_entry db es)"
proof (induction es arbitrary: db)
  case Nil
  then show ?case by simp
next
  case (Cons e es)
  have "db_ok (add_entry db e)"
    using Cons.prems dset_entries [of db e] unfolding db_ok_def add_entry_def by simp
  then show ?case using Cons.IH by simp
qed

lemma for_file_map: "for_file f es = dget (List.map (\<lambda>e. (en_file e, e)) es) f"
  by (induction es) (auto simp: for_file_def)

lemma for_file_db: "db_ok db \<Longrightarrow> for_file f (List.map snd db) = dget db f"
proof -
  assume "db_ok db"
  then have "List.map (\<lambda>e. (en_file e, e)) (List.map snd db) = db"
    by (induction db) (auto simp: db_ok_def)
  then show ?thesis by (simp add: for_file_map)
qed

lemma dget_add: "dget (foldl add_entry db es) = dget db ++ (\<lambda>f. for_file f (rev es))"
proof -
  have "foldl add_entry db es = fold (\<lambda>(k, v). dset k v) (List.map (\<lambda>e. (en_file e, e)) es) db"
    by (induction es arbitrary: db) (simp_all add: add_entry_def)
  then show ?thesis
    using pydict.get_fold_put [of "List.map (\<lambda>e. (en_file e, e)) es" db] by (simp add: for_file_map rev_map fun_eq_iff)
qed

lemma rebuild_db: "db_ok (db @ l) \<Longrightarrow> foldl add_entry db (List.map snd l) = db @ l"
proof (induction l arbitrary: db)
  case Nil
  then show ?case by simp
next
  case (Cons p l)
  obtain e where p: "p = (en_file e, e)" using Cons.prems by (cases p) (auto simp: db_ok_def)
  have "\<not> dhas db (en_file e)"
    using Cons.prems by (auto simp: db_ok_def p map_of_eq_None_iff)
  then have "add_entry db e = db @ [p]" unfolding add_entry_def p by (rule dset_absent)
  then show ?case using Cons.IH [of "db @ [p]"] Cons.prems p by simp
qed

lemma dict_ext:
  assumes "dkeys d = dkeys d'" "dict_wf d" "\<And>k. dget d k = dget d' k"
  shows "d = d'"
proof -
  have "x = List.map (\<lambda>k. (k, the (dget x k))) (dkeys x)" if "dict_wf x" for x :: "('a \<times> 'b) list"
    using that by (auto simp: list_eq_iff_nth_eq)
      (metis (no_types, lifting) list.map_comp map_of_eq_Some_iff nth_mem option.sel prod.collapse)
  then show ?thesis using assms by (metis (no_types, lifting) map_eq_conv)
qed

lemma dkeys_add_present: "\<forall>e \<in> set es. dhas db (en_file e) \<Longrightarrow> dkeys (foldl add_entry db es) = dkeys db"
proof (induction es arbitrary: db)
  case Nil
  then show ?case by simp
next
  case (Cons e es)
  then have "dkeys (add_entry db e) = dkeys db"
    unfolding add_entry_def by (intro dkeys_dset_present) simp
  moreover have "\<forall>x \<in> set es. dhas (add_entry db e) (en_file x)"
    using Cons.prems by (simp add: add_entry_def dict_simps)
  ultimately show ?case using Cons.IH [of "add_entry db e"] by simp
qed

lemma add_twice:
  assumes "db_ok db0"
  shows "foldl add_entry (foldl add_entry db0 es) es = foldl add_entry db0 es"
proof (rule dict_ext)
  let ?db = "foldl add_entry db0 es"
  have "dhas ?db (en_file e)" if "e \<in> set es" for e
  proof -
    have "for_file (en_file e) (rev es) \<noteq> None"
      using that by (auto simp: for_file_def find_None_iff)
    then obtain y where "for_file (en_file e) (rev es) = Some y" by blast
    then show ?thesis unfolding dget_add by simp
  qed
  then have "\<forall>e \<in> set es. dhas ?db (en_file e)" by blast
  then show "dkeys (foldl add_entry ?db es) = dkeys ?db" by (rule dkeys_add_present)
  show "dict_wf (foldl add_entry ?db es)"
    using db_ok_add [OF db_ok_add [OF assms]] by (simp add: db_ok_def)
  show "dget (foldl add_entry ?db es) k = dget ?db k" for k
    unfolding dget_add by (simp add: map_add_def split: option.splits)
qed

section \<open>Properties of the generators\<close>

text \<open>The database has one entry for each file, the last one that is there or that the compiled tasks
  give, and writing it again for the same tasks changes nothing.\<close>

theorem database_last_entries:
  assumes "r = write_compilation_database here variant quote root tasks"
  shows "distinct (List.map en_file r) \<and>
    for_file f r = for_file f (rev (root @ List.map_filter (entry_of here variant quote) tasks)) \<and>
    write_compilation_database here variant quote r tasks = r"
proof -
  define new where "new = List.map_filter (entry_of here variant quote) tasks"
  define db where "db = foldl add_entry [] (root @ new)"
  have ok0: "db_ok []" by (simp add: db_ok_def)
  have ok: "db_ok db" unfolding db_def by (rule db_ok_add [OF ok0])
  have r: "r = List.map snd db"
    unfolding assms write_compilation_database_def db_def new_def by (simp add: Let_def)
  have "distinct (List.map en_file r)"
    using ok unfolding r by (metis db_ok_def db_ok_keys)
  moreover have "for_file f r = for_file f (rev (root @ new))"
  proof -
    have "for_file f r = ((\<lambda>f. None) ++ (\<lambda>f. for_file f (rev (root @ new)))) f"
      unfolding r for_file_db [OF ok] unfolding db_def dget_add by simp
    then show ?thesis by (simp add: map_add_def split: option.splits)
  qed
  moreover have "write_compilation_database here variant quote r tasks = r"
  proof -
    have "foldl add_entry [] r = db"
      unfolding r using rebuild_db [of "[]" db] ok by simp
    then have "write_compilation_database here variant quote r tasks = List.map snd (foldl add_entry db new)"
      unfolding write_compilation_database_def new_def by (simp add: Let_def)
    also have "foldl add_entry db new = db"
      unfolding db_def foldl_append by (rule add_twice [OF db_ok_add [OF ok0]])
    finally show ?thesis using r by simp
  qed
  ultimately show ?thesis unfolding new_def by simp
qed

theorem database_last_entries_witness:
  "List.map en_command (write_compilation_database ''/b'' ''/b'' (\<lambda>w. w) []
     [\<lparr>ct_last_cmd = Some [''g++'', ''a.cc''], ct_cwd = None, ct_input = ''/b/a.cc''\<rparr>,
      \<lparr>ct_last_cmd = Some [''c++'', ''a.cc''], ct_cwd = None, ct_input = ''/b/a.cc''\<rparr>,
      \<lparr>ct_last_cmd = None, ct_cwd = None, ct_input = ''/b/b.cc''\<rparr>]) = [''c++ a.cc''] \<and>
   distinct (List.map en_file (write_compilation_database ''/b'' ''/b'' (\<lambda>w. w) [] []))"
proof
  show "distinct (List.map en_file (write_compilation_database ''/b'' ''/b'' (\<lambda>w. w) [] []))"
    using database_last_entries [OF refl, of "''/b''" "''/b''" "\<lambda>w. w" "[]" "[]" "[]"] by blast
qed code_simp

section \<open>Laws of the moved directory\<close>

definition tree_ok :: "node_tree \<Rightarrow> bool" where
  "tree_ok t \<longleftrightarrow> (\<forall>n d k c. dget (kids t) n = Some d \<and> (k, c) \<in> set d \<longrightarrow> dget (parents t) c = Some n)"

lemma dget_new_parents:
  "dget (fold (\<lambda>(k, v). dset v x) d ps) c = (if c \<in> snd ` set d then Some x else dget ps c)"
  by (induction d arbitrary: ps) (auto simp: dict_simps)




section \<open>Commands that run\<close>

lemma arg_nodes_texts:
  "arg_nodes fi as = Inr (ins, outs) \<Longrightarrow> \<exists>ws. map_res (arg_text fi) as = Inr ws \<and> length ws = length as"
proof (induction as arbitrary: ins outs)
  case (Cons a as)
  show ?case
  proof (cases a)
    case (Word w)
    then obtain ws where "map_res (arg_text fi) as = Inr ws" "length ws = length as"
      using Cons by auto
    moreover have "arg_text fi a = Inr w" using Word by (simp add: arg_text_def)
    ultimately show ?thesis by simp
  next
    case (Path_arg k nm pre post)
    then obtain n i out where n: "find_arg fi k nm = Inr n" "arg_nodes fi as = Inr (i, out)"
      using Cons.prems by (auto simp: py_simps)
    obtain ws where "map_res (arg_text fi) as = Inr ws" "length ws = length as"
      using Cons.IH [OF n(2)] by blast
    moreover have "arg_text fi a = Inr (pre @ fi_abspath fi n @ post)"
      using Path_arg n(1) by (simp add: arg_text_def)
    ultimately show ?thesis by simp
  qed
qed simp

lemma arg_nodes_found:
  "arg_nodes fi as = Inr (ins, outs) \<Longrightarrow> Path_arg k nm pre post \<in> set as \<Longrightarrow>
     \<exists>n. find_arg fi k nm = Inr n \<and> (k = Input_file \<longrightarrow> n \<in> set ins) \<and> (k = Output_file \<longrightarrow> n \<in> set outs)"
proof (induction as arbitrary: ins outs)
  case (Cons a as)
  show ?case
  proof (cases a)
    case (Word w)
    then show ?thesis using Cons by simp
  next
    case (Path_arg k' nm' pre' post')
    then obtain n i out where n: "find_arg fi k' nm' = Inr n" "arg_nodes fi as = Inr (i, out)"
      "ins = (if k' = Input_file then n # i else i)" "outs = (if k' = Output_file then n # out else out)"
      using Cons.prems(1) by (auto simp: py_simps)
    show ?thesis
    proof (cases "Path_arg k nm pre post = a")
      case True
      then show ?thesis using n Path_arg by simp
    next
      case False
      then have "Path_arg k nm pre post \<in> set as" using Cons.prems(2) by auto
      from Cons.IH [OF n(2) this] show ?thesis using n(3,4) by auto
    qed
  qed
qed simp

lemma arg_nodes_error: "arg_nodes fi as = Inl e \<Longrightarrow> e = TypeError"
proof (induction as)
  case (Cons a as)
  then show ?case
    by (cases a) (auto simp: find_arg_def split: option.splits, (cases "arg_nodes fi as"; auto)+)
qed simp

lemma apply_cmd_output_Inr:
  assumes "apply_cmd_output fi g = Inr t"
  obtains ins outs where "arg_nodes fi (ge_argv g) = Inr (ins, outs)"
    "ot_inputs t = ins @ list_of_option (ot_stdin t) @ drop (length ins + length (list_of_option (ot_stdin t))) (ot_inputs t)"
    "set outs \<subseteq> set (ot_outputs t)" "set (list_of_option (ot_stdout t) @ list_of_option (ot_stderr t)) \<subseteq> set (ot_outputs t)"
    "ot_argv t = ge_argv g" "ot_cwd t = fi_variant_dir fi"
    "ot_inputs t \<noteq> [] \<or> ge_no_inputs g" "ot_outputs t \<noteq> [] \<or> ge_no_outputs g" "ot_always t = (ot_inputs t = [])"
proof -
  obtain cmd p out err inp hin hout where a: "arg_nodes fi (ge_argv g) = Inr p" and
    f: "(let ins = fst p @ list_of_option inp @ hin; outs = snd p @ list_of_option out @ list_of_option err @ hout
        in if ins = [] \<and> \<not> ge_no_inputs g \<or> outs = [] \<and> \<not> ge_no_outputs g then Inl waf_error
           else Inr \<lparr>ot_command = cmd, ot_argv = ge_argv g, ot_stdin = inp, ot_stdout = out, ot_stderr = err,
                     ot_cwd = fi_variant_dir fi, ot_inputs = ins, ot_outputs = outs, ot_always = (ins = [])\<rparr>) = Inr t"
    using assms unfolding apply_cmd_output_def rbind_Inr_iff case_prod_beta by blast
  define ins where "ins = fst p @ list_of_option inp @ hin"
  define outs where "outs = snd p @ list_of_option out @ list_of_option err @ hout"
  have ok: "\<not> (ins = [] \<and> \<not> ge_no_inputs g \<or> outs = [] \<and> \<not> ge_no_outputs g)" and
    t: "t = \<lparr>ot_command = cmd, ot_argv = ge_argv g, ot_stdin = inp, ot_stdout = out, ot_stderr = err,
           ot_cwd = fi_variant_dir fi, ot_inputs = ins, ot_outputs = outs, ot_always = (ins = [])\<rparr>"
    using f unfolding Let_def ins_def [symmetric] outs_def [symmetric] by (simp_all split: if_splits)
  show ?thesis
  proof (rule that [of "fst p" "snd p"])
    show "arg_nodes fi (ge_argv g) = Inr (fst p, snd p)" using a by simp
    show "ot_inputs t = fst p @ list_of_option (ot_stdin t) @
        drop (length (fst p) + length (list_of_option (ot_stdin t))) (ot_inputs t)"
      unfolding t ins_def by simp
    show "set (snd p) \<subseteq> set (ot_outputs t)"
      "set (list_of_option (ot_stdout t) @ list_of_option (ot_stderr t)) \<subseteq> set (ot_outputs t)"
      unfolding t outs_def by auto
  qed (use ok in \<open>simp_all add: t\<close>)
qed

text \<open>A command whose task is made is called with as many arguments as it was given, in the directory of the
  build variant whatever the generator asked for; every file among its arguments and its streams is an
  input or an output of the task, and it always runs exactly when it has no input.\<close>

theorem command_output_call:
  assumes "apply_cmd_output fi g = Inr t"
  shows "\<exists>ca. command_call fi t = Inr ca \<and> length (ca_argv ca) = Suc (length (ge_argv g)) \<and>
    ca_cwd ca = fi_variant_dir fi \<and> apply_cmd_output fi (g\<lparr>ge_cwd := c\<rparr>) = Inr t \<and>
    (Path_arg Input_file nm pre post \<in> set (ge_argv g) \<longrightarrow> fi_resource fi nm \<in> Some ` set (ot_inputs t)) \<and>
    (Path_arg Output_file nm pre post \<in> set (ge_argv g) \<longrightarrow> fi_declare fi nm \<in> Some ` set (ot_outputs t)) \<and>
    (ot_stdin t \<noteq> None \<longrightarrow> ot_stdin t \<in> Some ` set (ot_inputs t)) \<and>
    (ot_stdout t \<noteq> None \<longrightarrow> ot_stdout t \<in> Some ` set (ot_outputs t)) \<and>
    (ot_always t \<longleftrightarrow> ot_inputs t = []) \<and> (ot_inputs t = [] \<longrightarrow> ge_no_inputs g)"
proof -
  obtain ins outs where n: "arg_nodes fi (ge_argv g) = Inr (ins, outs)" and
    i: "ot_inputs t = ins @ list_of_option (ot_stdin t) @ drop (length ins + length (list_of_option (ot_stdin t))) (ot_inputs t)" and
    o: "set outs \<subseteq> set (ot_outputs t)" "set (list_of_option (ot_stdout t) @ list_of_option (ot_stderr t)) \<subseteq> set (ot_outputs t)" and
    t: "ot_argv t = ge_argv g" "ot_cwd t = fi_variant_dir fi" "ot_inputs t \<noteq> [] \<or> ge_no_inputs g"
      "ot_always t = (ot_inputs t = [])"
    by (rule apply_cmd_output_Inr [OF assms])
  have sub: "set ins \<subseteq> set (ot_inputs t)" "set (list_of_option (ot_stdin t)) \<subseteq> set (ot_inputs t)"
    by (subst i, auto)+
  obtain ws where ws: "map_res (arg_text fi) (ge_argv g) = Inr ws" "length ws = length (ge_argv g)"
    using arg_nodes_texts [OF n] by blast
  have call: "\<exists>ca. command_call fi t = Inr ca \<and> length (ca_argv ca) = Suc (length (ge_argv g)) \<and> ca_cwd ca = fi_variant_dir fi"
    unfolding command_call_def t(1,2) ws(1) by (simp add: ws(2))
  have e: "ge_command (g\<lparr>ge_cwd := c\<rparr>) = ge_command g" "ge_external (g\<lparr>ge_cwd := c\<rparr>) = ge_external g"
    "ge_argv (g\<lparr>ge_cwd := c\<rparr>) = ge_argv g" "ge_stdin (g\<lparr>ge_cwd := c\<rparr>) = ge_stdin g"
    "ge_stdout (g\<lparr>ge_cwd := c\<rparr>) = ge_stdout g" "ge_stderr (g\<lparr>ge_cwd := c\<rparr>) = ge_stderr g"
    "ge_hidden_in (g\<lparr>ge_cwd := c\<rparr>) = ge_hidden_in g" "ge_hidden_out (g\<lparr>ge_cwd := c\<rparr>) = ge_hidden_out g"
    "ge_no_inputs (g\<lparr>ge_cwd := c\<rparr>) = ge_no_inputs g" "ge_no_outputs (g\<lparr>ge_cwd := c\<rparr>) = ge_no_outputs g"
    by simp_all
  have same: "apply_cmd_output fi (g\<lparr>ge_cwd := c\<rparr>) = Inr t"
    using assms unfolding apply_cmd_output_def find_command_def e .
  have inp: "fi_resource fi nm \<in> Some ` set (ot_inputs t)" if "Path_arg Input_file nm pre post \<in> set (ge_argv g)"
    using arg_nodes_found [OF n that] sub(1) by (force simp: find_arg_def split: option.splits)
  have out: "fi_declare fi nm \<in> Some ` set (ot_outputs t)" if "Path_arg Output_file nm pre post \<in> set (ge_argv g)"
    using arg_nodes_found [OF n that] o(1) by (force simp: find_arg_def split: option.splits)
  have "ot_stdin t \<noteq> None \<longrightarrow> ot_stdin t \<in> Some ` set (ot_inputs t)" "ot_stdout t \<noteq> None \<longrightarrow> ot_stdout t \<in> Some ` set (ot_outputs t)"
    using sub(2) o(2) by (auto simp: list_of_option_def)
  then show ?thesis using call same inp out t(3,4) by blast
qed

definition demo_finder :: finder where
  "demo_finder = \<lparr>fi_resource = (\<lambda>f. if f = ''in.txt'' then Some ''in.txt'' else None), fi_declare = (\<lambda>f. Some f),
     fi_dir = (\<lambda>d. None), fi_abspath = (\<lambda>n. ''/b/'' @ n), fi_variant_dir = ''/b''\<rparr>"

definition demo_generator :: task_generator where
  "demo_generator = \<lparr>ge_command = Some ''sort'', ge_external = True, ge_argv = [Word ''-u'', Path_arg Input_file ''in.txt'' [] []],
     ge_stdin = None, ge_stdout = Some ''out.txt'', ge_stderr = None, ge_hidden_in = [], ge_hidden_out = [],
     ge_cwd = Some ''/elsewhere'', ge_no_inputs = False, ge_no_outputs = False\<rparr>"

definition demo_output_task :: output_task where
  "demo_output_task = \<lparr>ot_command = Inl ''sort'', ot_argv = [Word ''-u'', Path_arg Input_file ''in.txt'' [] []], ot_stdin = None,
     ot_stdout = Some ''out.txt'', ot_stderr = None, ot_cwd = ''/b'', ot_inputs = [''in.txt''], ot_outputs = [''out.txt''],
     ot_always = False\<rparr>"

theorem command_output_call_witness:
  "(\<exists>ca. command_call demo_finder demo_output_task = Inr ca \<and> ca_cwd ca = ''/b'') \<and>
   apply_cmd_output demo_finder (demo_generator\<lparr>ge_argv := [Path_arg Input_file ''no.txt'' [] []]\<rparr>) = Inl TypeError"
proof
  have "apply_cmd_output demo_finder demo_generator = Inr demo_output_task" by code_simp
  then show "\<exists>ca. command_call demo_finder demo_output_task = Inr ca \<and> ca_cwd ca = ''/b''"
    using command_output_call [of demo_finder demo_generator demo_output_task None "[]" "[]" "[]"]
    by (auto simp: demo_finder_def)
qed code_simp

end
