(* ===== verification/VizPanels.thy ===== *)
theory VizPanels
  imports PyString Complex_Main
begin

text \<open>
  The panels of the visualizer: the axes with their labels (\<open>hud.py\<close>), the picture of a node
  (\<open>svgitem.py\<close>), and the windows with the last packets and the routing tables (\<open>plugins/\<close>).
  What the canvas and the simulator answer are arguments.  Floats are real numbers here, since
  the axes take a logarithm.
\<close>

section \<open>Divisions of an axis\<close>

definition rint :: "real \<Rightarrow> int" where
  "rint x = \<lfloor>x + 1 / 2\<rfloor>"

text \<open>One of the five turns of the loop; its state is \<open>(ndiv, x0, div)\<close>.\<close>

definition division_turn ::
  "real \<Rightarrow> real \<Rightarrow> real \<Rightarrow> real \<Rightarrow> nat \<Rightarrow> real \<times> real \<times> real \<Rightarrow> real \<times> real \<times> real" where
  "division_turn xi total_size text_width dx_over_ndiv n s =
     (let tbe = log 10 dx_over_ndiv;
          d = 10 powi rint tbe;
          d = (if \<bar>d / 2 - dx_over_ndiv\<bar> < \<bar>d - dx_over_ndiv\<bar> then d / 2
               else if \<bar>d * 2 - dx_over_ndiv\<bar> < \<bar>d - dx_over_ndiv\<bar> then d * 2
               else d);
          x0 = d * of_int \<lceil>xi / d\<rceil> - d
      in (if 1 < n then of_int (rint (total_size / text_width)) else fst s, x0, d))"

definition compute_divisions :: "real \<Rightarrow> real \<Rightarrow> (real \<times> real) py_result" where
  "compute_divisions xi xf =
     (if \<not> xi < xf then Inl AssertionError
      else (let dx = xf - xi; total_size = dx; ndiv = 5; text_width = dx / ndiv / 2; dx_over_ndiv = dx / ndiv
            in Inr (snd (fold (division_turn xi total_size text_width dx_over_ndiv) [0 ..< 5] (ndiv, 0, 0)))))"

text \<open>The positions at which the loops of \<open>update_view\<close> draw; the loop would not end for a step of zero.\<close>

partial_function (option) ticks :: "real \<Rightarrow> real \<Rightarrow> real \<Rightarrow> real list option" where
  "ticks x step until =
     (if x < until then Option.bind (ticks (x + step) step until) (\<lambda>xs. Some (x # xs)) else Some [])"

section \<open>The axes\<close>

datatype align = Centered | LeftAligned

record label =
  shown :: bool
  label_text :: real
  font_size :: int
  alignment :: align
  label_x :: real
  label_y :: real

text \<open>A path is a list of segments, each from one point to another.\<close>

type_synonym segment = "(real \<times> real) \<times> (real \<times> real)"

record axes =
  lines_shown :: bool
  hline_width :: real
  vline_width :: real
  hline_path :: "segment list"
  vline_path :: "segment list"
  labels :: "label list"
  axes_visible :: bool

text \<open>The window: the zoom, absent until its scale is made, and the adjustments; \<open>from_px\<close> is \<open>convert_from_pixels\<close>.\<close>

record window_view =
  zoom_value :: "real option"
  hvalue :: real
  hpage :: real
  vvalue :: real
  vpage :: real

definition px_per_meter :: real where
  "px_per_meter = 3"

definition py_int :: "real \<Rightarrow> int" where
  "py_int r = (if 0 \<le> r then \<lfloor>r\<rfloor> else \<lceil>r\<rceil>)"

text \<open>A label of the pool or a new one, with what \<open>set_properties\<close> gives it; the pool is the first component.\<close>

definition get_label :: "(label \<Rightarrow> label) \<Rightarrow> label list \<times> label list \<Rightarrow> label list \<times> label list" where
  "get_label props s =
     (case s of
        ([], used) \<Rightarrow>
          ([], used @ [props \<lparr>shown = True, label_text = 0, font_size = 0, alignment = Centered, label_x = 0, label_y = 0\<rparr>])
      | (l # pool, used) \<Rightarrow> (pool, used @ [props (l\<lparr>shown := True\<rparr>)]))"

definition hlabel :: "real \<Rightarrow> real \<Rightarrow> real \<Rightarrow> real \<Rightarrow> label \<Rightarrow> label" where
  "hlabel zoom yc offset x l =
     l\<lparr>font_size := py_int (12 / zoom), label_text := x, alignment := Centered,
       label_x := px_per_meter * x, label_y := yc - offset\<rparr>"

definition vlabel :: "real \<Rightarrow> real \<Rightarrow> real \<Rightarrow> real \<Rightarrow> label \<Rightarrow> label" where
  "vlabel zoom xc offset y l =
     l\<lparr>font_size := py_int (12 / zoom), label_text := y, alignment := LeftAligned,
       label_x := xc + offset, label_y := px_per_meter * y\<rparr>"

definition hsegment :: "real \<Rightarrow> real \<Rightarrow> real \<Rightarrow> segment" where
  "hsegment yc offset x = ((px_per_meter * x, yc - offset), (px_per_meter * x, yc))"

definition vsegment :: "real \<Rightarrow> real \<Rightarrow> real \<Rightarrow> segment" where
  "vsegment xc offset y = ((xc, px_per_meter * y), (xc + offset, px_per_meter * y))"

text \<open>
  \<open>update_view\<close> gives the axes and the exception, if one is raised; \<open>None\<close> stands for a loop that does
  not end.  An exception leaves \<open>self.labels\<close> as the function has it at that point.
\<close>

definition update_axes ::
  "(real \<times> real \<Rightarrow> real \<times> real) \<Rightarrow> window_view \<Rightarrow> axes \<Rightarrow> (axes \<times> py_error option) option" where
  "update_axes from_px w a =
     (case zoom_value w of
        None \<Rightarrow> Some (a, None)
      | Some zoom \<Rightarrow>
          (let pool = List.map (\<lambda>l. l\<lparr>shown := False\<rparr>) (labels a);
               a = a\<lparr>labels := []\<rparr>
           in if zoom = 0 then Some (a, Some ZeroDivisionError)
              else
                (let offset = 10 / zoom;
                     (x1, y1) = from_px (hvalue w, vvalue w);
                     (x2, y2) = from_px (hvalue w + hpage w, vvalue w + vpage w);
                     lwidth = 5 / zoom;
                     a = a\<lparr>hline_width := lwidth\<rparr>;
                     yc = y2 - lwidth / 2;
                     sim_x1 = x1 / px_per_meter; sim_x2 = x2 / px_per_meter
                 in case compute_divisions sim_x1 sim_x2 of
                      Inl e \<Rightarrow> Some (a, Some e)
                    | Inr (x0, xdiv) \<Rightarrow>
                        Option.bind (ticks x0 xdiv sim_x2) (\<lambda>xs.
                          let (pool, used) = fold (\<lambda>x. get_label (hlabel zoom yc offset x)) xs (pool, []);
                              a = a\<lparr>labels := used,
                                    hline_path := ((x1, yc), (x2, yc)) # List.map (hsegment yc offset) xs\<rparr>;
                              a = a\<lparr>vline_width := lwidth\<rparr>;
                              xc = x1 + lwidth / 2;
                              sim_y1 = y1 / px_per_meter; sim_y2 = y2 / px_per_meter
                          in case compute_divisions sim_y1 sim_y2 of
                               Inl e \<Rightarrow> Some (a, Some e)
                             | Inr (y0, ydiv) \<Rightarrow>
                                 Option.bind (ticks y0 ydiv sim_y2) (\<lambda>ys.
                                   let (pool, used) = fold (\<lambda>y. get_label (vlabel zoom xc offset y)) ys (pool, used)
                                   in Some (a\<lparr>vline_path := ((xc, y1), (xc, y2)) # List.map (vsegment xc offset) ys,
                                              labels := used @ pool\<rparr>, None))))))"

definition set_visible :: "bool \<Rightarrow> axes \<Rightarrow> axes" where
  "set_visible v a =
     (let a = a\<lparr>axes_visible := v\<rparr>
      in if v then a\<lparr>lines_shown := True\<rparr>
         else a\<lparr>lines_shown := False, labels := List.map (\<lambda>l. l\<lparr>shown := False\<rparr>) (labels a)\<rparr>)"

text \<open>The handler of both adjustments, and the axes when they are made.\<close>

definition adjusted ::
  "(real \<times> real \<Rightarrow> real \<times> real) \<Rightarrow> window_view \<Rightarrow> axes \<Rightarrow> (axes \<times> py_error option) option" where
  "adjusted from_px w a = (if axes_visible a then update_axes from_px w a else Some (a, None))"

definition new_axes ::
  "(real \<times> real \<Rightarrow> real \<times> real) \<Rightarrow> window_view \<Rightarrow> (axes \<times> py_error option) option" where
  "new_axes from_px w =
     update_axes from_px w
       \<lparr>lines_shown = True, hline_width = 0, vline_width = 0, hline_path = [], vline_path = [], labels = [], axes_visible = True\<rparr>"

section \<open>The divisions are neither few nor many\<close>

lemma rint_bounds: "real_of_int (rint x) - 1 / 2 \<le> x" "x < real_of_int (rint x) + 1 / 2"
  unfolding rint_def by linarith+

text \<open>The power of ten that is nearest on a logarithmic scale is within a factor of the root of ten.\<close>

lemma nearest_power:
  assumes "0 < r"
  defines "p \<equiv> (10::real) powi rint (log 10 r)"
  shows "0 < p" "p\<^sup>2 \<le> 10 * r\<^sup>2" "r\<^sup>2 < 10 * p\<^sup>2"
proof -
  let ?k = "real_of_int (rint (log 10 r))"
  have p: "p = 10 powr ?k"
    unfolding p_def by (simp add: powr_real_of_int')
  show "0 < p"
    unfolding p by simp
  have square: "(10 powr t)\<^sup>2 = 10 powr (2 * t)" for t :: real
    by (simp add: power2_eq_square flip: powr_add)
  have r: "r = 10 powr log 10 r"
    using assms(1) by simp
  have "10 powr (2 * ?k) \<le> 10 powr (1 + 2 * log 10 r)"
    using rint_bounds(1) [of "log 10 r"] by (subst powr_le_cancel_iff) (simp, linarith)
  also have "\<dots> = 10 * r\<^sup>2"
    using r square [of "log 10 r"] by (simp add: powr_add)
  finally show "p\<^sup>2 \<le> 10 * r\<^sup>2"
    unfolding p square .
  have "10 powr (2 * log 10 r) < 10 powr (1 + 2 * ?k)"
    using rint_bounds(2) [of "log 10 r"] by (subst powr_less_cancel_iff) (simp, linarith)
  also have "\<dots> = 10 * p\<^sup>2"
    unfolding p square by (simp add: powr_add)
  finally show "r\<^sup>2 < 10 * p\<^sup>2"
    using r square [of "log 10 r"] by simp
qed

definition nice_step :: "real \<Rightarrow> real" where
  "nice_step r =
     (let p = 10 powi rint (log 10 r)
      in if \<bar>p / 2 - r\<bar> < \<bar>p - r\<bar> then p / 2 else if \<bar>p * 2 - r\<bar> < \<bar>p - r\<bar> then p * 2 else p)"

lemma nearer:
  fixes p r :: real
  assumes "0 < p"
  shows "\<bar>p / 2 - r\<bar> < \<bar>p - r\<bar> \<longleftrightarrow> r < 3 / 4 * p" "\<bar>p * 2 - r\<bar> < \<bar>p - r\<bar> \<longleftrightarrow> 3 / 2 * p < r"
  using assms by (auto simp: abs_if)

lemma nice_step_eq:
  "nice_step r =
     (let p = 10 powi rint (log 10 r) in if r < 3 / 4 * p then p / 2 else if 3 / 2 * p < r then p * 2 else p)"
  by (simp add: nice_step_def Let_def nearer)

lemma nice_step_bounds:
  assumes "0 < r"
  shows "0 < nice_step r" "3 * nice_step r < 5 * r" "5 * r < 8 * nice_step r"
proof -
  let ?p = "(10::real) powi rint (log 10 r)"
  note p = nearest_power [OF assms]
  have "0 < ?p\<^sup>2"
    using p(1) by (rule zero_less_power)
  then have "9 * ?p\<^sup>2 < 100 * r\<^sup>2" "25 * r\<^sup>2 < 256 * ?p\<^sup>2"
    using p(2,3) by linarith+
  then have "(3 / 10 * ?p)\<^sup>2 < r\<^sup>2" "r\<^sup>2 < (16 / 5 * ?p)\<^sup>2"
    by (simp_all add: power_mult_distrib power_divide)
  then have low: "3 / 10 * ?p < r" and high: "r < 16 / 5 * ?p"
    using assms p(1) by - (erule power2_less_imp_less; linarith)+
  have cases: "nice_step r = ?p / 2 \<and> r < 3 / 4 * ?p \<or> nice_step r = ?p * 2 \<and> 3 / 2 * ?p < r
      \<or> nice_step r = ?p \<and> 3 / 4 * ?p \<le> r \<and> r \<le> 3 / 2 * ?p"
    unfolding nice_step_eq Let_def by simp
  show "0 < nice_step r" "3 * nice_step r < 5 * r" "5 * r < 8 * nice_step r"
    using cases low high p(1) by linarith+
qed

text \<open>All five turns compute the same: what changes is \<open>ndiv\<close>, and nothing reads it.\<close>

lemma compute_divisions_once:
  "compute_divisions xi xf =
     (if xi < xf
      then Inr (nice_step ((xf - xi) / 5) * of_int \<lceil>xi / nice_step ((xf - xi) / 5)\<rceil> - nice_step ((xf - xi) / 5),
                nice_step ((xf - xi) / 5))
      else Inl AssertionError)"
  by (simp add: compute_divisions_def division_turn_def nice_step_def Let_def upt_rec)

lemma nice_step_ten_power: "nice_step (10 powi k) = 10 powi k"
proof -
  have "log 10 ((10::real) powi k) = of_int k"
    by (simp add: powr_real_of_int' flip: powr_real_of_int')
  then have "rint (log 10 ((10::real) powi k)) = k"
    by (simp add: rint_def floor_eq_iff)
  moreover have "0 < (10::real) powi k"
    by simp
  ultimately show ?thesis
    unfolding nice_step_eq Let_def by simp
qed

lemma ticks_eq:
  assumes "0 < step"
  shows "ticks x step until = Some (List.map (\<lambda>i. x + of_nat i * step) [0 ..< nat \<lceil>(until - x) / step\<rceil>])"
proof (induction "nat \<lceil>(until - x) / step\<rceil>" arbitrary: x)
  case 0
  then have "(until - x) / step \<le> 0"
    by simp
  with assms have "\<not> x < until"
    by (simp add: divide_le_0_iff)
  with 0 show ?case
    by (subst ticks.simps) simp
next
  case (Suc n)
  then have "0 < (until - x) / step"
    by linarith
  with assms have less: "x < until"
    by (simp add: zero_less_divide_iff)
  have "(until - (x + step)) / step = (until - x) / step - 1"
    using assms by (simp add: field_simps)
  then have n: "n = nat \<lceil>(until - (x + step)) / step\<rceil>"
    using Suc(2) by simp
  have "ticks (x + step) step until = Some (List.map (\<lambda>i. x + of_nat (Suc i) * step) [0 ..< n])"
    using Suc(1) [OF n] n by (simp add: algebra_simps)
  then have "ticks x step until = Some (x # List.map (\<lambda>i. x + of_nat (Suc i) * step) [0 ..< n])"
    using less by (subst ticks.simps) simp
  moreover have "List.map (\<lambda>i. x + of_nat i * step) [0 ..< Suc n]
      = x # List.map (\<lambda>i. x + of_nat (Suc i) * step) [0 ..< n]"
    by (simp add: upt_conv_Cons comp_def del: upt_Suc flip: map_Suc_upt)
  ultimately show ?case
    by (simp flip: Suc(2) del: upt_Suc of_nat_Suc)
qed

lemma ceiling_mult:
  fixes x d :: real
  assumes "0 < d"
  shows "x \<le> d * of_int \<lceil>x / d\<rceil>" "d * of_int \<lceil>x / d\<rceil> < x + d"
proof -
  have "x / d \<le> of_int \<lceil>x / d\<rceil>" "of_int \<lceil>x / d\<rceil> < x / d + 1"
    by linarith+
  then have "x / d * d \<le> of_int \<lceil>x / d\<rceil> * d" "of_int \<lceil>x / d\<rceil> * d < (x / d + 1) * d"
    using assms by (simp_all only: mult_le_cancel_right_pos mult_less_cancel_right_pos)
  then show "x \<le> d * of_int \<lceil>x / d\<rceil>" "d * of_int \<lceil>x / d\<rceil> < x + d"
    using assms by (simp_all add: algebra_simps)
qed

lemma less_nat_ceiling_div:
  fixes d y :: real
  assumes "0 < d"
  shows "i < nat \<lceil>y / d\<rceil> \<longleftrightarrow> of_nat i * d < y"
proof -
  have "i < nat \<lceil>y / d\<rceil> \<longleftrightarrow> of_nat i < y / d"
    by (simp add: zless_nat_eq_int_zless less_ceiling_iff)
  then show ?thesis
    using assms by (simp add: pos_less_divide_eq)
qed

text \<open>How many ticks there are, and which lie in the part of the axis that is seen.\<close>

lemma divisions_of_axis:
  assumes "xi < xf"
  obtains x0 d n where
    "compute_divisions xi xf = Inr (x0, d)" "0 < d" "3 * d < xf - xi" "xf - xi < 8 * d" "xi - d \<le> x0" "x0 < xi"
    "d * of_int (\<lceil>xi / d\<rceil> - 1) = x0"
    "ticks x0 d xf = Some (List.map (\<lambda>i. x0 + of_nat i * d) [0 ..< n])" "4 \<le> n" "n \<le> 9"
    "n = nat \<lceil>(xf - x0) / d\<rceil>"
proof -
  let ?d = "nice_step ((xf - xi) / 5)"
  let ?x0 = "?d * of_int \<lceil>xi / ?d\<rceil> - ?d"
  let ?n = "nat \<lceil>(xf - ?x0) / ?d\<rceil>"
  have d: "0 < ?d" "3 * ?d < xf - xi" "xf - xi < 8 * ?d"
    using nice_step_bounds [of "(xf - xi) / 5"] assms by auto
  have x0: "xi - ?d \<le> ?x0" "?x0 < xi"
    using ceiling_mult [OF d(1), of xi] by linarith+
  then have "3 < (xf - ?x0) / ?d" "(xf - ?x0) / ?d \<le> 9"
    using d by (simp_all add: pos_less_divide_eq pos_divide_le_eq) 
  then have "4 \<le> ?n" "?n \<le> 9"
    by linarith+
  moreover have "?d * of_int (\<lceil>xi / ?d\<rceil> - 1) = ?x0"
    by (simp add: algebra_simps)
  ultimately show thesis
    using that [of ?x0 ?d ?n] d x0 assms ticks_eq [OF d(1)] by (simp add: compute_divisions_once)
qed

text \<open>C36. An axis gets between four and nine ticks, the first of which lies before the part that is seen; they
  are all the multiples of a step that is one, two or a half times a power of ten, and the loop that draws them
  ends.\<close>
theorem axis_divisions:
  assumes "xi < xf"
  shows "\<exists>x0 d xs k. compute_divisions xi xf = Inr (x0, d) \<and> d \<in> {10 powi k / 2, 10 powi k, 10 powi k * 2}
      \<and> ticks x0 d xf = Some xs \<and> 4 \<le> length xs \<and> length xs \<le> 9 \<and> hd xs < xi
      \<and> {x \<in> set xs. xi \<le> x} = {x. (\<exists>m. x = d * of_int m) \<and> xi \<le> x \<and> x < xf}"
proof -
  obtain x0 d n where c: "compute_divisions xi xf = Inr (x0, d)" "0 < d" "x0 < xi" "xi - d \<le> x0"
    "d * of_int (\<lceil>xi / d\<rceil> - 1) = x0" and t: "ticks x0 d xf = Some (List.map (\<lambda>i. x0 + of_nat i * d) [0 ..< n])"
    and n: "4 \<le> n" "n \<le> 9" "n = nat \<lceil>(xf - x0) / d\<rceil>"
    using divisions_of_axis [OF assms] .
  let ?xs = "List.map (\<lambda>i. x0 + of_nat i * d) [0 ..< n]"
  have in_range: "i < n \<longleftrightarrow> x0 + of_nat i * d < xf" for i
    using n(3) less_nat_ceiling_div [OF c(2), of i "xf - x0"] by (simp add: less_diff_eq add.commute)
  have "d = nice_step ((xf - xi) / 5)"
    using c(1) assms by (simp add: compute_divisions_once)
  then obtain k :: int where k: "d \<in> {10 powi k / 2, 10 powi k, 10 powi k * 2}"
    unfolding nice_step_eq Let_def by (auto split: if_splits)
  have first: "hd ?xs < xi"
    using n(1) c(3) by (simp add: hd_map)
  have seen: "x \<in> set ?xs \<longleftrightarrow> (\<exists>m. x = d * of_int m) \<and> x < xf" if "xi \<le> x" for x
  proof
    assume "x \<in> set ?xs"
    then obtain i where "i < n" "x = x0 + of_nat i * d"
      by auto
    moreover have "x0 + of_nat i * d = d * of_int (\<lceil>xi / d\<rceil> - 1 + int i)"
      using c(5) by (simp add: algebra_simps)
    ultimately show "(\<exists>m. x = d * of_int m) \<and> x < xf"
      using in_range by blast
  next
    assume "(\<exists>m. x = d * of_int m) \<and> x < xf"
    then obtain m where m: "x = d * of_int m" and xf: "x < xf"
      by blast
    have "xi / d \<le> of_int m"
      using that m c(2) by (simp add: divide_le_eq mult.commute)
    then have "\<lceil>xi / d\<rceil> \<le> m"
      by (simp add: ceiling_le_iff)
    then have "x = x0 + of_nat (nat (m - (\<lceil>xi / d\<rceil> - 1))) * d"
      using m c(5) by (simp add: algebra_simps)
    with xf in_range show "x \<in> set ?xs"
      by auto
  qed
  then have all: "{x \<in> set ?xs. xi \<le> x} = {x. (\<exists>m. x = d * of_int m) \<and> xi \<le> x \<and> x < xf}"
    by blast
  have len: "4 \<le> length ?xs" "length ?xs \<le> 9"
    using n by simp_all
  show ?thesis
    by (intro exI conjI) (rule c(1) k t len first all)+
qed

section \<open>The labels of the axes\<close>

lemma get_labels:
  assumes "\<And>x l. shown (g x l) = shown l" "\<And>x l. label_text (g x l) = x"
  shows "\<exists>ls. fold (\<lambda>x. get_label (g x)) xs (pool, used) = (drop (length xs) pool, used @ ls)
      \<and> length ls = length xs \<and> list_all shown ls \<and> List.map label_text ls = xs"
proof (induction xs arbitrary: pool used)
  case (Cons x xs)
  obtain l where l: "get_label (g x) (pool, used) = (drop 1 pool, used @ [l])" "shown l" "label_text l = x"
    by (cases pool) (simp_all add: get_label_def assms)
  obtain ls where "fold (\<lambda>x. get_label (g x)) xs (drop 1 pool, used @ [l]) = (drop (length xs) (drop 1 pool), (used @ [l]) @ ls)
      \<and> length ls = length xs \<and> list_all shown ls \<and> List.map label_text ls = xs"
    using Cons.IH [of "drop 1 pool" "used @ [l]"] ..
  with l have "fold (\<lambda>x. get_label (g x)) (x # xs) (pool, used) = (drop (length (x # xs)) pool, used @ (l # ls))
      \<and> length (l # ls) = length (x # xs) \<and> list_all shown (l # ls) \<and> List.map label_text (l # ls) = x # xs"
    by simp
  then show ?case ..
qed simp

lemma hlabels:
  "\<exists>ls. fold (\<lambda>x. get_label (hlabel zoom yc offset x)) xs (pool, used) = (drop (length xs) pool, used @ ls)
      \<and> length ls = length xs \<and> list_all shown ls \<and> List.map label_text ls = xs"
  by (rule get_labels) (simp_all add: hlabel_def)

lemma vlabels:
  "\<exists>ls. fold (\<lambda>x. get_label (vlabel zoom xc offset x)) xs (pool, used) = (drop (length xs) pool, used @ ls)
      \<and> length ls = length xs \<and> list_all shown ls \<and> List.map label_text ls = xs"
  by (rule get_labels) (simp_all add: vlabel_def)

definition axis_ticks :: "real \<Rightarrow> real \<Rightarrow> real list" where
  "axis_ticks p1 p2 =
     (case compute_divisions (p1 / px_per_meter) (p2 / px_per_meter) of
        Inl e \<Rightarrow> []
      | Inr (x0, d) \<Rightarrow> (case ticks x0 d (p2 / px_per_meter) of None \<Rightarrow> [] | Some xs \<Rightarrow> xs))"

lemma axis_ticks:
  assumes "p1 < p2"
  obtains x0 d where
    "compute_divisions (p1 / px_per_meter) (p2 / px_per_meter) = Inr (x0, d)"
    "ticks x0 d (p2 / px_per_meter) = Some (axis_ticks p1 p2)"
    "4 \<le> length (axis_ticks p1 p2)" "length (axis_ticks p1 p2) \<le> 9"
proof -
  have "p1 / px_per_meter < p2 / px_per_meter"
    using assms by (simp add: px_per_meter_def)
  from divisions_of_axis [OF this] obtain x0 d n where
    "compute_divisions (p1 / px_per_meter) (p2 / px_per_meter) = Inr (x0, d)"
    "ticks x0 d (p2 / px_per_meter) = Some (List.map (\<lambda>i. x0 + of_nat i * d) [0 ..< n])" "4 \<le> n" "n \<le> 9"
    by metis
  then show thesis
    by (intro that [of x0 d]) (simp_all add: axis_ticks_def)
qed

text \<open>An update of the axes returns, and then the labels that are shown are those of the ticks of both axes in
  order, followed by the hidden ones that are kept; none is lost, and labels are made only when the kept ones do
  not suffice.\<close>
theorem axis_labels:
  assumes "zoom_value w = Some z" "z \<noteq> 0" "from_px (hvalue w, vvalue w) = (x1, y1)"
    and "from_px (hvalue w + hpage w, vvalue w + vpage w) = (x2, y2)" "x1 < x2" "y1 < y2"
  shows "\<exists>a' used. update_axes from_px w a = Some (a', None)
      \<and> labels a' = used @ List.map (\<lambda>l. l\<lparr>shown := False\<rparr>) (drop (length used) (labels a))
      \<and> list_all shown used \<and> List.map label_text used = axis_ticks x1 x2 @ axis_ticks y1 y2
      \<and> length (labels a') \<le> max (length (labels a)) 18"
proof -
  obtain x0 xd where x: "compute_divisions (x1 / px_per_meter) (x2 / px_per_meter) = Inr (x0, xd)"
    "ticks x0 xd (x2 / px_per_meter) = Some (axis_ticks x1 x2)" "length (axis_ticks x1 x2) \<le> 9"
    using axis_ticks [OF assms(5)] by blast
  obtain y0 yd where y: "compute_divisions (y1 / px_per_meter) (y2 / px_per_meter) = Inr (y0, yd)"
    "ticks y0 yd (y2 / px_per_meter) = Some (axis_ticks y1 y2)" "length (axis_ticks y1 y2) \<le> 9"
    using axis_ticks [OF assms(6)] by blast
  let ?pool = "List.map (\<lambda>l. l\<lparr>shown := False\<rparr>) (labels a)"
  obtain hs where h: "fold (\<lambda>x. get_label (hlabel z (y2 - 5 / z / 2) (10 / z) x)) (axis_ticks x1 x2) (?pool, [])
      = (drop (length (axis_ticks x1 x2)) ?pool, [] @ hs)"
    "length hs = length (axis_ticks x1 x2)" "list_all shown hs" "List.map label_text hs = axis_ticks x1 x2"
    using hlabels [of z "y2 - 5 / z / 2" "10 / z" "axis_ticks x1 x2" ?pool "[]"] by (elim exE conjE)
  obtain vs where v: "fold (\<lambda>y. get_label (vlabel z (x1 + 5 / z / 2) (10 / z) y)) (axis_ticks y1 y2)
        (drop (length (axis_ticks x1 x2)) ?pool, hs)
      = (drop (length (axis_ticks y1 y2)) (drop (length (axis_ticks x1 x2)) ?pool), hs @ vs)"
    "length vs = length (axis_ticks y1 y2)" "list_all shown vs" "List.map label_text vs = axis_ticks y1 y2"
    using vlabels [of z "x1 + 5 / z / 2" "10 / z" "axis_ticks y1 y2" "drop (length (axis_ticks x1 x2)) ?pool" hs]
    by (elim exE conjE)
  obtain a' where a': "update_axes from_px w a = Some (a', None)"
    "labels a' = (hs @ vs) @ drop (length (axis_ticks y1 y2)) (drop (length (axis_ticks x1 x2)) ?pool)"
    using assms(1-4) x y h(1) v(1) by (simp add: update_axes_def Let_def)
  have "labels a' = (hs @ vs) @ List.map (\<lambda>l. l\<lparr>shown := False\<rparr>) (drop (length (hs @ vs)) (labels a))"
    using a'(2) h(2) v(2) by (simp add: drop_map add.commute)
  moreover have "length (labels a') \<le> max (length (labels a)) 18"
    using a'(2) h(2) v(2) x(3) y(3) by simp
  ultimately show ?thesis
    using a'(1) h(3,4) v(3,4) by (intro exI [of _ a'] exI [of _ "hs @ vs"]) simp
qed

lemma axis_divisions_witness:
  "compute_divisions 0 5 = Inr (- 1, 1) \<and> (\<exists>xs. ticks (- 1) 1 5 = Some xs \<and> hd xs < 0
      \<and> {x \<in> set xs. 0 \<le> x} = {x. (\<exists>m. x = of_int m) \<and> 0 \<le> x \<and> x < 5})"
proof -
  have "nice_step (10 powi 0) = 10 powi 0"
    by (rule nice_step_ten_power)
  then have "compute_divisions 0 5 = Inr (- 1, 1)"
    by (simp add: compute_divisions_once)
  with axis_divisions [of 0 5] show ?thesis
    by auto
qed

lemma axis_labels_witness:
  "\<exists>a' used. update_axes (\<lambda>p. p) \<lparr>zoom_value = Some 1, hvalue = 0, hpage = 15, vvalue = 0, vpage = 15\<rparr>
        \<lparr>lines_shown = True, hline_width = 0, vline_width = 0, hline_path = [], vline_path = [], labels = [], axes_visible = True\<rparr>
      = Some (a', None) \<and> labels a' = used \<and> list_all shown used
      \<and> List.map label_text used = axis_ticks 0 15 @ axis_ticks 0 15 \<and> 8 \<le> length (labels a')"
proof -
  let ?w = "\<lparr>zoom_value = Some 1, hvalue = 0, hpage = 15, vvalue = 0, vpage = 15\<rparr>"
  let ?a = "\<lparr>lines_shown = True, hline_width = 0, vline_width = 0, hline_path = [], vline_path = [], labels = [], axes_visible = True\<rparr>"
  have "4 \<le> length (axis_ticks 0 15)"
    by (rule axis_ticks [of 0 15]) simp_all
  moreover obtain a' used where "update_axes (\<lambda>p. p) ?w ?a = Some (a', None)" "labels a' = used" "list_all shown used"
    "List.map label_text used = axis_ticks 0 15 @ axis_ticks 0 15"
    using axis_labels [of ?w 1 "\<lambda>p. p" 0 0 15 15 ?a] by auto
  moreover from this(4) have "length used = length (axis_ticks 0 15) + length (axis_ticks 0 15)"
    by (metis length_append length_map)
  ultimately show ?thesis
    by (intro exI [of _ a'] exI [of _ used]) simp
qed

text \<open>A window without an extent: the labels that were kept for use are lost to the axes.\<close>

lemma empty_window_loses_labels:
  assumes "zoom_value w = Some z" "z \<noteq> 0" "from_px (hvalue w, vvalue w) = (x, y1)"
    and "from_px (hvalue w + hpage w, vvalue w + vpage w) = (x, y2)"
  shows "\<exists>a'. update_axes from_px w a = Some (a', Some AssertionError) \<and> labels a' = []"
  using assms by (simp add: update_axes_def compute_divisions_def Let_def)

text \<open>Showing the axes again shows the lines only; the labels wait for the next move of the view.\<close>

lemma labels_stay_hidden:
  "\<forall>l \<in> set (labels (set_visible True (set_visible False a))). \<not> shown l"
  "lines_shown (set_visible True (set_visible False a))"
  by (auto simp: set_visible_def Let_def)

section \<open>The picture of a node\<close>

text \<open>\<open>handle_size\<close> is the size of the picture itself, an integer; \<open>None\<close> marks the sizes that nobody gave.\<close>

record svg_item =
  pos_x :: real
  pos_y :: real
  scale_x :: real
  scale_y :: real
  handle_width :: int
  handle_height :: int
  item_width :: real
  item_height :: real
  custom_width :: "real option"
  custom_height :: "real option"
  item_bounds :: "((real \<times> real) \<times> (real \<times> real)) option"

definition new_svg_item :: "real \<Rightarrow> real \<Rightarrow> int \<times> int \<Rightarrow> svg_item" where
  "new_svg_item x y hs =
     \<lparr>pos_x = x, pos_y = y, scale_x = 1, scale_y = 1, handle_width = fst hs, handle_height = snd hs,
      item_width = of_int (fst hs), item_height = of_int (snd hs), custom_width = None, custom_height = None,
      item_bounds = None\<rparr>"

text \<open>The item after the call, and the exception of a division by a size of zero.\<close>

definition size_changed :: "svg_item \<Rightarrow> svg_item \<times> py_error option" where
  "size_changed s =
     (case (custom_width s, custom_height s) of
        (None, None) \<Rightarrow>
          (s\<lparr>item_width := of_int (handle_width s), item_height := of_int (handle_height s), scale_x := 1, scale_y := 1\<rparr>, None)
      | (Some cw, None) \<Rightarrow>
          (let s = s\<lparr>item_width := cw\<rparr>
           in if handle_width s = 0 then (s, Some ZeroDivisionError)
              else (let sx = cw / of_int (handle_width s)
                    in (s\<lparr>scale_x := sx, scale_y := sx, item_height := of_int (handle_height s) * sx\<rparr>, None)))
      | (None, Some ch) \<Rightarrow>
          (let s = s\<lparr>item_height := ch\<rparr>
           in if handle_height s = 0 then (s, Some ZeroDivisionError)
              else (let sy = ch / of_int (handle_height s)
                    in (s\<lparr>scale_y := sy, scale_x := sy, item_width := of_int (handle_width s) * sy\<rparr>, None)))
      | (Some cw, Some ch) \<Rightarrow>
          (let s = s\<lparr>item_width := cw, item_height := ch\<rparr>
           in if handle_width s = 0 then (s, Some ZeroDivisionError)
              else (let s = s\<lparr>scale_x := cw / of_int (handle_width s)\<rparr>
                    in if handle_height s = 0 then (s, Some ZeroDivisionError)
                       else (s\<lparr>scale_y := ch / of_int (handle_height s)\<rparr>, None))))"

definition do_set_property :: "string \<Rightarrow> real \<Rightarrow> svg_item \<Rightarrow> svg_item \<times> py_error option" where
  "do_set_property name v s =
     (if name = ''x'' then (s\<lparr>pos_x := v\<rparr>, None)
      else if name = ''y'' then (s\<lparr>pos_y := v\<rparr>, None)
      else if name = ''width'' then size_changed (s\<lparr>custom_width := Some v\<rparr>)
      else if name = ''height'' then size_changed (s\<lparr>custom_height := Some v\<rparr>)
      else (s, Some AttributeError))"

text \<open>Reading the width changes the item.\<close>

definition do_get_property :: "string \<Rightarrow> svg_item \<Rightarrow> svg_item \<times> real py_result" where
  "do_get_property name s =
     (if name = ''x'' then (s, Inr (pos_x s))
      else if name = ''y'' then (s, Inr (pos_y s))
      else if name = ''width'' then
        (let s = s\<lparr>item_width := of_int (handle_width s), item_height := of_int (handle_height s)\<rparr>
         in (s, Inr (item_width s)))
      else if name = ''height'' then (s, Inr (item_height s))
      else (s, Inl AttributeError))"

text \<open>Where \<open>do_simple_paint\<close> puts the point \<open>(u, v)\<close> of the picture: \<open>translate\<close>, then \<open>scale\<close>.\<close>

definition painted :: "svg_item \<Rightarrow> real \<times> real \<Rightarrow> real \<times> real" where
  "painted s p = (pos_x s + scale_x s * fst p, pos_y s + scale_y s * snd p)"

definition do_simple_update :: "svg_item \<Rightarrow> svg_item" where
  "do_simple_update s =
     s\<lparr>item_bounds := Some ((pos_x s, pos_y s), (pos_x s + item_width s, pos_y s + item_height s))\<rparr>"

definition do_simple_is_item_at :: "real \<Rightarrow> real \<Rightarrow> svg_item \<Rightarrow> bool" where
  "do_simple_is_item_at x y s =
     (if (x < pos_x s \<or> x > pos_x s + item_width s) \<or> (y < pos_y s \<or> y > pos_y s + item_height s) then False else True)"

text \<open>What a canvas does to an item.\<close>

datatype svg_access = SetProp string real | GetProp string | Update

definition svg_step :: "svg_access \<Rightarrow> svg_item \<Rightarrow> svg_item" where
  "svg_step c s =
     (case c of SetProp n v \<Rightarrow> fst (do_set_property n v s) | GetProp n \<Rightarrow> fst (do_get_property n s)
      | Update \<Rightarrow> do_simple_update s)"

definition in_step :: "svg_item \<Rightarrow> bool" where
  "in_step s \<longleftrightarrow>
     item_width s = scale_x s * of_int (handle_width s) \<and> item_height s = scale_y s * of_int (handle_height s)
     \<and> 0 < handle_width s \<and> 0 < handle_height s \<and> 0 \<le> scale_x s \<and> 0 \<le> scale_y s
     \<and> (case custom_width s of None \<Rightarrow> True | Some v \<Rightarrow> 0 \<le> v) \<and> (case custom_height s of None \<Rightarrow> True | Some v \<Rightarrow> 0 \<le> v)"

lemma size_changed_in_step:
  assumes "0 < handle_width s" "0 < handle_height s" "case custom_width s of None \<Rightarrow> True | Some v \<Rightarrow> 0 \<le> v"
    and "case custom_height s of None \<Rightarrow> True | Some v \<Rightarrow> 0 \<le> v"
  shows "in_step (fst (size_changed s))" "snd (size_changed s) = None"
  using assms by (auto simp: size_changed_def in_step_def Let_def split: option.splits)

lemma in_step_step:
  assumes "in_step s" "c \<noteq> GetProp ''width''" "\<And>n v. c = SetProp n v \<Longrightarrow> n \<in> {''width'', ''height''} \<Longrightarrow> 0 \<le> v"
  shows "in_step (svg_step c s)"
proof (cases c)
  case (SetProp n v)
  then show ?thesis
    using assms(1) assms(3) [OF SetProp] size_changed_in_step(1)
    by (auto simp: svg_step_def do_set_property_def in_step_def intro!: size_changed_in_step(1) [unfolded in_step_def])
next
  case (GetProp n)
  then show ?thesis
    using assms by (auto simp: svg_step_def do_get_property_def)
next
  case Update
  then show ?thesis
    using assms(1) by (simp add: svg_step_def do_simple_update_def in_step_def)
qed

lemma stretched_interval:
  fixes s h x x0 :: real
  assumes "0 \<le> s" "0 \<le> h"
  shows "x0 \<le> x \<and> x \<le> x0 + s * h \<longleftrightarrow> (\<exists>u. 0 \<le> u \<and> u \<le> h \<and> x = x0 + s * u)"
proof
  assume "x0 \<le> x \<and> x \<le> x0 + s * h"
  then show "\<exists>u. 0 \<le> u \<and> u \<le> h \<and> x = x0 + s * u"
    using assms by (intro exI [of _ "(x - x0) / s"]) (cases "s = 0"; simp add: pos_divide_le_eq mult.commute)
next
  assume "\<exists>u. 0 \<le> u \<and> u \<le> h \<and> x = x0 + s * u"
  then obtain u where u: "0 \<le> u" "u \<le> h" "x = x0 + s * u"
    by blast
  with assms(1) have "0 \<le> s * u" "s * u \<le> s * h"
    by (simp_all add: mult_left_mono)
  with u(3) show "x0 \<le> x \<and> x \<le> x0 + s * h"
    by simp
qed

lemma in_step_hit:
  assumes "in_step s"
  shows "do_simple_is_item_at x y s \<longleftrightarrow>
    (\<exists>u v. 0 \<le> u \<and> u \<le> of_int (handle_width s) \<and> 0 \<le> v \<and> v \<le> of_int (handle_height s) \<and> painted s (u, v) = (x, y))"
proof -
  have "do_simple_is_item_at x y s \<longleftrightarrow>
      (pos_x s \<le> x \<and> x \<le> pos_x s + scale_x s * of_int (handle_width s))
      \<and> (pos_y s \<le> y \<and> y \<le> pos_y s + scale_y s * of_int (handle_height s))"
    using assms by (auto simp: do_simple_is_item_at_def in_step_def)
  also have "\<dots> \<longleftrightarrow> (\<exists>u. 0 \<le> u \<and> u \<le> of_int (handle_width s) \<and> x = pos_x s + scale_x s * u)
      \<and> (\<exists>v. 0 \<le> v \<and> v \<le> of_int (handle_height s) \<and> y = pos_y s + scale_y s * v)"
    using assms by (simp add: stretched_interval in_step_def)
  also have "\<dots> \<longleftrightarrow> (\<exists>u v. 0 \<le> u \<and> u \<le> of_int (handle_width s) \<and> 0 \<le> v \<and> v \<le> of_int (handle_height s)
      \<and> painted s (u, v) = (x, y))"
    by (auto simp: painted_def)
  finally show ?thesis .
qed

lemma in_step_steps:
  assumes "in_step s" "GetProp ''width'' \<notin> set cs" "\<forall>n v. SetProp n v \<in> set cs \<longrightarrow> n \<in> {''width'', ''height''} \<longrightarrow> 0 \<le> v"
  shows "in_step (fold svg_step cs s)"
  using assms
proof (induction cs arbitrary: s)
  case (Cons c cs)
  have "in_step (svg_step c s)"
    using Cons.prems by (intro in_step_step) auto
  then show ?case
    using Cons by simp
qed simp

text \<open>C37. Whatever sizes and positions are given to a picture, in any order, the points at which it answers the
  pointer are those on which it is painted, as long as nobody reads its width.\<close>
theorem hit_where_painted:
  assumes "0 < w" "0 < h" "GetProp ''width'' \<notin> set cs"
    and "\<forall>n v. SetProp n v \<in> set cs \<longrightarrow> n \<in> {''width'', ''height''} \<longrightarrow> 0 \<le> v"
  shows "do_simple_is_item_at px py (fold svg_step cs (new_svg_item x y (w, h))) \<longleftrightarrow>
    (\<exists>u v. 0 \<le> u \<and> u \<le> of_int w \<and> 0 \<le> v \<and> v \<le> of_int h
       \<and> painted (fold svg_step cs (new_svg_item x y (w, h))) (u, v) = (px, py))"
proof -
  let ?s = "fold svg_step cs (new_svg_item x y (w, h))"
  have "in_step (new_svg_item x y (w, h))"
    using assms(1,2) by (simp add: in_step_def new_svg_item_def)
  then have "in_step ?s"
    using assms(3,4) by (rule in_step_steps)
  moreover have "handle_width (svg_step c s) = handle_width s \<and> handle_height (svg_step c s) = handle_height s" for c s
    by (simp add: svg_step_def do_set_property_def do_get_property_def do_simple_update_def size_changed_def Let_def
        split: svg_access.split option.split)
  then have "handle_width (fold svg_step cs s) = handle_width s \<and> handle_height (fold svg_step cs s) = handle_height s" for s
    by (induction cs arbitrary: s) auto
  then have "handle_width ?s = w" "handle_height ?s = h"
    by (simp_all add: new_svg_item_def)
  ultimately show ?thesis
    using in_step_hit by metis
qed

lemma hit_where_painted_witness:
  "do_simple_is_item_at 25 5 (fold svg_step [SetProp ''width'' 30, SetProp ''x'' 1] (new_svg_item 0 0 (10, 20)))"
proof -
  have "painted (fold svg_step [SetProp ''width'' 30, SetProp ''x'' 1] (new_svg_item 0 0 (10, 20))) (8, 5 / 3) = (25, 5)"
    by (simp add: svg_step_def do_set_property_def size_changed_def new_svg_item_def painted_def)
  moreover have "0 \<le> (8::real) \<and> 8 \<le> real_of_int 10 \<and> 0 \<le> 5 / (3::real) \<and> 5 / 3 \<le> real_of_int 20"
    by simp
  ultimately show ?thesis
    using hit_where_painted [of 10 20 "[SetProp ''width'' 30, SetProp ''x'' 1]" 25 5 0 0] by auto
qed

text \<open>Reading the width forgets the size that was given: the answer is wrong, and the picture stays painted where it no
  longer answers.\<close>

lemma width_read_back:
  assumes "0 < w" "0 < h" "of_int w < v" "w = h"
  shows "let s = fst (do_set_property ''width'' v (new_svg_item 0 0 (w, h)))
         in snd (do_get_property ''width'' s) = Inr (of_int w)
            \<and> do_simple_is_item_at v v s \<and> \<not> do_simple_is_item_at v v (fst (do_get_property ''width'' s))"
  using assms by (auto simp: do_set_property_def size_changed_def new_svg_item_def do_get_property_def
      do_simple_is_item_at_def Let_def)

section \<open>The window of the last packets\<close>

text \<open>
  The registry of types: numbers with their parents, if they have one.  The loop climbs until it meets a header,
  a trailer or a type without a parent.
\<close>

partial_function (option) is_packet_part :: "nat \<Rightarrow> nat \<Rightarrow> (nat \<Rightarrow> nat option) \<Rightarrow> nat \<Rightarrow> bool option" where
  "is_packet_part header trailer parent t =
     (if t = header \<or> t = trailer then Some True
      else (case parent t of None \<Rightarrow> Some False | Some p \<Rightarrow> is_packet_part header trailer parent p))"

record type_config =
  type_name :: string
  selected :: bool
  typeid :: nat

primrec packet_filter_list ::
  "nat \<Rightarrow> nat \<Rightarrow> (nat \<Rightarrow> nat option) \<Rightarrow> (nat \<Rightarrow> string) \<Rightarrow> nat list \<Rightarrow> type_config list option" where
  "packet_filter_list header trailer parent name_of [] = Some []"
| "packet_filter_list header trailer parent name_of (t # ts) =
     Option.bind (is_packet_part header trailer parent t) (\<lambda>good.
       if \<not> good \<or> t \<in> {header, trailer} then packet_filter_list header trailer parent name_of ts
       else map_option (Cons \<lparr>type_name = name_of t, selected = True, typeid = t\<rparr>)
              (packet_filter_list header trailer parent name_of ts))"

datatype capture_mode = FilterHeadersAnd | FilterHeadersOr

record capture_options =
  capture_mode :: capture_mode
  num_last_packets :: nat
  capture_headers :: "nat list"

record packets_window =
  filters :: "type_config list"
  and_active :: bool

text \<open>What the simulator is told for a node; it copies the options.\<close>

type_synonym captures = "nat \<Rightarrow> capture_options option"

definition update_capture_options :: "nat \<Rightarrow> packets_window \<Rightarrow> captures \<Rightarrow> captures" where
  "update_capture_options node w sim =
     sim(node \<mapsto> \<lparr>capture_mode = (if and_active w then FilterHeadersAnd else FilterHeadersOr), num_last_packets = 100,
                 capture_headers = List.map typeid (filter selected (filters w))\<rparr>)"

definition sel_all_cb :: "nat \<Rightarrow> packets_window \<times> captures \<Rightarrow> packets_window \<times> captures" where
  "sel_all_cb node s =
     (let w = (fst s)\<lparr>filters := List.map (\<lambda>c. c\<lparr>selected := True\<rparr>) (filters (fst s))\<rparr>
      in (w, update_capture_options node w (snd s)))"

definition sel_none_cb :: "nat \<Rightarrow> packets_window \<times> captures \<Rightarrow> packets_window \<times> captures" where
  "sel_none_cb node s =
     (let w = (fst s)\<lparr>filters := List.map (\<lambda>c. c\<lparr>selected := False\<rparr>) (filters (fst s))\<rparr>
      in (w, update_capture_options node w (snd s)))"

text \<open>The list widget changes the row before it emits the signal; a radio button emits one only when it changes.\<close>

definition cell_edited :: "nat \<Rightarrow> nat \<Rightarrow> bool \<Rightarrow> packets_window \<times> captures \<Rightarrow> packets_window \<times> captures" where
  "cell_edited node i b s =
     (let w = (fst s)\<lparr>filters := (if i < length (filters (fst s)) then (filters (fst s))[i := (filters (fst s) ! i)\<lparr>selected := b\<rparr>]
                                 else filters (fst s))\<rparr>
      in (w, update_capture_options node w (snd s)))"

definition and_toggled :: "nat \<Rightarrow> bool \<Rightarrow> packets_window \<times> captures \<Rightarrow> packets_window \<times> captures" where
  "and_toggled node b s =
     (if and_active (fst s) = b then s
      else (let w = (fst s)\<lparr>and_active := b\<rparr> in (w, update_capture_options node w (snd s))))"

datatype filter_event = SelAll | SelNone | Edited nat bool | AndToggled bool

definition filter_step :: "nat \<Rightarrow> filter_event \<Rightarrow> packets_window \<times> captures \<Rightarrow> packets_window \<times> captures" where
  "filter_step node e =
     (case e of SelAll \<Rightarrow> sel_all_cb node | SelNone \<Rightarrow> sel_none_cb node | Edited i b \<Rightarrow> cell_edited node i b
      | AndToggled b \<Rightarrow> and_toggled node b)"

definition show_last_packets ::
  "nat \<Rightarrow> nat \<Rightarrow> (nat \<Rightarrow> nat option) \<Rightarrow> (nat \<Rightarrow> string) \<Rightarrow> nat list \<Rightarrow> nat \<Rightarrow> captures \<Rightarrow> (packets_window \<times> captures) option" where
  "show_last_packets header trailer parent name_of registered node sim =
     map_option (\<lambda>fs. let w = \<lparr>filters = fs, and_active = False\<rparr> in (w, update_capture_options node w sim))
       (packet_filter_list header trailer parent name_of registered)"

text \<open>The rows of one of the three lists: time, interface, size and contents.\<close>

record sample =
  sample_device :: "nat option"
  sample_time :: string
  sample_size :: string
  sample_packet :: string

definition interface_name :: "(nat \<Rightarrow> string) \<Rightarrow> nat \<Rightarrow> nat \<Rightarrow> string" where
  "interface_name find_name d i =
     (let name = find_name d in if name = [] then ''(interface '' @ str_nat i @ '')'' else name)"

definition packet_rows :: "(nat \<Rightarrow> string) \<Rightarrow> (nat \<Rightarrow> nat) \<Rightarrow> sample list \<Rightarrow> (string \<times> string \<times> string \<times> string) list" where
  "packet_rows find_name if_index packets =
     List.map (\<lambda>p. (sample_time p,
                    (case sample_device p of None \<Rightarrow> ''(unknown)'' | Some d \<Rightarrow> interface_name find_name d (if_index d)),
                    sample_size p, sample_packet p)) packets"

text \<open>The climb ends in a registry without cycles, and tells the types below a header or a trailer.\<close>

lemma is_packet_part_iff:
  assumes "wf {(p, t). parent t = Some p}"
  shows "is_packet_part header trailer parent t
    = Some (\<exists>a \<in> {header, trailer}. (\<lambda>t p. parent t = Some p)\<^sup>*\<^sup>* t a)"
  using assms
proof (induction t rule: wf_induct_rule)
  case (less t)
  show ?case
  proof (cases "t = header \<or> t = trailer")
    case True
    then show ?thesis
      by (subst is_packet_part.simps) auto
  next
    case False
    have climb: "(\<lambda>t p. parent t = Some p)\<^sup>*\<^sup>* t a \<longleftrightarrow> t = a \<or> (\<exists>p. parent t = Some p \<and> (\<lambda>t p. parent t = Some p)\<^sup>*\<^sup>* p a)" for a
      by (auto elim: converse_rtranclpE intro: converse_rtranclp_into_rtranclp)
    show ?thesis
    proof (cases "parent t")
      case None
      with False show ?thesis
        by (subst is_packet_part.simps) (auto simp: climb)
    next
      case (Some p)
      with less have "is_packet_part header trailer parent p
          = Some (\<exists>a \<in> {header, trailer}. (\<lambda>t p. parent t = Some p)\<^sup>*\<^sup>* p a)"
        by simp
      with False Some show ?thesis
        by (subst is_packet_part.simps) (auto simp: climb [of header] climb [of trailer])
    qed
  qed
qed

lemma packet_filter_list_eq:
  assumes "\<And>t. is_packet_part header trailer parent t = Some (good t)"
  shows "packet_filter_list header trailer parent name_of ts = Some
    (List.map (\<lambda>t. \<lparr>type_name = name_of t, selected = True, typeid = t\<rparr>)
       (filter (\<lambda>t. good t \<and> t \<noteq> header \<and> t \<noteq> trailer) ts))"
  by (induction ts) (simp_all add: assms)

definition in_sync :: "nat \<Rightarrow> nat list \<Rightarrow> packets_window \<times> captures \<Rightarrow> bool" where
  "in_sync node types s \<longleftrightarrow> List.map typeid (filters (fst s)) = types
     \<and> snd s node = Some \<lparr>capture_mode = (if and_active (fst s) then FilterHeadersAnd else FilterHeadersOr),
                            num_last_packets = 100, capture_headers = List.map typeid (filter selected (filters (fst s)))\<rparr>"

lemma filter_step_in_sync:
  assumes "in_sync node types s"
  shows "in_sync node types (filter_step node e s)" "node' \<noteq> node \<Longrightarrow> snd (filter_step node e s) node' = snd s node'"
  using assms
  by (auto simp: filter_step_def sel_all_cb_def sel_none_cb_def cell_edited_def and_toggled_def update_capture_options_def
      in_sync_def Let_def comp_def map_update list_update_same_conv split: filter_event.split)

text \<open>C38. In a registry without cycles the window opens, it offers the types below a header or a trailer, and after
  any clicks the simulator captures for this node what the window shows, and for the others what it did before.\<close>
theorem captures_follow_window:
  assumes "wf {(p, t). parent t = Some p}"
  shows "\<exists>s. show_last_packets header trailer parent name_of registered node sim = Some s
    \<and> (let s' = fold (filter_step node) es s
       in List.map typeid (filters (fst s')) =
            [t \<leftarrow> registered. t \<notin> {header, trailer} \<and> (\<exists>a \<in> {header, trailer}. (\<lambda>t p. parent t = Some p)\<^sup>*\<^sup>* t a)]
          \<and> snd s' = sim(node \<mapsto> \<lparr>capture_mode = (if and_active (fst s') then FilterHeadersAnd else FilterHeadersOr),
                 num_last_packets = 100, capture_headers = List.map typeid (filter selected (filters (fst s')))\<rparr>))"
proof -
  let ?types = "[t \<leftarrow> registered. t \<notin> {header, trailer} \<and> (\<exists>a \<in> {header, trailer}. (\<lambda>t p. parent t = Some p)\<^sup>*\<^sup>* t a)]"
  obtain s where s: "show_last_packets header trailer parent name_of registered node sim = Some s"
    "in_sync node ?types s" "\<And>n. n \<noteq> node \<Longrightarrow> snd s n = sim n"
    by (simp add: show_last_packets_def Let_def packet_filter_list_eq [OF is_packet_part_iff [OF assms]] in_sync_def
        update_capture_options_def comp_def conj_commute conj_left_commute)
  have "in_sync node ?types (fold (filter_step node) es s) \<and> (\<forall>n. n \<noteq> node \<longrightarrow> snd (fold (filter_step node) es s) n = snd s n)"
    using s(2)
  proof (induction es arbitrary: s)
    case (Cons e es)
    from Cons.IH [OF filter_step_in_sync(1) [OF Cons.prems]] filter_step_in_sync(2) [OF Cons.prems]
    show ?case
      by simp
  qed simp
  with s(1,3) show ?thesis
    by (intro exI [of _ s]) (auto simp: Let_def in_sync_def fun_eq_iff)
qed

lemma captures_follow_window_witness:
  "\<exists>s. show_last_packets 5 6 (\<lambda>t. if t = 8 then Some 5 else if t = 9 then Some 0 else None) (\<lambda>t. str_nat t) [0, 5, 6, 8, 9] 7 (\<lambda>_. None)
     = Some s \<and> List.map typeid (filters (fst (fold (filter_step 7) [SelNone, Edited 0 True, AndToggled True] s))) = [8]"
proof -
  let ?parent = "\<lambda>t. if t = 8 then Some 5 else if t = 9 then Some 0 else None :: nat option"
  have "wf {(p, t). ?parent t = Some p}"
    by (rule wf_subset [OF wf_less_than]) (auto split: if_splits)
  note wf = this
  have part: "(\<exists>a \<in> {5, 6}. (\<lambda>t p. ?parent t = Some p)\<^sup>*\<^sup>* t a) \<longleftrightarrow> is_packet_part 5 6 ?parent t = Some True" for t
    by (simp add: is_packet_part_iff [OF wf])
  have "is_packet_part 5 6 ?parent 0 = Some False" "is_packet_part 5 6 ?parent 5 = Some True"
    by (simp_all add: is_packet_part.simps)
  then have types: "[t \<leftarrow> [0, 5, 6, 8, 9]. t \<notin> {5, 6} \<and> (\<exists>a \<in> {5, 6}. (\<lambda>t p. ?parent t = Some p)\<^sup>*\<^sup>* t a)] = [8]"
    unfolding part by (simp add: is_packet_part.simps [of 5 6 _ 8] is_packet_part.simps [of 5 6 _ 9])
  obtain s where s: "show_last_packets 5 6 ?parent (\<lambda>t. str_nat t) [0, 5, 6, 8, 9] 7 (\<lambda>_. None) = Some s
    \<and> (let s' = fold (filter_step 7) [SelNone, Edited 0 True, AndToggled True] s
       in List.map typeid (filters (fst s')) =
            [t \<leftarrow> [0, 5, 6, 8, 9]. t \<notin> {5, 6} \<and> (\<exists>a \<in> {5, 6}. (\<lambda>t p. ?parent t = Some p)\<^sup>*\<^sup>* t a)]
          \<and> snd s' = (\<lambda>_. None)(7 \<mapsto> \<lparr>capture_mode = (if and_active (fst s') then FilterHeadersAnd else FilterHeadersOr),
                 num_last_packets = 100, capture_headers = List.map typeid (filter selected (filters (fst s')))\<rparr>))"
    using captures_follow_window [OF wf, of 5 6 "\<lambda>t. str_nat t" "[0, 5, 6, 8, 9]" 7 "\<lambda>_. None"
        "[SelNone, Edited 0 True, AndToggled True]"] ..
  show ?thesis
    by (rule exI, rule conjI [OF s [THEN conjunct1] s [THEN conjunct2, unfolded Let_def types, THEN conjunct1]])
qed

section \<open>The routing tables\<close>

record route =
  route_dest :: string
  route_gateway :: string
  route_interface :: nat

text \<open>The protocol of a node; \<open>isinstance\<close> tells the cases apart.\<close>

datatype routing =
    StaticRouting "route list"
  | GlobalRouting "route list"
  | ListRouting "(routing \<times> int) list"
  | OtherRouting

definition listed_protocol :: "routing \<times> int \<Rightarrow> (route list \<times> string \<times> int) list" where
  "listed_protocol rp =
     (case fst rp of StaticRouting rs \<Rightarrow> [(rs, ''static'', snd rp)] | GlobalRouting rs \<Rightarrow> [(rs, ''global'', snd rp)]
      | _ \<Rightarrow> [])"

definition routing_protocols :: "routing \<Rightarrow> (route list \<times> string \<times> int) list" where
  "routing_protocols r =
     (case r of StaticRouting rs \<Rightarrow> [(rs, ''static'', 0)] | ListRouting rps \<Rightarrow> concat (List.map listed_protocol rps) | _ \<Rightarrow> [])"

definition route_interface_name :: "(nat \<Rightarrow> nat option) \<Rightarrow> (nat \<Rightarrow> string) \<Rightarrow> nat \<Rightarrow> string" where
  "route_interface_name net_device find_name i =
     (case net_device i of None \<Rightarrow> ''lo'' | Some d \<Rightarrow> interface_name find_name d i)"

type_synonym route_row = "string \<times> string \<times> string \<times> string \<times> int"

definition route_rows ::
  "(nat \<Rightarrow> nat option) \<Rightarrow> (nat \<Rightarrow> string) \<Rightarrow> (route list \<times> string \<times> int) list \<Rightarrow> route_row list" where
  "route_rows net_device find_name protocols =
     concat (List.map (\<lambda>(routes, type_string, prio).
       List.map (\<lambda>r. (route_dest r, route_gateway r, route_interface_name net_device find_name (route_interface r),
                      type_string, prio)) routes) protocols)"

text \<open>The rows after an update, from those before.\<close>

definition update_routing_table ::
  "(nat \<Rightarrow> nat option) \<Rightarrow> (nat \<Rightarrow> string) \<Rightarrow> routing option \<Rightarrow> route_row list \<Rightarrow> route_row list" where
  "update_routing_table net_device find_name routing rows =
     (case routing of
        None \<Rightarrow> rows
      | Some r \<Rightarrow>
          (let protocols = routing_protocols r
           in if protocols = [] then rows else route_rows net_device find_name protocols))"

record olsr_entry =
  dest_addr :: string
  next_addr :: string
  olsr_interface :: nat
  distance :: int

definition update_olsr_table ::
  "(nat \<Rightarrow> nat option) \<Rightarrow> (nat \<Rightarrow> string) \<Rightarrow> olsr_entry list option
    \<Rightarrow> (string \<times> string \<times> string \<times> int) list \<Rightarrow> (string \<times> string \<times> string \<times> int) list" where
  "update_olsr_table net_device find_name entries rows =
     (case entries of
        None \<Rightarrow> rows
      | Some es \<Rightarrow>
          List.map (\<lambda>e. (dest_addr e, next_addr e, route_interface_name net_device find_name (olsr_interface e), distance e)) es)"

text \<open>The routes that a table should show: those of static and global protocols, one level deep, with their priority.\<close>

inductive offers :: "routing \<Rightarrow> route \<Rightarrow> string \<Rightarrow> int \<Rightarrow> bool" where
  offers_static: "r \<in> set rs \<Longrightarrow> offers (StaticRouting rs) r ''static'' 0"
| offers_listed_static: "(StaticRouting rs, p) \<in> set rps \<Longrightarrow> r \<in> set rs \<Longrightarrow> offers (ListRouting rps) r ''static'' p"
| offers_listed_global: "(GlobalRouting rs, p) \<in> set rps \<Longrightarrow> r \<in> set rs \<Longrightarrow> offers (ListRouting rps) r ''global'' p"

inductive_simps offers_simps: "offers (StaticRouting rs) r t p" "offers (GlobalRouting rs) r t p" "offers (ListRouting rps) r t p"
  "offers OtherRouting r t p"

lemma listed_protocol_iff:
  "(rs, t, p) \<in> set (listed_protocol rp) \<longleftrightarrow>
     rp = (StaticRouting rs, p) \<and> t = ''static'' \<or> rp = (GlobalRouting rs, p) \<and> t = ''global''"
  by (cases rp; cases "fst rp") (auto simp: listed_protocol_def)

lemma routing_protocols_offers:
  "(\<exists>rs. (rs, t, p) \<in> set (routing_protocols g) \<and> r \<in> set rs) \<longleftrightarrow> offers g r t p"
  by (cases g) (auto simp: routing_protocols_def listed_protocol_iff offers_simps)

text \<open>The rows are those of the offered routes; but a node that no longer offers any keeps the rows it had.\<close>

lemma routing_table_rows:
  assumes "routing_protocols g \<noteq> []"
  shows "set (update_routing_table nd fn (Some g) rows)
    = {(route_dest r, route_gateway r, route_interface_name nd fn (route_interface r), t, p) | r t p. offers g r t p}"
  using assms unfolding update_routing_table_def route_rows_def
  by (auto simp: Let_def image_iff simp flip: routing_protocols_offers; blast)

lemma stale_routing_table: "update_routing_table nd fn (Some (ListRouting [])) rows = rows"
  "update_routing_table nd fn (Some (GlobalRouting rs)) rows = rows"
  by (simp_all add: update_routing_table_def routing_protocols_def)

end
