(* ===== verification/VizNode.thy ===== *)
theory VizNode
  imports VizPanels
begin

text \<open>
  How a node of the visualizer looks (class \<open>Node\<close> of \<open>src/visualizer/visualizer/core.py\<close>): its circle, its
  label and its picture, kept in step with its state; and the arrows of dropped packets.
  The library's parsing of colour names and the bounds of the canvas are not part of it.
\<close>

unbundle bit_operations_syntax

section \<open>The appearance of a node\<close>

record node_label =
  label_string :: string
  label_at :: "real \<times> real"

record node_shape =
  is_selected :: bool
  is_highlighted :: bool
  color :: int
  node_size :: real
  label_of :: "string option"
  picture :: "svg_item option"
  picture_align :: "real \<times> real"
  center :: "real \<times> real"
  radius :: real
  fill_color :: int
  outline_width :: real
  stroke_color :: string
  label_item :: "node_label option"

definition distance_to_canvas :: "real \<Rightarrow> real" where
  "distance_to_canvas d = d * px_per_meter"

definition update_svg_position :: "real \<Rightarrow> real \<Rightarrow> node_shape \<Rightarrow> node_shape" where
  "update_svg_position x y s =
     (case picture s of
        None \<Rightarrow> s
      | Some p \<Rightarrow>
          (let w = item_width p; h = item_height p;
               p = fst (do_set_property ''x'' (x - (1 - fst (picture_align s)) * w) p);
               p = fst (do_set_property ''y'' (y - (1 - snd (picture_align s)) * h) p)
           in s\<lparr>picture := Some p\<rparr>))"

definition move_node :: "real \<Rightarrow> real \<Rightarrow> node_shape \<Rightarrow> node_shape" where
  "move_node x y s =
     (let s = s\<lparr>center := (x, y)\<rparr>;
          s = (if picture s \<noteq> None then update_svg_position x y s else s)
      in s\<lparr>label_item := map_option (\<lambda>l. l\<lparr>label_at := (x, y + node_size s * 3)\<rparr>) (label_item s)\<rparr>)"

definition fill_color_of :: "int \<Rightarrow> bool \<Rightarrow> int" where
  "fill_color_of c with_picture = (c AND 0xffffff00) OR (if with_picture then 0x80 else 0xff)"

definition update_appearance :: "node_shape \<Rightarrow> node_shape" where
  "update_appearance s =
     (let size' = distance_to_canvas (node_size s);
          s = s\<lparr>radius := size', fill_color := fill_color_of (color s) (picture s \<noteq> None)\<rparr>;
          s = s\<lparr>outline_width := (if is_selected s then size' * 0.3 else size' * 0.15),
                stroke_color := (if is_highlighted s then ''yellow'' else ''black'')\<rparr>
      in case label_of s of
           None \<Rightarrow> s
         | Some t \<Rightarrow>
             (let l = (case label_item s of None \<Rightarrow> \<lparr>label_string = [], label_at = (0, 0)\<rparr> | Some l \<Rightarrow> l);
                  s = s\<lparr>label_item := Some (l\<lparr>label_string := t\<rparr>)\<rparr>
              in move_node (fst (center s)) (snd (center s)) s))"

definition new_shape :: node_shape where
  "new_shape = update_appearance
     \<lparr>is_selected = False, is_highlighted = False, color = 0x808080ff, node_size = 1, label_of = None, picture = None,
      picture_align = (0, 0), center = (0, 0), radius = 0, fill_color = 0, outline_width = 0, stroke_color = [],
      label_item = None\<rparr>"

definition set_node_selected :: "bool \<Rightarrow> node_shape \<Rightarrow> node_shape" where
  "set_node_selected b s = update_appearance (s\<lparr>is_selected := b\<rparr>)"

definition set_node_highlighted :: "bool \<Rightarrow> node_shape \<Rightarrow> node_shape" where
  "set_node_highlighted b s = update_appearance (s\<lparr>is_highlighted := b\<rparr>)"

definition set_node_size :: "real \<Rightarrow> node_shape \<Rightarrow> node_shape" where
  "set_node_size d s = update_appearance (s\<lparr>node_size := d\<rparr>)"

definition set_node_color :: "int \<Rightarrow> node_shape \<Rightarrow> node_shape" where
  "set_node_color c s = update_appearance (s\<lparr>color := c\<rparr>)"

definition set_node_label :: "string \<Rightarrow> node_shape \<Rightarrow> node_shape" where
  "set_node_label t s = update_appearance (s\<lparr>label_of := Some t\<rparr>)"

text \<open>The picture has the size \<open>hs\<close>, which is positive; a width and a height are given in meters.\<close>

definition set_svg_icon ::
  "int \<times> int \<Rightarrow> real option \<Rightarrow> real option \<Rightarrow> real \<times> real \<Rightarrow> node_shape \<Rightarrow> node_shape py_result" where
  "set_svg_icon hs width height align s =
     (if width = None \<and> height = None then Inl ValueError
      else
        (let x = fst (center s); y = snd (center s);
             p = new_svg_item x y hs;
             p = (case width of None \<Rightarrow> p | Some w \<Rightarrow> fst (do_set_property ''width'' (distance_to_canvas w) p));
             p = (case height of None \<Rightarrow> p | Some h \<Rightarrow> fst (do_set_property ''height'' (distance_to_canvas h) p));
             s = s\<lparr>picture := Some p, picture_align := align\<rparr>
         in Inr (update_appearance (update_svg_position x y s))))"

datatype node_op =
    Select bool | Highlight bool | Resize real | Recolor int | Name string
  | Icon "int \<times> int" "real option" "real option" "real \<times> real" | Move real real

definition node_op :: "node_op \<Rightarrow> node_shape \<Rightarrow> node_shape py_result" where
  "node_op e s =
     (case e of Select b \<Rightarrow> Inr (set_node_selected b s) | Highlight b \<Rightarrow> Inr (set_node_highlighted b s)
      | Resize d \<Rightarrow> Inr (set_node_size d s) | Recolor c \<Rightarrow> Inr (set_node_color c s) | Name t \<Rightarrow> Inr (set_node_label t s)
      | Icon hs w h al \<Rightarrow> set_svg_icon hs w h al s | Move x y \<Rightarrow> Inr (move_node x y s))"

section \<open>The appearance follows the state\<close>

text \<open>The picture is aligned to the centre of the node.\<close>

definition picture_at :: "svg_item option \<Rightarrow> real \<times> real \<Rightarrow> real \<times> real \<Rightarrow> bool" where
  "picture_at pic al c \<longleftrightarrow>
     (case pic of None \<Rightarrow> True
      | Some p \<Rightarrow> pos_x p = fst c - (1 - fst al) * item_width p \<and> pos_y p = snd c - (1 - snd al) * item_height p)"

definition looks_right :: "node_shape \<Rightarrow> bool" where
  "looks_right s \<longleftrightarrow>
     radius s = node_size s * 3 \<and> fill_color s = fill_color_of (color s) (picture s \<noteq> None)
     \<and> outline_width s = (if is_selected s then radius s * 0.3 else radius s * 0.15)
     \<and> stroke_color s = (if is_highlighted s then ''yellow'' else ''black'')
     \<and> label_item s = map_option (\<lambda>t. \<lparr>label_string = t, label_at = (fst (center s), snd (center s) + node_size s * 3)\<rparr>) (label_of s)
     \<and> picture_at (picture s) (picture_align s) (center s)"

abbreviation picture_right :: "node_shape \<Rightarrow> bool" where
  "picture_right s \<equiv> picture_at (picture s) (picture_align s) (center s)"

lemma svg_position_right:
  "center s = (x, y) \<Longrightarrow> picture_right (update_svg_position x y s)"
  by (auto simp: picture_at_def update_svg_position_def do_set_property_def Let_def split: option.splits)

lemma update_svg_position_rest [simp]:
  "center (update_svg_position x y s) = center s" "label_of (update_svg_position x y s) = label_of s"
  "label_item (update_svg_position x y s) = label_item s" "node_size (update_svg_position x y s) = node_size s"
  "color (update_svg_position x y s) = color s" "is_selected (update_svg_position x y s) = is_selected s"
  "is_highlighted (update_svg_position x y s) = is_highlighted s" "radius (update_svg_position x y s) = radius s"
  "fill_color (update_svg_position x y s) = fill_color s" "outline_width (update_svg_position x y s) = outline_width s"
  "stroke_color (update_svg_position x y s) = stroke_color s" "picture (update_svg_position x y s) = None \<longleftrightarrow> picture s = None"
  "(\<exists>p. picture (update_svg_position x y s) = Some p) \<longleftrightarrow> (\<exists>p. picture s = Some p)"
  by (simp_all add: update_svg_position_def Let_def split: option.split)

lemma move_node_picture: "picture_right (move_node x y s)"
  using svg_position_right [of "s\<lparr>center := (x, y)\<rparr>" x y]
  by (simp add: move_node_def Let_def) (simp add: picture_at_def)

lemma update_appearance_right:
  assumes "picture_right s" "label_of s = None \<Longrightarrow> label_item s = None"
  shows "looks_right (update_appearance s)"
proof (cases "label_of s")
  case None
  with assms show ?thesis
    by (simp add: update_appearance_def looks_right_def distance_to_canvas_def px_per_meter_def Let_def)
next
  case (Some t)
  define s' where "s' = s\<lparr>radius := distance_to_canvas (node_size s), fill_color := fill_color_of (color s) (picture s \<noteq> None),
    outline_width := (if is_selected s then distance_to_canvas (node_size s) * 0.3 else distance_to_canvas (node_size s) * 0.15),
    stroke_color := (if is_highlighted s then ''yellow'' else ''black''),
    label_item := Some ((case label_item s of None \<Rightarrow> \<lparr>label_string = [], label_at = (0, 0)\<rparr> | Some l \<Rightarrow> l)\<lparr>label_string := t\<rparr>)\<rparr>"
  have moved: "update_appearance s = move_node (fst (center s)) (snd (center s)) s'"
    by (simp add: update_appearance_def Let_def Some s'_def)
  show ?thesis
    unfolding moved looks_right_def
    by (intro conjI move_node_picture)
      (simp_all add: move_node_def Let_def s'_def Some distance_to_canvas_def px_per_meter_def)
qed

lemma looks_right_parts:
  assumes "looks_right s"
  shows "picture_right s" "label_of s = None \<Longrightarrow> label_item s = None"
  using assms by (simp_all add: looks_right_def)

lemma move_node_right:
  assumes "looks_right s"
  shows "looks_right (move_node x y s)"
  using assms unfolding looks_right_def
  by (intro conjI move_node_picture) (simp_all add: move_node_def Let_def option.map_comp comp_def)

lemma set_svg_icon_right:
  assumes "looks_right s" "set_svg_icon hs w h al s = Inr t"
  shows "looks_right t"
proof -
  obtain p where t: "t = update_appearance (update_svg_position (fst (center s)) (snd (center s)) (s\<lparr>picture := Some p, picture_align := al\<rparr>))"
    using assms(2) by (auto simp: set_svg_icon_def Let_def split: if_splits)
  have "picture_right (update_svg_position (fst (center s)) (snd (center s)) (s\<lparr>picture := Some p, picture_align := al\<rparr>))"
    by (rule svg_position_right) simp
  then show ?thesis
    unfolding t using looks_right_parts(2) [OF assms(1)] by (intro update_appearance_right) simp_all
qed


section \<open>Dropped packets\<close>

record drop =
  drop_transmitter :: nat
  drop_bytes :: nat

text \<open>An arrow with its label.\<close>

record drop_arrow =
  drop_id :: nat
  drop_shown :: bool
  thickness :: real
  drop_from :: "real \<times> real"
  drop_to :: "real \<times> real"
  drop_font :: int
  drop_rate :: real

definition drop_step :: "drop \<Rightarrow> (nat, nat \<times> nat) dict \<Rightarrow> (nat, nat \<times> nat) dict" where
  "drop_step d avg =
     (let (bytes, cnt) = dget_default avg (drop_transmitter d) (0, 0)
      in dset (drop_transmitter d) (bytes + drop_bytes d, cnt + 1) avg)"

definition drops_average :: "drop list list \<Rightarrow> (nat, nat \<times> nat) dict" where
  "drops_average ds = fold drop_step (concat ds) []"

text \<open>The new arrows, the old ones that are left, and the number of the next one to be made.\<close>

type_synonym drop_pool = "drop_arrow list \<times> drop_arrow list \<times> nat"

definition show_drop ::
  "(nat \<Rightarrow> real \<times> real) \<Rightarrow> real \<Rightarrow> real \<Rightarrow> real \<Rightarrow> drop_pool \<Rightarrow> nat \<times> nat \<times> nat \<Rightarrow> drop_pool py_result" where
  "show_drop pos edge_y k period st kv =
     (let (new, old, next_id) = st; (t, bytes, cnt) = kv;
          (a, old, next_id) =
            (if old = [] then (\<lparr>drop_id = next_id, drop_shown = True, thickness = 2, drop_from = (0, 0), drop_to = (0, 0),
                               drop_font = 0, drop_rate = 0\<rparr>, [], next_id + 1)
             else (last old, butlast old, next_id))
      in if period = 0 then Inl ZeroDivisionError
         else if real bytes / real cnt / period \<le> 0 then Inl ValueError
         else Inr (new @ [a\<lparr>drop_shown := True, thickness := max 0.1 (ln (real bytes / real cnt / period) * k),
                            drop_from := pos t, drop_to := (fst (pos t), edge_y), drop_font := py_int (1 + 10 * k),
                            drop_rate := real (bytes * 8) / 1000 / real cnt / period\<rparr>], old, next_id))"

definition update_drops_view ::
  "(nat \<Rightarrow> real \<times> real) \<Rightarrow> real \<Rightarrow> real \<Rightarrow> real \<Rightarrow> drop list list \<Rightarrow> drop_arrow list \<times> nat \<Rightarrow> (drop_arrow list \<times> nat) py_result" where
  "update_drops_view pos edge_y node_size_value period last_drops s =
     (let old = List.map (\<lambda>a. a\<lparr>drop_shown := False\<rparr>) (fst s); k = node_size_value / 5
      in rbind (foldM (show_drop pos edge_y k period) ([], old, snd s) (drops_average last_drops)) (\<lambda>(new, old, next_id).
           Inr (new @ old, next_id)))"

section \<open>The drops that are shown\<close>

definition drops_of :: "drop list \<Rightarrow> nat \<Rightarrow> drop list" where
  "drops_of ds t = [d \<leftarrow> ds. drop_transmitter d = t]"

lemma drop_step_get:
  "dget (drop_step d avg) t =
     (if t = drop_transmitter d
      then Some (fst (dget_default avg t (0, 0)) + drop_bytes d, snd (dget_default avg t (0, 0)) + 1) else dget avg t)"
  by (simp add: drop_step_def Let_def split_beta dict_simps)

lemma drops_average_wf: "dict_wf (fold drop_step ds [])"
  by (induction ds rule: rev_induct) (simp_all add: drop_step_def Let_def split_beta)

lemma drops_average_get:
  "dget (fold drop_step ds []) t =
     (if drops_of ds t = [] then None
      else Some (sum_list (List.map drop_bytes (drops_of ds t)), length (drops_of ds t)))"
proof (induction ds rule: rev_induct)
  case (snoc d ds)
  have "fold drop_step (ds @ [d]) [] = drop_step d (fold drop_step ds [])"
    by simp
  then show ?case
    using snoc by (simp only: drop_step_get dget_default_def) (simp add: drops_of_def)
qed (simp add: drops_of_def)

text \<open>The arrow of a transmitter: from its place to the edge, with the mean rate of its remembered drops.\<close>

definition drop_arrow_of ::
  "(nat \<Rightarrow> real \<times> real) \<Rightarrow> real \<Rightarrow> real \<Rightarrow> nat \<times> nat \<times> nat \<Rightarrow> (real \<times> real) \<times> (real \<times> real) \<times> real" where
  "drop_arrow_of pos edge_y period kv =
     (case kv of (t, bytes, cnt) \<Rightarrow> (pos t, (fst (pos t), edge_y), real (bytes * 8) / 1000 / real cnt / period))"

lemma show_drops:
  assumes "0 < period" "list_all (\<lambda>(t, b, c). 0 < b \<and> 0 < c) kvs" "list_all (\<lambda>a. \<not> drop_shown a) old"
  shows "\<exists>as old' n'. foldM (show_drop pos edge_y k period) (new, old, n) kvs = Inr (new @ as, old', n') \<and>
    list_all drop_shown as \<and> List.map (\<lambda>a. (drop_from a, drop_to a, drop_rate a)) as = List.map (drop_arrow_of pos edge_y period) kvs \<and>
    list_all (\<lambda>a. \<not> drop_shown a) old' \<and> length old' = length old - length kvs \<and> n' = n + (length kvs - length old)"
  using assms(2,3)
proof (induction kvs arbitrary: new old n)
  case (Cons kv kvs)
  obtain t b c where kv: "kv = (t, b, c)"
    by (cases kv)
  have "0 < real b / real c / period"
    using Cons.prems(1) assms(1) by (simp add: kv)
  then obtain a where a: "show_drop pos edge_y k period (new, old, n) kv = Inr (new @ [a], butlast old, n + (if old = [] then 1 else 0))"
    "drop_shown a" "(drop_from a, drop_to a, drop_rate a) = drop_arrow_of pos edge_y period kv"
    using assms(1) by (cases "old = []") (simp_all add: show_drop_def kv Let_def drop_arrow_of_def)
  have rest: "list_all (\<lambda>a. \<not> drop_shown a) (butlast old)"
    using Cons.prems(2) by (auto simp: list_all_iff dest: in_set_butlastD)
  have "list_all (\<lambda>(t, b, c). 0 < b \<and> 0 < c) kvs"
    using Cons.prems(1) by simp
  from Cons.IH [OF this rest, of "new @ [a]" "n + (if old = [] then 1 else 0)"] obtain as old' n' where IH: "foldM (show_drop pos edge_y k period) (new @ [a], butlast old, n + (if old = [] then 1 else 0)) kvs
      = Inr ((new @ [a]) @ as, old', n')" "list_all drop_shown as"
    "List.map (\<lambda>a. (drop_from a, drop_to a, drop_rate a)) as = List.map (drop_arrow_of pos edge_y period) kvs"
    "list_all (\<lambda>a. \<not> drop_shown a) old'" "length old' = length (butlast old) - length kvs"
    "n' = n + (if old = [] then 1 else 0) + (length kvs - length (butlast old))"
    by (elim exE conjE)
  show ?case
    using a IH by (intro exI [of _ "a # as"] exI [of _ old'] exI [of _ n'])
      (cases old; simp add: Suc_diff_le)
qed simp

text \<open>When every remembered drop has bytes, the view shows one arrow for each transmitter that has dropped packets, in the
  order of their first drops, from its place to the edge of the window, with the mean rate of its drops; it shows no
  other, and reuses the arrows it has before it makes new ones.\<close>
theorem drops_shown:
  assumes "0 < period" "\<forall>d \<in> set (concat last_drops). 0 < drop_bytes d"
  shows "\<exists>arrows' n'. update_drops_view pos edge_y node_size_value period last_drops (arrows, n) = Inr (arrows', n')
    \<and> List.map (\<lambda>a. (drop_from a, drop_to a, drop_rate a)) (filter drop_shown arrows')
      = List.map (\<lambda>t. (pos t, (fst (pos t), edge_y),
          real (sum_list (List.map drop_bytes (drops_of (concat last_drops) t)) * 8) / 1000
            / real (length (drops_of (concat last_drops) t)) / period))
          (dkeys (drops_average last_drops))
    \<and> (\<forall>t. t \<in> set (dkeys (drops_average last_drops)) \<longleftrightarrow> drops_of (concat last_drops) t \<noteq> [])
    \<and> length arrows' = max (length arrows) (length (dkeys (drops_average last_drops)))
    \<and> n' = n + (length arrows' - length arrows)"
proof -
  let ?ds = "concat last_drops" and ?avg = "drops_average last_drops"
  let ?old = "List.map (\<lambda>a. a\<lparr>drop_shown := False\<rparr>) arrows"
  have wf: "dict_wf ?avg"
    by (simp add: drops_average_def drops_average_wf)
  have entry: "b = sum_list (List.map drop_bytes (drops_of ?ds t)) \<and> c = length (drops_of ?ds t) \<and> drops_of ?ds t \<noteq> []"
    if "(t, b, c) \<in> set ?avg" for t b c
  proof -
    have "dget ?avg t = Some (b, c)"
      using that wf by simp
    then show ?thesis
      by (simp add: drops_average_def drops_average_get split: if_splits)
  qed
  have pos: "0 < sum_list (List.map drop_bytes (drops_of ?ds t))" if some: "drops_of ?ds t \<noteq> []" for t
  proof -
    obtain d ds where "drops_of ?ds t = d # ds"
      using some by (cases "drops_of ?ds t") auto
    then have "d \<in> set (drops_of ?ds t)" "sum_list (List.map drop_bytes (drops_of ?ds t)) = drop_bytes d + sum_list (List.map drop_bytes ds)"
      by simp_all
    moreover from this(1) have "d \<in> set ?ds"
      unfolding drops_of_def by (rule filter_is_subset [THEN subsetD])
    ultimately show ?thesis
      using assms(2) by (metis add_gr_0)
  qed
  have all: "list_all (\<lambda>(t, b, c). 0 < b \<and> 0 < c) ?avg"
    using entry pos by (fastforce simp: list_all_iff)
  have "list_all (\<lambda>a. \<not> drop_shown a) ?old"
    by (simp add: list_all_iff)
  from show_drops [OF assms(1) all this, of pos edge_y "node_size_value / 5" "[]" n] obtain as old' n' where
    r: "foldM (show_drop pos edge_y (node_size_value / 5) period) ([], ?old, n) ?avg = Inr (as, old', n')" "list_all drop_shown as"
    "List.map (\<lambda>a. (drop_from a, drop_to a, drop_rate a)) as = List.map (drop_arrow_of pos edge_y period) ?avg"
    "list_all (\<lambda>a. \<not> drop_shown a) old'" "length old' = length arrows - length ?avg" "n' = n + (length ?avg - length arrows)"
    by (elim exE conjE) simp
  have u: "update_drops_view pos edge_y node_size_value period last_drops (arrows, n) = Inr (as @ old', n')"
    using r(1) by (simp add: update_drops_view_def Let_def)
  have f: "filter drop_shown (as @ old') = as"
    using r(2,4) by (simp add: list_all_iff filter_eq_self filter_empty_conv)
  have len: "length as = length ?avg"
    using r(3) by (metis length_map)
  have rows: "List.map (drop_arrow_of pos edge_y period) ?avg = List.map (\<lambda>t. (pos t, (fst (pos t), edge_y),
      real (sum_list (List.map drop_bytes (drops_of ?ds t)) * 8) / 1000 / real (length (drops_of ?ds t)) / period)) (dkeys ?avg)"
    using entry by (auto simp: drop_arrow_of_def)
  have keys: "t \<in> set (dkeys ?avg) \<longleftrightarrow> drops_of ?ds t \<noteq> []" for t
    unfolding mem_dkeys by (simp add: drops_average_def drops_average_get)
  have sizes: "length (as @ old') = max (length arrows) (length (dkeys ?avg))" "n' = n + (length (as @ old') - length arrows)"
    using len r(5,6) by auto
  show ?thesis
    by (intro exI conjI) (rule u, simp only: f r(3) rows, simp only: keys simp_thms, rule sizes(1), rule sizes(2))
qed

lemma drops_shown_witness:
  "\<exists>arrows' n'. update_drops_view (\<lambda>t. (real t, 0)) 9 1 1
       [[\<lparr>drop_transmitter = 4, drop_bytes = 100\<rparr>], [\<lparr>drop_transmitter = 4, drop_bytes = 300\<rparr>]] ([], 0) = Inr (arrows', n')
     \<and> length arrows' = 1 \<and> n' = 1"
proof -
  let ?d = "[[\<lparr>drop_transmitter = 4, drop_bytes = 100\<rparr>], [\<lparr>drop_transmitter = 4, drop_bytes = 300\<rparr>]]"
  have "dkeys (drops_average ?d) = [4]"
    by code_simp
  moreover have p: "(0 :: real) < 1" "\<forall>d \<in> set (concat ?d). 0 < drop_bytes d"
    by simp_all
  moreover from drops_shown [OF p, of "\<lambda>t. (real t, 0)" 9 1 "[]" 0]
  obtain arrows' n' where "update_drops_view (\<lambda>t. (real t, 0)) 9 1 1 ?d ([], 0) = Inr (arrows', n')"
    "length arrows' = max (length ([] :: drop_arrow list)) (length (dkeys (drops_average ?d)))"
    "n' = 0 + (length arrows' - length ([] :: drop_arrow list))"
    by (elim exE conjE)
  ultimately show ?thesis
    by (intro exI conjI) simp_all
qed

end
