(* ===== verification/TestSuites.thy ===== *)
theory TestSuites
  imports PyString Complex_Main
begin

text \<open>
  The suites that try the tools (\<open>utils/tests\<close>): the runner of \<open>TestBase.py\<close>, and the command lines of
  \<open>test-waf.py\<close> and \<open>test-test.py\<close>.  The shell that runs a command line, the interpreter
  and the directories are arguments.
\<close>

section \<open>The runner\<close>

record suite_options =
  out_file :: string
  list_cmds :: bool
  mute :: bool
  custom_cmds :: "string option"

text \<open>
  What is printed, and what goes to the file of results: the header of a case, then what the command
  writes, with its standard output or without.
\<close>

datatype suite_print =
    CommandsToRun "string list"
  | RunningCase string
  | Progress nat nat rat
  | FailedCases "string list"
  | AllPassed
  | DetailsIn string

datatype suite_log = CaseHeader string | OutputOf string bool

record suite_run =
  final_return :: int
  passed :: nat
  progress :: nat
  failed_cases :: "string list"
  printed :: "suite_print list"
  written :: "suite_log list"

definition case_string :: "string \<Rightarrow> string \<Rightarrow> string" where
  "case_string executable cmd = replace_str cmd executable []"

text \<open>One turn of the loop; \<open>call\<close> gives the status of a command line.\<close>

definition run_case :: "string \<Rightarrow> (string \<Rightarrow> int) \<Rightarrow> suite_options \<Rightarrow> nat \<Rightarrow> string \<Rightarrow> suite_run \<Rightarrow> suite_run" where
  "run_case executable call opts total_tests cmd r =
     (let name = case_string executable cmd;
          r = r\<lparr>printed := printed r @ [RunningCase name], written := written r @ [CaseHeader name]\<rparr>;
          r = r\<lparr>progress := progress r + 1, written := written r @ [OutputOf cmd (\<not> mute opts)]\<rparr>;
          ret = call cmd;
          r = (if ret = 0 then r\<lparr>passed := passed r + 1\<rparr>
               else r\<lparr>final_return := 1, failed_cases := failed_cases r @ [name]\<rparr>)
      in r\<lparr>printed := printed r @ [Progress (passed r) total_tests (of_nat (progress r) * 100 / of_nat total_tests)]\<rparr>)"

text \<open>The value that is returned, \<open>None\<close> when the commands are only listed, with the output.\<close>

definition runtests ::
  "string \<Rightarrow> (string \<Rightarrow> int) \<Rightarrow> suite_options \<Rightarrow> string list \<Rightarrow> int option \<times> suite_print list \<times> suite_log list" where
  "runtests executable call opts cmds =
     (if list_cmds opts then (None, [CommandsToRun (List.map (case_string executable) cmds)], [])
      else
        (let r = fold (run_case executable call opts (length cmds)) cmds
               \<lparr>final_return = 0, passed = 0, progress = 0, failed_cases = [], printed = [], written = []\<rparr>;
             r = r\<lparr>printed := printed r @ [if final_return r \<noteq> 0 then FailedCases (failed_cases r) else AllPassed]\<rparr>;
             r = r\<lparr>printed := printed r @ [DetailsIn (out_file opts)]\<rparr>
         in (Some (final_return r), printed r, written r)))"

text \<open>\<open>sys.exit\<close> ends with status zero for \<open>None\<close>.\<close>

definition exit_status :: "int option \<Rightarrow> int" where
  "exit_status r = (case r of None \<Rightarrow> 0 | Some n \<Rightarrow> n)"

text \<open>
  The directory of work: the entries of the current directory that exist, its last name and that of its
  parent.  The result is the directory to change to, if any, or the status of the exit.
\<close>

definition set_workdir :: "(string \<times> bool) list \<Rightarrow> string \<Rightarrow> string \<Rightarrow> int + string option" where
  "set_workdir entries here parent =
     (let dir_files = List.map fst (filter snd entries)
      in if \<not> List.member dir_files ''VERSION'' \<and> \<not> List.member dir_files ''waf''
         then (if here = ''tests'' \<and> parent = ''utils'' then Inr (Some ''../../'') else Inl 1)
         else Inr None)"

section \<open>The command lines of the build tool\<close>

definition replace_cmds :: "string option \<Rightarrow> string option \<Rightarrow> string list \<Rightarrow> string list" where
  "replace_cmds pre post main_cmd_list =
     (let pre = (case pre of Some (c # s) \<Rightarrow> (c # s) @ '' && '' | _ \<Rightarrow> []);
          post = (case post of Some (c # s) \<Rightarrow> '' && '' @ (c # s) | _ \<Rightarrow> [])
      in List.map (\<lambda>main_cmd. pre @ main_cmd @ post) main_cmd_list)"

definition config_test_cases :: "string list" where
  "config_test_cases =
    [''--enable-gcov'', ''--enable-sudo'', ''--enable-sudo'', ''--enable-tests'', ''--disable-tests'',
     ''--enable-examples'', ''--disable-examples'', ''--doxygen-no-build'', ''--enable-static'', ''--enable-mpi'',
     ''--enable-rpath'', ''--enable-modules=build/utils/test-runner.cc.1.o'', ''--boost-static'', ''--boost-mt'',
     ''--boost-linkage_autodetect'', ''--boost-python=33'', ''--disable-gtk'', ''--int64x64=cairo'',
     ''--disable-pthread'', ''--force-planetlab'', ''--nopyc'', ''--nopyo'', ''--disable-python'', ''--apiscan=all'',
     ''--with-python=/usr/bin/python2.7'', ''-o test_out && rm -rf test_out'', ''--out=test_out && rm -rf test_out'',
     ''-t test_top && rm -rf test_top'', ''--top=test_top && rm -rf test_top'', ''--download'',
     ''--check-c-compiler=gc'', ''--check-cxx-compiler=g++'']"

definition basic_test_cases :: "string list" where
  "basic_test_cases =
    [''--version'', ''-h'', ''--help'']"

definition build_test_cases :: "string list" where
  "build_test_cases =
    [''-j10'', ''--jobs=10'', ''-d optimized'', ''-d debug'', ''-d release'', ''--build-profile optimized'',
     ''--build-profile debug'', ''--build-profile release'', ''-p'', ''--progress'']"

definition step_test_cases :: "string list" where
  "step_test_cases =
    [''--files='' @ [CHR 0x22] @ ''*/main.c,*/test/main.o'' @ [CHR 0x22]]"

definition install_test_cases :: "string list" where
  "install_test_cases =
    [''-f'', ''--force'', ''--prefix=./test-prefix && rm -rf ./test-prefix'', ''--exec-prefix=.'',
     ''--bindir=./test-prefix/bin --sbindir=./test-prefix/sbin --libexecdir=./test-prefix/libexec --sysconfdir=./test-prefix/etc --sharedstatedir=./test-prefix/com --localstatedir=./test-prefix/var --libdir=./test-prefix/lib --includedir=./test-prefix/include --oldincludedir=./test-prefix/usr/include --datarootdir=./test-prefix/share --datadir=./test-prefix/share_root --infodir=./test-prefix/info --localedir=./test-prefix/locale --mandir=./test-prefix/man --docdir=./test-prefix/doc/package --htmldir=./test-prefix/doc --dvidir=./test-prefix/doc --pdfdir=./test-prefix/doc --psdir=./test-prefix/doc && rm -rf ./test-prefix'']"

definition common_test_cases :: "string list" where
  "common_test_cases =
    [[], ''-k'', ''--keep'', ''-v'', ''--verbose'', ''--nocache'', ''--zones=task_gen'', ''--zones=deps'',
     ''--zones=tasks'', ''--no-task-lines'']"

definition test_case_mappings :: "string \<rightharpoonup> string list" where
  "test_case_mappings =
     [''basic'' \<mapsto> basic_test_cases, ''configure'' \<mapsto> config_test_cases, ''build'' \<mapsto> build_test_cases,
      ''step'' \<mapsto> step_test_cases, ''install'' \<mapsto> install_test_cases]"

definition with_options :: "string \<Rightarrow> string \<Rightarrow> string list \<Rightarrow> string list" where
  "with_options waf cmd options = List.map (\<lambda>option. waf @ '' '' @ cmd @ '' '' @ option) options"

text \<open>The command lines for one command of the build tool; \<open>waf\<close> is the text that starts it.\<close>

definition waf_cmd_list :: "string \<Rightarrow> string \<Rightarrow> string list" where
  "waf_cmd_list waf cmd =
     (let cmd_list = (if cmd = ''basic'' then [] else with_options waf cmd common_test_cases);
          cmd_list = cmd_list @ (case test_case_mappings cmd of None \<Rightarrow> [] | Some os \<Rightarrow> with_options waf cmd os);
          cmd_list = (if cmd = ''basic''
             then cmd_list @ [waf @ '' configure && '' @ waf @ '' build && '' @ waf @ '' --run scratch/myfirst'',
                              waf @ '' configure && '' @ waf @ '' build && '' @ waf @ '' --pyrun scratch/myfirst.py'']
             else cmd_list)
      in if cmd = ''build'' then
           replace_cmds (Some (waf @ '' configure'')) (Some (waf @ '' clean'')) cmd_list
             @ [waf @ '' configure --enable-gcov && '' @ waf @ '' build --lcov-report && '' @ waf @ '' clean'']
         else if cmd = ''configure'' then replace_cmds None (Some (waf @ '' distclean'')) cmd_list
         else if cmd = ''distcheck'' then replace_cmds (Some (waf @ '' dist'')) (Some ''rm -rf ns-3*.tar.bz2'') cmd_list
         else if cmd = ''docs'' then replace_cmds (Some (waf @ '' configure'')) (Some (waf @ '' distclean'')) cmd_list
         else if cmd = ''install'' then replace_cmds (Some (waf @ '' configure'')) (Some (waf @ '' uninstall'')) cmd_list
         else if cmd = ''list'' then replace_cmds (Some (waf @ '' configure'')) (Some (waf @ '' distclean'')) cmd_list
         else if cmd = ''shell'' then replace_cmds (Some (waf @ '' configure'')) (Some (waf @ '' distclean'')) cmd_list
         else if cmd = ''step'' then replace_cmds (Some (waf @ '' configure'')) (Some (waf @ '' distclean'')) cmd_list
         else if cmd = ''uninstall'' then replace_cmds (Some (waf @ '' install'')) None cmd_list
         else cmd_list)"

definition waf_suite_cmds :: "suite_options \<Rightarrow> string list" where
  "waf_suite_cmds opts =
     (case custom_cmds opts of
        Some (c # s) \<Rightarrow> str_split CHR '','' (c # s)
      | _ \<Rightarrow> [''basic'', ''build'', ''configure'', ''step'', ''clean'', ''dist'', ''list''])"

definition waf_main ::
  "string \<Rightarrow> (string \<Rightarrow> int) \<Rightarrow> suite_options \<Rightarrow> int option \<times> suite_print list \<times> suite_log list" where
  "waf_main executable call opts =
     runtests executable call opts (concat (List.map (waf_cmd_list (executable @ '' waf'')) (waf_suite_cmds opts)))"

section \<open>The command lines of the test driver\<close>

definition driver_test_cases :: "string list" where
  "driver_test_cases =
    [[], ''-h'', ''--help'', ''-b build/'', ''--buildpath=build/'', ''-c performance'', ''--constrain=performance'',
     ''-d'', ''--duration'', ''-e socket-options-ipv6'', ''--example=socket-options-ipv6'', ''-u'', ''--update-data'',
     ''-f EXTENSIVE --fullness=EXTENSIVE-g'', ''--grind'', ''-l'', ''--list'', ''-m'', ''--multiple'', ''-n'',
     ''--nowaf'', ''-p first'', ''--pyexample=first'', ''-r'', ''--retain'', ''-s ns3-tcp-interoperability'',
     ''--suite=ns3-tcp-interoperability'', ''-t t_opt.txt'', ''--text=t_opt.txt && rm -rf t_opt.txt'', ''-v'',
     ''--verbose'', ''-w t_opt.html && rm -rf t_opt.html'', ''--web=t_opt.html && rm -rf t_opt.html'',
     ''--html=t_opt.html && rm -rf t_opt.html'', ''-x t_opt.xml && rm -rf t_opt.xml'',
     ''--xml=t_opt.xml && rm -rf t_opt.xml'']"

definition driver_main ::
  "string \<Rightarrow> (string \<Rightarrow> int) \<Rightarrow> suite_options \<Rightarrow> int option \<times> suite_print list \<times> suite_log list" where
  "driver_main executable call opts =
     (let configure_string = executable @ '' waf configure --enable-tests --enable-examples'';
          clean_string = executable @ '' waf clean''
      in runtests executable call opts
           (List.map (\<lambda>option. configure_string @ '' && '' @ executable @ '' test.py '' @ option @ '' && '' @ clean_string)
              driver_test_cases))"

section \<open>What a suite reports\<close>

text \<open>What is printed for the case at a position: its name, and how many have passed so far.\<close>

definition case_print :: "string \<Rightarrow> (string \<Rightarrow> int) \<Rightarrow> nat \<Rightarrow> string list \<Rightarrow> nat \<Rightarrow> suite_print list" where
  "case_print executable call n cmds i =
     [RunningCase (case_string executable (cmds ! i)),
      Progress (length [c \<leftarrow> take (Suc i) cmds. call c = 0]) n (of_nat (Suc i) * 100 / of_nat n)]"

lemma case_print_append: "i < length cmds \<Longrightarrow> case_print executable call n (cmds @ cs) i = case_print executable call n cmds i"
  by (simp add: case_print_def nth_append)

lemma run_cases:
  "fold (run_case executable call opts n) cmds
       \<lparr>final_return = 0, passed = 0, progress = 0, failed_cases = [], printed = [], written = []\<rparr>
   = \<lparr>final_return = (if \<forall>c \<in> set cmds. call c = 0 then 0 else 1),
      passed = length [c \<leftarrow> cmds. call c = 0], progress = length cmds,
      failed_cases = List.map (case_string executable) [c \<leftarrow> cmds. call c \<noteq> 0],
      printed = concat (List.map (case_print executable call n cmds) [0 ..< length cmds]),
      written = concat (List.map (\<lambda>c. [CaseHeader (case_string executable c), OutputOf c (\<not> mute opts)]) cmds)\<rparr>"
proof (induction cmds rule: rev_induct)
  case (snoc c cmds)
  have earlier: "List.map (case_print executable call n (cmds @ [c])) [0 ..< length cmds]
      = List.map (case_print executable call n cmds) [0 ..< length cmds]"
    by (intro map_cong refl) (simp add: case_print_append)
  have now: "case_print executable call n (cmds @ [c]) (length cmds)
      = [RunningCase (case_string executable c),
         Progress (length [c \<leftarrow> cmds. call c = 0] + (if call c = 0 then 1 else 0)) n (of_nat (Suc (length cmds)) * 100 / of_nat n)]"
    by (simp add: case_print_def)
  show ?case
    unfolding fold_append comp_def snoc.IH by (auto simp: run_case_def Let_def earlier now)
qed simp

text \<open>A suite that runs ends with status one exactly when some command fails, and reports exactly the failed
  commands in their order, the number of those passed after each command, and every command before its output; one
  that only lists its commands runs none and ends with status zero.\<close>
theorem suite_reports:
  "exit_status (fst (runtests executable call opts cmds))
     = (if \<not> list_cmds opts \<and> (\<exists>c \<in> set cmds. call c \<noteq> 0) then 1 else 0)"
  "snd (runtests executable call opts cmds) =
     (if list_cmds opts then ([CommandsToRun (List.map (case_string executable) cmds)], [])
      else
        (concat (List.map (case_print executable call (length cmds) cmds) [0 ..< length cmds])
           @ [if \<exists>c \<in> set cmds. call c \<noteq> 0 then FailedCases (List.map (case_string executable) [c \<leftarrow> cmds. call c \<noteq> 0])
              else AllPassed, DetailsIn (out_file opts)],
         concat (List.map (\<lambda>c. [CaseHeader (case_string executable c), OutputOf c (\<not> mute opts)]) cmds)))"
  by (auto simp: runtests_def run_cases Let_def exit_status_def)

text \<open>A comma is missing between two options, so the test driver is never tried with \<open>-g\<close>, and the two options for
  the fullness are tried together, with a value that the driver does not know.\<close>

lemma options_joined: "''-g'' \<notin> set driver_test_cases"
  "''-f EXTENSIVE --fullness=EXTENSIVE-g'' \<in> set driver_test_cases"
  by (simp_all add: driver_test_cases_def)

text \<open>Every command line of the suite for \<open>build\<close> configures first and cleans up at the end.\<close>

lemma replaced_cmds:
  "c \<in> set (replace_cmds (Some (p # pre)) (Some (q # post)) cmds) \<longleftrightarrow>
     (\<exists>m \<in> set cmds. c = p # pre @ '' && '' @ m @ '' && '' @ q # post)"
  by (auto simp: replace_cmds_def)

lemma build_cmds_clean:
  assumes "c \<in> set (waf_cmd_list waf ''build'')" "waf \<noteq> []"
  shows "\<exists>m. c = waf @ '' configure'' @ m @ '' && '' @ waf @ '' clean''"
proof -
  obtain w ws where waf: "waf = w # ws"
    using assms(2) by (cases waf) auto
  consider m where "c = waf @ '' configure'' @ '' && '' @ m @ '' && '' @ waf @ '' clean''"
    | "c = waf @ '' configure --enable-gcov && '' @ waf @ '' build --lcov-report && '' @ waf @ '' clean''"
    using assms(1) unfolding waf_cmd_list_def waf by (auto simp: Let_def replaced_cmds)
  then show ?thesis
  proof cases
    case (1 m)
    then show ?thesis
      by (intro exI [of _ "'' && '' @ m"]) simp
  next
    case 2
    then show ?thesis
      by (intro exI [of _ "'' --enable-gcov && '' @ waf @ '' build --lcov-report''"]) simp
  qed
qed

end
