(* ===== verification/RadUnits.thy ===== *)
theory RadUnits
  imports PyString Complex_Main
begin

text \<open>
  \<open>nice_units\<close> of \<open>bindings/python/rad_util.py\<close>: the choice of a prefix for a number.  The file is Python 2,
  where a quotient of two integers is rounded down and \<open>round\<close> rounds a half away from zero.  The
  two directives that print the number are arguments.
\<close>

section \<open>Numbers of Python 2\<close>

datatype num2 = IntNum int | FloatNum rat

primrec rat_of :: "num2 \<Rightarrow> rat" where
  "rat_of (IntNum i) = of_int i"
| "rat_of (FloatNum r) = r"

definition divide2 :: "num2 \<Rightarrow> num2 \<Rightarrow> num2" where
  "divide2 a b =
     (case (a, b) of (IntNum i, IntNum j) \<Rightarrow> IntNum (i div j) | _ \<Rightarrow> FloatNum (rat_of a / rat_of b))"

definition round2 :: "rat \<Rightarrow> nat \<Rightarrow> rat" where
  "round2 x dp =
     (if 0 \<le> x then of_int \<lfloor>x * 10 ^ dp + 1 / 2\<rfloor> / 10 ^ dp else - (of_int \<lfloor>- x * 10 ^ dp + 1 / 2\<rfloor> / 10 ^ dp))"

section \<open>Prefixes\<close>

text \<open>The keys of the dictionaries: floats for the units of SI, integers for the binary ones, and the integer one for no prefix.\<close>

type_synonym prefixes = "(num2 \<times> string \<times> string) list"

definition si_prefixes :: prefixes where
  "si_prefixes =
     [(FloatNum (10 ^ 24), ''Y'', ''yotta''), (FloatNum (10 ^ 21), ''Z'', ''zetta''), (FloatNum (10 ^ 18), ''E'', ''exa''),
      (FloatNum (10 ^ 15), ''P'', ''peta''), (FloatNum (10 ^ 12), ''T'', ''tera''), (FloatNum (10 ^ 9), ''G'', ''giga''),
      (FloatNum (10 ^ 6), ''M'', ''mega''), (FloatNum (10 ^ 3), ''k'', ''kilo''), (FloatNum (1 / 10 ^ 3), ''m'', ''milli''),
      (FloatNum (1 / 10 ^ 6), ''u'', ''micro''), (FloatNum (1 / 10 ^ 9), ''n'', ''nano''), (FloatNum (1 / 10 ^ 12), ''p'', ''pico''),
      (FloatNum (1 / 10 ^ 15), ''f'', ''femto''), (FloatNum (1 / 10 ^ 18), ''a'', ''atto''),
      (FloatNum (1 / 10 ^ 21), ''z'', ''zepto''), (FloatNum (1 / 10 ^ 24), ''y'', ''yocto'')]"

definition extra_prefixes :: prefixes where
  "extra_prefixes =
     [(FloatNum (10 ^ 2), ''h'', ''hecto''), (FloatNum 10, ''da'', ''deka''), (FloatNum (1 / 10), ''d'', ''deci''),
      (FloatNum (1 / 10 ^ 2), ''c'', ''centi'')]"

definition bin_prefixes :: prefixes where
  "bin_prefixes =
     [(IntNum (2 ^ 10), ''K'', ''kilo''), (IntNum (2 ^ 20), ''M'', ''mega''), (IntNum (2 ^ 30), ''G'', ''mega''),
      (IntNum (2 ^ 40), ''T'', ''tera''), (IntNum (2 ^ 50), ''P'', ''peta''), (IntNum (2 ^ 60), ''E'', ''exa'')]"

definition prefixes_for :: "bool \<Rightarrow> string \<Rightarrow> prefixes" where
  "prefixes_for use_extra_prefixes mode =
     (let si = (if use_extra_prefixes then si_prefixes @ extra_prefixes else si_prefixes)
      in (if mode = ''bin'' then bin_prefixes else si) @ [(IntNum 1, [], [])])"

section \<open>The choice\<close>

text \<open>The position of the multiplier; a value that no test accepts would leave it unbound.\<close>

definition multiplier_index :: "num2 list \<Rightarrow> rat \<Rightarrow> nat py_result" where
  "multiplier_index multipliers quantity =
     (let loop = List.find (\<lambda>i. rat_of (multipliers ! i) \<le> quantity \<and> quantity < rat_of (multipliers ! (i + 1))) [0 ..< length multipliers - 1]
      in if quantity < rat_of (hd multipliers) then Inr 0
         else if quantity \<ge> rat_of (last multipliers) then Inr (length multipliers - 1)
         else (case loop of Some i \<Rightarrow> Inr i | None \<Rightarrow> Inl UnboundLocalError))"

text \<open>The number that is printed and the position of its multiplier.\<close>

definition scaled :: "num2 list \<Rightarrow> num2 \<Rightarrow> nat \<Rightarrow> bool \<Rightarrow> (num2 \<times> nat) py_result" where
  "scaled multipliers v dp with_sigfigs =
     rbind (multiplier_index multipliers (rat_of v)) (\<lambda>mult_i.
       let mult = multipliers ! mult_i;
           new_value = divide2 v mult
       in if \<not> with_sigfigs \<and> mult_i < length multipliers - 1
             \<and> round2 (rat_of new_value) dp = round2 (rat_of (divide2 (multipliers ! (mult_i + 1)) mult)) dp
          then Inr (divide2 v (multipliers ! (mult_i + 1)), mult_i + 1)
          else Inr (new_value, mult_i))"

definition multipliers_of :: "prefixes \<Rightarrow> num2 list" where
  "multipliers_of ps = sort_key rat_of (List.map fst ps)"

definition nice_units ::
  "(nat \<Rightarrow> num2 \<Rightarrow> string) \<Rightarrow> (nat \<Rightarrow> num2 \<Rightarrow> string) \<Rightarrow> num2 \<Rightarrow> nat \<Rightarrow> nat option \<Rightarrow> string \<Rightarrow> string \<Rightarrow> bool \<Rightarrow> bool \<Rightarrow> string
    \<Rightarrow> string py_result" where
  "nice_units fixed general v dp sigfigs suffix_text space use_extra_prefixes use_full_name mode =
     (let prefixes = prefixes_for use_extra_prefixes mode;
          multipliers = multipliers_of prefixes
      in rbind (scaled multipliers v dp (sigfigs \<noteq> None)) (\<lambda>(new_value, mult_i).
           case map_of prefixes (multipliers ! mult_i) of
             None \<Rightarrow> Inl KeyError
           | Some names \<Rightarrow>
               (let label = (if use_full_name then snd names else fst names);
                    str_value = (case sigfigs of None \<Rightarrow> fixed dp new_value | Some n \<Rightarrow> general n new_value)
                in Inr (str_value @ space @ label @ suffix_text))))"

section \<open>What is printed\<close>

lemma round2_mono: "0 \<le> x \<Longrightarrow> x \<le> y \<Longrightarrow> round2 x dp \<le> round2 y dp"
  by (simp add: round2_def divide_right_mono floor_mono)

lemma round2_int: "round2 (of_nat n) dp = of_nat n"
proof -
  have "(of_nat n :: rat) * 10 ^ dp + 1 / 2 = of_int (int (n * 10 ^ dp)) + 1 / 2"
    by simp
  then have "\<lfloor>(of_nat n :: rat) * 10 ^ dp + 1 / 2\<rfloor> = int (n * 10 ^ dp)"
    by (simp only: floor_eq_iff) simp
  then show ?thesis
    by (simp add: round2_def)
qed

text \<open>A number that rounds up to the factor between two prefixes is divided by it; it then rounds to one.\<close>

lemma round2_carry:
  assumes "0 < k" "0 \<le> x" "x < of_nat k" "round2 x dp = of_nat k"
  shows "round2 (x / of_nat k) dp = 1"
proof -
  let ?t = "(10::rat) ^ dp"
  have t: "1 \<le> ?t"
    by simp
  have k: "1 \<le> (of_nat k :: rat)"
    using assms(1) by simp
  have "of_int \<lfloor>x * ?t + 1 / 2\<rfloor> = of_nat k * ?t"
    using assms(2,4) by (simp add: round2_def field_simps)
  then have "of_nat k * ?t \<le> x * ?t + 1 / 2"
    by (metis of_int_floor_le)
  then have "of_nat k * ?t / of_nat k \<le> (x * ?t + 1 / 2) / of_nat k"
    using k by (intro divide_right_mono) simp_all
  then have "?t \<le> x / of_nat k * ?t + 1 / 2 / of_nat k"
    using k by (simp add: add_divide_distrib)
  moreover have "1 / 2 / of_nat k \<le> (1 / 2 :: rat)"
    using k by (simp add: field_simps)
  ultimately have low: "?t \<le> x / of_nat k * ?t + 1 / 2"
    by linarith
  have "x / of_nat k < 1"
    using assms(3) k by (simp add: divide_less_eq)
  then have "x / of_nat k * ?t < ?t"
    using mult_strict_right_mono [of "x / of_nat k" 1 ?t] by simp
  then have high: "x / of_nat k * ?t + 1 / 2 < ?t + 1"
    by linarith
  have int: "?t = of_int (10 ^ dp)"
    by simp
  have "\<lfloor>x / of_nat k * ?t + 1 / 2\<rfloor> = 10 ^ dp"
    using low high unfolding floor_eq_iff int by simp
  moreover have "0 \<le> x / of_nat k"
    using assms(2) k by simp
  ultimately show ?thesis
    by (simp add: round2_def)
qed

lemma multiplier_index_ok:
  assumes "ms \<noteq> []" "rat_of (hd ms) \<le> q"
  obtains i where "multiplier_index ms q = Inr i" "i < length ms" "rat_of (ms ! i) \<le> q"
    "i = length ms - 1 \<or> q < rat_of (ms ! (i + 1))"
proof (cases "rat_of (last ms) \<le> q")
  case True
  with assms show thesis
    by (intro that [of "length ms - 1"]) (simp_all add: multiplier_index_def last_conv_nth)
next
  case False
  let ?P = "\<lambda>i. rat_of (ms ! i) \<le> q \<and> q < rat_of (ms ! (i + 1))"
  show thesis
  proof (cases "List.find ?P [0 ..< length ms - 1]")
    case None
    then have none: "\<not> ?P i" if "i < length ms - 1" for i
      using that by (auto simp: find_None_iff)
    have "rat_of (ms ! i) \<le> q" if "i < length ms" for i
      using that none by (induction i) (use assms in \<open>auto simp: hd_conv_nth not_less\<close>)
    from this [of "length ms - 1"] False assms(1) show thesis
      by (simp add: last_conv_nth)
  next
    case (Some i)
    then have "i < length ms - 1" "?P i"
      by (auto simp: find_Some_iff)
    with Some False assms show thesis
      by (intro that [of i]) (simp_all add: multiplier_index_def)
  qed
qed

definition si_multipliers :: "num2 list" where
  "si_multipliers =
     [FloatNum (1 / 10 ^ 24), FloatNum (1 / 10 ^ 21), FloatNum (1 / 10 ^ 18), FloatNum (1 / 10 ^ 15), FloatNum (1 / 10 ^ 12),
      FloatNum (1 / 10 ^ 9), FloatNum (1 / 10 ^ 6), FloatNum (1 / 10 ^ 3), IntNum 1, FloatNum (10 ^ 3), FloatNum (10 ^ 6),
      FloatNum (10 ^ 9), FloatNum (10 ^ 12), FloatNum (10 ^ 15), FloatNum (10 ^ 18), FloatNum (10 ^ 21), FloatNum (10 ^ 24)]"

lemma multipliers_of_si:
  assumes "mode \<noteq> ''bin''"
  shows "multipliers_of (prefixes_for False mode) = si_multipliers"
  using assms by (simp add: multipliers_of_def prefixes_for_def si_prefixes_def si_multipliers_def sort_key_def)

lemma si_factor:
  assumes "i < 16"
  shows "rat_of (si_multipliers ! Suc i) = 1000 * rat_of (si_multipliers ! i)" "0 < rat_of (si_multipliers ! i)"
    "rat_of (divide2 (si_multipliers ! Suc i) (si_multipliers ! i)) = 1000"
proof -
  have "\<forall>i \<in> set [0 ..< 16]. rat_of (si_multipliers ! Suc i) = 1000 * rat_of (si_multipliers ! i) \<and> 0 < rat_of (si_multipliers ! i)
      \<and> rat_of (divide2 (si_multipliers ! Suc i) (si_multipliers ! i)) = 1000"
    by (simp add: si_multipliers_def upt_rec divide2_def)
  with assms show "rat_of (si_multipliers ! Suc i) = 1000 * rat_of (si_multipliers ! i)" "0 < rat_of (si_multipliers ! i)"
    "rat_of (divide2 (si_multipliers ! Suc i) (si_multipliers ! i)) = 1000"
    by auto
qed

lemma divide2_si:
  assumes "m \<in> set si_multipliers"
  shows "rat_of (divide2 v m) = rat_of v / rat_of m"
  using assms by (cases v) (auto simp: si_multipliers_def divide2_def)

lemma si_names:
  assumes "mode \<noteq> ''bin''" "i < 17"
  shows "map_of (prefixes_for False mode) (si_multipliers ! i) \<noteq> None"
proof -
  have "\<forall>i \<in> set [0 ..< 17]. map_of (prefixes_for False mode) (si_multipliers ! i) \<noteq> None"
    using assms(1) by (simp add: si_multipliers_def prefixes_for_def si_prefixes_def upt_rec)
  with assms(2) show ?thesis
    by auto
qed

lemma length_si: "length si_multipliers = 17"
  by (simp add: si_multipliers_def)

lemma scaled_si:
  assumes "1 / 10 ^ 24 \<le> rat_of v"
  shows "\<exists>x i. scaled si_multipliers v dp False = Inr (x, i) \<and> i < 17 \<and> rat_of x * rat_of (si_multipliers ! i) = rat_of v
    \<and> 1 \<le> round2 (rat_of x) dp \<and> (i < 16 \<longrightarrow> round2 (rat_of x) dp < 1000)"
proof -
  have "si_multipliers \<noteq> []" "rat_of (hd si_multipliers) \<le> rat_of v"
    using assms by (simp_all add: si_multipliers_def)
  then obtain i where i: "multiplier_index si_multipliers (rat_of v) = Inr i" "i < 17" "rat_of (si_multipliers ! i) \<le> rat_of v"
    "i = 16 \<or> rat_of v < rat_of (si_multipliers ! (i + 1))"
    by (rule multiplier_index_ok) (auto simp: length_si)
  define m x where "m = si_multipliers ! i" and "x = divide2 v m"
  have m: "0 < rat_of m"
  proof (cases "i < 16")
    case True
    then show ?thesis
      using si_factor(2) by (simp add: m_def)
  next
    case False
    with i(2) have "i = 16"
      by simp
    then show ?thesis
      by (simp add: m_def si_multipliers_def)
  qed
  have x: "rat_of x = rat_of v / rat_of m"
    using i(2) by (simp add: x_def m_def divide2_si length_si)
  with m i(3) have x1: "1 \<le> rat_of x"
    by (simp add: m_def le_divide_eq)
  then have r1: "1 \<le> round2 (rat_of x) dp"
    using round2_mono [of 1 "rat_of x" dp] round2_int [of 1 dp] by simp
  have xm: "rat_of x * rat_of m = rat_of v"
    using m x by simp
  show ?thesis
  proof (cases "i < 16 \<and> round2 (rat_of x) dp = 1000")
    case True
    let ?m = "si_multipliers ! Suc i"
    have s: "scaled si_multipliers v dp False = Inr (divide2 v ?m, Suc i)"
      using True i(1) si_factor(3) [of i] round2_int [of 1000 dp]
      by (simp add: scaled_def Let_def length_si flip: m_def x_def)
    have y: "rat_of (divide2 v ?m) = rat_of x / of_nat 1000"
      using True si_factor(1) [of i] x by (simp add: divide2_si length_si m_def)
    have "rat_of x < 1000"
      using True i(4) si_factor(1) [of i] m x by (simp add: m_def divide_less_eq)
    then have "round2 (rat_of (divide2 v ?m)) dp = 1"
      unfolding y using True x1 by (intro round2_carry) simp_all
    moreover have "rat_of (divide2 v ?m) * rat_of ?m = rat_of v"
      unfolding y using True si_factor(1) [of i] xm by (simp add: m_def)
    ultimately show ?thesis
      using s True by (intro exI [of _ "divide2 v ?m"] exI [of _ "Suc i"]) simp
  next
    case False
    have s: "scaled si_multipliers v dp False = Inr (x, i)"
      using False i(1) si_factor(3) [of i] round2_int [of 1000 dp]
      by (auto simp: scaled_def Let_def length_si simp flip: m_def x_def)
    have "round2 (rat_of x) dp < 1000" if "i < 16"
    proof -
      have "rat_of x < 1000"
        using that i(4) si_factor(1) [of i] m x by (simp add: m_def divide_less_eq)
      then have "round2 (rat_of x) dp \<le> 1000"
        using round2_mono [of "rat_of x" 1000 dp] x1 round2_int [of 1000 dp] by simp
      with False that show ?thesis
        by simp
    qed
    with s i(2) xm r1 show ?thesis
      by (intro exI [of _ x] exI [of _ i]) (simp flip: m_def)
  qed
qed

text \<open>C39. A number that is not below the smallest unit of SI is printed with the prefix for which the printed number is
  at least one and, but for the largest prefix, less than a thousand, also after rounding; the number and the prefix
  together are the value.\<close>
theorem nice_units_si:
  assumes "mode \<noteq> ''bin''" "1 / 10 ^ 24 \<le> rat_of v"
  shows "\<exists>x i names. nice_units fixed general v dp None suffix_text space False full mode
      = Inr (fixed dp x @ space @ (if full then snd names else fst names) @ suffix_text)
    \<and> i < 17 \<and> map_of (prefixes_for False mode) (si_multipliers ! i) = Some names
    \<and> rat_of x * rat_of (si_multipliers ! i) = rat_of v \<and> 1 \<le> round2 (rat_of x) dp
    \<and> (i < 16 \<longrightarrow> round2 (rat_of x) dp < 1000)"
proof -
  obtain x i where s: "scaled si_multipliers v dp False = Inr (x, i) \<and> i < 17 \<and> rat_of x * rat_of (si_multipliers ! i) = rat_of v
    \<and> 1 \<le> round2 (rat_of x) dp \<and> (i < 16 \<longrightarrow> round2 (rat_of x) dp < 1000)"
    using scaled_si [OF assms(2), of dp] by (elim exE)
  then obtain names where "map_of (prefixes_for False mode) (si_multipliers ! i) = Some names"
    using si_names [OF assms(1)] by blast
  with s show ?thesis
    by (intro exI [of _ x] exI [of _ i] exI [of _ names]) (simp add: nice_units_def Let_def multipliers_of_si [OF assms(1)])
qed

lemma nice_units_si_witness:
  "\<exists>x i names. nice_units (\<lambda>_ _. ''n'') (\<lambda>_ _. ''n'') (FloatNum (9996 / 10)) 0 None ''B'' '' '' False True ''si''
      = Inr (''n'' @ '' '' @ (if True then snd names else fst names) @ ''B'')
    \<and> i < 17 \<and> map_of (prefixes_for False ''si'') (si_multipliers ! i) = Some names
    \<and> rat_of x * rat_of (si_multipliers ! i) = rat_of (FloatNum (9996 / 10)) \<and> 1 \<le> round2 (rat_of x) 0
    \<and> (i < 16 \<longrightarrow> round2 (rat_of x) 0 < 1000)"
  by (rule nice_units_si) simp_all

text \<open>Zero and what is below it get the smallest prefix; two of the binary prefixes have the same full name.\<close>

lemma nice_units_zero:
  assumes "rat_of v \<le> 0" "mode \<noteq> ''bin''"
  shows "nice_units fixed general v dp None suffix_text space False False mode
    = Inr (fixed dp (FloatNum (rat_of v * 10 ^ 24)) @ space @ ''y'' @ suffix_text)"
proof -
  have "rat_of v < rat_of (hd si_multipliers)"
    using assms(1) by (simp add: si_multipliers_def le_less_trans)
  then have i: "multiplier_index si_multipliers (rat_of v) = Inr 0"
    by (simp add: multiplier_index_def)
  have m: "si_multipliers ! 0 = FloatNum (1 / 10 ^ 24)"
    by (simp add: si_multipliers_def)
  have d: "divide2 v (FloatNum (1 / 10 ^ 24)) = FloatNum (rat_of v * 10 ^ 24)"
    by (cases v) (simp_all add: divide2_def)
  have "round2 q dp \<le> 0" if "q \<le> 0" for q
  proof (cases "q = 0")
    case True
    then show ?thesis
      using round2_int [of 0 dp] by simp
  next
    case False
    with that have "0 \<le> - q * 10 ^ dp"
      by (simp add: mult_nonpos_nonneg)
    then have "0 \<le> \<lfloor>- q * 10 ^ dp + 1 / 2\<rfloor>"
      by (simp del: mult_minus_left)
    with False that show ?thesis
      by (simp add: round2_def)
  qed
  from this [of "rat_of v * 10 ^ 24"] have "round2 (rat_of v * 10 ^ 24) dp \<noteq> 1000"
    using assms(1) by (simp add: mult_nonpos_nonneg)
  then have "scaled si_multipliers v dp False = Inr (FloatNum (rat_of v * 10 ^ 24), 0)"
    using i d si_factor(3) [of 0] round2_int [of 1000 dp] by (simp add: scaled_def Let_def m)
  moreover have "map_of (prefixes_for False mode) (FloatNum (1 / 10 ^ 24)) = Some (''y'', ''yocto'')"
    using assms(2) by (simp add: prefixes_for_def si_prefixes_def)
  ultimately show ?thesis
    by (simp add: nice_units_def Let_def multipliers_of_si [OF assms(2)] m)
qed

lemma binary_mega: "map_of (prefixes_for False ''bin'') (IntNum (2 ^ 20)) = Some (''M'', ''mega'')"
  "map_of (prefixes_for False ''bin'') (IntNum (2 ^ 30)) = Some (''G'', ''mega'')"
  by (simp_all add: prefixes_for_def bin_prefixes_def)

end
