(* ===== verification/FlowStats.thy ===== *)
theory FlowStats
  imports XmlTree Complex_Main
begin

text \<open>
  The reader of the results of the flow monitor,
  \<open>src/flow-monitor/examples/flowmon-parse-results.py\<close>: numbers and times as Python 2 reads them,
  flows, histograms, probes and the five-tuples of the classifier, the loop over the events of the document
  and the report.  Floating point numbers are exact rationals here; infinities and the
  rounding of printed numbers are left out, so a line of the report holds its numbers.
\<close>

section \<open>Numbers\<close>

definition signed :: "string \<Rightarrow> int \<times> string" where
  "signed s =
     (case s of
        c # cs \<Rightarrow> if c = CHR ''-'' then (-1, cs) else if c = CHR ''+'' then (1, cs) else (1, s)
      | [] \<Rightarrow> (1, []))"

text \<open>\<open>int(s)\<close>, and \<open>long(s)\<close>, which allows a letter L at the end.\<close>

definition parse_int :: "string \<Rightarrow> int py_result" where
  "parse_int s =
     (let (sgn, digits) = signed (strip s)
      in (case whole_number digits of None \<Rightarrow> Inl ValueError | Some n \<Rightarrow> Inr (sgn * n)))"

definition parse_long :: "string \<Rightarrow> int py_result" where
  "parse_long s =
     (let t = rstrip s; u = (if t \<noteq> [] \<and> last t \<in> {CHR ''L'', CHR ''l''} then butlast t else t)
      in if rstrip u = u then parse_int u else Inl ValueError)"

text \<open>\<open>float(s)\<close>: digits with at most one point, at least one digit, and an exponent.\<close>

definition pow10 :: "int \<Rightarrow> rat" where
  "pow10 e = (if e \<ge> 0 then 10 ^ nat e else 1 / 10 ^ nat (- e))"

definition parse_float :: "string \<Rightarrow> rat py_result" where
  "parse_float s =
     (let (sgn, t) = signed (strip s);
          whole = takeWhile is_digit t; t = drop (length whole) t;
          frac = (case t of c # cs \<Rightarrow> if c = CHR ''.'' then takeWhile is_digit cs else [] | [] \<Rightarrow> []);
          t = (case t of c # cs \<Rightarrow> if c = CHR ''.'' then drop (length frac) cs else t | [] \<Rightarrow> []);
          mantissa = of_int (number (whole @ frac)) * pow10 (- int (length frac))
      in if whole @ frac = [] then Inl ValueError
         else (case t of
                 [] \<Rightarrow> Inr (of_int sgn * mantissa)
               | c # cs \<Rightarrow>
                   if c \<in> {CHR ''e'', CHR ''E''}
                   then (let (esgn, digits) = signed cs
                         in (case whole_number digits of
                               None \<Rightarrow> Inl ValueError
                             | Some e \<Rightarrow> Inr (of_int sgn * mantissa * pow10 (esgn * e))))
                   else Inl ValueError))"

text \<open>\<open>el.get(name)\<close> is \<open>None\<close> for an absent attribute, which no conversion and no slice takes.\<close>

definition attr :: "xml \<Rightarrow> string \<Rightarrow> string py_result" where
  "attr el name = (case dget (attrs el) name of None \<Rightarrow> Inl TypeError | Some v \<Rightarrow> Inr v)"

definition attr_int :: "xml \<Rightarrow> string \<Rightarrow> int py_result" where
  "attr_int el name = rbind (attr el name) parse_int"

definition attr_long :: "xml \<Rightarrow> string \<Rightarrow> int py_result" where
  "attr_long el name = rbind (attr el name) parse_long"

definition attr_float :: "xml \<Rightarrow> string \<Rightarrow> rat py_result" where
  "attr_float el name = rbind (attr el name) parse_float"

text \<open>The last four characters are cut off, whatever they are.\<close>

definition cut_unit :: "string \<Rightarrow> string" where
  "cut_unit s = py_slice_to s (-4)"

definition attr_time :: "xml \<Rightarrow> string \<Rightarrow> int py_result" where
  "attr_time el name = rbind (attr el name) (\<lambda>v. parse_long (cut_unit v))"

definition parse_time_ns :: "string \<Rightarrow> int py_result" where
  "parse_time_ns tm = (if endswith tm ''ns'' then parse_long (cut_unit tm) else Inl ValueError)"

section \<open>Flows\<close>

record five_tuple =
  source_address :: "string option"
  destination_address :: "string option"
  protocol :: int
  source_port :: int
  destination_port :: int

record probe_stats =
  probe_id :: int
  packets :: int
  probe_bytes :: int
  delay_from_first :: rat

type_synonym histogram = "(rat \<times> rat \<times> int) list"

text \<open>A slot that is never set is \<open>None\<close> here; reading it raises.\<close>

record flow =
  flow_id :: int
  delay_mean :: "rat option"
  packet_loss_ratio :: "rat option"
  rx_bitrate :: "rat option"
  tx_bitrate :: "rat option"
  tuple_slot :: "five_tuple option"
  packet_size_mean :: "rat option"
  probe_list :: "probe_stats list"
  hop_count :: rat
  interruptions :: "histogram option"
  rx_duration :: rat

definition five_tuple_of :: "xml \<Rightarrow> five_tuple py_result" where
  "five_tuple_of el =
     rbind (attr_int el ''sourcePort'') (\<lambda>sp.
     rbind (attr_int el ''destinationPort'') (\<lambda>dp.
     rbind (attr_int el ''protocol'') (\<lambda>p.
     Inr \<lparr>source_address = dget (attrs el) ''sourceAddress'', destination_address = dget (attrs el) ''destinationAddress'',
          protocol = p, source_port = sp, destination_port = dp\<rparr>)))"

definition histogram_of :: "xml \<Rightarrow> histogram py_result" where
  "histogram_of el =
     map_res (\<lambda>b. rbind (attr_float b ''start'') (\<lambda>s.
                  rbind (attr_float b ''width'') (\<lambda>w.
                  rbind (attr_int b ''count'') (\<lambda>c. Inr (s, w, c))))) (findall ''bin'' el)"

definition nanosecond :: rat where
  "nanosecond = 1 / 10 ^ 9"

definition duration :: "xml \<Rightarrow> string \<Rightarrow> string \<Rightarrow> rat py_result" where
  "duration el last_name first_name =
     rbind (attr_time el last_name) (\<lambda>l.
     rbind (attr_time el first_name) (\<lambda>f. Inr (of_int (l - f) * nanosecond)))"

definition bitrate :: "xml \<Rightarrow> string \<Rightarrow> rat \<Rightarrow> rat option py_result" where
  "bitrate el name d =
     (if d > 0 then rbind (attr_long el name) (\<lambda>b. Inr (Some (of_int (b * 8) / d))) else Inr None)"

text \<open>A division whose divisor is zero raises.\<close>

definition py_divide :: "rat \<Rightarrow> rat \<Rightarrow> rat py_result" where
  "py_divide a b = (if b = 0 then Inl ZeroDivisionError else Inr (a / b))"

definition flow_of :: "xml \<Rightarrow> flow py_result" where
  "flow_of el =
     rbind (attr_int el ''flowId'') (\<lambda>fid.
     rbind (attr_long el ''rxPackets'') (\<lambda>rx.
     rbind (attr_long el ''txPackets'') (\<lambda>tx.
     rbind (duration el ''timeLastTxPacket'' ''timeFirstTxPacket'') (\<lambda>tx_dur.
     rbind (duration el ''timeLastRxPacket'' ''timeFirstRxPacket'') (\<lambda>rx_dur.
     rbind (if rx \<noteq> 0 then rbind (attr_float el ''timesForwarded'') (\<lambda>f. Inr (f / of_int rx + 1)) else Inr (-1000)) (\<lambda>hops.
     rbind (if rx \<noteq> 0
            then rbind (attr el ''delaySum'') (\<lambda>v. rbind (parse_float (cut_unit v)) (\<lambda>d.
                 rbind (attr_float el ''rxBytes'') (\<lambda>b.
                   Inr (Some (d / of_int rx * nanosecond), Some (b / of_int rx)))))
            else Inr (None, None)) (\<lambda>(delay, size).
     rbind (bitrate el ''rxBytes'' rx_dur) (\<lambda>rxb.
     rbind (bitrate el ''txBytes'' tx_dur) (\<lambda>txb.
     rbind (attr_float el ''lostPackets'') (\<lambda>lost.
     rbind (if rx = 0 then Inr None else rbind (py_divide lost (of_int rx + lost)) (\<lambda>r. Inr (Some r))) (\<lambda>ratio.
     rbind (case find_elem ''flowInterruptionsHistogram'' el of
              None \<Rightarrow> Inr None | Some h \<Rightarrow> rbind (histogram_of h) (\<lambda>h. Inr (Some h))) (\<lambda>hist.
     Inr \<lparr>flow_id = fid, delay_mean = delay, packet_loss_ratio = ratio, rx_bitrate = rxb, tx_bitrate = txb,
          tuple_slot = None, packet_size_mean = size, probe_list = [], hop_count = hops, interruptions = hist,
          rx_duration = rx_dur\<rparr>))))))))))))"

section \<open>A simulation\<close>

text \<open>
  The flows in the order of the document, and the map from an id to the place of the flow:
  two flows with one id are two objects, of which the map holds the later.
\<close>

record simulation =
  flows :: "flow list"
  flow_map :: "(int, nat) dict"

definition add_flow :: "simulation \<Rightarrow> xml \<Rightarrow> simulation py_result" where
  "add_flow s el =
     rbind (flow_of el) (\<lambda>f. Inr (s\<lparr>flow_map := dset (flow_id f) (length (flows s)) (flow_map s), flows := flows s @ [f]\<rparr>))"

definition update_flow :: "int \<Rightarrow> (flow \<Rightarrow> flow) \<Rightarrow> simulation \<Rightarrow> simulation py_result" where
  "update_flow fid g s = rbind (dindex (flow_map s) fid) (\<lambda>i. Inr (s\<lparr>flows := (flows s)[i := g (flows s ! i)]\<rparr>))"

text \<open>The right-hand side of the assignment to the slot comes before the search for the flow.\<close>

definition classify_flow :: "simulation \<Rightarrow> xml \<Rightarrow> simulation py_result" where
  "classify_flow s el =
     rbind (attr_int el ''flowId'') (\<lambda>fid.
     rbind (five_tuple_of el) (\<lambda>t. update_flow fid (\<lambda>f. f\<lparr>tuple_slot := Some t\<rparr>) s))"

definition add_probe :: "int \<Rightarrow> simulation \<Rightarrow> xml \<Rightarrow> simulation py_result" where
  "add_probe pid s el =
     rbind (attr_int el ''flowId'') (\<lambda>fid.
     rbind (attr_int el ''packets'') (\<lambda>n.
     rbind (attr_long el ''bytes'') (\<lambda>b.
     rbind (if n > 0
            then (case dget (attrs el) ''delayFromFirstProbeSum'' of
                    None \<Rightarrow> Inl AttributeError
                  | Some tm \<Rightarrow> rbind (parse_time_ns tm) (\<lambda>d. Inr (of_int d / of_int n)))
            else Inr 0) (\<lambda>d.
     update_flow fid (\<lambda>f. f\<lparr>probe_list := probe_list f @ [\<lparr>probe_id = pid, packets = n, probe_bytes = b, delay_from_first = d\<rparr>]\<rparr>) s))))"

definition add_probes :: "simulation \<Rightarrow> xml \<Rightarrow> simulation py_result" where
  "add_probes s el = rbind (attr_int el ''index'') (\<lambda>pid. foldM (add_probe pid) s (findall ''FlowStats'' el))"

text \<open>A path of two names: the grandchildren.\<close>

definition findall2 :: "string \<Rightarrow> string \<Rightarrow> xml \<Rightarrow> xml list" where
  "findall2 a b e = concat (List.map (findall b) (findall a e))"

definition simulation_of :: "xml \<Rightarrow> simulation py_result" where
  "simulation_of el =
     (case findall ''Ipv4FlowClassifier'' el of
        [cls] \<Rightarrow>
          rbind (foldM add_flow \<lparr>flows = [], flow_map = []\<rparr> (findall2 ''FlowStats'' ''Flow'' el)) (\<lambda>s.
          rbind (foldM classify_flow s (findall ''Flow'' cls)) (\<lambda>s.
          foldM add_probes s (findall2 ''FlowProbes'' ''FlowProbe'' el)))
      | _ \<Rightarrow> Inl ValueError)"

section \<open>The main loop and the report\<close>

definition read_event :: "int \<times> simulation list \<Rightarrow> xml_event \<Rightarrow> (int \<times> simulation list) py_result" where
  "read_event st ev =
     (let (level, sims) = st
      in (case ev of
            StartEvent \<Rightarrow> Inr (level + 1, sims)
          | EndEvent el \<Rightarrow>
              (let level = level - 1
               in if level = 0 \<and> tag el = ''FlowMonitor''
                  then rbind (simulation_of el) (\<lambda>s. Inr (level, sims @ [s]))
                  else Inr (level, sims))))"

definition read_document :: "xml \<Rightarrow> simulation list py_result" where
  "read_document doc = rbind (foldM read_event (0, []) (xml_events doc)) (\<lambda>st. Inr (snd st))"

datatype report_line =
    FlowLine int string "string option" int "string option" int
  | TxLine "rat option" | RxLine "rat option" | DelayLine "rat option" | LossLine "rat option"

definition protocol_name :: "int \<Rightarrow> string py_result" where
  "protocol_name p = dindex [(6, ''TCP''), (17, ''UDP'')] p"

text \<open>What is printed stays when a later flow raises: the state is the lines so far.\<close>

definition print_flow :: "flow \<Rightarrow> (report_line list, unit) action" where
  "print_flow f out =
     (case tuple_slot f of
        None \<Rightarrow> (out, Inl AttributeError)
      | Some t \<Rightarrow>
          (case protocol_name (protocol t) of
             Inl e \<Rightarrow> (out, Inl e)
           | Inr proto \<Rightarrow>
               (out @ [FlowLine (flow_id f) proto (source_address t) (source_port t) (destination_address t) (destination_port t),
                       TxLine (map_option (\<lambda>x. x / 1000) (tx_bitrate f)), RxLine (map_option (\<lambda>x. x / 1000) (rx_bitrate f)),
                       DelayLine (map_option (\<lambda>x. x * 1000) (delay_mean f)), LossLine (map_option (\<lambda>x. x * 100) (packet_loss_ratio f))],
                Inr ())))"

fun print_flows :: "flow list \<Rightarrow> (report_line list, unit) action" where
  "print_flows [] = sret ()"
| "print_flows (f # fs) = sbind (print_flow f) (\<lambda>u. print_flows fs)"

definition flowmon_main :: "xml \<Rightarrow> report_line list \<times> unit py_result" where
  "flowmon_main doc =
     (case read_document doc of
        Inl e \<Rightarrow> ([], Inl e)
      | Inr sims \<Rightarrow> print_flows (concat (List.map flows sims)) [])"

section \<open>What the simulator writes\<close>

text \<open>
  A flow, an entry of the classifier and a document as \<open>flow-monitor.cc\<close> and \<open>ipv4-flow-classifier.cc\<close>
  write them, with times in nanoseconds and without histograms and probes.
\<close>

definition time_text :: "int \<Rightarrow> string" where
  "time_text t = (if t < 0 then CHR ''-'' else CHR ''+'') # str_nat (nat \<bar>t\<bar>) @ ''.0ns''"

record flow_numbers =
  num_id :: nat
  first_tx :: int
  first_rx :: int
  last_tx :: int
  last_rx :: int
  delay_sum :: int
  tx_bytes :: nat
  rx_bytes :: nat
  tx_packets :: nat
  rx_packets :: nat
  lost_packets :: nat
  times_forwarded :: nat

definition written_flow :: "flow_numbers \<Rightarrow> xml" where
  "written_flow n =
     Elem ''Flow''
       [(''flowId'', str_nat (num_id n)),
        (''timeFirstTxPacket'', time_text (first_tx n)), (''timeFirstRxPacket'', time_text (first_rx n)),
        (''timeLastTxPacket'', time_text (last_tx n)), (''timeLastRxPacket'', time_text (last_rx n)),
        (''delaySum'', time_text (delay_sum n)),
        (''txBytes'', str_nat (tx_bytes n)), (''rxBytes'', str_nat (rx_bytes n)),
        (''txPackets'', str_nat (tx_packets n)), (''rxPackets'', str_nat (rx_packets n)),
        (''lostPackets'', str_nat (lost_packets n)), (''timesForwarded'', str_nat (times_forwarded n))] None []"

text \<open>What the flow measures, in bits per second, seconds and bytes.\<close>

definition rate_of :: "nat \<Rightarrow> int \<Rightarrow> rat option" where
  "rate_of b ns = (if ns > 0 then Some (8 * of_nat b / (of_int ns * nanosecond)) else None)"

definition flow_measured :: "flow_numbers \<Rightarrow> flow" where
  "flow_measured n =
     (let per_packet = (\<lambda>x. if rx_packets n = 0 then None else Some (x / of_nat (rx_packets n)))
      in \<lparr>flow_id = int (num_id n),
          delay_mean = per_packet (of_int (delay_sum n) * nanosecond),
          packet_loss_ratio = (if rx_packets n = 0 then None
             else Some (of_nat (lost_packets n) / of_nat (rx_packets n + lost_packets n))),
          rx_bitrate = rate_of (rx_bytes n) (last_rx n - first_rx n),
          tx_bitrate = rate_of (tx_bytes n) (last_tx n - first_tx n),
          tuple_slot = None, packet_size_mean = per_packet (of_nat (rx_bytes n)), probe_list = [],
          hop_count = (if rx_packets n = 0 then -1000 else of_nat (times_forwarded n) / of_nat (rx_packets n) + 1),
          interruptions = None, rx_duration = of_int (last_rx n - first_rx n) * nanosecond\<rparr>)"

section \<open>Reading numbers back\<close>

lemma digit_plain: "is_digit c \<Longrightarrow> \<not> is_space c \<and> c \<notin> {CHR ''L'', CHR ''l'', CHR ''-'', CHR ''+'', CHR ''.'', CHR ''e''}"
  by (auto simp: is_digit_def is_space_def)

lemma str_nat_digits: "list_all is_digit (str_nat n)" "str_nat n \<noteq> []"
  using str_nat_number [of n] by simp_all

lemma str_nat_ends: "is_digit (last (str_nat n))" "is_digit (hd (str_nat n))"
  using str_nat_digits [of n] by (simp_all add: list_all_iff)

lemma dropWhile_hd: "s \<noteq> [] \<Longrightarrow> \<not> P (hd s) \<Longrightarrow> dropWhile P s = s"
  by (cases s) auto

lemma rstrip_last: "s \<noteq> [] \<Longrightarrow> \<not> is_space (last s) \<Longrightarrow> rstrip s = s"
  by (simp add: rstrip_def dropWhile_hd hd_rev)

lemma strip_ends: "s \<noteq> [] \<Longrightarrow> \<not> is_space (last s) \<Longrightarrow> \<not> is_space (hd s) \<Longrightarrow> strip s = s"
  by (simp add: strip_def lstrip_def rstrip_last dropWhile_hd)

named_theorems read_simps

lemma signed_digits [read_simps]: "signed (str_nat n) = (1, str_nat n)"
  using digit_plain [OF str_nat_ends(2) [of n]] str_nat_digits(2) [of n]
  by (cases "str_nat n") (auto simp: signed_def)

lemma strip_numbers [read_simps]:
  "strip (str_nat n) = str_nat n" "c \<in> {CHR ''-'', CHR ''+''} \<Longrightarrow> strip (c # str_nat n) = c # str_nat n"
  "rstrip (str_nat n) = str_nat n" "rstrip (c # str_nat n) = c # str_nat n"
  using digit_plain [OF str_nat_ends(1) [of n]] digit_plain [OF str_nat_ends(2) [of n]] str_nat_digits(2) [of n]
  by (auto simp: strip_ends rstrip_last is_space_def)

lemma not_long_suffix [read_simps]: "last (str_nat n) \<noteq> CHR ''L''" "last (str_nat n) \<noteq> CHR ''l''" "str_nat n \<noteq> []"
  using digit_plain [OF str_nat_ends(1) [of n]] str_nat_digits(2) by auto

lemma parse_written [read_simps]:
  "parse_int (str_nat n) = Inr (int n)" "parse_long (str_nat n) = Inr (int n)"
  by (simp_all add: parse_int_def parse_long_def read_simps Let_def)

lemma cut_written: "cut_unit (time_text t) = (if t < 0 then CHR ''-'' else CHR ''+'') # str_nat (nat \<bar>t\<bar>)"
proof -
  have "nat (1 + int k) = Suc k" for k by arith
  then show ?thesis by (simp add: cut_unit_def time_text_def py_slice_to_def py_clip_def)
qed

lemma parse_cut_time [read_simps]: "parse_long (cut_unit (time_text t)) = Inr t"
  by (auto simp: cut_written parse_long_def parse_int_def signed_def read_simps Let_def)

lemma takeWhile_digits: "takeWhile is_digit (str_nat n) = str_nat n"
  using str_nat_digits(1) [of n] by (simp add: takeWhile_eq_all_conv list_all_iff)

lemma number_str_nat: "number (str_nat n) = int n"
  using str_nat_number by simp

lemma parse_float_written [read_simps]:
  "parse_float (str_nat n) = Inr (of_nat n)"
  "parse_float (cut_unit (time_text t)) = Inr (of_int t)"
proof -
  show "parse_float (str_nat n) = Inr (of_nat n)"
    by (simp add: parse_float_def Let_def read_simps takeWhile_digits number_str_nat pow10_def)
  show "parse_float (cut_unit (time_text t)) = Inr (of_int t)"
    by (auto simp: parse_float_def Let_def read_simps takeWhile_digits number_str_nat pow10_def signed_def cut_written)
qed

text \<open>C27. A flow that the simulator wrote is read back: its bit rates, mean delay, mean size, hops and loss.
  A flow of which nothing was received has no loss ratio, although all of it is lost, and one with a
  single packet has no bit rate_of.\<close>

theorem flow_of_written: "flow_of (written_flow n) = Inr (flow_measured n)"
proof -
  have dur: "duration (written_flow n) ''timeLastTxPacket'' ''timeFirstTxPacket'' = Inr (of_int (last_tx n - first_tx n) * nanosecond)"
      "duration (written_flow n) ''timeLastRxPacket'' ''timeFirstRxPacket'' = Inr (of_int (last_rx n - first_rx n) * nanosecond)"
    by (simp_all add: duration_def attr_time_def attr_def written_flow_def read_simps)
  have pos: "of_int (b - a) * nanosecond > 0 \<longleftrightarrow> b - a > 0" for a b
    by (simp add: nanosecond_def)
  have bits: "bitrate (written_flow n) ''rxBytes'' (of_int (last_rx n - first_rx n) * nanosecond) = Inr (rate_of (rx_bytes n) (last_rx n - first_rx n))"
      "bitrate (written_flow n) ''txBytes'' (of_int (last_tx n - first_tx n) * nanosecond) = Inr (rate_of (tx_bytes n) (last_tx n - first_tx n))"
    unfolding bitrate_def rate_of_def pos by (simp_all add: attr_long_def attr_def written_flow_def read_simps)
  have at: "attr_int (written_flow n) ''flowId'' = Inr (int (num_id n))" "attr_long (written_flow n) ''rxPackets'' = Inr (int (rx_packets n))"
      "attr_long (written_flow n) ''txPackets'' = Inr (int (tx_packets n))" "attr (written_flow n) ''delaySum'' = Inr (time_text (delay_sum n))"
      "attr_float (written_flow n) ''rxBytes'' = Inr (of_nat (rx_bytes n))" "attr_float (written_flow n) ''lostPackets'' = Inr (of_nat (lost_packets n))"
      "attr_float (written_flow n) ''timesForwarded'' = Inr (of_nat (times_forwarded n))"
      "find_elem ''flowInterruptionsHistogram'' (written_flow n) = None"
    by (simp_all add: attr_int_def attr_long_def attr_float_def attr_def find_elem_def written_flow_def read_simps)
  have div: "py_divide (of_nat (lost_packets n)) (of_int (int (rx_packets n)) + of_nat (lost_packets n)) =
      Inr (of_nat (lost_packets n) / of_nat (rx_packets n + lost_packets n))" if "rx_packets n \<noteq> 0"
    using that by (simp add: py_divide_def flip: of_nat_add)
  show ?thesis
    using div by (cases "rx_packets n = 0") (simp_all add: flow_of_def dur bits at read_simps flow_measured_def Let_def del: of_int_diff)
qed

section \<open>The flows of a document\<close>

text \<open>The map of a simulation whose flows have different ids.\<close>

definition map_ok :: "simulation \<Rightarrow> bool" where
  "map_ok s \<longleftrightarrow> (\<forall>i < length (flows s). dget (flow_map s) (flow_id (flows s ! i)) = Some i)
     \<and> (\<forall>fid. dhas (flow_map s) fid \<longrightarrow> fid \<in> flow_id ` set (flows s))"

definition on_flow :: "int \<Rightarrow> (flow \<Rightarrow> flow) \<Rightarrow> simulation \<Rightarrow> simulation" where
  "on_flow fid g s = s\<lparr>flows := List.map (\<lambda>f. if flow_id f = fid then g f else f) (flows s)\<rparr>"

lemma update_flow_ok:
  assumes ok: "map_ok s" and mem: "fid \<in> flow_id ` set (flows s)"
  shows "update_flow fid g s = Inr (on_flow fid g s)"
proof -
  obtain i where i: "i < length (flows s)" "flow_id (flows s ! i) = fid" using mem by (auto simp: in_set_conv_nth)
  then have at: "dindex (flow_map s) fid = Inr i" using ok by (auto simp: map_ok_def dindex_def)
  have "(flows s)[i := g (flows s ! i)] = List.map (\<lambda>f. if flow_id f = fid then g f else f) (flows s)"
  proof (rule nth_equalityI)
    fix j
    assume "j < length ((flows s)[i := g (flows s ! i)])"
    then have "j < length (flows s)" by simp
    moreover have "j = i" if "flow_id (flows s ! j) = fid" "j < length (flows s)"
      using ok that i by (metis map_ok_def option.inject)
    ultimately show "(flows s)[i := g (flows s ! i)] ! j = List.map (\<lambda>f. if flow_id f = fid then g f else f) (flows s) ! j"
      using i by (auto simp: nth_list_update)
  qed simp
  then show ?thesis by (simp add: update_flow_def at on_flow_def)
qed

lemma update_flow_missing: "map_ok s \<Longrightarrow> fid \<notin> flow_id ` set (flows s) \<Longrightarrow> update_flow fid g s = Inl KeyError"
  by (auto simp: map_ok_def update_flow_def dindex_def split: option.splits)

lemma on_flow_ids:
  assumes "\<And>f. flow_id (g f) = flow_id f"
  shows "List.map flow_id (flows (on_flow fid g s)) = List.map flow_id (flows s)" "map_ok (on_flow fid g s) = map_ok s"
proof -
  show ids: "List.map flow_id (flows (on_flow fid g s)) = List.map flow_id (flows s)" using assms by (simp add: on_flow_def)
  have "flow_id ` set (flows (on_flow fid g s)) = flow_id ` set (flows s)" using ids by (metis list.set_map)
  then show "map_ok (on_flow fid g s) = map_ok s" using assms by (auto simp: map_ok_def on_flow_def)
qed

lemma add_flows_ok:
  "map_ok s \<Longrightarrow> distinct (List.map flow_id (flows s) @ List.map (\<lambda>n. int (num_id n)) ns) \<Longrightarrow>
     \<exists>m. foldM add_flow s (List.map written_flow ns) = Inr (s\<lparr>flows := flows s @ List.map flow_measured ns, flow_map := m\<rparr>)
       \<and> map_ok (s\<lparr>flows := flows s @ List.map flow_measured ns, flow_map := m\<rparr>)"
proof (induction ns arbitrary: s)
  case Nil
  have "s = s\<lparr>flows := flows s, flow_map := flow_map s\<rparr>" by simp
  then show ?case using Nil by (intro exI [of _ "flow_map s"]) simp
next
  case (Cons n ns)
  define t where "t = s\<lparr>flow_map := dset (int (num_id n)) (length (flows s)) (flow_map s), flows := flows s @ [flow_measured n]\<rparr>"
  have fid: "flow_id (flow_measured n) = int (num_id n)" by (simp add: flow_measured_def Let_def)
  have new: "int (num_id n) \<notin> flow_id ` set (flows s)" using Cons.prems(2) by auto
  then have "map_ok t" using Cons.prems(1)
    by (auto simp: map_ok_def t_def fid nth_append dget_dset less_Suc_eq)
  moreover have "distinct (List.map flow_id (flows t) @ List.map (\<lambda>n. int (num_id n)) ns)"
    using Cons.prems(2) by (auto simp: t_def fid)
  moreover have "add_flow s (written_flow n) = Inr t" by (simp add: add_flow_def flow_of_written t_def fid)
  ultimately show ?case using Cons.IH [of t] by (auto simp: t_def)
qed

text \<open>An entry of the classifier, and the tuple that a flow gets from a list of entries: the last one with its id.\<close>

definition written_tuple :: "nat \<times> string \<times> string \<times> nat \<times> nat \<times> nat \<Rightarrow> xml" where
  "written_tuple = (\<lambda>(fid, src, dst, proto, sp, dp).
     Elem ''Flow''
       [(''flowId'', str_nat fid), (''sourceAddress'', src), (''destinationAddress'', dst), (''protocol'', str_nat proto),
        (''sourcePort'', str_nat sp), (''destinationPort'', str_nat dp)] None [])"

definition tuple_entry :: "nat \<times> string \<times> string \<times> nat \<times> nat \<times> nat \<Rightarrow> int \<times> five_tuple" where
  "tuple_entry = (\<lambda>(fid, src, dst, proto, sp, dp).
     (int fid, \<lparr>source_address = Some src, destination_address = Some dst, protocol = int proto, source_port = int sp, destination_port = int dp\<rparr>))"

definition with_tuple :: "(int \<times> five_tuple) list \<Rightarrow> flow \<Rightarrow> flow" where
  "with_tuple ts f = (case map_of (rev ts) (flow_id f) of None \<Rightarrow> f | Some t \<Rightarrow> f\<lparr>tuple_slot := Some t\<rparr>)"

lemma classify_written:
  "classify_flow s (written_tuple t) = update_flow (fst (tuple_entry t)) (\<lambda>f. f\<lparr>tuple_slot := Some (snd (tuple_entry t))\<rparr>) s"
  by (cases t) (simp add: classify_flow_def five_tuple_of_def attr_int_def attr_def written_tuple_def tuple_entry_def read_simps)

lemma classify_all:
  "map_ok s \<Longrightarrow> fst ` tuple_entry ` set ts \<subseteq> flow_id ` set (flows s) \<Longrightarrow>
     foldM classify_flow s (List.map written_tuple ts) =
       Inr (s\<lparr>flows := List.map (with_tuple (List.map tuple_entry ts)) (flows s)\<rparr>)"
proof (induction ts arbitrary: s)
  case Nil
  then show ?case by (simp add: with_tuple_def)
next
  case (Cons t ts)
  obtain fid tp where t: "tuple_entry t = (fid, tp)" by (cases "tuple_entry t")
  define s1 where "s1 = on_flow fid (\<lambda>f. f\<lparr>tuple_slot := Some tp\<rparr>) s"
  have first: "classify_flow s (written_tuple t) = Inr s1"
    using Cons.prems t by (simp add: classify_written update_flow_ok s1_def)
  have ids: "List.map flow_id (flows s1) = List.map flow_id (flows s)" and ok: "map_ok s1"
    using Cons.prems(1) on_flow_ids [of "\<lambda>f. f\<lparr>tuple_slot := Some tp\<rparr>"] by (simp_all add: s1_def)
  have img: "flow_id ` set (flows s1) = flow_id ` set (flows s)" using ids by (metis list.set_map)
  have "fst ` tuple_entry ` set ts \<subseteq> flow_id ` set (flows s1)" unfolding img using Cons.prems(2) by simp
  from Cons.IH [OF ok this] first have run: "foldM classify_flow s (List.map written_tuple (t # ts)) =
      Inr (s1\<lparr>flows := List.map (with_tuple (List.map tuple_entry ts)) (flows s1)\<rparr>)" by simp
  have "with_tuple (List.map tuple_entry ts) (if flow_id f = fid then f\<lparr>tuple_slot := Some tp\<rparr> else f) =
      with_tuple (List.map tuple_entry (t # ts)) f" for f
    by (auto simp: with_tuple_def t map_add_def split: option.splits)
  then show ?case unfolding run by (simp add: s1_def on_flow_def comp_def)
qed

section \<open>The whole run\<close>

lemma read_event_simps:
  "read_event (l, sims) StartEvent = Inr (l + 1, sims)"
  "read_event (l, sims) (EndEvent el) =
     (if l = 1 \<and> tag el = ''FlowMonitor'' then rbind (simulation_of el) (\<lambda>s. Inr (0, sims @ [s])) else Inr (l - 1, sims))"
  by (simp_all add: read_event_def Let_def)

lemma inner_events_kept:
  "l \<ge> 1 \<Longrightarrow> foldM read_event (l, sims) (xml_events e) = Inr (l, sims)"
proof (induction e arbitrary: l rule: xml_events.induct)
  case (1 t a x ks)
  have "foldM read_event (l + 1, sims) (concat (List.map xml_events js)) = Inr (l + 1, sims)" if "set js \<subseteq> set ks" for js
    using that
  proof (induction js)
    case Nil
    then show ?case by simp
  next
    case (Cons j js)
    then show ?case using "1.IH" [of j "l + 1"] "1.prems" by (simp add: foldM_append)
  qed
  from this [of ks] show ?case using "1.prems" by (simp add: foldM_append read_event_simps)
qed

text \<open>Only the element of the whole document can be read, so there is at most one simulation.\<close>

lemma read_document_root:
  "read_document doc = (if tag doc = ''FlowMonitor'' then rbind (simulation_of doc) (\<lambda>s. Inr [s]) else Inr [])"
proof (cases doc)
  case (Elem t a x ks)
  have "foldM read_event (1, []) (concat (List.map xml_events ks)) = Inr (1, [])"
    by (induction ks) (simp_all add: foldM_append inner_events_kept)
  then show ?thesis using Elem
    by (cases "simulation_of doc") (auto simp: read_document_def foldM_append read_event_simps)
qed

definition document :: "flow_numbers list \<Rightarrow> (nat \<times> string \<times> string \<times> nat \<times> nat \<times> nat) list \<Rightarrow> xml" where
  "document ns ts =
     Elem ''FlowMonitor'' [] None
       [Elem ''FlowStats'' [] None (List.map written_flow ns),
        Elem ''Ipv4FlowClassifier'' [] None (List.map written_tuple ts)]"

lemma document_parts:
  "findall ''Ipv4FlowClassifier'' (document ns ts) = [Elem ''Ipv4FlowClassifier'' [] None (List.map written_tuple ts)]"
  "findall2 ''FlowStats'' ''Flow'' (document ns ts) = List.map written_flow ns"
  "findall2 ''FlowProbes'' ''FlowProbe'' (document ns ts) = []"
  "findall ''Flow'' (Elem ''Ipv4FlowClassifier'' [] None (List.map written_tuple ts)) = List.map written_tuple ts"
proof -
  have "List.filter (\<lambda>k. tag k = ''Flow'') (List.map written_flow ns) = List.map written_flow ns"
    by (rule filter_eq_self) (auto simp: written_flow_def)
  moreover have "List.filter (\<lambda>k. tag k = ''Flow'') (List.map written_tuple ts) = List.map written_tuple ts"
    by (rule filter_eq_self) (auto simp: written_tuple_def)
  ultimately show
    "findall ''Ipv4FlowClassifier'' (document ns ts) = [Elem ''Ipv4FlowClassifier'' [] None (List.map written_tuple ts)]"
    "findall2 ''FlowStats'' ''Flow'' (document ns ts) = List.map written_flow ns"
    "findall2 ''FlowProbes'' ''FlowProbe'' (document ns ts) = []"
    "findall ''Flow'' (Elem ''Ipv4FlowClassifier'' [] None (List.map written_tuple ts)) = List.map written_tuple ts"
    by (simp_all add: findall_def findall2_def document_def)
qed

text \<open>A flow that can be printed, and its lines.\<close>

definition printable :: "flow \<Rightarrow> bool" where
  "printable f \<longleftrightarrow> (case tuple_slot f of None \<Rightarrow> False | Some t \<Rightarrow> protocol t \<in> {6, 17})"

definition flow_lines :: "flow \<Rightarrow> report_line list" where
  "flow_lines f =
     (case tuple_slot f of
        None \<Rightarrow> []
      | Some t \<Rightarrow>
          [FlowLine (flow_id f) (if protocol t = 6 then ''TCP'' else ''UDP'') (source_address t) (source_port t)
             (destination_address t) (destination_port t),
           TxLine (map_option (\<lambda>x. x / 1000) (tx_bitrate f)), RxLine (map_option (\<lambda>x. x / 1000) (rx_bitrate f)),
           DelayLine (map_option (\<lambda>x. x * 1000) (delay_mean f)), LossLine (map_option (\<lambda>x. x * 100) (packet_loss_ratio f))])"

lemma print_flow_cases:
  "print_flow f out =
     (if printable f then (out @ flow_lines f, Inr ()) else (out, Inl (if tuple_slot f = None then AttributeError else KeyError)))"
  by (auto simp: print_flow_def printable_def flow_lines_def protocol_name_def dindex_def split: option.splits)

lemma print_flows_cases:
  "print_flows fs out =
     (out @ concat (List.map flow_lines (takeWhile printable fs)),
      (case dropWhile printable fs of [] \<Rightarrow> Inr () | f # rest \<Rightarrow> Inl (if tuple_slot f = None then AttributeError else KeyError)))"
  by (induction fs arbitrary: out) (simp_all add: sret_def sbind_def print_flow_cases)

text \<open>C26. The run on a document of the simulator, with different ids and a classifier that names only its flows.  The report
  has five lines for each flow, with the last entry of its id, up to the first flow that has no
  entry, as a flow of IPv6, or whose protocol is neither TCP nor UDP; there the run ends with an
  exception and the flows after it are not reported.\<close>

theorem flowmon_report:
  fixes ns :: "flow_numbers list" and ts :: "(nat \<times> string \<times> string \<times> nat \<times> nat \<times> nat) list"
  assumes ids: "distinct (List.map num_id ns)" and known: "fst ` set ts \<subseteq> num_id ` set ns"
  defines "fs \<equiv> List.map (\<lambda>n. with_tuple (List.map tuple_entry ts) (flow_measured n)) ns"
  shows "flowmon_main (document ns ts) =
    (concat (List.map flow_lines (takeWhile printable fs)),
     (case dropWhile printable fs of [] \<Rightarrow> Inr () | f # rest \<Rightarrow> Inl (if tuple_slot f = None then AttributeError else KeyError)))"
proof -
  let ?s0 = "\<lparr>flows = [], flow_map = []\<rparr>"
  have fid: "flow_id (flow_measured n) = int (num_id n)" for n by (simp add: flow_measured_def Let_def)
  have "distinct (List.map (\<lambda>n. int (num_id n)) ns)"
    using ids by (simp add: distinct_map inj_on_def)
  then obtain m where add: "foldM add_flow ?s0 (List.map written_flow ns) = Inr \<lparr>flows = List.map flow_measured ns, flow_map = m\<rparr>"
    and ok: "map_ok \<lparr>flows = List.map flow_measured ns, flow_map = m\<rparr>"
    using add_flows_ok [of ?s0 ns] by (auto simp: map_ok_def)
  have "fst ` tuple_entry ` set ts = int ` fst ` set ts" by (force simp: tuple_entry_def image_iff)
  also have "\<dots> \<subseteq> int ` num_id ` set ns" using known by blast
  also have "\<dots> = flow_id ` set (List.map flow_measured ns)" by (simp add: image_image fid)
  finally have "fst ` tuple_entry ` set ts \<subseteq> flow_id ` set (flows \<lparr>flows = List.map flow_measured ns, flow_map = m\<rparr>)" by simp
  from classify_all [OF ok this]
  have "simulation_of (document ns ts) = Inr \<lparr>flows = fs, flow_map = m\<rparr>"
    by (simp add: simulation_of_def document_parts add fs_def comp_def)
  moreover have "tag (document ns ts) = ''FlowMonitor''" by (simp add: document_def)
  ultimately have "read_document (document ns ts) = Inr [\<lparr>flows = fs, flow_map = m\<rparr>]"
    by (simp add: read_document_root)
  then show ?thesis by (simp add: flowmon_main_def print_flows_cases)
qed

definition demo_flow :: flow_numbers where
  "demo_flow =
     \<lparr>num_id = 1, first_tx = 0, first_rx = 5, last_tx = 10, last_rx = 15, delay_sum = 9, tx_bytes = 20, rx_bytes = 20,
      tx_packets = 3, rx_packets = 2, lost_packets = 1, times_forwarded = 0\<rparr>"

lemma flowmon_report_witness:
  "snd (flowmon_main (document [demo_flow, demo_flow\<lparr>num_id := 2\<rparr>] [(1, ''10.1.1.1'', ''10.1.1.2'', 17, 9, 10)])) = Inl AttributeError
   \<and> length (fst (flowmon_main (document [demo_flow, demo_flow\<lparr>num_id := 2\<rparr>] [(1, ''10.1.1.1'', ''10.1.1.2'', 17, 9, 10)]))) = 5"
proof -
  have "distinct (List.map num_id [demo_flow, demo_flow\<lparr>num_id := 2\<rparr>])"
    "fst ` set [(1, ''10.1.1.1'', ''10.1.1.2'', 17, 9, 10)] \<subseteq> num_id ` set [demo_flow, demo_flow\<lparr>num_id := 2\<rparr>]"
    by (simp_all add: demo_flow_def)
  from flowmon_report [OF this] show ?thesis
    by (simp add: with_tuple_def tuple_entry_def flow_measured_def demo_flow_def printable_def flow_lines_def Let_def)
qed

end
