(* ===== verification/CallbackGen.thy ===== *)
theory CallbackGen
  imports PyString
begin

text \<open>
  The customizations of the generator of bindings, \<open>src/bindings/python/ns3modulegen_core_customizations.py\<close>:
  the transformation of smart pointer types, the proxy classes of callbacks with the handlers
  that refer to them, and the code that creates objects.  The type handlers of the generator's library
  are arguments: whether a return or a parameter type is known and which handler a type has.
\<close>

section \<open>Smart pointers\<close>

text \<open>The expression: an optional name space, \<open>Ptr<\<close>, what has no closing bracket in it, the bracket, and blanks.\<close>

definition after_namespace :: "string \<Rightarrow> string" where
  "after_namespace s =
     (if startswith s ''ns3::'' then drop 5 s else if startswith s ''::ns3::'' then drop 7 s else s)"

definition match_ptr :: "string \<Rightarrow> string option" where
  "match_ptr name =
     (let s = after_namespace name
      in if startswith s ''Ptr<''
         then (let body = takeWhile (\<lambda>c. c \<noteq> CHR ''>'') (drop 4 s); rest = drop (4 + length body) s
               in if body \<noteq> [] \<and> rest \<noteq> [] \<and> list_all is_space (tl rest) then Some body else None)
         else None)"

definition strip_const :: "string \<Rightarrow> string \<times> bool" where
  "strip_const t =
     (let (t, c) = (if startswith t ''const '' then (drop 6 t, True) else (t, False))
      in if endswith t '' const'' then (take (length t - 6) t, True) else (t, c))"

text \<open>\<open>_get_untransformed_type_traits\<close>\<close>

definition pointer_traits :: "string \<Rightarrow> (string \<times> bool) option" where
  "pointer_traits name =
     (case match_ptr name of
        None \<Rightarrow> None
      | Some g \<Rightarrow>
          (let (t, is_const) = strip_const (strip g); new_name = t @ '' *'';
               new_name = (if startswith new_name ''::'' then drop 2 new_name else new_name)
           in Some (new_name, is_const)))"

datatype handler_kind = ParameterHandler | ReturnHandler | OtherHandler

record type_handler =
  ctype :: string
  untransformed_ctype :: string
  transfer_ownership :: "bool option"
  caller_owns_return :: "bool option"

definition pointer_ctype :: "string \<Rightarrow> bool \<Rightarrow> string" where
  "pointer_ctype orig is_const =
     (if is_const then ''ns3::Ptr< '' @ py_slice_to orig (-2) @ '' const >'' else ''ns3::Ptr< '' @ py_slice_to orig (-2) @ '' >'')"

definition create_type_handler :: "handler_kind \<Rightarrow> string \<Rightarrow> type_handler py_result" where
  "create_type_handler k name =
     (if k = OtherHandler then Inl AssertionError
      else (case pointer_traits name of
              None \<Rightarrow> Inl TypeError
            | Some (orig, is_const) \<Rightarrow>
                Inr \<lparr>ctype = pointer_ctype orig is_const, untransformed_ctype = orig,
                     transfer_ownership = (if k = ParameterHandler then Some False else None),
                     caller_owns_return = (if k = ReturnHandler then Some False else None)\<rparr>))"

definition untransform :: "type_handler \<Rightarrow> string \<Rightarrow> string" where
  "untransform h e = ''const_cast<'' @ untransformed_ctype h @ ''> (ns3::PeekPointer ('' @ e @ ''))''"

definition transform :: "type_handler \<Rightarrow> string \<Rightarrow> string py_result" where
  "transform h e =
     rbind (py_index (untransformed_ctype h) (-1)) (\<lambda>c.
       if c = CHR ''*'' then Inr (''ns3::Ptr< '' @ py_slice_to (untransformed_ctype h) (-1) @ '' > ('' @ e @ '')'')
       else Inl AssertionError)"

section \<open>Callbacks\<close>

definition callback_type :: "string list \<Rightarrow> string" where
  "callback_type args = ''ns3::Callback< '' @ join '', '' args @ '' >''"

definition impl_name :: "nat \<Rightarrow> string" where
  "impl_name i = ''PythonCallbackImpl'' @ str_nat i"

text \<open>
  A handler that was registered for a callback type, by its number: its type, the class it creates,
  and whether it is disabled.
\<close>

record callback_handler =
  handled_type :: string
  impl_class :: string
  template_args :: "string list"
  disabled :: bool

definition register_callback_classes :: "string list list \<Rightarrow> callback_handler list" where
  "register_callback_classes callbacks =
     List.map (\<lambda>(i, args). \<lparr>handled_type = callback_type args, impl_class = impl_name i, template_args = args, disabled = False\<rparr>)
       (enumerate 0 callbacks)"

text \<open>
  The code that converts a parameter, and the argument of the call.  \<open>fresh\<close> is the name that the
  library declares for a variable.
\<close>

definition callable_check :: "string \<Rightarrow> string \<Rightarrow> string" where
  "callable_check cb name =
     ''if (!PyCallable_Check('' @ cb @ '')) PyErr_SetString(PyExc_TypeError, \"parameter '' @ [CHR 0x27] @ name @ [CHR 0x27] @
       '' must be callbale\");''"

definition convert_callback ::
  "(string \<Rightarrow> string) \<Rightarrow> callback_handler \<Rightarrow> string \<Rightarrow> string option \<Rightarrow> (string list \<times> string) py_result" where
  "convert_callback fresh h name value =
     (if disabled h then Inl (PyException ''CodeGenerationError'')
      else (let cb = fresh name; args = join '', '' (template_args h)
            in (case value of
                  None \<Rightarrow>
                    (let impl = fresh (name @ ''_cb_impl'')
                     in Inr ([callable_check cb name, impl @ '' = ns3::Create<'' @ impl_class h @ ''> ('' @ cb @ '');''],
                             ''ns3::Callback<'' @ args @ ''> ('' @ impl @ '')''))
                | Some d \<Rightarrow>
                    (let v = fresh (name @ ''_value'')
                     in Inr ([''if ('' @ cb @ '') {'', callable_check cb name,
                              v @ '' = ns3::Callback<'' @ args @ ''> (ns3::Create<'' @ impl_class h @ ''> ('' @ cb @ ''));'', ''}''],
                             v)))))"

text \<open>
  What the library answers: whether a return type and a parameter with its name are known, the number of
  the handler that is found for a type, and the text of the call operator.
\<close>

record type_tables =
  known_return :: "string \<Rightarrow> bool"
  known_parameter :: "string \<Rightarrow> string \<Rightarrow> bool"
  return_handler :: "string \<Rightarrow> nat option"
  parameter_handler :: "string \<Rightarrow> nat option"

datatype class_part = ClassHead string "string list" | CallOperator string "(string \<times> string) list" | ClassEnd

record generator =
  handlers :: "callback_handler list"
  sink :: "class_part list"
  warnings :: nat

definition disable :: "nat option \<Rightarrow> generator \<Rightarrow> generator" where
  "disable i g =
     (case i of None \<Rightarrow> g | Some i \<Rightarrow> g\<lparr>handlers := (handlers g)[i := (handlers g ! i)\<lparr>disabled := True\<rparr>]\<rparr>)"

definition callback_arguments :: "string list \<Rightarrow> (string \<times> string) list" where
  "callback_arguments args =
     List.map (\<lambda>(i, t). (t, ''arg'' @ str_nat (i + 1))) (enumerate 0 (List.filter (\<lambda>a. a \<noteq> ''ns3::empty'') (tl args)))"

text \<open>Only the text of a complete class reaches the output; each unknown type is a warning.\<close>

definition generate_callback :: "type_tables \<Rightarrow> nat \<times> string list \<Rightarrow> generator \<Rightarrow> generator py_result" where
  "generate_callback tt item g =
     (let (i, args) = item; cls = callback_type args
      in (case args of
            [] \<Rightarrow> Inl IndexError
          | ret # rest \<Rightarrow>
              if \<not> known_return tt ret then Inr (g\<lparr>warnings := warnings g + 1\<rparr>)
              else (let params = callback_arguments args;
                        bad = List.filter (\<lambda>(t, n). \<not> known_parameter tt t n) params
                    in if bad \<noteq> []
                       then Inr (disable (parameter_handler tt cls)
                              (disable (return_handler tt cls) (g\<lparr>warnings := warnings g + length bad\<rparr>)))
                       else Inr (g\<lparr>sink := sink g @ [ClassHead (impl_name i) args, CallOperator ret params, ClassEnd]\<rparr>))))"

definition generate_callback_classes :: "type_tables \<Rightarrow> string list list \<Rightarrow> generator \<Rightarrow> generator py_result" where
  "generate_callback_classes tt callbacks g = foldM (\<lambda>g item. generate_callback tt item g) g (enumerate 0 callbacks)"

section \<open>Creating objects\<close>

record cpp_class =
  full_name :: string
  cannot_be_constructed :: bool
  incomplete_type :: bool

text \<open>The format of the first message has two directives and one argument.\<close>

definition instance_creation :: "cpp_class \<Rightarrow> string \<Rightarrow> string \<Rightarrow> string \<Rightarrow> string list py_result" where
  "instance_creation c lvalue params construct_name =
     (if lvalue = [] \<or> startswith lvalue ''None'' then Inl AssertionError
      else if cannot_be_constructed c then Inl TypeError
      else if incomplete_type c then Inl (PyException (full_name c @ '' cannot be constructed (incomplete type)''))
      else Inr [lvalue @ '' = new '' @ construct_name @ ''('' @ params @ '');'', lvalue @ ''->Ref ();''])"

definition post_instance_creation :: "string \<Rightarrow> string" where
  "post_instance_creation lvalue = ''ns3::CompleteConstruct('' @ lvalue @ '');''"

section \<open>Laws of smart pointers\<close>

text \<open>The name of a class as it stands in a pointer type.\<close>

definition class_text :: "string \<Rightarrow> bool" where
  "class_text t \<longleftrightarrow> t \<noteq> [] \<and> CHR ''>'' \<notin> set t \<and> \<not> is_space (hd t) \<and> \<not> is_space (last t)
     \<and> \<not> startswith t ''const '' \<and> \<not> endswith t '' const'' \<and> \<not> startswith t ''::'' \<and> t \<noteq> ''const''"

text \<open>The ways to write the constancy of the class.\<close>

definition spelled :: "string \<Rightarrow> (bool \<times> string) list" where
  "spelled t = [(False, t), (True, ''const '' @ t), (True, t @ '' const''), (True, ''const '' @ t @ '' const'')]"

lemma class_text_ends:
  assumes "class_text t" and "(c, u) \<in> set (spelled t)"
  shows "u \<noteq> []" "\<not> is_space (hd u)" "\<not> is_space (last u)" "CHR ''>'' \<notin> set u" "strip_const u = (t, c)"
proof -
  have t: "t \<noteq> []" "\<not> is_space (hd t)" "\<not> is_space (last t)" "CHR ''>'' \<notin> set t" using assms(1) by (auto simp: class_text_def)
  have start: "\<not> startswith (t @ '' const'') ''const ''"
  proof
    assume "startswith (t @ '' const'') ''const ''"
    then consider "prefix ''const '' t" | us where "t @ us = ''const ''" "prefix us '' const''"
      unfolding startswith_def prefix_append by metis
    then show False
    proof cases
      case 1
      then show False using assms(1) by (simp add: class_text_def startswith_def)
    next
      case 2
      have "us \<noteq> []" using 2(1) t(3) by (auto simp: is_space_def)
      then have us: "hd us = CHR '' ''" using 2(2) by (cases us) auto
      have "length t = 5"
      proof (rule ccontr)
        assume "length t \<noteq> 5"
        moreover have "length t < 6" using arg_cong [OF 2(1), of length] \<open>us \<noteq> []\<close> by (cases us) auto
        ultimately have "length t < 5" by simp
        moreover have "''const '' ! length t = us ! 0" using 2(1) by (metis add.right_neutral nth_append_length_plus)
        then have "''const '' ! length t = CHR '' ''" using us \<open>us \<noteq> []\<close> by (simp add: hd_conv_nth)
        ultimately show False by (auto simp: less_Suc_eq numeral_eq_Suc)
      qed
      then have "t = take 5 ''const ''" using 2(1) by (metis append_eq_conv_conj)
      then show False using assms(1) by (simp add: class_text_def)
    qed
  qed
  have ends: "\<not> endswith t '' const''" "\<not> startswith t ''const ''" using assms(1) by (auto simp: class_text_def)
  have take: "take (length (t @ '' const'') - 6) (t @ '' const'') = t" by simp
  have drop: "drop 6 (''const '' @ s) = s" for s :: string by simp
  have "startswith (''const '' @ s) ''const ''" "endswith (s @ '' const'') '' const''" for s
    by (rule startswith_append, rule endswith_append)
  then show "strip_const u = (t, c)"
    using assms(2) start ends take drop unfolding spelled_def strip_const_def Let_def
    by (auto simp del: append_Cons)
  show "u \<noteq> []" "\<not> is_space (hd u)" "\<not> is_space (last u)" "CHR ''>'' \<notin> set u"
    using assms(2) t by (auto simp: spelled_def is_space_def)
qed

lemma dropWhile_blanks: "list_all P a \<Longrightarrow> u \<noteq> [] \<Longrightarrow> \<not> P (hd u) \<Longrightarrow> dropWhile P (a @ u @ b) = u @ b"
  by (induction a) (cases u, auto)+

lemma strip_blanks:
  assumes "u \<noteq> []" "\<not> is_space (hd u)" "\<not> is_space (last u)" and "list_all is_space a" "list_all is_space b"
  shows "strip (a @ u @ b) = u"
proof -
  have "list_all is_space (rev b)" "rev u \<noteq> []" "\<not> is_space (hd (rev u))" using assms by (simp_all add: hd_rev)
  from dropWhile_blanks [OF this, of "rev a"] have "rstrip (a @ u @ b) = a @ u" by (simp add: rstrip_def)
  moreover have "dropWhile is_space (a @ u) = u" using dropWhile_blanks [OF assms(4, 1, 2), of "[]"] by simp
  ultimately show ?thesis by (simp add: strip_def lstrip_def)
qed

lemma match_ptr_form:
  assumes "after_namespace name = ''Ptr<'' @ body @ ''>'' @ d" and "CHR ''>'' \<notin> set body" "body \<noteq> []" "list_all is_space d"
  shows "match_ptr name = Some body"
proof -
  have four: "drop 4 (''Ptr<'' @ body @ ''>'' @ d) = body @ ''>'' @ d" by simp
  note four
  moreover have "takeWhile (\<lambda>c. c \<noteq> CHR ''>'') (body @ ''>'' @ d) = body"
    using assms(2) by (subst takeWhile_append2) auto
  moreover have "drop (4 + length body) (''Ptr<'' @ body @ ''>'' @ d) = ''>'' @ d"
  proof -
    have "drop (4 + length body) (''Ptr<'' @ body @ ''>'' @ d) = drop (length body) (drop 4 (''Ptr<'' @ body @ ''>'' @ d))"
      by (simp only: drop_drop add.commute)
    then show ?thesis unfolding four by simp
  qed
  moreover have "startswith (''Ptr<'' @ body @ ''>'' @ d) ''Ptr<''" by (rule startswith_append)
  ultimately show ?thesis
    unfolding match_ptr_def assms(1) Let_def using assms(3, 4) by (simp only: if_True) simp
qed

text \<open>However a smart pointer is written, with or without its name space, blanks, and const before or after the class or
  both, the transformed type is that of the class and the corrected type is one fixed spelling,
  which is itself read in the same way.\<close>

theorem smart_pointer_spellings:
  assumes "class_text t" and "(c, u) \<in> set (spelled t)" and "ns \<in> {[], ''ns3::'', ''::ns3::''}"
    and "list_all is_space a" "list_all is_space b" "list_all is_space d"
  defines "name \<equiv> ns @ ''Ptr<'' @ a @ u @ b @ ''>'' @ d"
  shows "pointer_traits name = Some (t @ '' *'', c)
    \<and> map_sum id ctype (create_type_handler ParameterHandler name) = Inr (pointer_ctype (t @ '' *'') c)
    \<and> pointer_traits (pointer_ctype (t @ '' *'') c) = Some (t @ '' *'', c)"
proof -
  have traits: "pointer_traits (ns @ ''Ptr<'' @ a @ u @ b @ ''>'' @ d) = Some (t @ '' *'', c)"
    if "(c, u) \<in> set (spelled t)" "ns \<in> {[], ''ns3::'', ''::ns3::''}" "list_all is_space a" "list_all is_space b" "list_all is_space d"
    for ns a u b d
  proof -
    note u = class_text_ends [OF assms(1) that(1)]
    have "after_namespace (ns @ ''Ptr<'' @ r) = ''Ptr<'' @ r" for r
      using that(2) by (auto simp: after_namespace_def startswith_def)
    then have "after_namespace (ns @ ''Ptr<'' @ a @ u @ b @ ''>'' @ d) = ''Ptr<'' @ (a @ u @ b) @ ''>'' @ d"
      by (simp only: append_assoc)
    moreover have "CHR ''>'' \<notin> set (a @ u @ b)"
    proof -
      have "\<not> is_space (CHR ''>'')" by (simp add: is_space_def)
      then have "CHR ''>'' \<notin> set a" "CHR ''>'' \<notin> set b" using that(3, 4) unfolding list_all_iff by blast+
      then show ?thesis using u(4) by simp
    qed
    moreover have "a @ u @ b \<noteq> []" using u(1) by simp
    ultimately have m: "match_ptr (ns @ ''Ptr<'' @ a @ u @ b @ ''>'' @ d) = Some (a @ u @ b)"
      using that(5) by (rule match_ptr_form)
    have "\<not> startswith (t @ '' *'') ''::''"
      using assms(1) by (cases t; cases "tl t") (auto simp: class_text_def startswith_def)
    then show ?thesis
      unfolding pointer_traits_def m option.case strip_blanks [OF u(1-3) that(3, 4)] u(5) Let_def prod.case by simp
  qed
  have cut: "py_slice_to (t @ '' *'') (-2) = t" by (simp add: py_slice_to_def py_clip_def)
  have ct: "pointer_ctype (t @ '' *'') c = ''ns3::'' @ ''Ptr<'' @ '' '' @ (if c then t @ '' const'' else t) @ '' '' @ ''>'' @ []"
    by (simp add: pointer_ctype_def cut)
  have "(c, if c then t @ '' const'' else t) \<in> set (spelled t)" by (simp add: spelled_def)
  then have "pointer_traits (pointer_ctype (t @ '' *'') c) = Some (t @ '' *'', c)"
    unfolding ct by (rule traits) (simp_all add: is_space_def)
  then show ?thesis
    using traits [OF assms(2-6)] unfolding name_def by (simp add: create_type_handler_def)
qed

lemma smart_pointer_spellings_witness:
  "pointer_traits (''::ns3::Ptr< ns3::Packet const >'') = Some (''ns3::Packet *'', True)"
proof -
  have "class_text ''ns3::Packet''" by (simp add: class_text_def is_space_def startswith_def endswith_def suffix_def)
  from smart_pointer_spellings [OF this, of True "''ns3::Packet const''" "''::ns3::''" "'' ''" "'' ''" "''''"]
  show ?thesis by (simp add: spelled_def is_space_def)
qed

text \<open>The brackets of a template argument end the match, so such a pointer is not transformed.\<close>

lemma nested_template_no_pointer: "pointer_traits ''ns3::Ptr< ns3::Queue< ns3::Packet > >'' = None"
  by code_simp

section \<open>Laws of the callbacks\<close>

definition bad_parameters :: "type_tables \<Rightarrow> string list \<Rightarrow> bool" where
  "bad_parameters tt args \<longleftrightarrow> (\<exists>(t, n) \<in> set (callback_arguments args). \<not> known_parameter tt t n)"

lemma generate_callback_cases:
  assumes "args \<noteq> []" and "parameter_handler tt (callback_type args) = Some i" and "return_handler tt (callback_type args) = None"
  obtains g' where "generate_callback tt (i, args) g = Inr g'"
    "handlers g' = (if known_return tt (hd args) \<and> bad_parameters tt args
       then (handlers g)[i := (handlers g ! i)\<lparr>disabled := True\<rparr>] else handlers g)"
    "sink g' = sink g @ (if known_return tt (hd args) \<and> \<not> bad_parameters tt args
       then [ClassHead (impl_name i) args, CallOperator (hd args) (callback_arguments args), ClassEnd] else [])"
proof -
  obtain r as where args: "args = r # as" using assms(1) by (cases args) auto
  have "List.filter (\<lambda>(t, n). \<not> known_parameter tt t n) (callback_arguments args) \<noteq> [] \<longleftrightarrow> bad_parameters tt args"
    by (auto simp: filter_empty_conv bad_parameters_def)
  then show ?thesis
    using that assms(2, 3) args
    by (cases "known_return tt r"; cases "bad_parameters tt args") (auto simp: generate_callback_def Let_def disable_def)
qed

lemma impl_kept:
  "List.map impl_class (hs[n := (hs ! n)\<lparr>disabled := True\<rparr>]) = List.map impl_class hs"
proof (rule nth_equalityI)
  fix j
  assume "j < length (List.map impl_class (hs[n := (hs ! n)\<lparr>disabled := True\<rparr>]))"
  then show "List.map impl_class (hs[n := (hs ! n)\<lparr>disabled := True\<rparr>]) ! j = List.map impl_class hs ! j"
    by (cases "j = n") simp_all
qed simp

lemma generate_from:
  "(\<And>j. j < length cs \<Longrightarrow> cs ! j \<noteq> [] \<and> parameter_handler tt (callback_type (cs ! j)) = Some (n + j)
        \<and> return_handler tt (callback_type (cs ! j)) = None) \<Longrightarrow>
     \<exists>g'. foldM (\<lambda>g item. generate_callback tt item g) g (enumerate n cs) = Inr g' \<and> List.map impl_class (handlers g') = List.map impl_class (handlers g) \<and>
       (\<forall>k < length (handlers g). disabled (handlers g' ! k) \<longleftrightarrow> disabled (handlers g ! k) \<or>
          (\<exists>j < length cs. k = n + j \<and> known_return tt (hd (cs ! j)) \<and> bad_parameters tt (cs ! j))) \<and>
       (\<forall>c as. ClassHead c as \<in> set (sink g') \<longleftrightarrow> ClassHead c as \<in> set (sink g) \<or>
          (\<exists>j < length cs. c = impl_name (n + j) \<and> as = cs ! j \<and> known_return tt (hd (cs ! j)) \<and> \<not> bad_parameters tt (cs ! j)))"
proof (induction cs arbitrary: n g)
  case Nil
  then show ?case by simp
next
  case (Cons args cs)
  have here: "args \<noteq> []" "parameter_handler tt (callback_type args) = Some n" "return_handler tt (callback_type args) = None"
    using Cons.prems [of 0] by auto
  obtain g1 where g1: "generate_callback tt (n, args) g = Inr g1"
    "handlers g1 = (if known_return tt (hd args) \<and> bad_parameters tt args
       then (handlers g)[n := (handlers g ! n)\<lparr>disabled := True\<rparr>] else handlers g)"
    "sink g1 = sink g @ (if known_return tt (hd args) \<and> \<not> bad_parameters tt args
       then [ClassHead (impl_name n) args, CallOperator (hd args) (callback_arguments args), ClassEnd] else [])"
    by (rule generate_callback_cases [OF here])
  have "cs ! j \<noteq> [] \<and> parameter_handler tt (callback_type (cs ! j)) = Some (Suc n + j)
      \<and> return_handler tt (callback_type (cs ! j)) = None" if "j < length cs" for j
    using Cons.prems [of "Suc j"] that by simp
  from Cons.IH [of "Suc n" g1, OF this] obtain g' where
    run: "foldM (\<lambda>g item. generate_callback tt item g) g1 (enumerate (Suc n) cs) = Inr g'"
    and len: "List.map impl_class (handlers g') = List.map impl_class (handlers g1)"
    and dis: "\<forall>k < length (handlers g1). disabled (handlers g' ! k) \<longleftrightarrow> disabled (handlers g1 ! k) \<or>
          (\<exists>j < length cs. k = Suc n + j \<and> known_return tt (hd (cs ! j)) \<and> bad_parameters tt (cs ! j))"
    and out: "\<forall>c as. ClassHead c as \<in> set (sink g') \<longleftrightarrow> ClassHead c as \<in> set (sink g1) \<or>
          (\<exists>j < length cs. c = impl_name (Suc n + j) \<and> as = cs ! j \<and> known_return tt (hd (cs ! j)) \<and> \<not> bad_parameters tt (cs ! j))"
    by blast
  have ex: "(\<exists>j < length (args # cs). P j ((args # cs) ! j)) \<longleftrightarrow> P 0 args \<or> (\<exists>j < length cs. P (Suc j) (cs ! j))"
    for P :: "nat \<Rightarrow> string list \<Rightarrow> bool"
    by (auto simp: less_Suc_eq_0_disj)
  have "length (handlers g1) = length (handlers g)" by (simp add: g1)
  moreover have "List.map impl_class (handlers g1) = List.map impl_class (handlers g)"
    unfolding g1(2) by (simp only: impl_kept split: if_split) simp
  moreover have "disabled (handlers g1 ! k) \<longleftrightarrow> disabled (handlers g ! k) \<or> (k = n \<and> known_return tt (hd args) \<and> bad_parameters tt args)"
    if "k < length (handlers g)" for k
    using that by (cases "k = n") (auto simp: g1(2))
  moreover have "ClassHead c as \<in> set (sink g1) \<longleftrightarrow> ClassHead c as \<in> set (sink g) \<or>
      (c = impl_name n \<and> as = args \<and> known_return tt (hd args) \<and> \<not> bad_parameters tt args)" for c as
    by (auto simp: g1(3))
  ultimately show ?case
    unfolding ex [of "\<lambda>j a. _ = n + j \<and> known_return tt (hd a) \<and> bad_parameters tt a"]
      ex [of "\<lambda>j a. _ = impl_name (n + j) \<and> _ = a \<and> known_return tt (hd a) \<and> \<not> bad_parameters tt a"]
    using run len dis out by (intro exI [of _ g']) (simp add: g1(1))
qed

lemma impl_name_inj: "impl_name i = impl_name j \<longleftrightarrow> i = j"
proof
  assume "impl_name i = impl_name j"
  then have "str_nat i = str_nat j" by (simp add: impl_name_def)
  then show "i = j" using str_nat_number by (metis of_nat_eq_iff)
qed simp

text \<open>C28. The classes and the handlers of the callbacks.  A class is generated exactly for the callbacks all of whose types
  are known, and a handler is disabled exactly for those whose return type is known and one of whose
  parameter types is not.  So the handlers that refer to a class that does not exist are those
  whose return type is unknown.\<close>

theorem callback_classes_generated:
  assumes "\<And>j. j < length cs \<Longrightarrow> cs ! j \<noteq> [] \<and> parameter_handler tt (callback_type (cs ! j)) = Some j
      \<and> return_handler tt (callback_type (cs ! j)) = None"
    and "i < length cs"
  shows "\<exists>g. generate_callback_classes tt cs \<lparr>handlers = register_callback_classes cs, sink = [], warnings = 0\<rparr> = Inr g
    \<and> ((\<exists>as. ClassHead (impl_class (handlers g ! i)) as \<in> set (sink g)) \<longleftrightarrow>
         known_return tt (hd (cs ! i)) \<and> \<not> bad_parameters tt (cs ! i))
    \<and> (disabled (handlers g ! i) \<longleftrightarrow> known_return tt (hd (cs ! i)) \<and> bad_parameters tt (cs ! i))
    \<and> (is_ok (convert_callback fresh (handlers g ! i) name d) \<and> \<not> (\<exists>as. ClassHead (impl_class (handlers g ! i)) as \<in> set (sink g))
         \<longleftrightarrow> \<not> known_return tt (hd (cs ! i)))"
proof -
  let ?g = "\<lparr>handlers = register_callback_classes cs, sink = [], warnings = 0\<rparr>"
  have "cs ! j \<noteq> [] \<and> parameter_handler tt (callback_type (cs ! j)) = Some (0 + j) \<and> return_handler tt (callback_type (cs ! j)) = None"
    if "j < length cs" for j using assms(1) [OF that] by simp
  from generate_from [of cs tt 0 ?g, OF this] obtain g where
    run: "generate_callback_classes tt cs ?g = Inr g"
    and impl: "List.map impl_class (handlers g) = List.map impl_class (register_callback_classes cs)"
    and dis: "\<forall>k < length (register_callback_classes cs). disabled (handlers g ! k) \<longleftrightarrow> disabled (register_callback_classes cs ! k) \<or>
          (\<exists>j < length cs. k = j \<and> known_return tt (hd (cs ! j)) \<and> bad_parameters tt (cs ! j))"
    and out: "\<forall>c as. ClassHead c as \<in> set (sink g) \<longleftrightarrow>
          (\<exists>j < length cs. c = impl_name j \<and> as = cs ! j \<and> known_return tt (hd (cs ! j)) \<and> \<not> bad_parameters tt (cs ! j))"
    by (auto simp: generate_callback_classes_def)
  have len: "length (register_callback_classes cs) = length cs" by (simp add: register_callback_classes_def)
  then have "length (handlers g) = length cs" using impl by (metis length_map)
  then have "impl_class (handlers g ! i) = impl_class (register_callback_classes cs ! i)"
    using impl assms(2) len by (metis nth_map)
  then have name: "impl_class (handlers g ! i) = impl_name i"
    using assms(2) by (simp add: register_callback_classes_def nth_enumerate_eq)
  have d: "disabled (handlers g ! i) \<longleftrightarrow> known_return tt (hd (cs ! i)) \<and> bad_parameters tt (cs ! i)"
    using dis assms(2) len by (auto simp: register_callback_classes_def nth_enumerate_eq)
  have o: "(\<exists>as. ClassHead (impl_class (handlers g ! i)) as \<in> set (sink g)) \<longleftrightarrow>
      known_return tt (hd (cs ! i)) \<and> \<not> bad_parameters tt (cs ! i)"
    using out assms(2) by (auto simp: name impl_name_inj)
  have "is_ok (convert_callback fresh (handlers g ! i) name d) \<longleftrightarrow> \<not> disabled (handlers g ! i)" for name d
    by (auto simp: convert_callback_def Let_def split: option.splits)
  then show ?thesis using run d o by blast
qed
definition demo_tables :: type_tables where
  "demo_tables =
     \<lparr>known_return = (\<lambda>t. t = ''void''), known_parameter = (\<lambda>t n. True), return_handler = (\<lambda>c. None),
      parameter_handler = (\<lambda>c. if c = callback_type [''void''] then Some 0 else if c = callback_type [''T''] then Some 1 else None)\<rparr>"

lemma callback_classes_generated_witness:
  "\<exists>g. generate_callback_classes demo_tables [[''void''], [''T'']]
       \<lparr>handlers = register_callback_classes [[''void''], [''T'']], sink = [], warnings = 0\<rparr> = Inr g
     \<and> \<not> disabled (handlers g ! 1) \<and> \<not> (\<exists>as. ClassHead (impl_class (handlers g ! 1)) as \<in> set (sink g))"
proof -
  let ?cs = "[[''void''], [''T'']]"
  have "?cs ! j \<noteq> [] \<and> parameter_handler demo_tables (callback_type (?cs ! j)) = Some j
      \<and> return_handler demo_tables (callback_type (?cs ! j)) = None" if "j < length ?cs" for j
  proof -
    have "j = 0 \<or> j = 1" using that by auto
    then show ?thesis by (auto simp: demo_tables_def callback_type_def)
  qed
  from callback_classes_generated [of ?cs demo_tables 1 "\<lambda>x. x" "''cb''" None, OF this, simplified] show ?thesis
    by (auto simp: demo_tables_def)
qed

end
