(* ===== verification/RunScripts.thy ===== *)
theory RunScripts
  imports PyString
begin

text \<open>
  The scripts of \<open>src/scripts/python\<close> that run the project that was changed last: \<open>sort_dir.py\<close> finds it and
  \<open>run_ns3.py\<close>, \<open>debug_ns3.py\<close>, \<open>gdb_ns3.py\<close>, \<open>llvm_ns3.py\<close> and \<open>vis_ns3.py\<close> build the command.  The files of the
  working directory and the lines that the shell prints for the search are arguments.
\<close>

section \<open>Finding the project\<close>

datatype script_end = PyRaise py_error | SystemExit "int option"

text \<open>\<open>remove_extras\<close>\<close>

definition is_extra :: "string \<Rightarrow> bool" where
  "is_extra f \<longleftrightarrow> contains f ''/scratch/.'' \<or> endswith f ''./scratch''"

definition remove_extras :: "string list \<Rightarrow> string list" where
  "remove_extras dirs = List.filter (\<lambda>f. \<not> is_extra f) dirs"

definition root_files :: "string list" where
  "root_files = [''src'', ''waf'', ''wscript'', ''build'', ''scratch'', ''contrib'', ''build'']"

text \<open>A line ends with its newlines cut off; the counter has to reach the length of the list.\<close>

definition rstrip_newlines :: "string \<Rightarrow> string" where
  "rstrip_newlines s = rev (dropWhile (\<lambda>c. c = newline) (rev s))"

definition is_ns3_root_dir :: "string list \<Rightarrow> bool" where
  "is_ns3_root_dir ls_lines =
     (let ls = List.map rstrip_newlines ls_lines;
          counter = foldl (\<lambda>n f. if f \<in> set ls then n + 1 else n) 0 root_files
      in counter = length root_files)"

datatype platform = Linux | Darwin | OtherPlatform

definition mac_cmd :: string where
  "mac_cmd = ''find ./scratch -exec stat -f \"%m %N\" {} '' @ [CHR 0x5C] @ ''; | sort -n | tail ''"

definition linux_cmd :: string where
  "linux_cmd = ''find ./scratch/ -type f -exec stat --format '' @ [CHR 0x27] @ ''%Y :%y %n'' @ [CHR 0x27] @
     '' \"{}\" '' @ [CHR 0x5C] @ ''; | sort -n''"

text \<open>The first component is whether the warning about git is printed.\<close>

definition listdir_shell :: "(string \<Rightarrow> string list) \<Rightarrow> string \<Rightarrow> bool \<times> (script_end + string)" where
  "listdir_shell sh cmd =
     (let dirlist = List.map rstrip_newlines (sh cmd)
      in (case py_index dirlist (-1) of
            Inl e \<Rightarrow> (False, Inl (PyRaise e))
          | Inr last_line \<Rightarrow>
              (contains last_line ''.git'',
               (let dirlist = remove_extras dirlist
                in if dirlist = [] then Inl (SystemExit None)
                   else (case py_index (str_split CHR ''/'' (last dirlist)) 2 of
                           Inl e \<Rightarrow> Inl (PyRaise e)
                         | Inr name \<Rightarrow> Inr name)))))"

definition get_most_recent :: "(string \<Rightarrow> string list) \<Rightarrow> string list \<Rightarrow> platform \<Rightarrow> bool \<times> (script_end + string)" where
  "get_most_recent sh ls_lines p =
     (if \<not> is_ns3_root_dir ls_lines then (False, Inl (SystemExit (Some 1)))
      else listdir_shell sh (case p of Linux \<Rightarrow> linux_cmd | Darwin \<Rightarrow> mac_cmd | OtherPlatform \<Rightarrow> linux_cmd))"

section \<open>The commands\<close>

text \<open>The arguments of the script, each after a blank.\<close>

definition add_arguments :: "string list \<Rightarrow> string \<Rightarrow> string" where
  "add_arguments argv s = foldl (\<lambda>s a. s @ '' '' @ a) s argv"

definition run_command :: "string \<Rightarrow> string \<Rightarrow> string list \<Rightarrow> string" where
  "run_command pwd prog argv =
     (if argv = [] then pwd @ ''/waf --run '' @ prog
      else add_arguments argv (pwd @ ''/waf --run \"'' @ prog) @ ''\"'')"

definition vis_command :: "string \<Rightarrow> string \<Rightarrow> string list \<Rightarrow> string" where
  "vis_command pwd prog argv =
     (if argv = [] then pwd @ ''/waf --run '' @ prog @ '' --vis''
      else add_arguments argv (pwd @ ''/waf --run \"'' @ prog) @ ''\"'' @ '' --vis'')"

definition template_command :: "string \<Rightarrow> string \<Rightarrow> string \<Rightarrow> string \<Rightarrow> string list \<Rightarrow> string" where
  "template_command debug_args separator pwd prog argv =
     (if argv = [] then pwd @ ''/waf --run '' @ prog @ '' --command-template=\"'' @ debug_args @ ''\"''
      else add_arguments argv (pwd @ ''/waf --run '' @ prog @ '' --command-template=\"'' @ debug_args @ separator) @ ''\"'')"

definition gdb_args :: string where "gdb_args = ''gdb --args %s''"

definition lldb_args :: string where "lldb_args = ''lldb %s''"

definition gdb_command :: "string \<Rightarrow> string \<Rightarrow> string list \<Rightarrow> string" where
  "gdb_command = template_command gdb_args []"

definition llvm_command :: "string \<Rightarrow> string \<Rightarrow> string list \<Rightarrow> string" where
  "llvm_command = template_command lldb_args '' --''"

definition debug_command :: "platform \<Rightarrow> string \<Rightarrow> string \<Rightarrow> string list \<Rightarrow> string" where
  "debug_command p pwd prog argv =
     (case p of
        Linux \<Rightarrow> template_command gdb_args [] pwd prog argv
      | Darwin \<Rightarrow> template_command lldb_args '' --'' pwd prog argv
      | OtherPlatform \<Rightarrow> template_command gdb_args [] pwd prog argv)"

text \<open>The five scripts, up to the call of the shell.\<close>

datatype script = RunScript | DebugScript | GdbScript | LlvmScript | VisScript

definition script_command :: "script \<Rightarrow> platform \<Rightarrow> string \<Rightarrow> string \<Rightarrow> string list \<Rightarrow> string" where
  "script_command k p pwd prog argv =
     (case k of
        RunScript \<Rightarrow> run_command pwd prog argv
      | DebugScript \<Rightarrow> debug_command p pwd prog argv
      | GdbScript \<Rightarrow> gdb_command pwd prog argv
      | LlvmScript \<Rightarrow> llvm_command pwd prog argv
      | VisScript \<Rightarrow> vis_command pwd prog argv)"

text \<open>
  The second test of the root directory, which \<open>run_ns3.py\<close> does not have and whose failure does not
  end \<open>vis_ns3.py\<close>, cannot fail: it is the same as the first.
\<close>

definition run_script ::
  "script \<Rightarrow> (string \<Rightarrow> string list) \<Rightarrow> string list \<Rightarrow> platform \<Rightarrow> string \<Rightarrow> string list \<Rightarrow> script_end + string" where
  "run_script k sh ls_lines p pwd argv =
     (case snd (get_most_recent sh ls_lines p) of
        Inl e \<Rightarrow> Inl e
      | Inr prog \<Rightarrow>
          if k \<noteq> RunScript \<and> k \<noteq> VisScript \<and> \<not> is_ns3_root_dir ls_lines then Inl (SystemExit (Some 1))
          else Inr (script_command k p pwd prog argv))"

section \<open>The words that the shell makes of a command\<close>

text \<open>Blanks separate words, double quotes keep them; for texts without other special characters.\<close>

fun sh_words :: "bool \<Rightarrow> string option \<Rightarrow> string \<Rightarrow> string list" where
  "sh_words q w [] = (case w of None \<Rightarrow> [] | Some v \<Rightarrow> [v])"
| "sh_words q w (c # cs) =
     (if c = CHR 0x22 then sh_words (\<not> q) (Some (case w of None \<Rightarrow> [] | Some v \<Rightarrow> v)) cs
      else if c = CHR '' '' \<and> \<not> q then (case w of None \<Rightarrow> sh_words q None cs | Some v \<Rightarrow> v # sh_words q None cs)
      else sh_words q (Some (case w of None \<Rightarrow> [c] | Some v \<Rightarrow> v @ [c])) cs)"

definition shell_words :: "string \<Rightarrow> string list" where
  "shell_words s = sh_words False None s"

definition plain_word :: "string \<Rightarrow> bool" where
  "plain_word w \<longleftrightarrow> w \<noteq> [] \<and> CHR 0x22 \<notin> set w \<and> CHR '' '' \<notin> set w"

lemma sh_words_plain:
  "CHR 0x22 \<notin> set w \<Longrightarrow> q \<or> CHR '' '' \<notin> set w \<Longrightarrow> sh_words q (Some v) (w @ s) = sh_words q (Some (v @ w)) s"
  by (induction w arbitrary: v) auto

lemma sh_words_start:
  "plain_word w \<Longrightarrow> sh_words False None (w @ s) = sh_words False (Some w) s"
  by (cases w) (auto simp: plain_word_def sh_words_plain)

lemma add_arguments_eq: "add_arguments argv s = s @ concat (List.map (\<lambda>a. '' '' @ a) argv)"
  by (induction argv arbitrary: s) (simp_all add: add_arguments_def)

lemma no_quote_arguments:
  "\<forall>a \<in> set argv. CHR 0x22 \<notin> set a \<Longrightarrow> CHR 0x22 \<notin> set (concat (List.map (\<lambda>a. '' '' @ a) argv))"
  by (induction argv) auto

lemma sh_words_blank: "plain_word w \<Longrightarrow> sh_words False None (w @ CHR '' '' # s) = w # sh_words False None s"
  by (simp add: sh_words_start)

lemma sh_words_end: "plain_word w \<Longrightarrow> sh_words False None w = [w]"
  using sh_words_start [of w "[]"] by simp

lemma sh_words_quoted:
  "CHR 0x22 \<notin> set w \<Longrightarrow>
     sh_words False v (CHR 0x22 # w @ CHR 0x22 # s) = sh_words False (Some ((case v of None \<Rightarrow> [] | Some v \<Rightarrow> v) @ w)) s"
  by (simp add: sh_words_plain)

lemma plain_waf: "plain_word pwd \<Longrightarrow> plain_word (pwd @ ''/waf'')"
  by (simp add: plain_word_def)

text \<open>The start of every command, and the two ways to go on.\<close>

lemma words_start:
  "plain_word pwd \<Longrightarrow> shell_words (pwd @ ''/waf --run '' @ s) = [pwd @ ''/waf'', ''--run''] @ sh_words False None s"
proof -
  assume "plain_word pwd"
  then have "sh_words False None ((pwd @ ''/waf'') @ CHR '' '' # ''--run'' @ CHR '' '' # s) =
      (pwd @ ''/waf'') # sh_words False None (''--run'' @ CHR '' '' # s)"
    by (intro sh_words_blank plain_waf)
  moreover have "sh_words False None (''--run'' @ CHR '' '' # s) = ''--run'' # sh_words False None s"
    by (rule sh_words_blank) (simp add: plain_word_def)
  ultimately show ?thesis by (simp add: shell_words_def)
qed

lemma words_template:
  assumes "plain_word prog" "CHR 0x22 \<notin> set t"
  shows "sh_words False None (prog @ '' --command-template='' @ CHR 0x22 # t @ [CHR 0x22]) = [prog, ''--command-template='' @ t]"
proof -
  have "sh_words False None (prog @ CHR '' '' # ''--command-template='' @ CHR 0x22 # t @ [CHR 0x22]) =
      prog # sh_words False None (''--command-template='' @ CHR 0x22 # t @ [CHR 0x22])"
    by (rule sh_words_blank [OF assms(1)])
  also have "sh_words False None (''--command-template='' @ CHR 0x22 # t @ [CHR 0x22]) =
      sh_words False (Some ''--command-template='') (CHR 0x22 # t @ [CHR 0x22])"
    by (rule sh_words_start) (simp add: plain_word_def)
  also have "\<dots> = [''--command-template='' @ t]" using sh_words_quoted [OF assms(2), of "Some ''--command-template=''" "[]"] by simp
  finally show ?thesis by simp
qed

lemma words_run:
  assumes "CHR 0x22 \<notin> set t"
  shows "sh_words False None (CHR 0x22 # t @ [CHR 0x22]) = [t]"
    "sh_words False None (CHR 0x22 # t @ CHR 0x22 # '' --vis'') = [t, ''--vis'']"
  using sh_words_quoted [OF assms, of None] by simp_all

text \<open>What the shell makes of the commands, for a directory and a project without blanks and arguments without quotes.
  The project with its arguments is one word after \<open>--run\<close>, or the arguments follow the program in the
  template of the debugger; blanks in an argument are not kept apart from those between arguments.\<close>

theorem script_words:
  assumes dir: "plain_word pwd" and prog: "plain_word prog" and args: "\<forall>a \<in> set argv. CHR 0x22 \<notin> set a"
  defines "tail \<equiv> concat (List.map (\<lambda>a. '' '' @ a) argv)"
  shows "shell_words (script_command k p pwd prog argv) =
    (let template = (\<lambda>lldb. ''--command-template='' @ (if lldb then ''lldb %s'' @ (if argv = [] then [] else '' --'') else ''gdb --args %s'') @ tail)
     in [pwd @ ''/waf'', ''--run''] @
       (case k of
          RunScript \<Rightarrow> [prog @ tail]
        | VisScript \<Rightarrow> [prog @ tail, ''--vis'']
        | GdbScript \<Rightarrow> [prog, template False]
        | LlvmScript \<Rightarrow> [prog, template True]
        | DebugScript \<Rightarrow> [prog, template (p = Darwin)]))"
proof -
  have add: "add_arguments argv s = s @ tail" for s by (simp only: add_arguments_eq tail_def)
  have tail: "CHR 0x22 \<notin> set tail" unfolding tail_def by (rule no_quote_arguments [OF args])
  have nil: "argv = [] \<Longrightarrow> tail = []" by (simp add: tail_def)
  have quoted: "CHR 0x22 \<notin> set (prog @ tail)" using prog tail by (simp add: plain_word_def)
  have vis: "sh_words False None (prog @ '' --vis'') = [prog, ''--vis'']"
    using sh_words_blank [OF prog, of "''--vis''"] by simp
  have run: "shell_words (run_command pwd prog argv) = [pwd @ ''/waf'', ''--run'', prog @ tail]"
    using words_start [OF dir, of prog] words_start [OF dir, of "CHR 0x22 # (prog @ tail) @ [CHR 0x22]"] words_run(1) [OF quoted]
    by (auto simp: run_command_def add nil sh_words_end [OF prog])
  have visual: "shell_words (vis_command pwd prog argv) = [pwd @ ''/waf'', ''--run'', prog @ tail, ''--vis'']"
    using words_start [OF dir, of "prog @ '' --vis''"] words_start [OF dir, of "CHR 0x22 # (prog @ tail) @ CHR 0x22 # '' --vis''"]
      words_run(2) [OF quoted] vis
    by (auto simp: vis_command_def add nil)
  have template: "shell_words (template_command d sep pwd prog argv) =
      [pwd @ ''/waf'', ''--run'', prog, ''--command-template='' @ d @ (if argv = [] then [] else sep) @ tail]"
    if "CHR 0x22 \<notin> set d" "CHR 0x22 \<notin> set sep" for d sep
    using words_start [OF dir, of "prog @ '' --command-template='' @ CHR 0x22 # (d @ (if argv = [] then [] else sep) @ tail) @ [CHR 0x22]"]
      words_template [OF prog, of "d @ (if argv = [] then [] else sep) @ tail"] that tail
    by (auto simp: template_command_def add nil)
  show ?thesis
    using run visual template [of gdb_args "[]"] template [of lldb_args "'' --''"]
    by (cases k; cases p) (simp_all add: script_command_def gdb_command_def llvm_command_def debug_command_def gdb_args_def lldb_args_def Let_def)
qed

lemma script_words_witness:
  "shell_words (script_command RunScript Linux ''/ns3'' ''wave'' [''--n=1'', ''-v'']) = [''/ns3/waf'', ''--run'', ''wave --n=1 -v'']"
  using script_words [of "''/ns3''" "''wave''" "[''--n=1'', ''-v'']" RunScript Linux] by (simp add: plain_word_def)

section \<open>The project that is found\<close>

lemma is_ns3_root_dir_iff: "is_ns3_root_dir ls_lines \<longleftrightarrow> set root_files \<subseteq> rstrip_newlines ` set ls_lines"
  by (auto simp: is_ns3_root_dir_def root_files_def)

text \<open>A line of the search: what the shell prints of the time, and a path below the directory of the projects.\<close>

definition found_line :: "string \<times> string list \<Rightarrow> string" where
  "found_line sp = fst sp @ join ''/'' (''.'' # ''scratch'' # snd sp)"

definition found_ok :: "string \<times> string list \<Rightarrow> bool" where
  "found_ok sp \<longleftrightarrow> CHR ''/'' \<notin> set (fst sp) \<and> snd sp \<noteq> [] \<and> (\<forall>n \<in> set (snd sp). CHR ''/'' \<notin> set n) \<and>
     last (snd sp) \<noteq> [] \<and> last (last (snd sp)) \<noteq> newline"

lemma join_head: "join sep ((a @ b) # ws) = a @ join sep (b # ws)"
  by (cases ws) auto

lemma found_line_split:
  assumes "found_ok sp"
  shows "str_split CHR ''/'' (found_line sp) = (fst sp @ ''.'') # ''scratch'' # snd sp"
proof -
  have "found_line sp = join [CHR ''/''] ((fst sp @ ''.'') # ''scratch'' # snd sp)"
    unfolding found_line_def join_head by simp
  moreover have "CHR ''/'' \<notin> set w" if "w \<in> set ((fst sp @ ''.'') # ''scratch'' # snd sp)" for w
    using assms that by (auto simp: found_ok_def)
  ultimately show ?thesis by (simp only: str_split_join list.distinct not_False_eq_True)
qed

lemma join_last: "ws \<noteq> [] \<Longrightarrow> last ws \<noteq> [] \<Longrightarrow> join sep ws \<noteq> [] \<and> last (join sep ws) = last (last ws)"
proof (induction sep ws rule: join.induct)
  case (3 sep w v ws)
  then show ?case by auto
qed auto

lemma rstrip_newlines_line: "found_ok sp \<Longrightarrow> rstrip_newlines (found_line sp @ [newline]) = found_line sp"
proof -
  assume ok: "found_ok sp"
  then have "last (''.'' # ''scratch'' # snd sp) \<noteq> []" "last (''.'' # ''scratch'' # snd sp) = last (snd sp)"
    by (auto simp: found_ok_def)
  then have "found_line sp \<noteq> [] \<and> last (found_line sp) = last (last (snd sp))"
    using join_last [of "''.'' # ''scratch'' # snd sp" "''/''"] by (simp add: found_line_def)
  then have "rev (found_line sp) \<noteq> []" "hd (rev (found_line sp)) \<noteq> newline" using ok by (auto simp: found_ok_def hd_rev)
  then show ?thesis by (cases "rev (found_line sp)") (auto simp: rstrip_newlines_def rev_swap)
qed

text \<open>In the root directory, when the search prints files in the order of their times, the project is the first name
  below the directory of the projects in the last line that is not left out: the directory of the
  file that was changed last, or the name of the file itself, with its suffix, when it is in no project's directory.
  When all lines are left out the script ends with a message, and when the search prints nothing it
  raises before it can.\<close>

theorem most_recent_project:
  fixes found :: "(string \<times> string list) list"
  assumes root: "set root_files \<subseteq> rstrip_newlines ` set ls_lines" and ok: "\<forall>sp \<in> set found. found_ok sp"
  shows "snd (get_most_recent (\<lambda>cmd. List.map (\<lambda>sp. found_line sp @ [newline]) found) ls_lines p) =
    (if found = [] then Inl (PyRaise IndexError)
     else (case List.filter (\<lambda>sp. \<not> is_extra (found_line sp)) (rev found) of
             [] \<Rightarrow> Inl (SystemExit None)
           | sp # rest \<Rightarrow> Inr (hd (snd sp))))"
proof -
  let ?P = "\<lambda>sp. \<not> is_extra (found_line sp)"
  have lines: "List.map rstrip_newlines (List.map (\<lambda>sp. found_line sp @ [newline]) found) = List.map found_line found"
    using ok by (simp add: rstrip_newlines_line)
  have kept: "remove_extras (List.map found_line found) = List.map found_line (List.filter ?P found)"
    by (simp add: remove_extras_def filter_map comp_def)
  show ?thesis
  proof (cases "found = []")
    case True
    then show ?thesis using root by (simp add: get_most_recent_def is_ns3_root_dir_iff listdir_shell_def py_index_def)
  next
    case False
    then have last: "py_index (List.map found_line found) (-1) = Inr (last (List.map found_line found))" by (simp add: py_simps)
    show ?thesis
    proof (cases "rev (List.filter ?P found)")
      case Nil
      then have "List.filter ?P found = []" by simp
      then show ?thesis unfolding get_most_recent_def listdir_shell_def Let_def lines kept
        using root False last by (simp add: is_ns3_root_dir_iff rev_filter [symmetric])
    next
      case (Cons sp rest)
      then have f: "List.filter ?P found = rev rest @ [sp]" by (simp add: rev_swap)
      then have "sp \<in> set (List.filter ?P found)" by simp
      then have "found_ok sp" using ok by simp
      from found_line_split [OF this] obtain n ns where "snd sp = n # ns"
        "str_split CHR ''/'' (found_line sp) = (fst sp @ ''.'') # ''scratch'' # n # ns"
        using \<open>found_ok sp\<close> by (cases "snd sp") (auto simp: found_ok_def)
      then show ?thesis unfolding get_most_recent_def listdir_shell_def Let_def lines kept
        using root False last f by (simp add: is_ns3_root_dir_iff rev_filter [symmetric] py_index_def)
    qed
  qed
qed

lemma most_recent_project_witness:
  "snd (get_most_recent (\<lambda>cmd. List.map (\<lambda>sp. found_line sp @ [newline]) [(''1 '', [''wave'', ''main.cc'']), (''2 '', [''sim.cc''])])
     root_files Linux) = Inr ''sim.cc''"
proof -
  have root: "set root_files \<subseteq> rstrip_newlines ` set root_files" by (simp add: root_files_def rstrip_newlines_def)
  have ok: "\<forall>sp \<in> set [(''1 '', [''wave'', ''main.cc'']), (''2 '', [''sim.cc''])]. found_ok sp" by (simp add: found_ok_def)
  have "\<not> is_extra (found_line (''2 '', [''sim.cc'']))" by code_simp
  then show ?thesis using most_recent_project [OF root ok, of Linux] by simp
qed

text \<open>A name that begins with a dot is left out.\<close>

lemma hidden_project_extra: "snd sp = (CHR ''.'' # n) # ns \<Longrightarrow> is_extra (found_line sp)"
proof -
  assume "snd sp = (CHR ''.'' # n) # ns"
  then obtain r where "found_line sp = (fst sp @ ''.'') @ ''/scratch/.'' @ r"
    by (cases ns) (auto simp: found_line_def)
  then show ?thesis unfolding is_extra_def contains_def by (metis sublist_appendI)
qed

end
