(* ===== verification/Spec2Isabelle.thy ===== *)
theory Spec2Isabelle
  imports RadNumeric Topsort ShellCmd GridView TestDriver CheckStyle ScanPlan PreScanHook VizThreads VizModel VizView VizPlugins Console
    CreateModule RunProgram BuildFlags BoostTool BuildTasks VizNode TestSuites RadUnits FlowStats CallbackGen RunScripts
begin

text \<open>
  \<^bold>\<open>The Python tools of ns-3\<close>

  The repository is a network simulator in C++ with a set of Python programs
  around it.  This development models those programs: the test driver, the build
  helpers, the style checker, the module generator, the scanner and the customizations of the
  bindings, the scripts that run projects, the reader of flow statistics,
  the grid viewer of traces and the live visualizer with its console.  They are separate programs; what
  connects them is shown by the imports of the theories: the scanner sorts its modules with
  \<open>topsort.py\<close>, the test driver reads its configuration with \<open>utils.py\<close>, the visualizer's
  views follow its threads, the generator writes its files from templates.

  \<^bold>\<open>Conventions\<close>

  Python values are translated one to one: an unbounded integer is an \<open>int\<close>, a string a
  \<open>string\<close>, a list a list, a dictionary an insertion-ordered association list
  (theory Prelude) and a class a record.  An exception is a value of \<open>py_error\<close>; a function
  that may raise returns a sum (\<open>py_result\<close>), and one that also changes a state returns the
  state it has reached with the value or the exception (\<open>action\<close>), so the state at the
  raise is visible.  Index and slice rules are those of Python.  Files that need Python 2 (a
  comparison function for sorting, \<open>has_key\<close>) are read with its rules, and integer division
  is floor division.  Floats are rationals, or real
  numbers where a logarithm is taken, so rounding is not seen.  A loop is a
  recursion on what it consumes; a loop that may not end is a \<open>partial_function\<close> or a
  relation, and that it ends is a theorem of its own.  Code outside of the repository (the
  operating system, the simulator, uncrustify, the C++ parser, shlex, cairo, the build system
  waf) is a parameter.

  \<^bold>\<open>The theories\<close>

  \<^item> Prelude, PyString, PyPath: exceptions, actions, indexing, dictionaries (a locale with an
    interpretation on association lists), string methods, \<open>os.path\<close> and \<open>fnmatch\<close>.
  \<^item> RadSequence, RadNumeric (\<open>bindings/python/rad_util.py\<close>): sequences and numbers.
    Round trip of \<open>int2bin\<close> and \<open>bin2int\<close>, completeness of \<open>permutations\<close>, Gray codes,
    fractions, grids, quantiles, polygon areas; \<open>float_range\<close> is a partial function whose
    termination is characterised.
  \<^item> Topsort (\<open>bindings/python/topsort.py\<close>): \<open>topsort\<close>, \<open>topsort_levels\<close>, \<open>find_cycles\<close>.  The
    sort returns every node once with parents first or raises CycleError with exactly the nodes
    that cannot be sorted, the two sorts agree, and the cycle search is sound, complete and
    free of repetition.  The search ends because each step shrinks a multiset of what its
    paths may still visit.
  \<^item> ModuleScan, ScanPlan, PreScanHook (\<open>bindings/python/ns3modulescan.py\<close> and its modular
    version): header paths and where their loop does not end, sections in the order of the
    dependencies through Topsort, and the hook that annotates the scanned declarations.
  \<^item> ShellCmd (\<open>waf-tools/shellcmd.py\<close>): the parser of command lines as a state machine over
    tokens and their execution, whose log of processes, opened and closed files is the
    state.  Parsed pipelines are well formed and print and parse back; a chain with one kind
    of operator refines the semantics of the shell; the files are closed again.
  \<^item> Registry, Timeline, GridView (\<open>utils/grid.py\<close>): named collections behind the locale
    \<open>registry\<close>, the timelines with their binary searches, the reader of traces, the layout
    and the range of the view with its mouse handlers.
  \<^item> ConfigFile (\<open>utils.py\<close>), TestConfig, TestQueue, TestCollect, TestReport, TestDriver (\<open>test.py\<close>): configuration
    files, the choice of suites and examples and the dispatched jobs; the worker
    pool as an event system over FIFO queues (locale \<open>fifo\<close>) and job runners (locale
    \<open>executor\<close>), in which every interleaving ends and returns every job once; counters, status of
    results, progress lines and the exit status; and the text and HTML reports over XML trees.
    TestDriver composes them into a run from the lock file of the build tool to the status of the
    process: what it is under any schedule, and how a run fails before its tests.
  \<^item> CheckStyle (\<open>utils/check-style.py\<close>): reader and writer of patches, the loop that
    restores trailing blanks, configuration levels, and the pipeline over the files.
  \<^item> FileTree, ScaffoldTemplates, CreateModule (\<open>utils/create-module.py\<close>): a file tree in which the
    operating system may refuse any call; the templates and \<open>str.format\<close>; the six parts of a
    module behind the locale \<open>module_part\<close>, the creation of a module with its rollback, and the
    command line.  A module is created whole or not at all, and nothing that exists
    is ever changed.
  \<^item> RunProgram (\<open>wutils.py\<close>): finding a program of the build, the environment of a process,
    running it plain, under valgrind or in the debugger, and what its status becomes.
  \<^item> BuildFlags (\<open>waf-tools/cflags.py\<close>): compilers, profiles and the flags of a configuration.
  \<^item> BoostTool (\<open>waf-tools/boost.py\<close>): the search for Boost, with its regular expressions matched by a
    function on texts; which library is taken, and that a check that succeeds links.
  \<^item> CommandTask (\<open>waf-tools/command.py\<close>), BuildTasks (\<open>waf-tools/misc.py\<close>,
    \<open>clang_compilation_database.py\<close>, \<open>relocation.py\<close>): variables in the pipelines of ShellCmd, templates
    and the dictionary that the tasks of a generator share, commands with outputs, the database of
    compile commands, and the tree of nodes of a moved project.
  \<^item> VizThreads (\<open>src/visualizer/visualizer/core.py\<close>): the simulation thread, the update timer and
    the callbacks that nest while they wait for the lock, as one event system with an invariant;
    progress while playing, the end after a quit, the distance of view and simulation.
  \<^item> VizModel (the same file and \<open>base.py\<close>): nodes, channels and links of the scanned topology,
    selection, recorded transmissions and the arrows that show them.
  \<^item> VizView (the same file): node positions, bounds, automatic zoom and the mouse that drags nodes and pans;
    the nodes stay within the bounds, a drag keeps the distance to the pointer.
  \<^item> Console (\<open>ipython_view.py\<close>): the history, the completion, the execution of lines and the buffer of the
    interactive console with its keys; what the return key leaves, which text is protected.
  \<^item> VizPlugins (\<open>plugins/wifi_intrastructure_link.py\<close>, \<open>plugins/interface_statistics.py\<close>): the links of
    stations to access points and the statistics of the last samples.
  \<^item> VizNode (\<open>core.py\<close>, over VizPanels): circle, outline, label and picture of a node kept in step with its
    state, and the arrows of dropped packets.
  \<^item> VizPanels (\<open>hud.py\<close>, \<open>svgitem.py\<close>, \<open>plugins/show_last_packets.py\<close>, \<open>ipv4_routing_table.py\<close>, \<open>olsr.py\<close>):
    the divisions and labels of the axes, the picture of a node with its hit test, the filter of the
    captured packets and the rows of the routing tables.
  \<^item> RadUnits (\<open>bindings/python/rad_util.py\<close>): the prefix with which a number is printed.
  \<^item> TestSuites (\<open>utils/tests\<close>): the suites that try the build tool and the test driver, with their reports.
  \<^item> XmlTree, FlowStats (\<open>src/flow-monitor/examples/flowmon-parse-results.py\<close>): elements and events of a
    document; numbers, times, flows and the report.  What the simulator writes is read back, and the
    report of a whole document is characterised with the flow at which it ends.
  \<^item> CallbackGen (\<open>bindings/python/ns3modulegen_core_customizations.py\<close>): the transformation of smart
    pointers and the classes of callbacks with the handlers that refer to them.
  \<^item> RunScripts (\<open>scripts/python\<close>): the project that was changed last and the commands that run it.

  \<^bold>\<open>Specifications\<close>

  Properties are stated against definitions that do not follow the code: orders and paths of a graph
  for the sorts, the semantics of a shell for command chains, multisets of jobs for
  the pool, sets of overlapping ranges for queries, the tree before for the rollback.  A
  property that holds under conditions names them, and a witness applies it to concrete
  data.  Where the code does not do what its documentation says the theorem states what it
  does; these places are listed with the development as findings.

  \<^bold>\<open>Bounds\<close>

  No definition has fuel.  Recursions end by their measures; the loops that may run
  forever, \<open>walk_up\<close> of the scanner, \<open>float_range\<close>, the ticks of an axis and the climb through the
  types of packets, are partial functions whose values are characterised where they return.  Events of the pool and of the visualizer's threads are counted by
  measures that every event decreases, which gives the bounds of the liveness theorems.

  \<^bold>\<open>Not modelled\<close>

  \<^item> The C++ sources; and the files \<open>modulegen__gcc_*.py\<close>, which are generated: declarations of
    the bindings without logic of their own.
  \<^item> The main programs and the other customizations of the binding generator (\<open>ns3modulegen*.py\<close>, \<open>modulegen_customizations.py\<close>),
    whose content are calls of the pybindgen library that register or remove declarations.
  \<^item> Drawing: the cairo and goocanvas calls of \<open>grid.py\<close> and of the visualizer, and the widgets of its
    windows.
  \<^item> The build scripts \<open>wscript\<close>; the option parsers; of the waf tools, the installation of Boost on
    Windows, the unique ids and include paths of moved tasks, and the modes and hashes of copied files.
  \<^item> Sphinx configurations, lists of examples to run and example scripts: data and calls of
    the simulator.
  \<^item> The parts of modelled files that the openings of their theories name: random numbers, clocks,
    formatting of floats, reflection and printed help.
\<close>

end
